(* ===== verification/Go_Prelude.thy ===== *)
theory Go_Prelude
  imports Main "HOL-Library.AList" "HOL-Library.Word" "HOL-Library.Multiset"
    "HOL-Library.Char_ord" "HOL-Library.List_Lexorder"
begin

text \<open>
  Shared vocabulary of the development: how the Go types and statements that every
  component uses are represented, and the lemmas about them.

  \<^item> A Go string is a byte string, hence a HOL \<open>string\<close> (a list of 8-bit characters); the
    order is the bytewise lexicographic one that Go's \<open><\<close> uses.
  \<^item> A \<open>time.Time\<close> is its instant in nanoseconds since the zero \<open>Time\<close>; \<open>IsZero\<close> is
    equality with \<open>0\<close>, \<open>Before\<close>/\<open>After\<close>/\<open>Equal\<close> are the order on \<open>int\<close>.
  \<^item> A \<open>uint64\<close> is a \<open>64 word\<close>, with wrap-around.
  \<^item> A Go map is an association list with distinct keys. A \<open>range\<close> statement visits the
    entries in list order: Go leaves the order open, and since every property is stated for
    every list with distinct keys it holds for every order. \<open>len\<close> is \<open>length\<close>.
  \<^item> A \<open>range\<close> loop that replaces entries of the map it ranges over and collects what it
    replaced is \<open>gm_sweep\<close>.
\<close>

section \<open>Types\<close>

type_synonym time = int
type_synonym duration = int
type_synonym u64 = "64 word"
type_synonym u32 = "32 word"
type_synonym u8 = "8 word"
type_synonym ('k, 'v) gomap = "('k \<times> 'v) list"

abbreviation (input) zero_time :: time where
  "zero_time \<equiv> 0"

abbreviation (input) NUL :: char where
  "NUL \<equiv> CHR 0x00"

text \<open>Lookups in a map with distinct keys stay lookups.\<close>

declare map_of_eq_Some_iff [simp del] Some_eq_map_of_iff [simp del]

named_theorems gomap_simps \<open>lookup and key lemmas of Go maps\<close>

section \<open>Go maps\<close>

abbreviation gm_get :: "('k, 'v) gomap \<Rightarrow> 'k \<Rightarrow> 'v option" where
  "gm_get \<equiv> map_of"

abbreviation gm_put :: "'k \<Rightarrow> 'v \<Rightarrow> ('k, 'v) gomap \<Rightarrow> ('k, 'v) gomap" where
  "gm_put k v m \<equiv> AList.update k v m"

abbreviation gm_del :: "'k \<Rightarrow> ('k, 'v) gomap \<Rightarrow> ('k, 'v) gomap" where
  "gm_del k m \<equiv> AList.delete k m"

abbreviation gm_keys :: "('k, 'v) gomap \<Rightarrow> 'k list" where
  "gm_keys m \<equiv> map fst m"

abbreviation gm_ok :: "('k, 'v) gomap \<Rightarrow> bool" where
  "gm_ok m \<equiv> distinct (map fst m)"

lemma gm_get_put [gomap_simps]: "gm_get (gm_put k v m) k' = (if k' = k then Some v else gm_get m k')"
  by (simp add: update_conv')

lemma gm_get_del [gomap_simps]: "gm_get (gm_del k m) k' = (if k' = k then None else gm_get m k')"
  by (simp add: delete_conv')

lemma gm_ok_put [simp, intro]: "gm_ok m \<Longrightarrow> gm_ok (gm_put k v m)"
  by (rule distinct_update)

lemma gm_ok_del [simp, intro]: "gm_ok m \<Longrightarrow> gm_ok (gm_del k m)"
  by (simp add: distinct_delete)

lemma gm_length_put_new: "gm_get m k = None \<Longrightarrow> length (gm_put k v m) = Suc (length m)"
  by (induction m) (auto split: if_splits)

lemma gm_length_put_old: "gm_get m k = Some w \<Longrightarrow> length (gm_put k v m) = length m"
  by (induction m) (auto split: if_splits)

lemma gm_length_put_le: "length (gm_put k v m) \<le> Suc (length m)"
  by (induction m) auto

lemma gm_length_del: "gm_ok m \<Longrightarrow> gm_get m k = Some w \<Longrightarrow> Suc (length (gm_del k m)) = length m"
proof (induction m)
  case Nil
  then show ?case by simp
next
  case (Cons p m)
  then show ?case
    by (cases p) (auto split: if_splits simp: map_of_eq_None_iff image_iff)
qed

lemma gm_get_in_set: "gm_get m k = Some v \<Longrightarrow> (k, v) \<in> set m"
  by (rule map_of_SomeD)

lemma gm_in_set_get: "gm_ok m \<Longrightarrow> (k, v) \<in> set m \<Longrightarrow> gm_get m k = Some v"
  by (simp add: map_of_eq_Some_iff)

lemma gm_get_perm: "gm_ok m \<Longrightarrow> mset m = mset m' \<Longrightarrow> gm_get m k = gm_get m' k"
proof -
  assume ok: "gm_ok m" and perm: "mset m = mset m'"
  from perm have "set m = set m'" by (rule mset_eq_setD)
  moreover from perm have "mset (map fst m) = mset (map fst m')" by simp
  with ok have "gm_ok m'" by (metis mset_eq_imp_distinct_iff)
  ultimately show ?thesis using ok by (metis map_of_eq_Some_iff not_None_eq)
qed

lemma gm_get_filter_values:
  "gm_ok m \<Longrightarrow> gm_get (filter (\<lambda>(k, v). v \<noteq> w) m) k = (if gm_get m k = Some w then None else gm_get m k)"
proof (induction m)
  case Nil
  show ?case by simp
next
  case (Cons p m)
  then have "gm_get m (fst p) = None" by (simp add: map_of_eq_None_iff)
  with Cons show ?case by (cases p) auto
qed

text \<open>The Go map operations satisfy the contract of a finite map.\<close>

locale finite_map =
  fixes get :: "'m \<Rightarrow> 'k \<Rightarrow> 'v option"
    and put :: "'k \<Rightarrow> 'v \<Rightarrow> 'm \<Rightarrow> 'm"
    and del :: "'k \<Rightarrow> 'm \<Rightarrow> 'm"
    and size_of :: "'m \<Rightarrow> nat"
    and invar :: "'m \<Rightarrow> bool"
  assumes get_put: "invar m \<Longrightarrow> get (put k v m) = (get m)(k \<mapsto> v)"
    and get_del: "invar m \<Longrightarrow> get (del k m) = (get m)(k := None)"
    and invar_put: "invar m \<Longrightarrow> invar (put k v m)"
    and invar_del: "invar m \<Longrightarrow> invar (del k m)"
    and size_of_dom: "invar m \<Longrightarrow> size_of m = card (dom (get m)) \<and> finite (dom (get m))"
begin

lemma size_put_new: "invar m \<Longrightarrow> get m k = None \<Longrightarrow> size_of (put k v m) = Suc (size_of m)"
  by (simp add: get_put invar_put size_of_dom domIff)

lemma size_del_old:
  assumes "invar m" and "get m k \<noteq> None"
  shows "Suc (size_of (del k m)) = size_of m"
proof -
  have "dom (get (del k m)) = dom (get m) - {k}" using assms(1) by (auto simp: get_del split: if_splits)
  moreover have "k \<in> dom (get m)" using assms(2) by (simp add: domIff)
  ultimately show ?thesis
    using assms(1) by (metis size_of_dom invar_del card_Suc_Diff1)
qed

lemma del_put_other: "invar m \<Longrightarrow> k \<noteq> k' \<Longrightarrow> get (del k (put k' v m)) = get (put k' v (del k m))"
  by (simp add: get_put get_del invar_put invar_del fun_upd_twist)

end

interpretation gomap: finite_map
  "gm_get :: ('k, 'v) gomap \<Rightarrow> 'k \<Rightarrow> 'v option" gm_put gm_del length gm_ok
proof unfold_locales
  fix m :: "('k, 'v) gomap" assume ok: "gm_ok m"
  have "card (dom (map_of m)) = card (fst ` set m)" by (simp add: dom_map_of_conv_image_fst)
  also have "\<dots> = length m" using ok by (metis distinct_card length_map list.set_map)
  finally show "length m = card (dom (map_of m)) \<and> finite (dom (map_of m))"
    by (simp add: finite_dom_map_of)
qed (auto simp: update_conv' delete_conv' intro: distinct_update distinct_delete)

subsection \<open>Range loops that rewrite entries\<close>

text \<open>
  \<open>for k, v := range m { if skip(k, v) { continue }; v = f(k, v); m[k] = v;
  changed = append(changed, v) }\<close>: the body returns \<open>None\<close> where the loop continues.
\<close>

fun gm_sweep :: "('k \<Rightarrow> 'v \<Rightarrow> 'v option) \<Rightarrow> ('k, 'v) gomap \<Rightarrow> ('k, 'v) gomap \<times> 'v list" where
  "gm_sweep f [] = ([], [])"
| "gm_sweep f ((k, v) # m) =
     (let (m', changed) = gm_sweep f m
      in case f k v of
           None \<Rightarrow> ((k, v) # m', changed)
         | Some v' \<Rightarrow> ((k, v') # m', v' # changed))"

lemma gm_sweep_keys [simp]: "map fst (fst (gm_sweep f m)) = map fst m"
  by (induction f m rule: gm_sweep.induct) (auto split: prod.splits option.splits)

lemma gm_sweep_length [simp]: "length (fst (gm_sweep f m)) = length m"
  by (metis gm_sweep_keys length_map)

lemma gm_sweep_get [gomap_simps]:
  "gm_get (fst (gm_sweep f m)) k =
     (case gm_get m k of None \<Rightarrow> None
      | Some v \<Rightarrow> Some (case f k v of None \<Rightarrow> v | Some v' \<Rightarrow> v'))"
  by (induction f m rule: gm_sweep.induct) (auto split: prod.splits option.splits)

lemma gm_sweep_changed:
  "v' \<in> set (snd (gm_sweep f m)) \<longleftrightarrow> (\<exists>k v. (k, v) \<in> set m \<and> f k v = Some v')"
proof (induction f m rule: gm_sweep.induct)
  case (1 f)
  show ?case by simp
next
  case (2 f k v m)
  have head: "(\<exists>ka va. (ka, va) \<in> set ((k, v) # m) \<and> f ka va = Some v') \<longleftrightarrow>
      f k v = Some v' \<or> (\<exists>ka va. (ka, va) \<in> set m \<and> f ka va = Some v')"
    by auto
  from "2" show ?case
    unfolding head by (cases "gm_sweep f m"; cases "f k v") auto
qed

lemma gm_sweep_idle: "(\<And>k v. (k, v) \<in> set m \<Longrightarrow> f k v = None) \<Longrightarrow> gm_sweep f m = (m, [])"
  by (induction f m rule: gm_sweep.induct) (auto split: prod.splits option.splits)

text \<open>A loop body that leaves alone what it produced: a second pass changes nothing.\<close>

locale settling_sweep =
  fixes f :: "'k \<Rightarrow> 'v \<Rightarrow> 'v option"
  assumes settles: "f k v = Some v' \<Longrightarrow> f k v' = None"
begin

lemma sweep_settled_set: "(k, v) \<in> set (fst (gm_sweep f m)) \<Longrightarrow> f k v = None"
proof (induction m)
  case Nil
  then show ?case by simp
next
  case (Cons p m)
  obtain k' v' where "p = (k', v')" by fastforce
  with Cons show ?case by (auto simp: settles split: prod.splits option.splits)
qed

lemma sweep_twice: "gm_sweep f (fst (gm_sweep f m)) = (fst (gm_sweep f m), [])"
  by (rule gm_sweep_idle) (rule sweep_settled_set)

lemma sweep_settled: "gm_get (fst (gm_sweep f m)) k = Some v \<Longrightarrow> f k v = None"
  by (auto simp: gm_sweep_get settles split: option.splits)

end

subsection \<open>First match of a loop\<close>

lemma find_SomeD: "find P xs = Some x \<Longrightarrow> x \<in> set xs \<and> P x"
  by (induction xs) (auto split: if_splits)

lemma find_unique: "x \<in> set xs \<Longrightarrow> P x \<Longrightarrow> (\<And>y. y \<in> set xs \<Longrightarrow> P y \<Longrightarrow> y = x) \<Longrightarrow> find P xs = Some x"
proof (induction xs)
  case Nil
  then show ?case by simp
next
  case (Cons a xs)
  show ?case
  proof (cases "P a")
    case True
    with Cons.prems(3) [of a] show ?thesis by simp
  next
    case False
    with Cons show ?thesis by fastforce
  qed
qed

section \<open>Sorting\<close>

text \<open>
  \<open>sort.Slice(xs, less)\<close>: the result is a permutation of \<open>xs\<close> ordered by \<open>less\<close>. The
  library leaves the order of equivalent elements open; the model inserts each element
  before the first one that is not smaller.
\<close>

fun sort_insert :: "('a \<Rightarrow> 'a \<Rightarrow> bool) \<Rightarrow> 'a \<Rightarrow> 'a list \<Rightarrow> 'a list" where
  "sort_insert lt x [] = [x]"
| "sort_insert lt x (y # ys) = (if lt y x then y # sort_insert lt x ys else x # y # ys)"

definition sort_slice :: "('a \<Rightarrow> 'a \<Rightarrow> bool) \<Rightarrow> 'a list \<Rightarrow> 'a list" where
  "sort_slice lt xs = foldr (sort_insert lt) xs []"

lemma mset_sort_insert [simp]: "mset (sort_insert lt x xs) = add_mset x (mset xs)"
  by (induction xs) auto

lemma mset_sort_slice [simp]: "mset (sort_slice lt xs) = mset xs"
  by (induction xs) (auto simp: sort_slice_def)

lemma set_sort_slice [simp]: "set (sort_slice lt xs) = set xs"
  by (metis mset_sort_slice set_mset_mset)

lemma sorted_sort_insert:
  assumes lt: "\<And>a b. lt a b \<longleftrightarrow> (f a :: 'b :: linorder) < f b"
    and "sorted (map f xs)"
  shows "sorted (map f (sort_insert lt x xs))"
  using assms(2)
proof (induction xs)
  case Nil
  then show ?case by simp
next
  case (Cons y ys)
  have elems: "set (sort_insert lt x ys) = insert x (set ys)"
    by (metis mset_sort_insert set_mset_add_mset_insert set_mset_mset)
  show ?case
  proof (cases "lt y x")
    case True
    with lt have "f y < f x" by simp
    moreover have "sorted (map f (sort_insert lt x ys))" using Cons by simp
    ultimately show ?thesis using True Cons.prems elems by auto
  next
    case False
    with lt have "f x \<le> f y" by (meson not_less)
    with False Cons.prems show ?thesis by auto
  qed
qed

lemma sorted_sort_slice:
  assumes "\<And>a b. lt a b \<longleftrightarrow> (f a :: 'b :: linorder) < f b"
  shows "sorted (map f (sort_slice lt xs))"
proof (induction xs)
  case Nil
  show ?case by (simp add: sort_slice_def)
next
  case (Cons x xs)
  then have "sorted (map f (sort_insert lt x (sort_slice lt xs)))"
    by (rule sorted_sort_insert [OF assms])
  then show ?case by (simp add: sort_slice_def)
qed

text \<open>With pairwise different sort keys the result does not depend on the input order.\<close>

lemma sort_slice_perm:
  assumes lt: "\<And>a b. lt a b \<longleftrightarrow> (f a :: 'b :: linorder) < f b"
    and perm: "mset xs = mset ys" and dist: "distinct (map f xs)"
  shows "sort_slice lt xs = sort_slice lt ys"
proof (rule map_inj_on [where f = f])
  have "mset (map f (sort_slice lt xs)) = mset (map f ys)" by (simp add: perm)
  then have "sort (map f ys) = map f (sort_slice lt xs)"
    by (rule properties_for_sort) (rule sorted_sort_slice [OF lt])
  moreover have "mset (map f (sort_slice lt ys)) = mset (map f ys)" by simp
  then have "sort (map f ys) = map f (sort_slice lt ys)"
    by (rule properties_for_sort) (rule sorted_sort_slice [OF lt])
  ultimately show "map f (sort_slice lt xs) = map f (sort_slice lt ys)" by simp
  have "inj_on f (set xs)" using dist by (simp add: distinct_map)
  moreover have "set ys = set xs" using perm by (metis set_mset_mset)
  ultimately show "inj_on f (set (sort_slice lt xs) \<union> set (sort_slice lt ys))" by simp
qed

section \<open>State machines\<close>

text \<open>
  The states a component can reach: from an initial state by steps. An invariant that the
  initial states have and every step keeps holds in all of them.
\<close>

inductive reachable :: "('s \<Rightarrow> bool) \<Rightarrow> ('s \<Rightarrow> 's \<Rightarrow> bool) \<Rightarrow> 's \<Rightarrow> bool"
  for init :: "'s \<Rightarrow> bool" and step :: "'s \<Rightarrow> 's \<Rightarrow> bool" where
  reach_init: "init s \<Longrightarrow> reachable init step s"
| reach_step: "reachable init step s \<Longrightarrow> step s t \<Longrightarrow> reachable init step t"

locale invariant_system =
  fixes init :: "'s \<Rightarrow> bool" and step :: "'s \<Rightarrow> 's \<Rightarrow> bool" and inv :: "'s \<Rightarrow> bool"
  assumes inv_init: "init s \<Longrightarrow> inv s"
    and inv_step: "inv s \<Longrightarrow> step s t \<Longrightarrow> inv t"
begin

lemma reachable_inv: "reachable init step s \<Longrightarrow> inv s"
  by (induction rule: reachable.induct) (auto intro: inv_init inv_step)

lemma steps_inv: "step\<^sup>*\<^sup>* s t \<Longrightarrow> inv s \<Longrightarrow> inv t"
  by (induction rule: rtranclp_induct) (auto intro: inv_step)

end

subsection \<open>First in, first out per key\<close>

text \<open>
  Interleavings of accepted insertions and removals: the elements put and the elements got,
  each in order.
\<close>

inductive fifo_trace ::
  "('s \<Rightarrow> 'e \<Rightarrow> 's \<Rightarrow> bool) \<Rightarrow> ('s \<Rightarrow> 'e \<Rightarrow> 's \<Rightarrow> bool) \<Rightarrow> 's \<Rightarrow> 'e list \<Rightarrow> 'e list \<Rightarrow> 's \<Rightarrow> bool"
  for put get where
  ft_nil: "fifo_trace put get s [] [] s"
| ft_put: "fifo_trace put get s ps gs t \<Longrightarrow> put t e u \<Longrightarrow> fifo_trace put get s (ps @ [e]) gs u"
| ft_get: "fifo_trace put get s ps gs t \<Longrightarrow> get t e u \<Longrightarrow> fifo_trace put get s ps (gs @ [e]) u"

text \<open>
  The contract of a container that keeps the elements of each key in order: \<open>contents s k\<close>
  is what it holds for \<open>k\<close>, oldest first.
\<close>

locale keyed_fifo =
  fixes key :: "'e \<Rightarrow> 'k" and contents :: "'s \<Rightarrow> 'k \<Rightarrow> 'e list"
    and put :: "'s \<Rightarrow> 'e \<Rightarrow> 's \<Rightarrow> bool" and get :: "'s \<Rightarrow> 'e \<Rightarrow> 's \<Rightarrow> bool" and invar :: "'s \<Rightarrow> bool"
  assumes put_contents: "invar s \<Longrightarrow> put s e t \<Longrightarrow>
        contents t k = (if k = key e then contents s k @ [e] else contents s k)"
    and get_contents: "invar s \<Longrightarrow> get s e t \<Longrightarrow>
        contents s k = (if k = key e then e # contents t k else contents t k)"
    and put_invar: "invar s \<Longrightarrow> put s e t \<Longrightarrow> invar t"
    and get_invar: "invar s \<Longrightarrow> get s e t \<Longrightarrow> invar t"
begin

lemma trace_invar: "fifo_trace put get s ps gs t \<Longrightarrow> invar s \<Longrightarrow> invar t"
  by (induction rule: fifo_trace.induct) (auto intro: put_invar get_invar)

lemma trace_fifo:
  "fifo_trace put get s ps gs t \<Longrightarrow> invar s \<Longrightarrow>
   contents s k @ filter (\<lambda>e. key e = k) ps = filter (\<lambda>e. key e = k) gs @ contents t k"
proof (induction rule: fifo_trace.induct)
  case (ft_nil s)
  then show ?case by simp
next
  case (ft_put s ps gs t e u)
  then have u: "contents u k = (if k = key e then contents t k @ [e] else contents t k)"
    using put_contents [OF trace_invar [OF ft_put.hyps(1) ft_put.prems] ft_put.hyps(2)] by simp
  have "contents s k @ filter (\<lambda>e. key e = k) (ps @ [e]) =
      (contents s k @ filter (\<lambda>e. key e = k) ps) @ filter (\<lambda>e. key e = k) [e]" by simp
  also have "\<dots> = (filter (\<lambda>e. key e = k) gs @ contents t k) @ filter (\<lambda>e. key e = k) [e]"
    by (simp only: ft_put.IH [OF ft_put.prems])
  also have "\<dots> = filter (\<lambda>e. key e = k) gs @ contents u k" by (simp add: u)
  finally show ?case .
next
  case (ft_get s ps gs t e u)
  then have "contents t k = (if k = key e then e # contents u k else contents u k)"
    using get_contents [OF trace_invar [OF ft_get.hyps(1) ft_get.prems] ft_get.hyps(2)] by simp
  with ft_get.IH [OF ft_get.prems] show ?case by (cases "key e = k") auto
qed

end

section \<open>Strings\<close>

text \<open>\<open>fmt.Sprintf("%d")\<close> of an int and \<open>"%x"\<close> of a non-negative one.\<close>

fun digits_base :: "nat \<Rightarrow> nat \<Rightarrow> nat list" where
  "digits_base b n = (if b < 2 \<or> n < b then [n] else digits_base b (n div b) @ [n mod b])"

declare digits_base.simps [simp del]

definition digit_char :: "nat \<Rightarrow> char" where
  "digit_char d = (if d < 10 then char_of (48 + d) else char_of (87 + d))"

definition show_nat :: "nat \<Rightarrow> string" where
  "show_nat n = map digit_char (digits_base 10 n)"

definition show_int :: "int \<Rightarrow> string" where
  "show_int i = (if i < 0 then ''-'' @ show_nat (nat (- i)) else show_nat (nat i))"

definition hex_nat :: "nat \<Rightarrow> string" where
  "hex_nat n = map digit_char (digits_base 16 n)"

definition hex_int :: "int \<Rightarrow> string" where
  "hex_int i = (if i < 0 then ''-'' @ hex_nat (nat (- i)) else hex_nat (nat i))"

text \<open>
  Joining identifiers with NUL bytes, as the composite map keys of the code do, is injective
  on identifiers without NUL.
\<close>

lemma nul_join_inj:
  assumes "NUL \<notin> set a" and "NUL \<notin> set c"
    and "a @ NUL # b = c @ NUL # d"
  shows "a = c \<and> b = d"
  using assms
proof (induction a arbitrary: c)
  case Nil
  then show ?case by (cases c) auto
next
  case (Cons x xs)
  then show ?case by (cases c) auto
qed

end
