(* ===== verification/Float64.thy ===== *)
theory Float64
  imports Go_Prelude Complex_Main "HOL-Library.Log_Nat" "HOL-Library.Product_Lexorder"
begin

text \<open>
  Go's \<open>float64\<close>: IEEE 754 binary64 with round to nearest, ties to even, and the functions of
  package \<open>math\<close> the code calls. A finite non-zero number is its exact rational value; every
  arithmetic operation computes the exact rational result and rounds it once. The model does
  not fuse a multiplication with an addition, and a conversion to \<open>int64\<close> out of range gives
  the value amd64 gives (the language leaves both to the implementation).
\<close>

section \<open>Values\<close>

datatype float64 = F_NaN | F_Inf bool | F_Zero bool | F_Fin rat
  \<comment> \<open>the flag of an infinity or a zero is its sign bit: true for the negative one\<close>

fun f64_is_nan :: "float64 \<Rightarrow> bool" where
  "f64_is_nan F_NaN = True"
| "f64_is_nan _ = False"

fun f64_is_inf :: "float64 \<Rightarrow> bool" where
  "f64_is_inf (F_Inf _) = True"
| "f64_is_inf _ = False"

text \<open>\<open>!math.IsNaN(x) && !math.IsInf(x, 0)\<close>\<close>

definition f64_finite :: "float64 \<Rightarrow> bool" where
  "f64_finite x \<longleftrightarrow> \<not> f64_is_nan x \<and> \<not> f64_is_inf x"

fun f64_signbit :: "float64 \<Rightarrow> bool" where
  "f64_signbit F_NaN = False"
| "f64_signbit (F_Inf s) = s"
| "f64_signbit (F_Zero s) = s"
| "f64_signbit (F_Fin q) = (q < 0)"

text \<open>The value of a finite number.\<close>

fun f64_val :: "float64 \<Rightarrow> rat" where
  "f64_val (F_Fin q) = q"
| "f64_val _ = 0"

section \<open>Rounding\<close>

text \<open>The exponent of a positive rational: the \<open>e\<close> with \<open>2\<^sup>e \<le> q < 2\<^sup>e\<^sup>+\<^sup>1\<close>.\<close>

definition ilog2 :: "rat \<Rightarrow> int" where
  "ilog2 q = (let (a, b) = quotient_of q; e = bitlen a - bitlen b
              in if 2 powi e \<le> q then e else e - 1)"

definition round_half_even :: "rat \<Rightarrow> int" where
  "round_half_even x =
     (let f = \<lfloor>x\<rfloor>; d = x - of_int f
      in if d < 1 / 2 then f else if 1 / 2 < d then f + 1 else if even f then f else f + 1)"

text \<open>
  The double nearest to a rational. The quantum is \<open>2\<^sup>e\<^sup>-\<^sup>5\<^sup>2\<close> for a number of exponent \<open>e\<close>,
  and \<open>2\<^sup>-\<^sup>1\<^sup>0\<^sup>7\<^sup>4\<close> for a subnormal one; \<open>2\<^sup>1\<^sup>0\<^sup>2\<^sup>4\<close> and more is an infinity.
\<close>

definition f64_round :: "rat \<Rightarrow> float64" where
  "f64_round q =
     (if q = 0 then F_Zero False
      else let a = \<bar>q\<bar>;
               u = 2 powi (max (ilog2 a) (-1022) - 52);
               r = of_int (round_half_even (a / u)) * u
           in if r = 0 then F_Zero (q < 0)
              else if 2 ^ 1024 \<le> r then F_Inf (q < 0)
              else F_Fin (if q < 0 then - r else r))"

text \<open>The values of the type that are doubles.\<close>

definition f64_valid :: "float64 \<Rightarrow> bool" where
  "f64_valid x = (case x of F_Fin q \<Rightarrow> f64_round q = F_Fin q | _ \<Rightarrow> True)"

section \<open>Comparison\<close>

text \<open>Numbers and infinities on one line; \<open>NaN\<close> compares false with everything.\<close>

fun f64_ord :: "float64 \<Rightarrow> int \<times> rat" where
  "f64_ord (F_Inf s) = (if s then (-1, 0) else (1, 0))"
| "f64_ord x = (0, f64_val x)"

definition f64_lt :: "float64 \<Rightarrow> float64 \<Rightarrow> bool" where
  "f64_lt x y \<longleftrightarrow> \<not> f64_is_nan x \<and> \<not> f64_is_nan y \<and> f64_ord x < f64_ord y"

definition f64_le :: "float64 \<Rightarrow> float64 \<Rightarrow> bool" where
  "f64_le x y \<longleftrightarrow> \<not> f64_is_nan x \<and> \<not> f64_is_nan y \<and> f64_ord x \<le> f64_ord y"

definition f64_eq :: "float64 \<Rightarrow> float64 \<Rightarrow> bool" where
  "f64_eq x y \<longleftrightarrow> \<not> f64_is_nan x \<and> \<not> f64_is_nan y \<and> f64_ord x = f64_ord y"

section \<open>Arithmetic\<close>

fun f64_neg :: "float64 \<Rightarrow> float64" where
  "f64_neg F_NaN = F_NaN"
| "f64_neg (F_Inf s) = F_Inf (\<not> s)"
| "f64_neg (F_Zero s) = F_Zero (\<not> s)"
| "f64_neg (F_Fin q) = F_Fin (- q)"

fun f64_abs :: "float64 \<Rightarrow> float64" where
  "f64_abs F_NaN = F_NaN"
| "f64_abs (F_Inf s) = F_Inf False"
| "f64_abs (F_Zero s) = F_Zero False"
| "f64_abs (F_Fin q) = F_Fin \<bar>q\<bar>"

fun f64_add :: "float64 \<Rightarrow> float64 \<Rightarrow> float64" where
  "f64_add F_NaN y = F_NaN"
| "f64_add x F_NaN = F_NaN"
| "f64_add (F_Inf s) (F_Inf t) = (if s = t then F_Inf s else F_NaN)"
| "f64_add (F_Inf s) y = F_Inf s"
| "f64_add x (F_Inf t) = F_Inf t"
| "f64_add (F_Zero s) (F_Zero t) = F_Zero (s \<and> t)"
| "f64_add x y = f64_round (f64_val x + f64_val y)"

definition f64_sub :: "float64 \<Rightarrow> float64 \<Rightarrow> float64" where
  "f64_sub x y = f64_add x (f64_neg y)"

definition f64_mul :: "float64 \<Rightarrow> float64 \<Rightarrow> float64" where
  "f64_mul x y =
     (let s = (f64_signbit x \<noteq> f64_signbit y)
      in case (x, y) of
           (F_NaN, _) \<Rightarrow> F_NaN
         | (_, F_NaN) \<Rightarrow> F_NaN
         | (F_Inf _, F_Zero _) \<Rightarrow> F_NaN
         | (F_Zero _, F_Inf _) \<Rightarrow> F_NaN
         | (F_Inf _, _) \<Rightarrow> F_Inf s
         | (_, F_Inf _) \<Rightarrow> F_Inf s
         | (F_Zero _, _) \<Rightarrow> F_Zero s
         | (_, F_Zero _) \<Rightarrow> F_Zero s
         | (F_Fin p, F_Fin q) \<Rightarrow> f64_round (p * q))"

definition f64_div :: "float64 \<Rightarrow> float64 \<Rightarrow> float64" where
  "f64_div x y =
     (let s = (f64_signbit x \<noteq> f64_signbit y)
      in case (x, y) of
           (F_NaN, _) \<Rightarrow> F_NaN
         | (_, F_NaN) \<Rightarrow> F_NaN
         | (F_Inf _, F_Inf _) \<Rightarrow> F_NaN
         | (F_Inf _, _) \<Rightarrow> F_Inf s
         | (_, F_Inf _) \<Rightarrow> F_Zero s
         | (F_Zero _, F_Zero _) \<Rightarrow> F_NaN
         | (F_Zero _, _) \<Rightarrow> F_Zero s
         | (_, F_Zero _) \<Rightarrow> F_Inf s
         | (F_Fin p, F_Fin q) \<Rightarrow> f64_round (p / q))"

section \<open>Package math\<close>

definition rat_trunc :: "rat \<Rightarrow> int" where
  "rat_trunc q = (if q < 0 then \<lceil>q\<rceil> else \<lfloor>q\<rfloor>)"

definition rat_round_away :: "rat \<Rightarrow> int" where
  "rat_round_away q = (if q < 0 then - \<lfloor>1 / 2 - q\<rfloor> else \<lfloor>q + 1 / 2\<rfloor>)"

text \<open>\<open>math.Trunc\<close>, \<open>Floor\<close>, \<open>Ceil\<close> and \<open>Round\<close> keep the sign of a zero result.\<close>

fun f64_to_integral :: "(rat \<Rightarrow> int) \<Rightarrow> float64 \<Rightarrow> float64" where
  "f64_to_integral f (F_Fin q) = (if f q = 0 then F_Zero (q < 0) else F_Fin (of_int (f q)))"
| "f64_to_integral f x = x"

definition f64_trunc :: "float64 \<Rightarrow> float64" where
  "f64_trunc = f64_to_integral rat_trunc"

definition f64_floor :: "float64 \<Rightarrow> float64" where
  "f64_floor = f64_to_integral floor"

definition f64_ceil :: "float64 \<Rightarrow> float64" where
  "f64_ceil = f64_to_integral ceiling"

definition f64_math_round :: "float64 \<Rightarrow> float64" where
  "f64_math_round = f64_to_integral rat_round_away"

definition f64_max :: "float64 \<Rightarrow> float64 \<Rightarrow> float64" where
  "f64_max x y =
     (if x = F_Inf False \<or> y = F_Inf False then F_Inf False
      else if f64_is_nan x \<or> f64_is_nan y then F_NaN
      else case (x, y) of
             (F_Zero s, F_Zero t) \<Rightarrow> (if s then y else x)
           | _ \<Rightarrow> (if f64_lt y x then x else y))"

definition f64_min :: "float64 \<Rightarrow> float64 \<Rightarrow> float64" where
  "f64_min x y =
     (if x = F_Inf True \<or> y = F_Inf True then F_Inf True
      else if f64_is_nan x \<or> f64_is_nan y then F_NaN
      else case (x, y) of
             (F_Zero s, F_Zero t) \<Rightarrow> (if s then x else y)
           | _ \<Rightarrow> (if f64_lt x y then x else y))"

section \<open>Conversions\<close>

text \<open>\<open>float64(i)\<close> of an integer, a numeric constant, and \<open>int64(x)\<close>.\<close>

definition f64_of_int :: "int \<Rightarrow> float64" where
  "f64_of_int i = f64_round (of_int i)"

abbreviation f64_lit :: "rat \<Rightarrow> float64" where
  "f64_lit q \<equiv> f64_round q"

abbreviation min_int64 :: int where
  "min_int64 \<equiv> - (2 ^ 63)"

abbreviation max_int64 :: int where
  "max_int64 \<equiv> 2 ^ 63 - 1"

definition f64_to_int64 :: "float64 \<Rightarrow> int" where
  "f64_to_int64 x =
     (case x of
        F_Zero _ \<Rightarrow> 0
      | F_Fin q \<Rightarrow> (let t = rat_trunc q
                   in if min_int64 \<le> t \<and> t \<le> max_int64 then t else min_int64)
      | _ \<Rightarrow> min_int64)"

section \<open>Lemmas\<close>

subsection \<open>Comparison\<close>

lemma f64_lt_le_trans: "f64_lt x y \<Longrightarrow> f64_le y z \<Longrightarrow> f64_lt x z"
  by (auto simp: f64_lt_def f64_le_def)

lemma f64_le_lt_trans: "f64_le x y \<Longrightarrow> f64_lt y z \<Longrightarrow> f64_lt x z"
  by (auto simp: f64_lt_def f64_le_def)

lemma f64_le_trans: "f64_le x y \<Longrightarrow> f64_le y z \<Longrightarrow> f64_le x z"
  by (auto simp: f64_le_def)

lemma f64_lt_imp_le: "f64_lt x y \<Longrightarrow> f64_le x y"
  by (auto simp: f64_lt_def f64_le_def)

lemma f64_not_lt: "\<not> f64_is_nan x \<Longrightarrow> \<not> f64_is_nan y \<Longrightarrow> \<not> f64_lt x y \<longleftrightarrow> f64_le y x"
  by (auto simp: f64_lt_def f64_le_def)

lemma f64_lt_not_le: "f64_lt x y \<Longrightarrow> \<not> f64_le y x"
  by (auto simp: f64_lt_def f64_le_def)

lemma f64_le_refl: "\<not> f64_is_nan x \<Longrightarrow> f64_le x x"
  by (simp add: f64_le_def)

lemma f64_eq_sym: "f64_eq x y \<longleftrightarrow> f64_eq y x"
  by (auto simp: f64_eq_def)

lemma f64_eq_trans: "f64_eq x y \<Longrightarrow> f64_eq y z \<Longrightarrow> f64_eq x z"
  by (auto simp: f64_eq_def)

lemma f64_eq_self: "f64_eq x x \<longleftrightarrow> \<not> f64_is_nan x"
  by (auto simp: f64_eq_def)

lemma f64_finite_simps [simp]:
  "\<not> f64_finite F_NaN" "\<not> f64_finite (F_Inf s)" "f64_finite (F_Zero s)" "f64_finite (F_Fin q)"
  by (simp_all add: f64_finite_def)

lemma f64_finite_not_nan: "f64_finite x \<Longrightarrow> \<not> f64_is_nan x"
  by (simp add: f64_finite_def)

subsection \<open>Maximum and minimum\<close>

lemma f64_max_cases:
  "f64_finite x \<Longrightarrow> f64_finite y \<Longrightarrow> f64_finite (f64_max x y) \<and> f64_le x (f64_max x y) \<and> f64_le y (f64_max x y)"
  by (cases x; cases y) (auto simp: f64_max_def f64_lt_def f64_le_def)

lemma f64_min_cases:
  "f64_finite x \<Longrightarrow> f64_finite y \<Longrightarrow> f64_finite (f64_min x y) \<and> f64_le (f64_min x y) x \<and> f64_le (f64_min x y) y"
  by (cases x; cases y) (auto simp: f64_min_def f64_lt_def f64_le_def)

lemma f64_min_greatest:
  "f64_finite x \<Longrightarrow> f64_finite y \<Longrightarrow> f64_le z x \<Longrightarrow> f64_le z y \<Longrightarrow> f64_le z (f64_min x y)"
  by (cases x; cases y) (auto simp: f64_min_def f64_lt_def f64_le_def)

lemma f64_max_id: "f64_finite x \<Longrightarrow> f64_finite y \<Longrightarrow> f64_le y x \<Longrightarrow> f64_eq (f64_max x y) x"
  by (cases x; cases y) (auto simp: f64_max_def f64_lt_def f64_le_def f64_eq_def)

lemma f64_min_id: "f64_finite x \<Longrightarrow> f64_finite y \<Longrightarrow> f64_le x y \<Longrightarrow> f64_eq (f64_min x y) x"
  by (cases x; cases y) (auto simp: f64_min_def f64_lt_def f64_le_def f64_eq_def)

subsection \<open>Rounding is exact on doubles\<close>

lemma bitlen_powi_bounds:
  assumes "0 < a"
  shows "2 powi (bitlen a - 1) \<le> (of_int a :: rat) \<and> (of_int a :: rat) < 2 powi bitlen a"
proof -
  have pos: "0 < bitlen a" using assms by (simp add: bitlen_eq_zero_iff order.strict_iff_order bitlen_nonneg)
  have b: "2 ^ nat (bitlen a - 1) \<le> a" "a < 2 ^ nat (bitlen a)"
    using bitlen_bounds [OF assms] by auto
  then have "(of_int (2 ^ nat (bitlen a - 1)) :: rat) \<le> of_int a" "(of_int a :: rat) < of_int (2 ^ nat (bitlen a))"
    by (simp_all only: of_int_le_iff of_int_less_iff)
  then show ?thesis using pos by (simp add: power_int_def)
qed

lemma ilog2_bounds:
  assumes "0 < q"
  shows "2 powi ilog2 q \<le> q \<and> q < 2 powi (ilog2 q + 1)"
proof -
  obtain a b where ab: "quotient_of q = (a, b)" by (cases "quotient_of q")
  then have b: "0 < b" and q: "q = of_int a / of_int b"
    by (auto dest: quotient_of_denom_pos quotient_of_div)
  with assms have a: "0 < a" by (auto simp: zero_less_divide_iff)
  define e where "e = bitlen a - bitlen b"
  note A = bitlen_powi_bounds [OF a] and B = bitlen_powi_bounds [OF b]
  have bp: "(0 :: rat) < of_int b" using b by simp
  have two: "(2 :: rat) \<noteq> 0" by simp
  have "q * of_int b < 2 powi bitlen a" using A bp q by simp
  also have "(2 :: rat) powi bitlen a = 2 powi (e + 1) * 2 powi (bitlen b - 1)"
    by (simp add: e_def flip: power_int_add)
  also have "\<dots> \<le> 2 powi (e + 1) * of_int b" using B by simp
  finally have up: "q < 2 powi (e + 1)" using bp by simp
  have "(2 :: rat) powi (e - 1) * of_int b < 2 powi (e - 1) * 2 powi bitlen b" using B by simp
  also have "\<dots> = 2 powi (bitlen a - 1)" by (simp add: e_def flip: power_int_add)
  also have "\<dots> \<le> q * of_int b" using A bp q by simp
  finally have lo: "2 powi (e - 1) < q" using bp by simp
  show ?thesis
    using up lo by (auto simp: ilog2_def ab Let_def e_def [symmetric])
qed

lemma powi2_strict_mono_iff: "(2 :: rat) powi a < 2 powi b \<longleftrightarrow> a < b"
  using power_int_strict_increasing [of a b "2 :: rat"] power_int_increasing [of b a "2 :: rat"]
  by (metis not_le one_le_numeral one_less_numeral_iff semiring_norm(76))

lemma powi2_mono_iff: "(2 :: rat) powi a \<le> 2 powi b \<longleftrightarrow> a \<le> b"
  by (metis not_le powi2_strict_mono_iff)

lemma round_half_even_int [simp]: "round_half_even (of_int n) = n"
  by (simp add: round_half_even_def)

text \<open>A number with a significand of at most 53 bits and an exponent in range is a double.\<close>

lemma f64_quantum_divides:
  assumes m: "0 < m" "m \<le> 2 ^ 53" and k: "-1074 \<le> k"
    and a: "a = of_int m * 2 powi k"
  shows "\<exists>n. a / 2 powi (max (ilog2 a) (-1022) - 52) = of_int n"
proof -
  define e where "e = max (ilog2 a) (-1022) - 52"
  have a0: "0 < a" using m a by simp
  note il = ilog2_bounds [OF a0]
  have "(of_int m :: rat) \<le> of_int (2 ^ 53)" using m by (simp only: of_int_le_iff)
  then have "a \<le> 2 powi 53 * 2 powi k" using a by simp
  also have "\<dots> = 2 powi (53 + k)" by (subst power_int_add) simp_all
  finally have "2 powi ilog2 a \<le> (2 powi (53 + k) :: rat)" using il by linarith
  then have "ilog2 a \<le> 53 + k" by (simp only: powi2_mono_iff)
  then consider "e \<le> k" | "e = k + 1" "ilog2 a = 53 + k" using k unfolding e_def by linarith
  then show ?thesis
  proof cases
    case 1
    then have "a / 2 powi e = of_int m * (2 powi k / 2 powi e)" using a by simp
    also have "(2 :: rat) powi k / 2 powi e = 2 powi (k - e)" by (simp add: power_int_diff)
    also have "\<dots> = of_int (2 ^ nat (k - e))" using 1 by (simp add: power_int_def)
    finally have "a / 2 powi e = of_int (m * 2 ^ nat (k - e))" by simp
    then show ?thesis unfolding e_def by blast
  next
    case 2
    have "2 powi (53 + k) \<le> a" using il 2 by simp
    then have "2 powi 53 * 2 powi k \<le> (of_int m * 2 powi k :: rat)"
      using a by (simp add: power_int_add)
    then have "(of_int (2 ^ 53) :: rat) \<le> of_int m" by simp
    then have "m = 2 ^ 53" using m by (simp only: of_int_le_iff)
    moreover have "(2 :: rat) powi k / 2 powi e = 1 / 2" using 2 by (simp add: power_int_add)
    ultimately have "a / 2 powi e = of_int (2 ^ 52)" using a by (simp add: divide_simps)
    then show ?thesis unfolding e_def by blast
  qed
qed

lemma f64_round_exact:
  assumes m: "0 < m" "m \<le> 2 ^ 53" and k: "-1074 \<le> k"
    and q: "\<bar>q\<bar> = of_int m * 2 powi k" and lim: "\<bar>q\<bar> < 2 ^ 1024"
  shows "f64_round q = F_Fin q"
proof -
  define u :: rat where "u = 2 powi (max (ilog2 \<bar>q\<bar>) (-1022) - 52)"
  have u: "0 < u" by (simp add: u_def)
  obtain n where n: "\<bar>q\<bar> / u = of_int n" using f64_quantum_divides [OF m k q] unfolding u_def by blast
  then have r: "of_int (round_half_even (\<bar>q\<bar> / u)) * u = \<bar>q\<bar>" using u by (simp add: divide_simps)
  have nz: "q \<noteq> 0" using m q by auto
  have "f64_round q = (if \<bar>q\<bar> = 0 then F_Zero (q < 0) else if 2 ^ 1024 \<le> \<bar>q\<bar> then F_Inf (q < 0)
      else F_Fin (if q < 0 then - \<bar>q\<bar> else \<bar>q\<bar>))"
    unfolding f64_round_def Let_def u_def [symmetric] r using nz by simp
  with nz lim show ?thesis by (simp only: not_le abs_eq_0 if_False abs_if) auto
qed

lemma f64_of_int_exact:
  assumes "\<bar>i\<bar> \<le> 2 ^ 53" and "i \<noteq> 0"
  shows "f64_of_int i = F_Fin (of_int i)"
  unfolding f64_of_int_def
proof (rule f64_round_exact [where m = "\<bar>i\<bar>" and k = 0])
  have "(of_int \<bar>i\<bar> :: rat) \<le> of_int (2 ^ 53)" using assms by (simp only: of_int_le_iff)
  also have "\<dots> < 2 ^ 1024" by simp
  finally show "\<bar>of_int i\<bar> < (2 :: rat) ^ 1024" by simp
qed (use assms in auto)

lemma f64_of_int_zero [simp]: "f64_of_int 0 = F_Zero False"
  by (simp add: f64_of_int_def f64_round_def)

lemma f64_round_not_nan [simp]: "f64_round q \<noteq> F_NaN"
  by (simp add: f64_round_def Let_def)

text \<open>Rounding of a given rational: exponent and significand are given, the proof is arithmetic.\<close>

lemma ilog2_unique:
  assumes "2 powi e \<le> q" and "q < 2 powi (e + 1)"
  shows "ilog2 q = e"
proof -
  have "0 < q" using assms(1) by (metis less_le_trans zero_less_numeral zero_less_power_int)
  note b = ilog2_bounds [OF this]
  have "(2 :: rat) powi ilog2 q < 2 powi (e + 1)" "(2 :: rat) powi e < 2 powi (ilog2 q + 1)"
    using assms b by linarith+
  then show ?thesis unfolding powi2_strict_mono_iff by linarith
qed

lemma round_half_even_near:
  assumes "\<bar>x - of_int n\<bar> < 1 / 2"
  shows "round_half_even x = n"
proof (cases "of_int n \<le> x")
  case True
  with assms have "\<lfloor>x\<rfloor> = n" by (simp add: floor_eq_iff abs_if split: if_splits)
  with assms True show ?thesis by (simp add: round_half_even_def Let_def abs_if split: if_splits)
next
  case False
  with assms have "\<lfloor>x\<rfloor> = n - 1" by (simp add: floor_eq_iff abs_if split: if_splits)
  with assms False show ?thesis by (simp add: round_half_even_def Let_def abs_if split: if_splits)
qed

lemma f64_round_eqI:
  assumes e: "2 powi e \<le> q" "q < 2 powi (e + 1)" "-1022 \<le> e"
    and n: "\<bar>q / 2 powi (e - 52) - of_int n\<bar> < 1 / 2" "0 < n" "of_int n * 2 powi (e - 52) < (2 ^ 1024 :: rat)"
  shows "f64_round q = F_Fin (of_int n * 2 powi (e - 52))"
proof -
  have q: "0 < q" using e(1) by (metis less_le_trans zero_less_numeral zero_less_power_int)
  define r where "r = of_int n * (2 powi (e - 52) :: rat)"
  have m: "max e (-1022) = e" using e(3) by simp
  have r0: "0 < r" using n(2) by (simp add: r_def)
  have abs: "\<bar>q\<bar> = q" and sign: "(q < 0) = False" and nz: "(q = 0) = False" using q by auto
  have "of_int (round_half_even (q / 2 powi (max (ilog2 q) (-1022) - 52))) * 2 powi (max (ilog2 q) (-1022) - 52) = r"
    unfolding ilog2_unique [OF e(1,2)] m round_half_even_near [OF n(1)] r_def by simp
  then have "f64_round q = (if r = 0 then F_Zero False else if 2 ^ 1024 \<le> r then F_Inf False else F_Fin r)"
    unfolding f64_round_def Let_def abs sign nz by (simp only: if_False)
  moreover have "\<not> 2 ^ 1024 \<le> r" using n(3) unfolding r_def by (simp only: not_le)
  moreover have "r \<noteq> 0" using r0 by simp
  ultimately have "f64_round q = F_Fin r" by (simp only: if_False)
  then show ?thesis by (simp only: r_def)
qed

end
