(* ===== verification/Strconv.thy ===== *)
theory Strconv
  imports Go_Prelude Float64
begin

text \<open>
  The parts of Go's packages \<open>strings\<close> and \<open>strconv\<close> that the mapping engine calls:
  \<open>strings.TrimSpace\<close>, \<open>strconv.ParseFloat(s, 64)\<close> and \<open>strconv.FormatFloat(x, 'g', -1, 64)\<close>.
  Strings are byte strings, so a white space outside ASCII is its UTF-8 encoding. Parsing
  computes the exact rational value of the literal and rounds it once; a literal that rounds
  to an infinity is a range error. Formatting searches for the shortest decimal that rounds to
  the number, the nearest one if there are two; 17 digits always suffice, which bounds the search.
\<close>

section \<open>Trimming\<close>

definition spaces :: "string list" where
  "spaces = map (\<lambda>c. [c]) [CHR 0x20, CHR 0x09, CHR 0x0A, CHR 0x0B, CHR 0x0C, CHR 0x0D]
     @ [[CHR 0xC2, CHR 0x85], [CHR 0xC2, CHR 0xA0], [CHR 0xE1, CHR 0x9A, CHR 0x80],
        [CHR 0xE2, CHR 0x80, CHR 0xA8], [CHR 0xE2, CHR 0x80, CHR 0xA9], [CHR 0xE2, CHR 0x80, CHR 0xAF],
        [CHR 0xE2, CHR 0x81, CHR 0x9F], [CHR 0xE3, CHR 0x80, CHR 0x80]]
     @ map (\<lambda>c. [CHR 0xE2, CHR 0x80, c])
         [CHR 0x80, CHR 0x81, CHR 0x82, CHR 0x83, CHR 0x84, CHR 0x85, CHR 0x86, CHR 0x87, CHR 0x88, CHR 0x89, CHR 0x8A]"

definition leading_space :: "string \<Rightarrow> string option" where
  "leading_space s = find (\<lambda>sp. take (length sp) s = sp) spaces"

lemma spaces_nonempty: "sp \<in> set spaces \<Longrightarrow> sp \<noteq> []"
  by (auto simp: spaces_def)

lemma leading_space_shorter: "leading_space s = Some sp \<Longrightarrow> length (drop (length sp) s) < length s"
proof -
  assume a: "leading_space s = Some sp"
  then have "sp \<in> set spaces" "take (length sp) s = sp" unfolding leading_space_def by (auto dest: find_SomeD)
  moreover from this have "sp \<noteq> []" by (simp add: spaces_nonempty)
  ultimately have "sp \<noteq> []" "s \<noteq> []" by auto
  then show ?thesis by simp
qed

function trim_left :: "string \<Rightarrow> string" where
  "trim_left s = (case leading_space s of None \<Rightarrow> s | Some sp \<Rightarrow> trim_left (drop (length sp) s))"
  by pat_completeness auto
termination by (relation "measure length") (auto dest: leading_space_shorter)

definition trailing_space :: "string \<Rightarrow> string option" where
  "trailing_space s = find (\<lambda>sp. length sp \<le> length s \<and> drop (length s - length sp) s = sp) spaces"

function trim_right :: "string \<Rightarrow> string" where
  "trim_right s = (case trailing_space s of None \<Rightarrow> s | Some sp \<Rightarrow> trim_right (take (length s - length sp) s))"
  by pat_completeness auto
termination
proof (relation "measure length")
  fix s sp assume "trailing_space s = Some sp"
  then have "sp \<in> set spaces" "length sp \<le> length s" unfolding trailing_space_def by (auto dest: find_SomeD)
  moreover from this have "sp \<noteq> []" by (simp add: spaces_nonempty)
  ultimately have "length s - length sp < length s" by (metis diff_less length_greater_0_conv less_le_trans)
  then show "(take (length s - length sp) s, s) \<in> measure length" by simp
qed simp

declare trim_left.simps [simp del] trim_right.simps [simp del]

definition trimSpace :: "string \<Rightarrow> string" where
  "trimSpace s = trim_right (trim_left s)"

section \<open>Parsing a number\<close>

definition lower_char :: "char \<Rightarrow> char" where
  "lower_char c = (if CHR ''A'' \<le> c \<and> c \<le> CHR ''Z'' then char_of (of_char c + 32 :: nat) else c)"

definition digit_value :: "bool \<Rightarrow> char \<Rightarrow> nat option" where
  "digit_value hex c =
     (if CHR ''0'' \<le> c \<and> c \<le> CHR ''9'' then Some (of_char c - of_char (CHR ''0''))
      else if hex \<and> CHR ''a'' \<le> lower_char c \<and> lower_char c \<le> CHR ''f''
      then Some (of_char (lower_char c) - of_char (CHR ''a'') + 10)
      else None)"

text \<open>Digits with at most one point; underscores are skipped here and checked on the whole text.\<close>

record mantissa =
  ma_value :: nat
  ma_fraction :: nat \<comment> \<open>digits after the point\<close>
  ma_dot :: bool
  ma_digits :: bool

fun scan_mantissa :: "bool \<Rightarrow> mantissa \<Rightarrow> string \<Rightarrow> mantissa \<times> string" where
  "scan_mantissa hex m [] = (m, [])"
| "scan_mantissa hex m (c # cs) =
     (if c = CHR ''_'' then scan_mantissa hex m cs
      else if c = CHR ''.'' then
        (if ma_dot m then (m, c # cs) else scan_mantissa hex (m\<lparr>ma_dot := True\<rparr>) cs)
      else case digit_value hex c of
             None \<Rightarrow> (m, c # cs)
           | Some d \<Rightarrow>
               scan_mantissa hex (m\<lparr>ma_value := ma_value m * (if hex then 16 else 10) + d,
                 ma_fraction := (if ma_dot m then ma_fraction m + 1 else ma_fraction m), ma_digits := True\<rparr>) cs)"

fun scan_exponent :: "nat \<Rightarrow> string \<Rightarrow> nat \<times> string" where
  "scan_exponent e [] = (e, [])"
| "scan_exponent e (c # cs) =
     (if c = CHR ''_'' then scan_exponent e cs
      else case digit_value False c of
             None \<Rightarrow> (e, c # cs)
           | Some d \<Rightarrow> scan_exponent (if e < 10000 then e * 10 + d else e) cs)"

datatype prev_class = PrevStart | PrevDigit | PrevUnderscore | PrevOther

fun underscores_ok :: "bool \<Rightarrow> prev_class \<Rightarrow> string \<Rightarrow> bool" where
  "underscores_ok hex p [] = (p \<noteq> PrevUnderscore)"
| "underscores_ok hex p (c # cs) =
     (if digit_value hex c \<noteq> None then underscores_ok hex PrevDigit cs
      else if c = CHR ''_'' then (if p \<noteq> PrevDigit then False else underscores_ok hex PrevUnderscore cs)
      else if p = PrevUnderscore then False
      else underscores_ok hex PrevOther cs)"

fun split_sign :: "string \<Rightarrow> bool \<times> string" where
  "split_sign (c # cs) = (if c = CHR ''-'' then (True, cs) else if c = CHR ''+'' then (False, cs) else (False, c # cs))"
| "split_sign [] = (False, [])"

definition is_hex_prefix :: "string \<Rightarrow> bool" where
  "is_hex_prefix s = (2 < length s \<and> s ! 0 = CHR ''0'' \<and> lower_char (s ! 1) = CHR ''x'')"

definition underscoreOK :: "string \<Rightarrow> bool" where
  "underscoreOK s =
     (let s = snd (split_sign s)
      in if 2 \<le> length s \<and> s ! 0 = CHR ''0'' \<and> lower_char (s ! 1) \<in> {CHR ''b'', CHR ''o'', CHR ''x''}
         then underscores_ok (lower_char (s ! 1) = CHR ''x'') PrevDigit (drop 2 s)
         else underscores_ok False PrevStart s)"

text \<open>The optional exponent: \<open>None\<close> is a syntax error.\<close>

definition read_exponent :: "bool \<Rightarrow> string \<Rightarrow> (int \<times> string) option" where
  "read_exponent hex s =
     (case s of
        c # cs \<Rightarrow>
          if lower_char c = (if hex then CHR ''p'' else CHR ''e'') then
            (let (neg, ds) = split_sign cs
             in case ds of
                  d # _ \<Rightarrow>
                    if digit_value False d = None then None
                    else (let (e, rest) = scan_exponent 0 ds in Some (if neg then - int e else int e, rest))
                | [] \<Rightarrow> None)
          else if hex then None else Some (0, s)
      | [] \<Rightarrow> if hex then None else Some (0, s))"

definition signed_zero :: "bool \<Rightarrow> float64 \<Rightarrow> float64" where
  "signed_zero neg x = (if neg then f64_neg x else x)"

definition parse_special :: "string \<Rightarrow> float64 option" where
  "parse_special s =
     (let (neg, body) = split_sign s; low = map lower_char body
      in if low = ''inf'' \<or> low = ''infinity'' then Some (F_Inf neg)
         else if map lower_char s = ''nan'' then Some F_NaN else None)"

text \<open>\<open>None\<close> is the error of \<open>ParseFloat\<close>: bad syntax, or out of range.\<close>

definition parse_decimal :: "string \<Rightarrow> float64 option" where
  "parse_decimal s =
     (let (neg, body) = split_sign s;
          hex = is_hex_prefix body;
          (m, rest) = scan_mantissa hex \<lparr>ma_value = 0, ma_fraction = 0, ma_dot = False, ma_digits = False\<rparr>
            (if hex then drop 2 body else body)
      in if \<not> ma_digits m then None
         else case read_exponent hex rest of
                None \<Rightarrow> None
              | Some (e, rest) \<Rightarrow>
                  if rest \<noteq> [] then None
                  else if CHR ''_'' \<in> set s \<and> \<not> underscoreOK s then None
                  else (let q = (if hex then of_nat (ma_value m) * 2 powi (e - 4 * int (ma_fraction m))
                                 else of_nat (ma_value m) * 10 powi (e - int (ma_fraction m)));
                            x = f64_round q
                        in if f64_is_inf x then None else Some (signed_zero neg x)))"

definition parseFloat :: "string \<Rightarrow> float64 option" where
  "parseFloat s = (case parse_special s of Some x \<Rightarrow> Some x | None \<Rightarrow> parse_decimal s)"

section \<open>Formatting a number\<close>

text \<open>The decimal exponent of a positive rational: the \<open>k\<close> with \<open>10\<^sup>k \<le> q < 10\<^sup>k\<^sup>+\<^sup>1\<close>.\<close>

definition ilog10 :: "rat \<Rightarrow> int" where
  "ilog10 q =
     (let (a, b) = quotient_of q; k = int (length (show_nat (nat a))) - int (length (show_nat (nat b)))
      in if 10 powi k \<le> q then k else k - 1)"

text \<open>The best \<open>n\<close>-digit decimal for \<open>q\<close>, if one rounds to it.\<close>

definition decimal_with :: "rat \<Rightarrow> nat \<Rightarrow> (nat \<times> int) option" where
  "decimal_with q n =
     (let unit = ilog10 q + 1 - int n;
          low = \<lfloor>q / 10 powi unit\<rfloor>; high = low + 1;
          good = (\<lambda>d. f64_round (of_int d * 10 powi unit) = F_Fin q);
          gap = q / 10 powi unit - of_int low
      in if good low \<and> (\<not> good high \<or> gap < 1 / 2 \<or> (gap = 1 / 2 \<and> even low)) then Some (nat low, unit)
         else if good high then Some (nat high, unit) else None)"

fun shortest_decimal :: "nat \<Rightarrow> nat \<Rightarrow> rat \<Rightarrow> nat \<times> int" where
  "shortest_decimal fuel n q =
     (case decimal_with q n of
        Some r \<Rightarrow> r
      | None \<Rightarrow> (case fuel of 0 \<Rightarrow> (nat \<lfloor>q\<rfloor>, 0) | Suc f \<Rightarrow> shortest_decimal f (n + 1) q))"

declare shortest_decimal.simps [simp del]

text \<open>Digits without trailing zeros and the position of the decimal point.\<close>

definition strip_zeros :: "string \<Rightarrow> string" where
  "strip_zeros ds = rev (dropWhile (\<lambda>c. c = CHR ''0'') (rev ds))"

definition decimal_digits :: "rat \<Rightarrow> string \<times> int" where
  "decimal_digits q =
     (let (d, unit) = shortest_decimal 17 1 q; ds = show_nat d
      in (strip_zeros ds, int (length ds) + unit))"

definition fmtE :: "string \<Rightarrow> int \<Rightarrow> string" where
  "fmtE ds dp =
     (let e = dp - 1; mag = show_nat (nat \<bar>e\<bar>)
      in take 1 ds @ (if length ds > 1 then ''.'' @ drop 1 ds else []) @ ''e'' @ (if e < 0 then ''-'' else ''+'') @
         (if length mag < 2 then ''0'' else []) @ mag)"

definition fmtF :: "string \<Rightarrow> int \<Rightarrow> string" where
  "fmtF ds dp =
     (let whole = (if dp > 0 then take (nat dp) ds @ replicate (nat dp - length ds) (CHR ''0'') else ''0'');
          frac = (if dp > 0 then drop (nat dp) ds else replicate (nat (- dp)) (CHR ''0'') @ ds)
      in whole @ (if frac = [] then [] else ''.'' @ frac))"

definition formatFloat :: "float64 \<Rightarrow> string" where
  "formatFloat x =
     (case x of
        F_NaN \<Rightarrow> ''NaN''
      | F_Inf neg \<Rightarrow> (if neg then ''-Inf'' else ''+Inf'')
      | F_Zero neg \<Rightarrow> (if neg then ''-0'' else ''0'')
      | F_Fin q \<Rightarrow>
          (let (ds, dp) = decimal_digits \<bar>q\<bar>;
               body = (if dp - 1 < -4 \<or> dp - 1 \<ge> 6 then fmtE ds dp else fmtF ds dp)
           in if q < 0 then ''-'' @ body else body))"

end
