(* ===== verification/Event_Dispatcher.thy ===== *)
theory Event_Dispatcher
  imports Go_Prelude
begin

unbundle bit_operations_syntax

text \<open>
  The event bus, \<open>internal/eventbus/dispatcher.go\<close>: bounded priority queues with
  last-write-wins merging, one per shard, and the dispatcher that routes each device to one
  of them.

  A \<open>*queuedEvent\<close> is a pointer: the queues, the coalescing index and the code that mutates
  an event in place share it. The model keeps a heap \<open>sh_heap\<close> from pointers to events and
  lets a queue hold pointers. Every queued event gets a fresh \<open>order\<close> when it is created and
  keeps it, so the order serves as the pointer. The condition variable becomes the result
  \<open>NextWait\<close>: the consumer blocks exactly in the states where \<open>next\<close> has that result.
\<close>

section \<open>Data\<close>

datatype priority = PriorityLow | PriorityNormal | PriorityHigh | PriorityCritical
  | PriorityOther string \<comment> \<open>any other string, the empty one included\<close>

datatype bus_error = ErrQueueFull | ErrDispatcherClosed | ErrLowPriorityDuplicate

record bus_config =
  cfg_ShardCount :: int
  cfg_QueueSize :: int

definition DefaultShardCount :: int where
  "DefaultShardCount = 8"

definition DefaultQueueSize :: int where
  "DefaultQueueSize = 128"

definition normalized :: "bus_config \<Rightarrow> bus_config" where
  "normalized c =
     (let c = (if cfg_ShardCount c < 1 then c\<lparr>cfg_ShardCount := DefaultShardCount\<rparr> else c)
      in if cfg_QueueSize c < 1 then c\<lparr>cfg_QueueSize := DefaultQueueSize\<rparr> else c)"

record 'p event =
  ev_DeviceID :: string
  ev_TraceID :: string
  ev_Payload :: 'p
  ev_Priority :: priority
  ev_CoalesceKey :: string
  ev_DeduplicationKey :: string
  ev_enqueuedAt :: time

record 'p shard =
  sh_closed :: bool
  sh_capacity :: int
  sh_pending :: int
  sh_queues :: "priority \<Rightarrow> u64 list"
  sh_heap :: "u64 \<rightharpoonup> 'p event"
  sh_coalesce :: "(string, u64) gomap"
  sh_dedupe :: "(string, unit) gomap"
  sh_nextOrder :: u64

definition newDispatcherShard :: "int \<Rightarrow> 'p shard" where
  "newDispatcherShard capacity =
     \<lparr>sh_closed = False, sh_capacity = capacity, sh_pending = 0, sh_queues = (\<lambda>_. []),
      sh_heap = Map.empty, sh_coalesce = [], sh_dedupe = [], sh_nextOrder = 0\<rparr>"

section \<open>Operations of a shard\<close>

fun normalizePriority :: "priority \<Rightarrow> priority" where
  "normalizePriority PriorityLow = PriorityLow"
| "normalizePriority PriorityHigh = PriorityHigh"
| "normalizePriority PriorityCritical = PriorityCritical"
| "normalizePriority PriorityNormal = PriorityNormal"
| "normalizePriority (PriorityOther _) = PriorityNormal"

fun priority_rank :: "priority \<Rightarrow> int" where
  "priority_rank PriorityCritical = 4"
| "priority_rank PriorityHigh = 3"
| "priority_rank PriorityNormal = 2"
| "priority_rank PriorityLow = 1"
| "priority_rank (PriorityOther _) = 2"

definition priorityGreater :: "priority \<Rightarrow> priority \<Rightarrow> bool" where
  "priorityGreater left right \<longleftrightarrow> priority_rank left > priority_rank right"

definition removeLocked :: "u64 \<Rightarrow> 'p shard \<Rightarrow> 'p shard" where
  "removeLocked target q =
     (let p = ev_Priority (the (sh_heap q target))
      in q\<lparr>sh_queues := (sh_queues q)(p := remove1 target (sh_queues q p))\<rparr>)"

text \<open>
  The branch of \<open>enqueue\<close> that merges into a queued event with the same key: first the event
  is replaced (and moved when its priority rises), then the deduplication set follows.
\<close>

definition merge_queued :: "'p shard \<Rightarrow> u64 \<Rightarrow> 'p event \<Rightarrow> 'p shard" where
  "merge_queued q current event =
     (let previousPriority = ev_Priority (the (sh_heap q current))
      in if priorityGreater (ev_Priority event) previousPriority
         then (let q' = removeLocked current q
               in q'\<lparr>sh_heap := (sh_heap q')(current \<mapsto> event),
                     sh_queues := (sh_queues q')
                       (ev_Priority event := sh_queues q' (ev_Priority event) @ [current])\<rparr>)
         else q\<lparr>sh_heap := (sh_heap q)(current \<mapsto> event\<lparr>ev_Priority := previousPriority\<rparr>)\<rparr>)"

definition coalesce_into :: "'p shard \<Rightarrow> u64 \<Rightarrow> 'p event \<Rightarrow> 'p shard" where
  "coalesce_into q current event =
     (let previous = the (sh_heap q current);
          q1 = merge_queued q current event;
          now = the (sh_heap q1 current);
          dedupe1 = (if ev_Priority previous = PriorityLow \<and> ev_DeduplicationKey previous \<noteq> []
                     then gm_del (ev_DeduplicationKey previous) (sh_dedupe q1) else sh_dedupe q1);
          dedupe2 = (if ev_Priority now = PriorityLow \<and> ev_DeduplicationKey now \<noteq> []
                     then gm_put (ev_DeduplicationKey now) () dedupe1 else dedupe1)
      in q1\<lparr>sh_dedupe := dedupe2\<rparr>)"

text \<open>The branch that appends a new queued event.\<close>

definition append_event :: "'p shard \<Rightarrow> 'p event \<Rightarrow> 'p shard" where
  "append_event q event =
     (let queued = sh_nextOrder q + 1;
          p = ev_Priority event;
          q1 = q\<lparr>sh_nextOrder := queued, sh_heap := (sh_heap q)(queued \<mapsto> event),
                 sh_queues := (sh_queues q)(p := sh_queues q p @ [queued]),
                 sh_pending := sh_pending q + 1\<rparr>;
          q2 = (if ev_CoalesceKey event \<noteq> []
                then q1\<lparr>sh_coalesce := gm_put (ev_CoalesceKey event) queued (sh_coalesce q1)\<rparr>
                else q1)
      in if p = PriorityLow \<and> ev_DeduplicationKey event \<noteq> []
         then q2\<lparr>sh_dedupe := gm_put (ev_DeduplicationKey event) () (sh_dedupe q2)\<rparr> else q2)"

definition enqueue :: "'p shard \<Rightarrow> 'p event \<Rightarrow> (bool \<times> bool \<times> bus_error option) \<times> 'p shard" where
  "enqueue q event0 =
     (let event = event0\<lparr>ev_Priority := normalizePriority (ev_Priority event0)\<rparr>
      in if sh_closed q then ((False, False, Some ErrDispatcherClosed), q)
         else if ev_Priority event = PriorityLow \<and> ev_DeduplicationKey event \<noteq> [] \<and>
                 gm_get (sh_dedupe q) (ev_DeduplicationKey event) \<noteq> None
         then ((False, False, Some ErrLowPriorityDuplicate), q)
         else case (if ev_CoalesceKey event \<noteq> []
                    then gm_get (sh_coalesce q) (ev_CoalesceKey event) else None) of
                Some current \<Rightarrow> ((True, True, None), coalesce_into q current event)
              | None \<Rightarrow>
                  if sh_pending q \<ge> sh_capacity q then ((False, False, Some ErrQueueFull), q)
                  else ((True, False, None), append_event q event))"

definition drain_order :: "priority list" where
  "drain_order = [PriorityCritical, PriorityHigh, PriorityNormal, PriorityLow]"

definition hasEarlierForDeviceLocked :: "'p shard \<Rightarrow> u64 \<Rightarrow> bool" where
  "hasEarlierForDeviceLocked q candidate =
     list_ex (\<lambda>p. list_ex (\<lambda>other. other \<noteq> candidate \<and>
         ev_DeviceID (the (sh_heap q other)) = ev_DeviceID (the (sh_heap q candidate)) \<and>
         other < candidate) (sh_queues q p)) drain_order"

definition removeAtLocked :: "priority \<Rightarrow> nat \<Rightarrow> 'p shard \<Rightarrow> 'p shard" where
  "removeAtLocked p index q =
     q\<lparr>sh_queues := (sh_queues q)
         (p := take index (sh_queues q p) @ drop (Suc index) (sh_queues q p))\<rparr>"

datatype 'p next_result = NextWait | NextDone | NextEvent "'p event" "'p shard" | NextPanic

text \<open>The two nested loops of \<open>next\<close> visit the queued events in this order.\<close>

definition next_candidates :: "'p shard \<Rightarrow> (priority \<times> nat \<times> u64) list" where
  "next_candidates q =
     concat (map (\<lambda>p. map (\<lambda>(index, queued). (p, index, queued)) (enumerate 0 (sh_queues q p)))
       drain_order)"

definition take_event :: "'p shard \<Rightarrow> priority \<Rightarrow> nat \<Rightarrow> u64 \<Rightarrow> 'p shard" where
  "take_event q p index queued =
     (let event = the (sh_heap q queued);
          q1 = (removeAtLocked p index q)\<lparr>sh_pending := sh_pending q - 1\<rparr>;
          q2 = (if ev_CoalesceKey event \<noteq> [] \<and>
                   gm_get (sh_coalesce q1) (ev_CoalesceKey event) = Some queued
                then q1\<lparr>sh_coalesce := gm_del (ev_CoalesceKey event) (sh_coalesce q1)\<rparr> else q1)
      in if ev_Priority event = PriorityLow \<and> ev_DeduplicationKey event \<noteq> []
         then q2\<lparr>sh_dedupe := gm_del (ev_DeduplicationKey event) (sh_dedupe q2)\<rparr> else q2)"

definition next_event :: "'p shard \<Rightarrow> 'p next_result" where
  "next_event q =
     (if sh_pending q = 0 then (if sh_closed q then NextDone else NextWait)
      else case find (\<lambda>(p, index, queued). \<not> hasEarlierForDeviceLocked q queued)
                  (next_candidates q) of
             None \<Rightarrow> NextPanic
           | Some (p, index, queued) \<Rightarrow>
               NextEvent (the (sh_heap q queued)) (take_event q p index queued))"

definition close_shard :: "'p shard \<Rightarrow> 'p shard" where
  "close_shard q = q\<lparr>sh_closed := True\<rparr>"

definition pendingCount :: "'p shard \<Rightarrow> int" where
  "pendingCount q = sh_pending q"

section \<open>The dispatcher\<close>

record 'p dispatcher =
  d_shards :: "'p shard list"
  d_closed :: bool
  d_handled :: u64
  d_totalLatencyNanos :: u64
  d_maxLatencyNanos :: u64
  d_slowHandlers :: u64
  d_merged :: u64
  d_duplicatesDropped :: u64

record bus_stats =
  bs_Handled :: u64
  bs_AverageLatency :: duration
  bs_MaxLatency :: duration
  bs_SlowHandlers :: u64
  bs_Merged :: u64
  bs_LowPriorityDuplicatesDropped :: u64

definition newDispatcherWithConfig :: "bus_config \<Rightarrow> 'p dispatcher" where
  "newDispatcherWithConfig config0 =
     (let config = normalized config0
      in \<lparr>d_shards = replicate (nat (cfg_ShardCount config)) (newDispatcherShard (cfg_QueueSize config)),
          d_closed = False, d_handled = 0, d_totalLatencyNanos = 0, d_maxLatencyNanos = 0,
          d_slowHandlers = 0, d_merged = 0, d_duplicatesDropped = 0\<rparr>)"

definition newDispatcher :: "int \<Rightarrow> int \<Rightarrow> 'p dispatcher" where
  "newDispatcher shardCount queueSize =
     (let shardCount = (if shardCount < 1 then 1 else shardCount);
          queueSize = (if queueSize < 1 then 1 else queueSize)
      in newDispatcherWithConfig \<lparr>cfg_ShardCount = shardCount, cfg_QueueSize = queueSize\<rparr>)"

text \<open>FNV-1a on 32 bits, \<open>hash/fnv\<close>, and the shard index of a device.\<close>

definition fnv32a :: "string \<Rightarrow> u32" where
  "fnv32a s = fold (\<lambda>c hash. (hash XOR of_char c) * 16777619) s 2166136261"

definition shard_of :: "string \<Rightarrow> nat \<Rightarrow> nat" where
  "shard_of device shards = unat (fnv32a device mod of_nat shards)"

text \<open>
  \<open>Publish\<close>. The clock reading and the next value of the process-wide trace sequence are
  arguments.
\<close>

definition publish ::
  "time \<Rightarrow> int \<Rightarrow> u64 \<Rightarrow> 'p dispatcher \<Rightarrow> 'p event \<Rightarrow> bus_error option \<times> 'p dispatcher" where
  "publish now unixNano traceSequence d event0 =
     (if d_closed d then (Some ErrDispatcherClosed, d)
      else let event1 = (if ev_TraceID event0 = []
                         then event0\<lparr>ev_TraceID := ''event-'' @ hex_int unixNano @ ''-''
                                       @ hex_nat (unat traceSequence)\<rparr>
                         else event0);
               event = event1\<lparr>ev_enqueuedAt := now\<rparr>;
               i = shard_of (ev_DeviceID event) (length (d_shards d));
               ((accepted, merged, err), q) = enqueue (d_shards d ! i) event;
               d1 = d\<lparr>d_shards := (d_shards d)[i := q]\<rparr>;
               d2 = (if merged then d1\<lparr>d_merged := d_merged d1 + 1\<rparr> else d1);
               d3 = (if err = Some ErrLowPriorityDuplicate
                     then d2\<lparr>d_duplicatesDropped := d_duplicatesDropped d2 + 1\<rparr> else d2)
           in (err, d3))"

definition bus_stats_of :: "'p dispatcher \<Rightarrow> bus_stats" where
  "bus_stats_of d =
     \<lparr>bs_Handled = d_handled d,
      bs_AverageLatency = (if d_handled d > 0 then sint (d_totalLatencyNanos d div d_handled d) else 0),
      bs_MaxLatency = sint (d_maxLatencyNanos d), bs_SlowHandlers = d_slowHandlers d,
      bs_Merged = d_merged d, bs_LowPriorityDuplicatesDropped = d_duplicatesDropped d\<rparr>"

definition bus_pending :: "'p dispatcher \<Rightarrow> int" where
  "bus_pending d = sum_list (map pendingCount (d_shards d))"

definition bus_capacity :: "'p dispatcher \<Rightarrow> int" where
  "bus_capacity d = sum_list (map sh_capacity (d_shards d))"

text \<open>\<open>Close\<close> up to the wait for the workers.\<close>

definition close_dispatcher :: "'p dispatcher \<Rightarrow> 'p dispatcher" where
  "close_dispatcher d =
     (if d_closed d then d
      else d\<lparr>d_closed := True, d_shards := map close_shard (d_shards d)\<rparr>)"

text \<open>
  One iteration of a worker's loop in \<open>run\<close> on shard \<open>i\<close>: the handler runs between the two
  clock readings. The worker returns on \<open>NextDone\<close>.
\<close>

definition record_handled :: "'p event \<Rightarrow> time \<Rightarrow> time \<Rightarrow> 'p dispatcher \<Rightarrow> 'p dispatcher" where
  "record_handled event started finished d =
     (let latency = word_of_int (finished - ev_enqueuedAt event);
          handlerDuration = finished - started;
          d1 = d\<lparr>d_handled := d_handled d + 1, d_totalLatencyNanos := d_totalLatencyNanos d + latency,
                 d_maxLatencyNanos := (if latency \<le> d_maxLatencyNanos d then d_maxLatencyNanos d
                                       else latency)\<rparr>
      in if handlerDuration \<ge> 100000000 then d1\<lparr>d_slowHandlers := d_slowHandlers d1 + 1\<rparr> else d1)"

definition run_once :: "nat \<Rightarrow> time \<Rightarrow> time \<Rightarrow> 'p dispatcher \<Rightarrow> ('p event \<times> 'p dispatcher) option" where
  "run_once i started finished d =
     (case next_event (d_shards d ! i) of
        NextEvent event q \<Rightarrow>
          Some (event, record_handled event started finished (d\<lparr>d_shards := (d_shards d)[i := q]\<rparr>))
      | _ \<Rightarrow> None)"


section \<open>The shard invariant\<close>

abbreviation ev_at :: "'p shard \<Rightarrow> u64 \<Rightarrow> 'p event" where
  "ev_at q o' \<equiv> the (sh_heap q o')"

definition queued :: "'p shard \<Rightarrow> u64 set" where
  "queued q = (\<Union>p \<in> set drain_order. set (sh_queues q p))"

definition queue_total :: "'p shard \<Rightarrow> nat" where
  "queue_total q = sum_list (map (\<lambda>p. length (sh_queues q p)) drain_order)"

text \<open>Queues: every queued pointer is live, filed under its own priority and not from the future.\<close>

definition queues_ok :: "'p shard \<Rightarrow> bool" where
  "queues_ok q \<longleftrightarrow>
     (\<forall>p. distinct (sh_queues q p)) \<and>
     (\<forall>p x. x \<in> set (sh_queues q p) \<longrightarrow>
        p \<in> set drain_order \<and> x \<le> sh_nextOrder q \<and> sh_heap q x \<noteq> None \<and> ev_Priority (ev_at q x) = p) \<and>
     sh_pending q = int (queue_total q) \<and> sh_pending q \<le> sh_capacity q"

text \<open>The coalescing index holds exactly the queued events that have a key.\<close>

definition coalesce_ok :: "'p shard \<Rightarrow> bool" where
  "coalesce_ok q \<longleftrightarrow> gm_ok (sh_coalesce q) \<and>
     (\<forall>k x. gm_get (sh_coalesce q) k = Some x \<longleftrightarrow>
        k \<noteq> [] \<and> x \<in> queued q \<and> ev_CoalesceKey (ev_at q x) = k)"

text \<open>The deduplication set holds exactly the keys of the low-priority queue, each once.\<close>

definition dedupe_ok :: "'p shard \<Rightarrow> bool" where
  "dedupe_ok q \<longleftrightarrow> gm_ok (sh_dedupe q) \<and>
     (\<forall>k. gm_get (sh_dedupe q) k \<noteq> None \<longleftrightarrow>
        k \<noteq> [] \<and> (\<exists>x \<in> set (sh_queues q PriorityLow). ev_DeduplicationKey (ev_at q x) = k)) \<and>
     (\<forall>x \<in> set (sh_queues q PriorityLow). \<forall>y \<in> set (sh_queues q PriorityLow).
        ev_DeduplicationKey (ev_at q x) = ev_DeduplicationKey (ev_at q y) \<longrightarrow>
        ev_DeduplicationKey (ev_at q x) \<noteq> [] \<longrightarrow> x = y)"

definition shard_inv :: "'p shard \<Rightarrow> bool" where
  "shard_inv q \<longleftrightarrow> queues_ok q \<and> coalesce_ok q \<and> dedupe_ok q"

lemma normalizePriority_drain [simp]: "normalizePriority p \<in> set drain_order"
  by (cases p) (simp_all add: drain_order_def)

lemma in_queued_iff: "queues_ok q \<Longrightarrow> x \<in> queued q \<longleftrightarrow> (\<exists>p. x \<in> set (sh_queues q p))"
  by (auto simp: queued_def queues_ok_def)

lemma queued_priority:
  "queues_ok q \<Longrightarrow> x \<in> queued q \<longleftrightarrow> sh_heap q x \<noteq> None \<and> x \<in> set (sh_queues q (ev_Priority (ev_at q x)))"
  by (auto simp: in_queued_iff queues_ok_def)

lemma queue_total_upd:
  "p \<in> set drain_order \<Longrightarrow>
   sum_list (map (\<lambda>p'. length ((f(p := xs)) p')) drain_order) + length (f p) =
   sum_list (map (\<lambda>p'. length (f p')) drain_order) + length xs"
  by (auto simp: drain_order_def)

lemma queue_total_remove:
  assumes "p \<in> set drain_order" and x: "x \<in> set (f p)"
  shows "sum_list (map (\<lambda>p'. length ((f(p := remove1 x (f p))) p')) drain_order) + 1 =
    sum_list (map (\<lambda>p'. length (f p')) drain_order)"
proof -
  have "length (remove1 x (f p)) + 1 = length (f p)"
    using x length_pos_if_in_set [OF x] by (simp add: length_remove1)
  with queue_total_upd [OF assms(1), of f "remove1 x (f p)"] show ?thesis by linarith
qed

lemma shard_inv_new: "0 \<le> c \<Longrightarrow> shard_inv (newDispatcherShard c)"
  by (simp add: shard_inv_def queues_ok_def coalesce_ok_def dedupe_ok_def newDispatcherShard_def
      queued_def queue_total_def drain_order_def)

subsection \<open>Appending\<close>

text \<open>The fresh pointer: the counter has not wrapped around.\<close>

lemma fresh_order:
  fixes n :: u64
  assumes "n \<noteq> -1" and "x \<le> n"
  shows "x < n + 1" and "x \<le> n + 1"
proof -
  have "unat (n + 1) = unat n + 1"
    using assms(1) by (metis Suc_eq_plus1 add.commute unatSuc add_eq_0_iff2)
  with assms(2) show "x < n + 1" by (simp add: word_less_nat_alt word_le_nat_alt)
  then show "x \<le> n + 1" by simp
qed

lemma append_event_sel [simp]:
  "sh_queues (append_event q e) =
     (sh_queues q)(ev_Priority e := sh_queues q (ev_Priority e) @ [sh_nextOrder q + 1])"
  "sh_heap (append_event q e) = (sh_heap q)(sh_nextOrder q + 1 \<mapsto> e)"
  "sh_pending (append_event q e) = sh_pending q + 1"
  "sh_capacity (append_event q e) = sh_capacity q"
  "sh_closed (append_event q e) = sh_closed q"
  "sh_nextOrder (append_event q e) = sh_nextOrder q + 1"
  "sh_coalesce (append_event q e) =
     (if ev_CoalesceKey e \<noteq> [] then gm_put (ev_CoalesceKey e) (sh_nextOrder q + 1) (sh_coalesce q)
      else sh_coalesce q)"
  "sh_dedupe (append_event q e) =
     (if ev_Priority e = PriorityLow \<and> ev_DeduplicationKey e \<noteq> []
      then gm_put (ev_DeduplicationKey e) () (sh_dedupe q) else sh_dedupe q)"
  by (simp_all add: append_event_def Let_def)

lemma append_queued:
  "ev_Priority e \<in> set drain_order \<Longrightarrow> queued (append_event q e) = insert (sh_nextOrder q + 1) (queued q)"
  by (auto simp: queued_def drain_order_def split: if_splits)

lemma append_queues_ok:
  assumes ok: "queues_ok q" and nw: "sh_nextOrder q \<noteq> -1" and p: "ev_Priority e \<in> set drain_order"
    and room: "sh_pending q < sh_capacity q"
  shows "queues_ok (append_event q e)"
proof -
  have fresh: "x \<in> set (sh_queues q p') \<Longrightarrow> x < sh_nextOrder q + 1" for x p'
    using ok nw fresh_order unfolding queues_ok_def by blast
  then have notin: "sh_nextOrder q + 1 \<notin> set (sh_queues q p')" for p' by blast
  have "queue_total (append_event q e) = queue_total q + 1"
    using queue_total_upd [OF p, of "sh_queues q" "sh_queues q (ev_Priority e) @ [sh_nextOrder q + 1]"]
    by (simp add: queue_total_def)
  then have "sh_pending (append_event q e) = int (queue_total (append_event q e))"
    using ok by (simp add: queues_ok_def)
  moreover have "distinct (sh_queues (append_event q e) p')" for p'
    using ok notin by (simp add: queues_ok_def)
  moreover have "x \<in> set (sh_queues (append_event q e) p') \<Longrightarrow> p' \<in> set drain_order \<and>
      x \<le> sh_nextOrder (append_event q e) \<and> sh_heap (append_event q e) x \<noteq> None \<and>
      ev_Priority (ev_at (append_event q e) x) = p'" for x p'
    using ok p notin fresh by (fastforce simp: queues_ok_def split: if_splits)
  ultimately show ?thesis using room unfolding queues_ok_def by auto
qed

lemma append_fresh: "queues_ok q \<Longrightarrow> sh_nextOrder q \<noteq> -1 \<Longrightarrow> x \<in> queued q \<Longrightarrow> x \<noteq> sh_nextOrder q + 1"
  using fresh_order by (fastforce simp: in_queued_iff queues_ok_def)

lemma append_coalesce_ok:
  assumes inv: "queues_ok q" "coalesce_ok q" and nw: "sh_nextOrder q \<noteq> -1"
    and p: "ev_Priority e \<in> set drain_order"
    and new: "ev_CoalesceKey e \<noteq> [] \<Longrightarrow> gm_get (sh_coalesce q) (ev_CoalesceKey e) = None"
  shows "coalesce_ok (append_event q e)"
proof -
  have "x \<in> queued q \<Longrightarrow> ev_CoalesceKey (ev_at q x) \<noteq> ev_CoalesceKey e" if "ev_CoalesceKey e \<noteq> []" for x
    using inv(2) new that by (metis coalesce_ok_def option.distinct(1))
  then show ?thesis
    using inv(2) append_fresh [OF inv(1) nw]
    unfolding coalesce_ok_def append_queued [OF p]
    by (auto simp: gomap_simps)
qed

lemma append_dedupe_ok:
  assumes inv: "queues_ok q" "dedupe_ok q" and nw: "sh_nextOrder q \<noteq> -1"
    and new: "ev_Priority e = PriorityLow \<Longrightarrow> ev_DeduplicationKey e \<noteq> [] \<Longrightarrow>
        gm_get (sh_dedupe q) (ev_DeduplicationKey e) = None"
  shows "dedupe_ok (append_event q e)"
proof -
  have fresh: "x \<in> set (sh_queues q PriorityLow) \<Longrightarrow> x \<noteq> sh_nextOrder q + 1" for x
    using inv(1) nw fresh_order unfolding queues_ok_def by (metis order_less_irrefl)
  have nokey: "ev_DeduplicationKey (ev_at q x) \<noteq> ev_DeduplicationKey e"
    if "ev_Priority e = PriorityLow" "ev_DeduplicationKey e \<noteq> []" "x \<in> set (sh_queues q PriorityLow)" for x
    using inv(2) new that unfolding dedupe_ok_def by blast
  show ?thesis
  proof (cases "ev_Priority e = PriorityLow")
    case True
    with inv(2) fresh nokey show ?thesis unfolding dedupe_ok_def by (auto simp: gomap_simps) metis+
  next
    case False
    with inv(2) fresh show ?thesis unfolding dedupe_ok_def by auto
  qed
qed

subsection \<open>Merging\<close>

lemma merge_queued_sel [simp]:
  "sh_pending (merge_queued q c e) = sh_pending q"
  "sh_capacity (merge_queued q c e) = sh_capacity q"
  "sh_closed (merge_queued q c e) = sh_closed q"
  "sh_nextOrder (merge_queued q c e) = sh_nextOrder q"
  "sh_coalesce (merge_queued q c e) = sh_coalesce q"
  "sh_dedupe (merge_queued q c e) = sh_dedupe q"
  by (simp_all add: merge_queued_def removeLocked_def Let_def)

lemma coalesce_into_sel [simp]:
  "sh_pending (coalesce_into q c e) = sh_pending q"
  "sh_capacity (coalesce_into q c e) = sh_capacity q"
  "sh_closed (coalesce_into q c e) = sh_closed q"
  "sh_nextOrder (coalesce_into q c e) = sh_nextOrder q"
  "sh_coalesce (coalesce_into q c e) = sh_coalesce q"
  by (simp_all add: coalesce_into_def Let_def)

text \<open>The event a merge leaves queued: the new one, at the higher of the two priorities.\<close>

definition merged_event :: "'p event \<Rightarrow> 'p event \<Rightarrow> 'p event" where
  "merged_event previous e =
     (if priorityGreater (ev_Priority e) (ev_Priority previous) then e
      else e\<lparr>ev_Priority := ev_Priority previous\<rparr>)"

lemma coalesce_into_heap: "sh_heap (coalesce_into q c e) = (sh_heap q)(c \<mapsto> merged_event (ev_at q c) e)"
  by (simp add: coalesce_into_def merge_queued_def removeLocked_def merged_event_def Let_def)

lemma coalesce_into_queues:
  "sh_queues (coalesce_into q c e) =
     (let p = ev_Priority (ev_at q c)
      in if priorityGreater (ev_Priority e) p
         then (sh_queues q)(p := remove1 c (sh_queues q p),
                            ev_Priority e := sh_queues q (ev_Priority e) @ [c])
         else sh_queues q)"
  by (auto simp: coalesce_into_def merge_queued_def removeLocked_def Let_def priorityGreater_def)

lemma coalesce_into_dedupe:
  "sh_dedupe (coalesce_into q c e) =
     (let previous = ev_at q c; now = merged_event previous e;
          d = (if ev_Priority previous = PriorityLow \<and> ev_DeduplicationKey previous \<noteq> []
               then gm_del (ev_DeduplicationKey previous) (sh_dedupe q) else sh_dedupe q)
      in if ev_Priority now = PriorityLow \<and> ev_DeduplicationKey now \<noteq> []
         then gm_put (ev_DeduplicationKey now) () d else d)"
proof -
  have "sh_heap (merge_queued q c e) c = Some (merged_event (ev_at q c) e)"
    by (simp add: merge_queued_def removeLocked_def merged_event_def Let_def)
  then show ?thesis by (simp add: coalesce_into_def Let_def)
qed

lemma merged_event_keys [simp]:
  "ev_CoalesceKey (merged_event previous e) = ev_CoalesceKey e"
  "ev_DeduplicationKey (merged_event previous e) = ev_DeduplicationKey e"
  "ev_DeviceID (merged_event previous e) = ev_DeviceID e"
  "ev_Payload (merged_event previous e) = ev_Payload e"
  by (simp_all add: merged_event_def)

lemma merged_event_priority:
  "ev_Priority (merged_event previous e) =
     (if priorityGreater (ev_Priority e) (ev_Priority previous) then ev_Priority e else ev_Priority previous)"
  by (simp add: merged_event_def)

lemma merge_low:
  "ev_Priority (merged_event previous e) = PriorityLow \<Longrightarrow> ev_Priority previous \<in> set drain_order \<Longrightarrow>
   ev_Priority previous = PriorityLow \<and> \<not> priorityGreater (ev_Priority e) (ev_Priority previous)"
  by (cases "ev_Priority previous")
    (auto simp: merged_event_priority priorityGreater_def drain_order_def split: if_splits)

lemma merge_set_queues:
  assumes ok: "queues_ok q" and c: "c \<in> queued q" and p: "ev_Priority e \<in> set drain_order"
  shows "x \<in> set (sh_queues (coalesce_into q c e) p') \<longleftrightarrow>
    (if x = c then p' = ev_Priority (merged_event (ev_at q c) e) else x \<in> set (sh_queues q p'))"
proof -
  have cin: "c \<in> set (sh_queues q (ev_Priority (ev_at q c)))" using ok c queued_priority by blast
  have only: "c \<in> set (sh_queues q p') \<Longrightarrow> p' = ev_Priority (ev_at q c)" for p'
    using ok unfolding queues_ok_def by blast
  have dist: "distinct (sh_queues q p')" for p' using ok by (simp add: queues_ok_def)
  show ?thesis
  proof (cases "priorityGreater (ev_Priority e) (ev_Priority (ev_at q c))")
    case True
    then have "ev_Priority e \<noteq> ev_Priority (ev_at q c)" by (auto simp: priorityGreater_def)
    with True only [of p'] dist show ?thesis
      by (auto simp: coalesce_into_queues merged_event_priority Let_def)
  next
    case False
    with cin only [of p'] show ?thesis by (auto simp: coalesce_into_queues merged_event_priority Let_def)
  qed
qed

lemma merge_queued_eq:
  assumes "queues_ok q" and c: "c \<in> queued q" and p: "ev_Priority e \<in> set drain_order"
  shows "queued (coalesce_into q c e) = queued q"
proof -
  have "ev_Priority (ev_at q c) \<in> set drain_order" using assms by (auto simp: queued_def queues_ok_def)
  then have "ev_Priority (merged_event (ev_at q c) e) \<in> set drain_order"
    using p by (simp add: merged_event_priority)
  then have "x \<in> queued (coalesce_into q c e) \<longleftrightarrow> x \<in> queued q" for x
    using c by (cases "x = c") (auto simp: queued_def merge_set_queues [OF assms])
  then show ?thesis by blast
qed

lemma merge_total:
  assumes ok: "queues_ok q" and c: "c \<in> queued q" and p: "ev_Priority e \<in> set drain_order"
  shows "queue_total (coalesce_into q c e) = queue_total q"
proof (cases "priorityGreater (ev_Priority e) (ev_Priority (ev_at q c))")
  case True
  let ?p = "ev_Priority (ev_at q c)"
  have ne: "ev_Priority e \<noteq> ?p" using True by (auto simp: priorityGreater_def)
  have cin: "c \<in> set (sh_queues q ?p)" using ok c queued_priority by blast
  then have pd: "?p \<in> set drain_order" using ok unfolding queues_ok_def by blast
  let ?f = "(sh_queues q)(?p := remove1 c (sh_queues q ?p))"
  have "sum_list (map (\<lambda>p'. length (?f p')) drain_order) + 1 = queue_total q"
    using queue_total_remove [of ?p c "sh_queues q"] pd cin by (simp add: queue_total_def)
  moreover have "queue_total (coalesce_into q c e) =
      sum_list (map (\<lambda>p'. length (?f p')) drain_order) + 1"
    using queue_total_upd [OF p, of ?f "?f (ev_Priority e) @ [c]"] True ne
    by (simp add: queue_total_def coalesce_into_queues Let_def)
  ultimately show ?thesis by simp
next
  case False
  then show ?thesis by (simp add: queue_total_def coalesce_into_queues Let_def)
qed

lemma merge_queues_ok:
  assumes ok: "queues_ok q" and c: "c \<in> queued q" and p: "ev_Priority e \<in> set drain_order"
  shows "queues_ok (coalesce_into q c e)"
proof -
  have pd: "ev_Priority (ev_at q c) \<in> set drain_order" and cn: "c \<le> sh_nextOrder q"
    using ok c by (auto simp: queued_def queues_ok_def)
  have "distinct (sh_queues (coalesce_into q c e) p')" for p'
  proof -
    have "c \<in> set (sh_queues q p'') \<Longrightarrow> p'' = ev_Priority (ev_at q c)" for p''
      using ok unfolding queues_ok_def by blast
    moreover have "distinct (sh_queues q p'')" for p'' using ok by (simp add: queues_ok_def)
    ultimately show ?thesis by (auto simp: coalesce_into_queues Let_def priorityGreater_def)
  qed
  moreover have "x \<in> set (sh_queues (coalesce_into q c e) p') \<Longrightarrow>
      p' \<in> set drain_order \<and> x \<le> sh_nextOrder (coalesce_into q c e) \<and>
      sh_heap (coalesce_into q c e) x \<noteq> None \<and> ev_Priority (ev_at (coalesce_into q c e) x) = p'" for x p'
    using ok p pd cn unfolding merge_set_queues [OF ok c p] queues_ok_def
    by (auto simp: coalesce_into_heap merged_event_priority split: if_splits)
  moreover have "sh_pending (coalesce_into q c e) = int (queue_total (coalesce_into q c e))"
    using ok merge_total [OF assms] by (simp add: queues_ok_def)
  ultimately show ?thesis using ok unfolding queues_ok_def by simp
qed

lemma merge_coalesce_ok:
  assumes ok: "queues_ok q" "coalesce_ok q" and c: "gm_get (sh_coalesce q) (ev_CoalesceKey e) = Some c"
    and p: "ev_Priority e \<in> set drain_order"
  shows "coalesce_ok (coalesce_into q c e)"
proof -
  have cq: "c \<in> queued q" and key: "ev_CoalesceKey (ev_at q c) = ev_CoalesceKey e"
    using ok(2) c unfolding coalesce_ok_def by auto
  have "ev_CoalesceKey (ev_at (coalesce_into q c e) x) = ev_CoalesceKey (ev_at q x)" for x
    using key by (simp add: coalesce_into_heap)
  then show ?thesis
    using ok(2) unfolding coalesce_ok_def merge_queued_eq [OF ok(1) cq p] by simp
qed

text \<open>
  After a merge the key set of the low-priority queue is the old one without the key of the
  replaced event and with the key of the new one, if it is still in that queue.
\<close>

lemma merge_dedupe_ok:
  assumes ok: "queues_ok q" "dedupe_ok q" and c: "c \<in> queued q" and p: "ev_Priority e \<in> set drain_order"
    and new: "ev_Priority e = PriorityLow \<Longrightarrow> ev_DeduplicationKey e \<noteq> [] \<Longrightarrow>
        gm_get (sh_dedupe q) (ev_DeduplicationKey e) = None"
  shows "dedupe_ok (coalesce_into q c e)"
proof -
  let ?q = "coalesce_into q c e" and ?prev = "ev_at q c"
  let ?low = "set (sh_queues q PriorityLow)"
  let ?now = "merged_event ?prev e"
  have pd: "ev_Priority ?prev \<in> set drain_order" using ok(1) c by (auto simp: queued_def queues_ok_def)
  have cin: "c \<in> ?low \<longleftrightarrow> ev_Priority ?prev = PriorityLow"
    using ok(1) c queued_priority by (metis (no_types, lifting) queues_ok_def)
  have low: "x \<in> set (sh_queues ?q PriorityLow) \<longleftrightarrow>
      (if x = c then ev_Priority ?now = PriorityLow else x \<in> ?low)" for x
    using merge_set_queues [OF ok(1) c p] by auto
  have prevlow: "ev_Priority ?prev = PriorityLow" if "ev_Priority ?now = PriorityLow"
    using merge_low [OF that pd] by simp
  have at: "ev_DeduplicationKey (ev_at ?q x) =
      (if x = c then ev_DeduplicationKey e else ev_DeduplicationKey (ev_at q x))" for x
    by (simp add: coalesce_into_heap)
  have elow: "ev_Priority e = PriorityLow" if "ev_Priority ?now = PriorityLow"
    using that prevlow [OF that] p
    by (auto simp: merged_event_priority priorityGreater_def drain_order_def split: if_splits)
  have uniq: "x = y" if "x \<in> ?low" "y \<in> ?low"
      "ev_DeduplicationKey (ev_at q x) = ev_DeduplicationKey (ev_at q y)" "ev_DeduplicationKey (ev_at q x) \<noteq> []"
    for x y using ok(2) that unfolding dedupe_ok_def by blast
  have old: "gm_get (sh_dedupe q) k \<noteq> None \<longleftrightarrow> k \<noteq> [] \<and> (\<exists>x \<in> ?low. ev_DeduplicationKey (ev_at q x) = k)" for k
    using ok(2) unfolding dedupe_ok_def by blast
  have fresh: "ev_DeduplicationKey (ev_at q x) \<noteq> ev_DeduplicationKey e"
    if "x \<in> ?low" "ev_Priority ?now = PriorityLow" "ev_DeduplicationKey e \<noteq> []" for x
    using old [of "ev_DeduplicationKey e"] new elow that by metis
  have "gm_get (sh_dedupe ?q) k \<noteq> None \<longleftrightarrow>
      k \<noteq> [] \<and> (\<exists>x \<in> set (sh_queues ?q PriorityLow). ev_DeduplicationKey (ev_at ?q x) = k)" for k
  proof -
    have "gm_get (sh_dedupe ?q) k \<noteq> None \<longleftrightarrow>
        (ev_Priority ?now = PriorityLow \<and> k = ev_DeduplicationKey e \<and> k \<noteq> []) \<or>
        (gm_get (sh_dedupe q) k \<noteq> None \<and>
         \<not> (ev_Priority ?prev = PriorityLow \<and> k = ev_DeduplicationKey ?prev))"
      using old [of k] by (auto simp: coalesce_into_dedupe Let_def gomap_simps)
    also have "\<dots> \<longleftrightarrow> k \<noteq> [] \<and> (ev_Priority ?now = PriorityLow \<and> k = ev_DeduplicationKey e \<or>
        (\<exists>x \<in> ?low. x \<noteq> c \<and> ev_DeduplicationKey (ev_at q x) = k))"
      using old [of k] cin uniq by (metis (no_types, opaque_lifting))
    also have "\<dots> \<longleftrightarrow> k \<noteq> [] \<and> (\<exists>x \<in> set (sh_queues ?q PriorityLow). ev_DeduplicationKey (ev_at ?q x) = k)"
      unfolding Bex_def low at by auto
    finally show ?thesis .
  qed
  moreover have "x = y" if "x \<in> set (sh_queues ?q PriorityLow)" "y \<in> set (sh_queues ?q PriorityLow)"
      "ev_DeduplicationKey (ev_at ?q x) = ev_DeduplicationKey (ev_at ?q y)"
      "ev_DeduplicationKey (ev_at ?q x) \<noteq> []" for x y
    using that uniq fresh unfolding low at by (metis (no_types, opaque_lifting))
  moreover have "gm_ok (sh_dedupe ?q)"
    using ok(2) by (auto simp: coalesce_into_dedupe Let_def dedupe_ok_def)
  ultimately show ?thesis unfolding dedupe_ok_def by blast
qed

subsection \<open>Enqueueing\<close>

lemma enqueue_cases:
  defines "norm e \<equiv> e\<lparr>ev_Priority := normalizePriority (ev_Priority e)\<rparr>"
  obtains (same) "snd (enqueue q e) = q"
    | (merge) c where "gm_get (sh_coalesce q) (ev_CoalesceKey e) = Some c"
        "ev_Priority (norm e) = PriorityLow \<Longrightarrow> ev_DeduplicationKey e \<noteq> [] \<Longrightarrow>
           gm_get (sh_dedupe q) (ev_DeduplicationKey e) = None"
        "snd (enqueue q e) = coalesce_into q c (norm e)"
    | (append) "ev_CoalesceKey e \<noteq> [] \<Longrightarrow> gm_get (sh_coalesce q) (ev_CoalesceKey e) = None"
        "ev_Priority (norm e) = PriorityLow \<Longrightarrow> ev_DeduplicationKey e \<noteq> [] \<Longrightarrow>
           gm_get (sh_dedupe q) (ev_DeduplicationKey e) = None"
        "sh_pending q < sh_capacity q" "snd (enqueue q e) = append_event q (norm e)"
proof -
  let ?D = "ev_Priority (norm e) = PriorityLow \<and> ev_DeduplicationKey e \<noteq> [] \<and>
      gm_get (sh_dedupe q) (ev_DeduplicationKey e) \<noteq> None"
  let ?C = "if ev_CoalesceKey e \<noteq> [] then gm_get (sh_coalesce q) (ev_CoalesceKey e) else None"
  have eq: "snd (enqueue q e) =
      (if sh_closed q then q else if ?D then q
       else case ?C of Some c \<Rightarrow> coalesce_into q c (norm e)
         | None \<Rightarrow> if sh_pending q \<ge> sh_capacity q then q else append_event q (norm e))"
    by (auto simp: enqueue_def Let_def norm_def split: option.split)
  show thesis
  proof (cases "sh_closed q \<or> ?D \<or> (?C = None \<and> sh_pending q \<ge> sh_capacity q)")
    case True
    then show thesis using eq by (intro same) (auto split: option.split)
  next
    case False
    then have nd: "\<not> ?D" by blast
    show thesis
    proof (cases ?C)
      case None
      have room: "sh_pending q < sh_capacity q" using False None by (metis not_le)
      then have "snd (enqueue q e) = append_event q (norm e)"
        unfolding eq None if_not_P [OF nd] using False by simp
      then show thesis using None nd room by (intro append) (metis, metis)
    next
      case (Some c)
      have "snd (enqueue q e) = coalesce_into q c (norm e)"
        unfolding eq Some if_not_P [OF nd] using False by simp
      then show thesis using Some nd by (intro merge [of c]) (metis option.distinct(1), metis)
    qed
  qed
qed

lemma enqueue_inv:
  assumes inv: "shard_inv q" and nw: "sh_nextOrder q \<noteq> -1"
  shows "shard_inv (snd (enqueue q e0))"
proof -
  have ok: "queues_ok q" "coalesce_ok q" "dedupe_ok q" using inv by (simp_all add: shard_inv_def)
  let ?e = "e0\<lparr>ev_Priority := normalizePriority (ev_Priority e0)\<rparr>"
  have p: "ev_Priority ?e \<in> set drain_order" by simp
  show ?thesis
  proof (cases rule: enqueue_cases [of q e0])
    case same
    with inv show ?thesis by simp
  next
    case (merge c)
    then have "c \<in> queued q" using ok(2) by (simp add: coalesce_ok_def)
    then have "shard_inv (coalesce_into q c ?e)" unfolding shard_inv_def
      using merge(1,2) ok p by (intro conjI merge_queues_ok merge_coalesce_ok merge_dedupe_ok) simp_all
    with merge show ?thesis by simp
  next
    case append
    have "shard_inv (append_event q ?e)" unfolding shard_inv_def
      using append(1-3) ok p nw
      by (intro conjI append_queues_ok append_coalesce_ok append_dedupe_ok) simp_all
    with append show ?thesis by simp
  qed
qed

subsection \<open>Taking the next event\<close>

lemma remove_nth_eq_remove1: "distinct xs \<Longrightarrow> i < length xs \<Longrightarrow> take i xs @ drop (Suc i) xs = remove1 (xs ! i) xs"
proof (induction xs arbitrary: i)
  case Nil
  then show ?case by simp
next
  case (Cons x xs)
  then show ?case by (cases i) auto
qed

lemma in_next_candidates:
  "(p, i, x) \<in> set (next_candidates q) \<longleftrightarrow> p \<in> set drain_order \<and> i < length (sh_queues q p) \<and> sh_queues q p ! i = x"
  by (force simp: next_candidates_def in_set_enumerate_eq)

lemma hasEarlier_iff:
  "hasEarlierForDeviceLocked q c \<longleftrightarrow>
     (\<exists>x \<in> queued q. ev_DeviceID (ev_at q x) = ev_DeviceID (ev_at q c) \<and> x < c)"
  by (auto simp: hasEarlierForDeviceLocked_def list_ex_iff queued_def)

lemma queue_total_zero: "queues_ok q \<Longrightarrow> sh_pending q = 0 \<longleftrightarrow> queued q = {}"
proof -
  assume "queues_ok q"
  then have "sh_pending q = 0 \<longleftrightarrow> queue_total q = 0" by (simp add: queues_ok_def)
  then show ?thesis by (simp add: queue_total_def queued_def drain_order_def)
qed

lemma finite_queued [simp]: "finite (queued q)"
  by (simp add: queued_def)

text \<open>The oldest queued event has no earlier one, so a non-empty shard always delivers.\<close>

lemma next_finds:
  assumes ok: "queues_ok q" and ne: "queued q \<noteq> {}"
  shows "find (\<lambda>(p, index, x). \<not> hasEarlierForDeviceLocked q x) (next_candidates q) \<noteq> None"
proof -
  have mem: "Min (queued q) \<in> queued q" using ne by simp
  then obtain p i where "(p, i, Min (queued q)) \<in> set (next_candidates q)"
    unfolding in_next_candidates queued_def by (auto simp: in_set_conv_nth)
  moreover have "\<not> hasEarlierForDeviceLocked q (Min (queued q))"
    using ne by (auto simp: hasEarlier_iff leD)
  then have "(\<lambda>(p, index, x). \<not> hasEarlierForDeviceLocked q x) (p, i, Min (queued q))" by simp
  ultimately show ?thesis unfolding find_None_iff by blast
qed

lemma next_event_cases:
  assumes ok: "queues_ok q"
  obtains (wait) "queued q = {}" "next_event q = (if sh_closed q then NextDone else NextWait)"
    | (take) p i x where "next_event q = NextEvent (ev_at q x) (take_event q p i x)"
        "(p, i, x) \<in> set (next_candidates q)" "\<not> hasEarlierForDeviceLocked q x"
        "find (\<lambda>(p, index, x). \<not> hasEarlierForDeviceLocked q x) (next_candidates q) = Some (p, i, x)"
proof (cases "queued q = {}")
  case True
  with ok show ?thesis by (intro wait) (auto simp: next_event_def queue_total_zero)
next
  case False
  with ok obtain p i x where f: "find (\<lambda>(p, index, x). \<not> hasEarlierForDeviceLocked q x) (next_candidates q) = Some (p, i, x)"
    using next_finds by (metis not_None_eq prod_cases3)
  then have "(p, i, x) \<in> set (next_candidates q)" "\<not> hasEarlierForDeviceLocked q x"
    by (auto simp: find_Some_iff in_set_conv_nth)
  moreover have "next_event q = NextEvent (ev_at q x) (take_event q p i x)"
    using False ok f by (simp add: next_event_def queue_total_zero)
  ultimately show ?thesis using f by (intro take)
qed

lemma take_event_sel [simp]:
  "sh_queues (take_event q p i x) =
     (sh_queues q)(p := take i (sh_queues q p) @ drop (Suc i) (sh_queues q p))"
  "sh_heap (take_event q p i x) = sh_heap q"
  "sh_pending (take_event q p i x) = sh_pending q - 1"
  "sh_capacity (take_event q p i x) = sh_capacity q"
  "sh_nextOrder (take_event q p i x) = sh_nextOrder q"
  "sh_closed (take_event q p i x) = sh_closed q"
  "sh_coalesce (take_event q p i x) =
     (if ev_CoalesceKey (ev_at q x) \<noteq> [] \<and> gm_get (sh_coalesce q) (ev_CoalesceKey (ev_at q x)) = Some x
      then gm_del (ev_CoalesceKey (ev_at q x)) (sh_coalesce q) else sh_coalesce q)"
  "sh_dedupe (take_event q p i x) =
     (if ev_Priority (ev_at q x) = PriorityLow \<and> ev_DeduplicationKey (ev_at q x) \<noteq> []
      then gm_del (ev_DeduplicationKey (ev_at q x)) (sh_dedupe q) else sh_dedupe q)"
  by (simp_all add: take_event_def removeAtLocked_def Let_def)

lemma take_event_inv:
  assumes inv: "shard_inv q" and cand: "(p, i, x) \<in> set (next_candidates q)"
  shows "shard_inv (take_event q p i x) \<and> queued (take_event q p i x) = queued q - {x}"
proof -
  let ?q = "take_event q p i x"
  have ok: "queues_ok q" "coalesce_ok q" "dedupe_ok q" using inv by (simp_all add: shard_inv_def)
  have pd: "p \<in> set drain_order" and i: "i < length (sh_queues q p)" and x: "sh_queues q p ! i = x"
    using cand by (simp_all add: in_next_candidates)
  have dist: "distinct (sh_queues q p')" for p' using ok(1) by (simp add: queues_ok_def)
  have rem: "sh_queues ?q = (sh_queues q)(p := remove1 x (sh_queues q p))"
    using remove_nth_eq_remove1 [OF dist i] x by simp
  have xp: "x \<in> set (sh_queues q p)" using i x by auto
  have prio: "ev_Priority (ev_at q x) = p" using ok(1) xp unfolding queues_ok_def by blast
  have only: "x \<in> set (sh_queues q p') \<Longrightarrow> p' = p" for p' using ok(1) prio unfolding queues_ok_def by blast
  have sets: "set (sh_queues ?q p') = set (sh_queues q p') - {x}" for p'
    unfolding rem using dist only by auto
  have Q: "queued ?q = queued q - {x}" by (auto simp: queued_def sets simp del: take_event_sel(1))
  have "queue_total ?q + 1 = queue_total q"
    unfolding queue_total_def rem by (rule queue_total_remove [of p x "sh_queues q", OF pd xp])
  then have "sh_pending ?q = int (queue_total ?q)" using ok(1) by (simp add: queues_ok_def)
  moreover have "distinct (sh_queues ?q p')" for p' unfolding rem using dist by simp
  moreover have "\<forall>p' y. y \<in> set (sh_queues ?q p') \<longrightarrow> p' \<in> set drain_order \<and> y \<le> sh_nextOrder ?q \<and>
      sh_heap ?q y \<noteq> None \<and> ev_Priority (ev_at ?q y) = p'"
    using ok(1) unfolding sets take_event_sel(2,5) queues_ok_def by blast
  moreover have "sh_pending ?q \<le> sh_capacity ?q" using ok(1) by (simp add: queues_ok_def)
  ultimately have "queues_ok ?q" unfolding queues_ok_def by blast
  moreover have "y = x" if "y \<in> queued q" "x \<in> queued q"
      "ev_CoalesceKey (ev_at q y) = ev_CoalesceKey (ev_at q x)" "ev_CoalesceKey (ev_at q x) \<noteq> []" for y
    using ok(2) that unfolding coalesce_ok_def by (metis option.inject)
  then have "coalesce_ok ?q"
    using ok(2) unfolding coalesce_ok_def Q take_event_sel(2,7) by (auto simp: gomap_simps)
  moreover have "dedupe_ok ?q"
  proof -
    have "x \<in> set (sh_queues q PriorityLow) \<longleftrightarrow> p = PriorityLow" using only xp by blast
    then show ?thesis
      using ok(3) prio unfolding dedupe_ok_def sets take_event_sel(2,8) by (auto simp: gomap_simps)
  qed
  ultimately show ?thesis using Q by (simp add: shard_inv_def)
qed

section \<open>Runs of a shard\<close>

definition shard_init :: "'p shard \<Rightarrow> bool" where
  "shard_init q \<longleftrightarrow> 0 < sh_capacity q \<and> q = newDispatcherShard (sh_capacity q)"

text \<open>
  Producers, the worker and \<open>Close\<close> take turns under the shard's mutex. The order counter
  is not at its maximum when a producer enters: fewer than \<open>2\<^sup>6\<^sup>4\<close> events ever enter a shard.
\<close>

inductive shard_step :: "'p shard \<Rightarrow> 'p shard \<Rightarrow> bool" where
  step_enqueue: "sh_nextOrder q \<noteq> -1 \<Longrightarrow> shard_step q (snd (enqueue q e))"
| step_next: "next_event q = NextEvent e q' \<Longrightarrow> shard_step q q'"
| step_close: "shard_step q (close_shard q)"

inductive_cases shard_stepE: "shard_step q q'"

lemma close_inv: "shard_inv q \<Longrightarrow> shard_inv (close_shard q)"
  by (simp add: shard_inv_def queues_ok_def coalesce_ok_def dedupe_ok_def close_shard_def queued_def
      queue_total_def)

lemma next_event_inv:
  assumes inv: "shard_inv q" and n: "next_event q = NextEvent e q'"
  shows "shard_inv q' \<and> (\<exists>x \<in> queued q. e = ev_at q x \<and> queued q' = queued q - {x} \<and>
    \<not> hasEarlierForDeviceLocked q x) \<and> sh_heap q' = sh_heap q \<and> sh_pending q' = sh_pending q - 1 \<and>
    sh_closed q' = sh_closed q \<and> sh_capacity q' = sh_capacity q"
proof -
  have ok: "queues_ok q" using inv by (simp add: shard_inv_def)
  from ok show ?thesis
  proof (cases rule: next_event_cases)
    case wait
    with n show ?thesis by (simp split: if_splits)
  next
    case (take p i x)
    then have "e = ev_at q x" and q': "q' = take_event q p i x" using n by simp_all
    moreover have "x \<in> queued q" using take(2) unfolding in_next_candidates queued_def by force
    ultimately show ?thesis using take(3) take_event_inv [OF inv take(2)] unfolding q' by auto
  qed
qed

interpretation shard_sys: invariant_system
  "shard_init :: 'p shard \<Rightarrow> bool" shard_step shard_inv
proof unfold_locales
  fix q :: "'p shard" assume "shard_init q"
  then show "shard_inv q" unfolding shard_init_def by (metis shard_inv_new order_less_imp_le)
next
  fix q q' :: "'p shard" assume inv: "shard_inv q" and "shard_step q q'"
  from this(2) show "shard_inv q'"
  proof (cases rule: shard_step.cases)
    case (step_enqueue e)
    with inv show ?thesis by (simp add: enqueue_inv)
  next
    case (step_next e)
    with inv show ?thesis by (blast dest: next_event_inv)
  next
    case step_close
    with inv show ?thesis by (simp add: close_inv)
  qed
qed

text \<open>
  The candidates come in falling priority, so the first deliverable one outranks every other
  deliverable one.
\<close>

lemma next_candidates_sorted:
  "sorted_wrt (\<lambda>a b. priority_rank (fst b) \<le> priority_rank (fst a)) (next_candidates q)"
proof -
  have "sorted_wrt (\<lambda>a b. priority_rank (fst b) \<le> priority_rank (fst a))
      (map (\<lambda>(i, x). (p, i, x)) xs)" for p :: priority and xs :: "(nat \<times> u64) list"
    by (induction xs) auto
  then show ?thesis
    by (auto simp: next_candidates_def drain_order_def sorted_wrt_append)
qed

lemma find_first_sorted:
  assumes "find P xs = Some a" and "sorted_wrt r xs" and "b \<in> set xs" and "P b"
  shows "a = b \<or> r a b"
  using assms by (induction xs) (auto split: if_splits)

lemma next_outranks:
  assumes ok: "queues_ok q" and n: "next_event q = NextEvent e q'"
    and y: "y \<in> queued q" "\<not> hasEarlierForDeviceLocked q y"
  shows "priority_rank (ev_Priority (ev_at q y)) \<le> priority_rank (ev_Priority e)"
  using ok
proof (cases rule: next_event_cases)
  case wait
  with y show ?thesis by simp
next
  case (take p i x)
  have prio: "(p', j, z) \<in> set (next_candidates q) \<Longrightarrow> ev_Priority (ev_at q z) = p'" for p' j z
    using ok by (auto simp: in_next_candidates queues_ok_def)
  obtain p' j where yc: "(p', j, y) \<in> set (next_candidates q)"
    using y(1) unfolding in_next_candidates queued_def by (auto simp: in_set_conv_nth)
  from find_first_sorted [OF take(4) next_candidates_sorted yc] y(2)
  have "(p, i, x) = (p', j, y) \<or> priority_rank p' \<le> priority_rank p" by auto
  moreover have "e = ev_at q x" using take(1) n by simp
  ultimately show ?thesis using prio [OF yc] prio [OF take(2)] by auto
qed

section \<open>Correctness of a shard\<close>

text \<open>
  C8. In every state a shard can reach, its counter of pending events is the number of queued
  events, lies between zero and the capacity, and \<open>next\<close> never runs into its panic.
\<close>

theorem shard_bounded_and_no_panic:
  assumes "reachable shard_init shard_step q"
  shows "sh_pending q = int (card (queued q)) \<and> 0 \<le> sh_pending q \<and> sh_pending q \<le> sh_capacity q \<and>
    next_event q \<noteq> NextPanic"
proof -
  have ok: "queues_ok q" using shard_sys.reachable_inv [OF assms] by (simp add: shard_inv_def)
  have "distinct (sh_queues q p)" for p using ok by (simp add: queues_ok_def)
  moreover have "x \<in> set (sh_queues q p) \<Longrightarrow> x \<in> set (sh_queues q p') \<Longrightarrow> p = p'" for x p p'
    using ok unfolding queues_ok_def by blast
  ultimately have "card (queued q) = queue_total q"
    unfolding queued_def queue_total_def drain_order_def
    by (subst card_UN_disjoint) (auto simp: distinct_card)
  moreover from ok have "next_event q \<noteq> NextPanic"
    by (cases rule: next_event_cases) auto
  ultimately show ?thesis using ok by (simp add: queues_ok_def)
qed

section \<open>Per-device order\<close>

text \<open>What a shard holds for a device, oldest first.\<close>

definition device_events :: "'p shard \<Rightarrow> string \<Rightarrow> 'p event list" where
  "device_events q d = filter (\<lambda>e. ev_DeviceID e = d) (map (ev_at q) (sorted_list_of_set (queued q)))"

text \<open>An accepted insertion of a new event, after normalisation, and a delivery.\<close>

definition shard_put :: "'p shard \<Rightarrow> 'p event \<Rightarrow> 'p shard \<Rightarrow> bool" where
  "shard_put q e q' \<longleftrightarrow> sh_nextOrder q \<noteq> -1 \<and>
     (\<exists>e0. enqueue q e0 = ((True, False, None), q') \<and>
        e = e0\<lparr>ev_Priority := normalizePriority (ev_Priority e0)\<rparr>)"

definition shard_get :: "'p shard \<Rightarrow> 'p event \<Rightarrow> 'p shard \<Rightarrow> bool" where
  "shard_get q e q' \<longleftrightarrow> next_event q = NextEvent e q'"

lemma enqueue_new: "enqueue q e0 = ((True, False, None), q') \<Longrightarrow>
   q' = append_event q (e0\<lparr>ev_Priority := normalizePriority (ev_Priority e0)\<rparr>)"
  by (simp add: enqueue_def Let_def split: if_splits option.splits)

lemma sorted_insert_last:
  fixes n :: "'a :: linorder"
  assumes "finite A" and "\<And>x. x \<in> A \<Longrightarrow> x < n"
  shows "sorted_list_of_set (insert n A) = sorted_list_of_set A @ [n]"
proof (rule sorted_list_of_set_unique [THEN iffD1])
  have "n \<notin> A" using assms(2) by blast
  then show "sorted_wrt (<) (sorted_list_of_set A @ [n]) \<and> set (sorted_list_of_set A @ [n]) = insert n A \<and>
      length (sorted_list_of_set A @ [n]) = card (insert n A)"
    using assms by (auto simp: sorted_wrt_append)
qed (use assms in simp)

lemma device_events_append:
  assumes inv: "shard_inv q" and nw: "sh_nextOrder q \<noteq> -1" and p: "ev_Priority e \<in> set drain_order"
  shows "device_events (append_event q e) d =
    (if d = ev_DeviceID e then device_events q d @ [e] else device_events q d)"
proof -
  have ok: "queues_ok q" using inv by (simp add: shard_inv_def)
  have old: "x \<in> queued q \<Longrightarrow> x < sh_nextOrder q + 1" for x
    using ok nw fresh_order by (auto simp: queued_def queues_ok_def)
  have m: "map (ev_at (append_event q e)) (sorted_list_of_set (queued q)) = map (ev_at q) (sorted_list_of_set (queued q))"
    using old by (intro map_cong) auto
  have l: "sorted_list_of_set (queued (append_event q e)) = sorted_list_of_set (queued q) @ [sh_nextOrder q + 1]"
    unfolding append_queued [OF p] using old by (intro sorted_insert_last) auto
  show ?thesis unfolding device_events_def l map_append m filter_append by simp
qed

text \<open>Removing the smallest element of a class removes the head of the filtered list.\<close>

lemma filter_remove_min:
  assumes "sorted_wrt (<) xs" and "x \<in> set xs" and "P x"
    and "\<And>y. y \<in> set xs \<Longrightarrow> P y \<Longrightarrow> (x :: 'a :: linorder) \<le> y"
  shows "filter P xs = x # filter P (remove1 x xs)"
  using assms
proof (induction xs)
  case Nil
  then show ?case by simp
next
  case (Cons a xs)
  show ?case
  proof (cases "a = x")
    case True
    with Cons.prems show ?thesis by simp
  next
    case False
    then have "a < x" using Cons.prems by auto
    then have "\<not> P a" using Cons.prems(4) [of a] by auto
    with False Cons show ?thesis by simp
  qed
qed

lemma filter_map_remove1_other: "\<not> P x \<Longrightarrow> filter P (remove1 x xs) = filter P xs"
  by (induction xs) auto

lemma device_events_next:
  assumes inv: "shard_inv q" and n: "next_event q = NextEvent e q'"
  shows "device_events q d = (if d = ev_DeviceID e then e # device_events q' d else device_events q' d)"
proof -
  from next_event_inv [OF inv n] obtain x where x: "x \<in> queued q" "e = ev_at q x"
      "queued q' = queued q - {x}" "\<not> hasEarlierForDeviceLocked q x" "sh_heap q' = sh_heap q"
    by auto
  let ?P = "\<lambda>y. ev_DeviceID (ev_at q y) = d" and ?xs = "sorted_list_of_set (queued q)"
  have sorted: "sorted_wrt (<) ?xs" by simp
  have rem: "sorted_list_of_set (queued q') = remove1 x ?xs"
    using x by (simp add: sorted_list_of_set_remove)
  have de: "device_events q d = map (ev_at q) (filter ?P ?xs)"
    and de': "device_events q' d = map (ev_at q) (filter ?P (remove1 x ?xs))"
    by (simp_all add: device_events_def filter_map o_def rem x(5))
  show ?thesis
  proof (cases "?P x")
    case True
    have "filter ?P ?xs = x # filter ?P (remove1 x ?xs)"
    proof (rule filter_remove_min [OF sorted])
      show "x \<in> set ?xs" using x by simp
      show "?P x" by (rule True)
      show "x \<le> y" if "y \<in> set ?xs" "?P y" for y
        using x(4) that True unfolding hasEarlier_iff by (auto simp: not_less)
    qed
    with de de' True x(2) show ?thesis by simp
  next
    case False
    with de de' x(2) show ?thesis by (simp add: filter_map_remove1_other)
  qed
qed

interpretation shard_fifo: keyed_fifo
  ev_DeviceID "device_events :: 'p shard \<Rightarrow> string \<Rightarrow> 'p event list" shard_put shard_get shard_inv
proof unfold_locales
  fix s t :: "'p shard" and e k assume inv: "shard_inv s"
  { assume put: "shard_put s e t"
    then obtain e0 where e0: "enqueue s e0 = ((True, False, None), t)"
        "e = e0\<lparr>ev_Priority := normalizePriority (ev_Priority e0)\<rparr>" "sh_nextOrder s \<noteq> -1"
      by (auto simp: shard_put_def)
    then have t: "t = append_event s e" by (simp add: enqueue_new)
    show "device_events t k = (if k = ev_DeviceID e then device_events s k @ [e] else device_events s k)"
      unfolding t using inv e0 by (intro device_events_append) simp_all
    show "shard_inv t" using enqueue_inv [OF inv e0(3), of e0] e0(1) by simp }
  assume get: "shard_get s e t"
  then have n: "next_event s = NextEvent e t" by (simp add: shard_get_def)
  show "device_events s k = (if k = ev_DeviceID e then e # device_events t k else device_events t k)"
    by (rule device_events_next [OF inv n])
  show "shard_inv t" using next_event_inv [OF inv n] by simp
qed


text \<open>
  Priority. The delivered event is one of the queued ones, leaves the queue, is the oldest
  of its device, and no other device's oldest event has a higher priority.
\<close>

theorem next_highest_priority:
  assumes "reachable shard_init shard_step q" and "next_event q = NextEvent e q'"
  shows "\<exists>x \<in> queued q. e = ev_at q x \<and> queued q' = queued q - {x} \<and>
    (\<forall>y \<in> queued q. ev_DeviceID (ev_at q y) = ev_DeviceID e \<longrightarrow> x \<le> y) \<and>
    (\<forall>y \<in> queued q. (\<forall>z \<in> queued q. ev_DeviceID (ev_at q z) = ev_DeviceID (ev_at q y) \<longrightarrow> y \<le> z) \<longrightarrow>
       priority_rank (ev_Priority (ev_at q y)) \<le> priority_rank (ev_Priority e))"
proof -
  have inv: "shard_inv q" by (rule shard_sys.reachable_inv [OF assms(1)])
  then have ok: "queues_ok q" by (simp add: shard_inv_def)
  from next_event_inv [OF inv assms(2)] obtain x where x: "x \<in> queued q" "e = ev_at q x"
      "queued q' = queued q - {x}" "\<not> hasEarlierForDeviceLocked q x" by auto
  have "\<forall>y \<in> queued q. ev_DeviceID (ev_at q y) = ev_DeviceID e \<longrightarrow> x \<le> y"
    using x(2,4) unfolding hasEarlier_iff by (meson not_less)
  moreover have "\<not> hasEarlierForDeviceLocked q y"
    if "\<forall>z \<in> queued q. ev_DeviceID (ev_at q z) = ev_DeviceID (ev_at q y) \<longrightarrow> y \<le> z" for y
    using that unfolding hasEarlier_iff by (meson not_less)
  ultimately show ?thesis using x next_outranks [OF ok assms(2)] by blast
qed

text \<open>
  Last write wins. An event with the coalescing key of a queued event is accepted even by
  a full shard, takes the queued event's place in the order, carries its own payload at the
  higher of the two priorities, and leaves every other event and the length unchanged.
\<close>

theorem enqueue_coalesces:
  assumes "reachable shard_init shard_step q" and "\<not> sh_closed q" and "x \<in> queued q"
    and "ev_CoalesceKey e \<noteq> []" and "ev_CoalesceKey (ev_at q x) = ev_CoalesceKey e"
    and "normalizePriority (ev_Priority e) \<noteq> PriorityLow \<or> ev_DeduplicationKey e = []"
  shows "\<exists>q'. enqueue q e = ((True, True, None), q') \<and> queued q' = queued q \<and>
    sh_pending q' = sh_pending q \<and> ev_Payload (ev_at q' x) = ev_Payload e \<and>
    priority_rank (ev_Priority (ev_at q' x)) =
      max (priority_rank (ev_Priority e)) (priority_rank (ev_Priority (ev_at q x))) \<and>
    (\<forall>y \<in> queued q. y \<noteq> x \<longrightarrow> ev_at q' y = ev_at q y)"
proof -
  have inv: "shard_inv q" by (rule shard_sys.reachable_inv [OF assms(1)])
  then have ok: "queues_ok q" "coalesce_ok q" by (simp_all add: shard_inv_def)
  define e' where "e' = e\<lparr>ev_Priority := normalizePriority (ev_Priority e)\<rparr>"
  have cur: "gm_get (sh_coalesce q) (ev_CoalesceKey e) = Some x"
    using ok(2) assms(3-5) by (simp add: coalesce_ok_def)
  then have enq: "enqueue q e = ((True, True, None), coalesce_into q x e')"
    using assms(2,4,6) by (auto simp: enqueue_def Let_def e'_def)
  have "priority_rank (ev_Priority e') = priority_rank (ev_Priority e)"
    by (cases "ev_Priority e") (simp_all add: e'_def)
  then have "priority_rank (ev_Priority (merged_event (ev_at q x) e')) =
      max (priority_rank (ev_Priority e)) (priority_rank (ev_Priority (ev_at q x)))"
    by (auto simp: merged_event_priority priorityGreater_def)
  moreover have "queued (coalesce_into q x e') = queued q"
    by (rule merge_queued_eq [OF ok(1) assms(3)]) (simp add: e'_def)
  ultimately show ?thesis using enq by (simp add: coalesce_into_heap e'_def)
qed

section \<open>Errors\<close>

text \<open>
  The rejections. \<open>enqueue\<close> fails exactly when the shard is closed, when a waiting
  low-priority event has the same deduplication key, or when the shard is full and there is
  nothing to merge into, in this order; a rejected event leaves the shard as it was.
\<close>

theorem enqueue_rejects:
  assumes "reachable shard_init shard_step q"
  shows "snd (snd (fst (enqueue q e))) =
     (if sh_closed q then Some ErrDispatcherClosed
      else if normalizePriority (ev_Priority e) = PriorityLow \<and> ev_DeduplicationKey e \<noteq> [] \<and>
        (\<exists>x \<in> set (sh_queues q PriorityLow). ev_DeduplicationKey (ev_at q x) = ev_DeduplicationKey e)
      then Some ErrLowPriorityDuplicate
      else if sh_pending q = sh_capacity q \<and>
        \<not> (ev_CoalesceKey e \<noteq> [] \<and> (\<exists>x \<in> queued q. ev_CoalesceKey (ev_at q x) = ev_CoalesceKey e))
      then Some ErrQueueFull else None) \<and>
     (snd (snd (fst (enqueue q e))) \<noteq> None \<longrightarrow> snd (enqueue q e) = q)"
proof -
  have inv: "shard_inv q" by (rule shard_sys.reachable_inv [OF assms])
  define D where "D \<longleftrightarrow> normalizePriority (ev_Priority e) = PriorityLow \<and> ev_DeduplicationKey e \<noteq> [] \<and>
    gm_get (sh_dedupe q) (ev_DeduplicationKey e) \<noteq> None"
  define C where "C = (if ev_CoalesceKey e \<noteq> [] then gm_get (sh_coalesce q) (ev_CoalesceKey e) else None)"
  let ?e = "e\<lparr>ev_Priority := normalizePriority (ev_Priority e)\<rparr>"
  have eq: "enqueue q e =
      (if sh_closed q then ((False, False, Some ErrDispatcherClosed), q)
       else if D then ((False, False, Some ErrLowPriorityDuplicate), q)
       else case C of Some c \<Rightarrow> ((True, True, None), coalesce_into q c ?e)
         | None \<Rightarrow> if sh_pending q \<ge> sh_capacity q then ((False, False, Some ErrQueueFull), q)
                   else ((True, False, None), append_event q ?e))"
    by (simp add: enqueue_def Let_def D_def C_def)
  have D: "normalizePriority (ev_Priority e) = PriorityLow \<and> ev_DeduplicationKey e \<noteq> [] \<and>
      (\<exists>x \<in> set (sh_queues q PriorityLow). ev_DeduplicationKey (ev_at q x) = ev_DeduplicationKey e) \<longleftrightarrow> D"
    using inv unfolding shard_inv_def dedupe_ok_def D_def by blast
  have C: "ev_CoalesceKey e \<noteq> [] \<and> (\<exists>x \<in> queued q. ev_CoalesceKey (ev_at q x) = ev_CoalesceKey e) \<longleftrightarrow> C \<noteq> None"
    using inv unfolding shard_inv_def coalesce_ok_def C_def by (metis not_None_eq)
  have cap: "sh_capacity q \<le> sh_pending q \<longleftrightarrow> sh_pending q = sh_capacity q"
    using inv by (auto simp: shard_inv_def queues_ok_def)
  show ?thesis unfolding D C eq by (cases C) (simp_all add: cap)
qed

section \<open>Draining\<close>

text \<open>
  A worker's loop on its shard, \<open>run\<close>, after the last producer: the handled events, or
  \<open>None\<close> when the worker still waits, panics or the bound on the rounds is used up.
\<close>

fun drain :: "nat \<Rightarrow> 'p shard \<Rightarrow> 'p event list option" where
  "drain rounds q =
     (case next_event q of
        NextDone \<Rightarrow> Some []
      | NextEvent e q' \<Rightarrow> (case rounds of 0 \<Rightarrow> None | Suc n \<Rightarrow> map_option ((#) e) (drain n q'))
      | _ \<Rightarrow> None)"

declare drain.simps [simp del]

lemma device_events_empty: "queued q = {} \<Longrightarrow> device_events q d = []"
  by (simp add: device_events_def)

lemma drain_complete:
  assumes "shard_inv q" and "sh_closed q"
  shows "\<exists>es. drain (nat (sh_pending q)) q = Some es \<and> int (length es) = sh_pending q \<and>
    (\<forall>d. filter (\<lambda>e. ev_DeviceID e = d) es = device_events q d)"
  using assms
proof (induction "nat (sh_pending q)" arbitrary: q)
  case 0
  then have ok: "queues_ok q" by (simp add: shard_inv_def)
  with 0 have p0: "sh_pending q = 0" by (simp add: queues_ok_def)
  then have "next_event q = NextDone" using 0 by (simp add: next_event_def)
  moreover have "queued q = {}" using p0 ok queue_total_zero by blast
  ultimately show ?case using p0 by (simp add: drain.simps [of _ q] device_events_empty)
next
  case (Suc n)
  then have ok: "queues_ok q" by (simp add: shard_inv_def)
  have pos: "sh_pending q = int (Suc n)" using Suc.hyps(2) by linarith
  then have "queued q \<noteq> {}" using queue_total_zero [OF ok] by simp
  then obtain e q' where n: "next_event q = NextEvent e q'"
    by (cases rule: next_event_cases [OF ok]) auto
  from next_event_inv [OF Suc.prems(1) n] Suc.prems(2) pos
  have q': "shard_inv q'" "sh_closed q'" "n = nat (sh_pending q')" "sh_pending q' = int n" by auto
  from Suc.hyps(1) [OF q'(3,1,2)] obtain es where es: "drain (nat (sh_pending q')) q' = Some es"
      "int (length es) = sh_pending q'" "\<And>d. filter (\<lambda>e. ev_DeviceID e = d) es = device_events q' d" by blast
  have "drain (Suc n) q = Some (e # es)" using n es(1) q'(4) by (simp add: drain.simps [of "Suc n"])
  moreover have "filter (\<lambda>e. ev_DeviceID e = d) (e # es) = device_events q d" for d
    using device_events_next [OF Suc.prems(1) n, of d] es(3) by simp
  ultimately show ?case using pos es(2) q'(4) by (intro exI [of _ "e # es"]) (simp add: nat_add_distrib)
qed

text \<open>
  C27. Shutdown loses nothing. After \<open>Close\<close> the worker of a shard delivers every pending
  event, exactly as many as are pending and in each device's order, and then returns.
\<close>

theorem close_drains_everything:
  assumes "reachable shard_init shard_step q"
  shows "\<exists>es. drain (nat (sh_pending q)) (close_shard q) = Some es \<and> int (length es) = sh_pending q \<and>
    (\<forall>d. filter (\<lambda>e. ev_DeviceID e = d) es = device_events q d)"
proof -
  have "shard_inv (close_shard q)" using shard_sys.reachable_inv [OF assms] by (rule close_inv)
  from drain_complete [OF this] show ?thesis
    by (simp add: close_shard_def device_events_def queued_def)
qed

section \<open>The dispatcher routes a device to one shard\<close>

lemma shard_of_less: "0 < n \<Longrightarrow> n < 2 ^ 32 \<Longrightarrow> shard_of d n < n"
  by (simp add: shard_of_def unat_mod unat_of_nat)

definition dispatcher_inv :: "'p dispatcher \<Rightarrow> bool" where
  "dispatcher_inv d \<longleftrightarrow> 0 < length (d_shards d) \<and> length (d_shards d) < 2 ^ 32 \<and>
     (\<forall>i < length (d_shards d). shard_inv (d_shards d ! i) \<and>
        (\<forall>x \<in> queued (d_shards d ! i).
           shard_of (ev_DeviceID (ev_at (d_shards d ! i) x)) (length (d_shards d)) = i))"

lemma enqueue_devices:
  assumes inv: "shard_inv q" and nw: "sh_nextOrder q \<noteq> -1" and x: "x \<in> queued (snd (enqueue q e))"
  shows "ev_DeviceID (ev_at (snd (enqueue q e)) x) = ev_DeviceID e \<or>
    (x \<in> queued q \<and> ev_at (snd (enqueue q e)) x = ev_at q x)"
proof -
  let ?e = "e\<lparr>ev_Priority := normalizePriority (ev_Priority e)\<rparr>"
  have ok: "queues_ok q" "coalesce_ok q" using inv by (simp_all add: shard_inv_def)
  have p: "ev_Priority ?e \<in> set drain_order" by simp
  show ?thesis
  proof (cases rule: enqueue_cases [of q e])
    case same
    with x show ?thesis by simp
  next
    case (merge c)
    then have "c \<in> queued q" using ok(2) by (simp add: coalesce_ok_def)
    with x merge merge_queued_eq [OF ok(1) _ p] show ?thesis by (auto simp: coalesce_into_heap)
  next
    case append
    with x append_queued [OF p, of q] show ?thesis by auto
  qed
qed

lemma dispatcher_inv_update:
  assumes "dispatcher_inv d" and "shard_inv q"
    and "\<And>x. x \<in> queued q \<Longrightarrow> shard_of (ev_DeviceID (ev_at q x)) (length (d_shards d)) = i"
    and "d_shards d' = (d_shards d)[i := q]"
  shows "dispatcher_inv d'"
proof -
  have "shard_inv (d_shards d' ! j) \<and> (\<forall>x \<in> queued (d_shards d' ! j).
      shard_of (ev_DeviceID (ev_at (d_shards d' ! j) x)) (length (d_shards d)) = j)" if "j < length (d_shards d)" for j
    using assms that by (cases "j = i") (auto simp: dispatcher_inv_def)
  then show ?thesis using assms(1,4) by (auto simp: dispatcher_inv_def)
qed

lemma publish_cases:
  obtains (closed) "d_closed d" "publish now nano seq d e = (Some ErrDispatcherClosed, d)"
    | (open_) e' where "ev_DeviceID e' = ev_DeviceID e"
        "d_shards (snd (publish now nano seq d e)) =
          (let i = shard_of (ev_DeviceID e) (length (d_shards d))
           in (d_shards d)[i := snd (enqueue (d_shards d ! i) e')])"
        "d_closed (snd (publish now nano seq d e)) = d_closed d"
proof (cases "d_closed d")
  case True
  then show ?thesis by (intro closed) (simp_all add: publish_def)
next
  case False
  define e' where "e' = (if ev_TraceID e = []
      then e\<lparr>ev_TraceID := ''event-'' @ hex_int nano @ ''-'' @ hex_nat (unat seq)\<rparr> else e)\<lparr>ev_enqueuedAt := now\<rparr>"
  have "ev_DeviceID e' = ev_DeviceID e" by (simp add: e'_def)
  with False show ?thesis
    by (intro open_ [of e']) (simp_all add: publish_def Let_def e'_def [symmetric] split: prod.splits)
qed

lemma publish_inv:
  assumes inv: "dispatcher_inv d"
    and nw: "\<And>q. q \<in> set (d_shards d) \<Longrightarrow> sh_nextOrder q \<noteq> -1"
  shows "dispatcher_inv (snd (publish now nano seq d e))"
proof (cases rule: publish_cases [of d now nano seq e])
  case closed
  with inv show ?thesis by simp
next
  case (open_ e')
  let ?n = "length (d_shards d)" and ?i = "shard_of (ev_DeviceID e) (length (d_shards d))"
  let ?q = "d_shards d ! ?i"
  have i: "?i < ?n" using inv by (simp add: dispatcher_inv_def shard_of_less)
  have sinv: "shard_inv ?q" using inv i by (simp add: dispatcher_inv_def)
  have snw: "sh_nextOrder ?q \<noteq> -1" using nw i by simp
  show ?thesis
  proof (rule dispatcher_inv_update [OF inv enqueue_inv [OF sinv snw, of e']])
    show "d_shards (snd (publish now nano seq d e)) = (d_shards d)[?i := snd (enqueue ?q e')]"
      using open_(2) by (simp add: Let_def)
    show "shard_of (ev_DeviceID (ev_at (snd (enqueue ?q e')) x)) ?n = ?i" if "x \<in> queued (snd (enqueue ?q e'))" for x
      using enqueue_devices [OF sinv snw that] open_(1) inv i by (auto simp: dispatcher_inv_def)
  qed
qed

lemma run_once_inv:
  assumes inv: "dispatcher_inv d" and i: "i < length (d_shards d)"
    and r: "run_once i started finished d = Some (e, d')"
  shows "dispatcher_inv d' \<and> shard_of (ev_DeviceID e) (length (d_shards d)) = i"
proof -
  let ?q = "d_shards d ! i"
  have sinv: "shard_inv ?q" using inv i by (simp add: dispatcher_inv_def)
  from r obtain q' where n: "next_event ?q = NextEvent e q'"
    and d': "d_shards d' = (d_shards d)[i := q']"
    by (auto simp: run_once_def record_handled_def Let_def split: next_result.splits)
  from next_event_inv [OF sinv n] obtain x where x: "shard_inv q'" "x \<in> queued ?q" "e = ev_at ?q x"
      "queued q' = queued ?q - {x}" "sh_heap q' = sh_heap ?q" by auto
  have "dispatcher_inv d'"
    using x inv i by (intro dispatcher_inv_update [OF inv x(1) _ d']) (auto simp: dispatcher_inv_def)
  moreover have "shard_of (ev_DeviceID e) (length (d_shards d)) = i"
    using x inv i by (simp add: dispatcher_inv_def)
  ultimately show ?thesis ..
qed

section \<open>Runs of the dispatcher\<close>

text \<open>
  Publishers, the workers (one per shard) and \<open>Close\<close> interleave. The shard count of the
  configuration fits the 32 bits of the hash.
\<close>

definition dispatcher_init :: "'p dispatcher \<Rightarrow> bool" where
  "dispatcher_init d \<longleftrightarrow> (\<exists>c. cfg_ShardCount c < 2 ^ 32 \<and> d = newDispatcherWithConfig c)"

inductive dispatcher_step :: "'p dispatcher \<Rightarrow> 'p dispatcher \<Rightarrow> bool" where
  step_publish: "(\<And>q. q \<in> set (d_shards d) \<Longrightarrow> sh_nextOrder q \<noteq> -1) \<Longrightarrow>
     dispatcher_step d (snd (publish now nano seq d e))"
| step_run: "i < length (d_shards d) \<Longrightarrow> run_once i started finished d = Some (e, d') \<Longrightarrow>
     dispatcher_step d d'"
| step_shutdown: "dispatcher_step d (close_dispatcher d)"

lemma dispatcher_inv_new: "cfg_ShardCount c < 2 ^ 32 \<Longrightarrow> dispatcher_inv (newDispatcherWithConfig c)"
proof -
  assume c: "cfg_ShardCount c < 2 ^ 32"
  have n: "0 < cfg_ShardCount (normalized c)" "cfg_ShardCount (normalized c) < 2 ^ 32"
      "0 < cfg_QueueSize (normalized c)"
    using c by (auto simp: normalized_def Let_def DefaultShardCount_def DefaultQueueSize_def)
  have "shard_inv (newDispatcherShard (cfg_QueueSize (normalized c)))"
    using n(3) by (intro shard_inv_new) simp
  moreover have "queued (newDispatcherShard k) = {}" for k
    by (simp add: queued_def newDispatcherShard_def)
  ultimately show ?thesis
    using n(1,2) by (auto simp: dispatcher_inv_def newDispatcherWithConfig_def Let_def)
qed

lemma close_dispatcher_inv: "dispatcher_inv d \<Longrightarrow> dispatcher_inv (close_dispatcher d)"
proof -
  assume inv: "dispatcher_inv d"
  have "queued (close_shard q) = queued q" "sh_heap (close_shard q) = sh_heap q" for q :: "'a shard"
    by (simp_all add: queued_def close_shard_def)
  with inv show ?thesis by (auto simp: dispatcher_inv_def close_dispatcher_def close_inv)
qed

interpretation dispatcher_sys: invariant_system
  "dispatcher_init :: 'p dispatcher \<Rightarrow> bool" dispatcher_step dispatcher_inv
proof unfold_locales
  fix d :: "'p dispatcher" assume "dispatcher_init d"
  then show "dispatcher_inv d" by (auto simp: dispatcher_init_def dispatcher_inv_new)
next
  fix d d' :: "'p dispatcher" assume inv: "dispatcher_inv d" and "dispatcher_step d d'"
  from this(2) show "dispatcher_inv d'"
    by cases (use inv in \<open>auto dest: publish_inv run_once_inv close_dispatcher_inv\<close>)
qed

lemma shards_pending_le: "(\<And>q. q \<in> set qs \<Longrightarrow> queues_ok q) \<Longrightarrow>
  0 \<le> sum_list (map pendingCount qs) \<and> sum_list (map pendingCount qs) \<le> sum_list (map sh_capacity qs)"
proof (induction qs)
  case Nil
  show ?case by simp
next
  case (Cons q qs)
  then have "queues_ok q" by simp
  then have "0 \<le> pendingCount q \<and> pendingCount q \<le> sh_capacity q"
    by (simp add: queues_ok_def pendingCount_def)
  with Cons show ?case by fastforce
qed

text \<open>
  Routing and back-pressure. In every state the dispatcher can reach, the hash of a device
  names an existing shard, every waiting event sits in the shard of its device, so that only
  the worker of that shard ever handles the device, and the pending events never exceed the
  capacity of the bus.
\<close>

theorem dispatcher_routes_and_bounded:
  assumes "reachable dispatcher_init dispatcher_step d"
  shows "(\<forall>device. shard_of device (length (d_shards d)) < length (d_shards d)) \<and>
    (\<forall>i < length (d_shards d). \<forall>x \<in> queued (d_shards d ! i).
       shard_of (ev_DeviceID (ev_at (d_shards d ! i) x)) (length (d_shards d)) = i) \<and>
    (\<forall>i < length (d_shards d). \<forall>started finished e d'.
       run_once i started finished d = Some (e, d') \<longrightarrow> shard_of (ev_DeviceID e) (length (d_shards d)) = i) \<and>
    0 \<le> bus_pending d \<and> bus_pending d \<le> bus_capacity d"
proof -
  have inv: "dispatcher_inv d" by (rule dispatcher_sys.reachable_inv [OF assms])
  then have "\<And>q. q \<in> set (d_shards d) \<Longrightarrow> queues_ok q"
    by (auto simp: dispatcher_inv_def shard_inv_def in_set_conv_nth)
  from shards_pending_le [OF this] have "0 \<le> bus_pending d \<and> bus_pending d \<le> bus_capacity d"
    by (simp add: bus_pending_def bus_capacity_def)
  moreover have "\<forall>device. shard_of device (length (d_shards d)) < length (d_shards d)"
    using inv by (simp add: dispatcher_inv_def shard_of_less)
  ultimately show ?thesis using inv run_once_inv [OF inv] by (simp add: dispatcher_inv_def)
qed

section \<open>Concrete runs\<close>

text \<open>
  A shard of capacity two with a normal event of a lamp and a critical one of a lock, and one
  more event that merges with the lamp's.
\<close>

definition lamp_event :: "nat event" where
  "lamp_event = \<lparr>ev_DeviceID = ''lamp'', ev_TraceID = ''t1'', ev_Payload = 1, ev_Priority = PriorityNormal,
     ev_CoalesceKey = ''k'', ev_DeduplicationKey = [], ev_enqueuedAt = 0\<rparr>"

definition lock_event :: "nat event" where
  "lock_event = \<lparr>ev_DeviceID = ''lock'', ev_TraceID = ''t2'', ev_Payload = 2, ev_Priority = PriorityCritical,
     ev_CoalesceKey = [], ev_DeduplicationKey = [], ev_enqueuedAt = 0\<rparr>"

definition shard1 :: "nat shard" where
  "shard1 = snd (enqueue (newDispatcherShard 2) lamp_event)"

definition shard2 :: "nat shard" where
  "shard2 = snd (enqueue shard1 lock_event)"

lemmas sample_shard_defs = shard1_def shard2_def lamp_event_def lock_event_def newDispatcherShard_def
  enqueue_def append_event_def Let_def

lemma shard1_reachable: "reachable shard_init shard_step shard1"
  unfolding shard1_def
  by (rule reach_step [where s = "newDispatcherShard 2"], rule reach_init,
      simp add: shard_init_def newDispatcherShard_def,
      rule step_enqueue, simp add: newDispatcherShard_def)

lemma shard2_reachable: "reachable shard_init shard_step shard2"
  unfolding shard2_def
  by (rule reach_step [OF shard1_reachable], rule step_enqueue, simp add: sample_shard_defs)

lemma shard2_sel:
  "sh_closed shard2 = False" "sh_pending shard2 = 2" "sh_capacity shard2 = 2"
  "sh_queues shard2 = (\<lambda>_. [])(PriorityNormal := [1], PriorityCritical := [2])"
  "sh_heap shard2 = [1 \<mapsto> lamp_event, 2 \<mapsto> lock_event]"
  "sh_coalesce shard2 = [(''k'', 1)]" "sh_dedupe shard2 = []" "sh_nextOrder shard2 = 2"
  by (simp_all add: sample_shard_defs)

lemma shard2_queued: "queued shard2 = {1, 2}"
  by (auto simp: queued_def drain_order_def shard2_sel)

lemma shard2_next: "next_event shard2 = NextEvent lock_event (take_event shard2 PriorityCritical 0 2)"
  by (simp add: next_event_def next_candidates_def drain_order_def shard2_sel hasEarlierForDeviceLocked_def
      lamp_event_def lock_event_def)

theorem shard_bounded_and_no_panic_witness: "sh_pending shard2 = 2 \<and> next_event shard2 \<noteq> NextPanic"
  using shard_bounded_and_no_panic [OF shard2_reachable] by (simp add: shard2_sel)

lemma shard2_trace:
  "fifo_trace shard_put shard_get shard1 [lock_event] [lock_event] (take_event shard2 PriorityCritical 0 2)"
proof -
  have "sh_nextOrder shard1 \<noteq> -1" "fst (enqueue shard1 lock_event) = (True, False, None)"
      "lock_event = lock_event\<lparr>ev_Priority := normalizePriority (ev_Priority lock_event)\<rparr>"
    by (simp_all add: sample_shard_defs)
  then have put: "shard_put shard1 lock_event shard2"
    unfolding shard_put_def shard2_def by (metis prod.collapse)
  have "shard_get shard2 lock_event (take_event shard2 PriorityCritical 0 2)"
    by (simp add: shard_get_def shard2_next)
  then have "fifo_trace shard_put shard_get shard1 ([] @ [lock_event]) ([] @ [lock_event])
      (take_event shard2 PriorityCritical 0 2)"
    using put by (intro ft_get [where t = shard2] ft_put [where t = shard1] ft_nil)
  then show ?thesis by simp
qed


theorem next_highest_priority_witness:
  "\<exists>x \<in> queued shard2. lock_event = ev_at shard2 x \<and>
     queued (take_event shard2 PriorityCritical 0 2) = queued shard2 - {x}"
  using next_highest_priority [OF shard2_reachable shard2_next] by blast

theorem enqueue_coalesces_witness:
  "\<exists>q'. enqueue shard2 (lamp_event\<lparr>ev_Payload := 7\<rparr>) = ((True, True, None), q') \<and>
     sh_pending q' = 2 \<and> ev_Payload (ev_at q' 1) = 7"
  using enqueue_coalesces [OF shard2_reachable, of 1 "lamp_event\<lparr>ev_Payload := 7\<rparr>"]
  by (auto simp: shard2_sel shard2_queued lamp_event_def)

theorem enqueue_rejects_witness: "snd (snd (fst (enqueue shard2 lock_event))) = Some ErrQueueFull"
  using enqueue_rejects [OF shard2_reachable, of lock_event] by (simp add: shard2_sel lock_event_def)

theorem close_drains_everything_witness:
  "\<exists>es. drain 2 (close_shard shard2) = Some es \<and> int (length es) = 2"
  using close_drains_everything [OF shard2_reachable] by (auto simp: shard2_sel)

theorem dispatcher_routes_and_bounded_witness:
  "shard_of ''lamp'' 4 < 4 \<and>
   bus_pending (newDispatcherWithConfig \<lparr>cfg_ShardCount = 4, cfg_QueueSize = 8\<rparr> :: nat dispatcher) \<le> 32"
proof -
  let ?c = "\<lparr>cfg_ShardCount = 4, cfg_QueueSize = 8\<rparr>"
  let ?d = "newDispatcherWithConfig ?c :: nat dispatcher"
  have "cfg_ShardCount ?c < 2 ^ 32" by simp
  then have "reachable dispatcher_init dispatcher_step ?d"
    by (intro reach_init) (auto simp only: dispatcher_init_def)
  from dispatcher_routes_and_bounded [OF this] show ?thesis
    by (simp add: newDispatcherWithConfig_def normalized_def Let_def bus_capacity_def
        newDispatcherShard_def sum_list_replicate)
qed

end
