(* ===== verification/State_Store.thy ===== *)
theory State_Store
  imports Go_Prelude Float64
begin

text \<open>
  The runtime state of the devices: \<open>internal/domain/state/state.go\<close> (values, keys, quality and
  availability of a value) and \<open>internal/state/store.go\<close> (the store that selects among the
  reports of several providers, tracks optimistic writes and marks values stale).

  The string types of the source become datatypes; the constructor \<open>...Other\<close> stands for any
  string that is not one of the constants, the empty zero value included. The mutex makes
  every method atomic. A \<open>PriorityResolver\<close> is a function of the key and the provider.
\<close>

section \<open>Values\<close>

datatype value_kind = KindBool | KindInt | KindNumber | KindString | KindEnum | KindOther string

datatype source = SourceReported | SourcePolled | SourceOptimistic | SourcePersistentCache
  | SourceUnknown | SourceOther string

datatype quality = QualityConfirmed | QualityReported | QualityPolled | QualityOptimistic
  | QualityStale | QualityUnknown | QualityOther string

datatype unavailable_reason = UnavailableNeverReported | UnavailableDeviceOffline
  | UnavailableAvailabilityUnknown | UnavailableDisabled | UnavailableRemoved | UnavailableExpired
  | UnavailableStale | UnavailableCommandUnconfirmed | UnavailableControlProviderOffline
  | UnavailableOther string

record state_payload =
  val_Kind :: value_kind
  val_Bool :: "bool option"
  val_Int :: "int option"
  val_Number :: "float64 option"
  val_String :: "string option"

definition BoolStateValue :: "bool \<Rightarrow> state_payload" where
  "BoolStateValue b = \<lparr>val_Kind = KindBool, val_Bool = Some b, val_Int = None, val_Number = None, val_String = None\<rparr>"

definition IntStateValue :: "int \<Rightarrow> state_payload" where
  "IntStateValue i = \<lparr>val_Kind = KindInt, val_Bool = None, val_Int = Some i, val_Number = None, val_String = None\<rparr>"

definition NumberStateValue :: "float64 \<Rightarrow> state_payload" where
  "NumberStateValue x = \<lparr>val_Kind = KindNumber, val_Bool = None, val_Int = None, val_Number = Some x, val_String = None\<rparr>"

definition StringStateValue :: "string \<Rightarrow> state_payload" where
  "StringStateValue s = \<lparr>val_Kind = KindString, val_Bool = None, val_Int = None, val_Number = None, val_String = Some s\<rparr>"

definition EnumStateValue :: "string \<Rightarrow> state_payload" where
  "EnumStateValue s = \<lparr>val_Kind = KindEnum, val_Bool = None, val_Int = None, val_Number = None, val_String = Some s\<rparr>"

datatype state_key = Key (key_DeviceID: string) (key_EndpointID: string)
  (key_CapabilityID: string) (key_PropertyID: string)

record state_value =
  sv_Key :: state_key
  sv_Value :: state_payload
  sv_ProviderID :: string
  sv_Source :: source
  sv_ObservedAt :: time
  sv_ReceivedAt :: time
  sv_ExpiresAt :: time
  sv_Sequence :: u64
  sv_Version :: u64
  sv_Quality :: quality
  sv_Known :: bool
  sv_Available :: bool
  sv_UnavailableReason :: unavailable_reason
  sv_TraceID :: string
  sv_PendingCommandID :: string

definition zero_state_value :: state_value where
  "zero_state_value =
     \<lparr>sv_Key = Key [] [] [] [],
      sv_Value = \<lparr>val_Kind = KindOther [], val_Bool = None, val_Int = None, val_Number = None, val_String = None\<rparr>,
      sv_ProviderID = [], sv_Source = SourceOther [], sv_ObservedAt = zero_time, sv_ReceivedAt = zero_time,
      sv_ExpiresAt = zero_time, sv_Sequence = 0, sv_Version = 0, sv_Quality = QualityOther [],
      sv_Known = False, sv_Available = False, sv_UnavailableReason = UnavailableOther [],
      sv_TraceID = [], sv_PendingCommandID = []\<rparr>"

text \<open>The order of \<open>sortStateValues\<close> is a linear order on keys.\<close>

definition state_key_before :: "state_key \<Rightarrow> state_key \<Rightarrow> bool" where
  "state_key_before left right \<longleftrightarrow>
     (if key_DeviceID left \<noteq> key_DeviceID right then key_DeviceID left < key_DeviceID right
      else if key_EndpointID left \<noteq> key_EndpointID right then key_EndpointID left < key_EndpointID right
      else if key_CapabilityID left \<noteq> key_CapabilityID right
      then key_CapabilityID left < key_CapabilityID right
      else key_PropertyID left < key_PropertyID right)"

instantiation state_key :: linorder
begin

definition less_state_key :: "state_key \<Rightarrow> state_key \<Rightarrow> bool" where
  "less_state_key = state_key_before"

definition less_eq_state_key :: "state_key \<Rightarrow> state_key \<Rightarrow> bool" where
  "less_eq_state_key left right \<longleftrightarrow> left < right \<or> left = right"

instance
proof
  fix x y z :: state_key
  show "(x < y) = (x \<le> y \<and> \<not> y \<le> x)"
    by (cases x; cases y) (auto simp: less_eq_state_key_def less_state_key_def state_key_before_def)
  show "x \<le> x" by (simp add: less_eq_state_key_def)
  show "x \<le> y \<Longrightarrow> y \<le> z \<Longrightarrow> x \<le> z"
    by (cases x; cases y; cases z) (auto simp: less_eq_state_key_def less_state_key_def state_key_before_def split: if_splits)
  show "x \<le> y \<Longrightarrow> y \<le> x \<Longrightarrow> x = y"
    by (cases x; cases y) (auto simp: less_eq_state_key_def less_state_key_def state_key_before_def split: if_splits)
  show "x \<le> y \<or> y \<le> x"
    by (cases x; cases y) (auto simp: less_eq_state_key_def less_state_key_def state_key_before_def)
qed

end

section \<open>The store\<close>

datatype decision = DecisionAccepted | DecisionAcceptedProviderReport | DecisionRejectedProviderPriority
  | DecisionRejectedSequence | DecisionRejectedObservedAt | DecisionRejectedQuality
  | DecisionRejectedReceivedAt | DecisionRejectedEquivalent

record apply_result =
  ar_Applied :: bool
  ar_Decision :: decision
  ar_Current :: state_value
  ar_Incoming :: state_value
  ar_CurrentPriority :: int
  ar_IncomingPriority :: int

record static_resolver =
  sr_Providers :: "(string, int) gomap"
  sr_Properties :: "(state_key, (string, int) gomap) gomap"

definition static_priority :: "static_resolver \<Rightarrow> state_key \<Rightarrow> string \<Rightarrow> int" where
  "static_priority r key providerID =
     (let default = (case gm_get (sr_Providers r) providerID of Some p \<Rightarrow> p | None \<Rightarrow> 0)
      in case gm_get (sr_Properties r) key of
           Some propertyPriorities \<Rightarrow>
             (case gm_get propertyPriorities providerID of Some priority \<Rightarrow> priority | None \<Rightarrow> default)
         | None \<Rightarrow> default)"

record checkpoint =
  cp_Version :: int
  cp_Values :: "state_value list"

definition CheckpointVersion :: int where
  "CheckpointVersion = 1"

record state_store =
  st_values :: "(state_key, state_value) gomap"
  st_priority :: "(state_key \<Rightarrow> string \<Rightarrow> int) option"

definition newStore :: "(state_key \<Rightarrow> string \<Rightarrow> int) option list \<Rightarrow> state_store" where
  "newStore options = \<lparr>st_values = [], st_priority = (case options of [] \<Rightarrow> None | r # _ \<Rightarrow> r)\<rparr>"

definition setPriorityResolver :: "(state_key \<Rightarrow> string \<Rightarrow> int) option \<Rightarrow> state_store \<Rightarrow> state_store" where
  "setPriorityResolver resolver s = s\<lparr>st_priority := resolver\<rparr>"

definition normalize_state :: "state_value \<Rightarrow> state_value" where
  "normalize_state value0 =
     (let value = (if val_Kind (sv_Value value0) \<noteq> KindOther [] then value0\<lparr>sv_Known := True\<rparr> else value0)
      in case sv_Quality value of
           QualityUnknown \<Rightarrow>
             (let v = value\<lparr>sv_Available := False\<rparr>
              in if sv_UnavailableReason v = UnavailableOther []
                 then v\<lparr>sv_UnavailableReason := UnavailableNeverReported\<rparr> else v)
         | QualityStale \<Rightarrow>
             (let v = value\<lparr>sv_Available := False\<rparr>
              in if sv_UnavailableReason v = UnavailableOther []
                 then v\<lparr>sv_UnavailableReason := UnavailableStale\<rparr> else v)
         | QualityOther _ \<Rightarrow> value
         | _ \<Rightarrow>
             (let v = value\<lparr>sv_Available := sv_Known value\<rparr>
              in if sv_Available v then v\<lparr>sv_UnavailableReason := UnavailableOther []\<rparr>
                 else if sv_UnavailableReason v = UnavailableOther []
                 then v\<lparr>sv_UnavailableReason := UnavailableNeverReported\<rparr> else v))"

fun qualityRank :: "quality \<Rightarrow> int" where
  "qualityRank QualityConfirmed = 5"
| "qualityRank QualityReported = 4"
| "qualityRank QualityPolled = 3"
| "qualityRank QualityOptimistic = 2"
| "qualityRank QualityStale = 1"
| "qualityRank QualityUnknown = 0"
| "qualityRank (QualityOther _) = 0"

definition providerPriorityLocked :: "state_store \<Rightarrow> state_key \<Rightarrow> string \<Rightarrow> int" where
  "providerPriorityLocked s key providerID =
     (case st_priority s of None \<Rightarrow> 0 | Some priority \<Rightarrow> priority key providerID)"

text \<open>The comparison that follows the two provider checks.\<close>

definition compare_times :: "state_value \<Rightarrow> state_value \<Rightarrow> decision" where
  "compare_times current incoming =
     (if sv_ObservedAt current \<noteq> sv_ObservedAt incoming
      then (if sv_ObservedAt incoming > sv_ObservedAt current then DecisionAccepted
            else DecisionRejectedObservedAt)
      else if qualityRank (sv_Quality current) \<noteq> qualityRank (sv_Quality incoming)
      then (if qualityRank (sv_Quality incoming) > qualityRank (sv_Quality current) then DecisionAccepted
            else DecisionRejectedQuality)
      else if sv_ReceivedAt current \<noteq> sv_ReceivedAt incoming
      then (if sv_ReceivedAt incoming > sv_ReceivedAt current then DecisionAccepted
            else DecisionRejectedReceivedAt)
      else DecisionRejectedEquivalent)"

definition compareLocked :: "state_store \<Rightarrow> state_value \<Rightarrow> state_value \<Rightarrow> decision \<times> int \<times> int" where
  "compareLocked s current incoming =
     (if sv_Quality current = QualityOptimistic \<and>
         (sv_Quality incoming = QualityReported \<or> sv_Quality incoming = QualityConfirmed)
      then (DecisionAcceptedProviderReport, 0, 0)
      else
        let currentPriority = providerPriorityLocked s (sv_Key current) (sv_ProviderID current);
            incomingPriority = providerPriorityLocked s (sv_Key incoming) (sv_ProviderID incoming)
        in if sv_ProviderID current \<noteq> [] \<and> sv_ProviderID incoming \<noteq> [] \<and>
              sv_ProviderID current \<noteq> sv_ProviderID incoming \<and> currentPriority \<noteq> incomingPriority
           then (if incomingPriority > currentPriority
                 then (DecisionAccepted, currentPriority, incomingPriority)
                 else (DecisionRejectedProviderPriority, currentPriority, incomingPriority))
           else if sv_ProviderID current = sv_ProviderID incoming \<and> sv_Sequence current > 0 \<and>
                   sv_Sequence incoming > 0
           then (if sv_Sequence current \<noteq> sv_Sequence incoming
                 then (if sv_Sequence incoming > sv_Sequence current then (DecisionAccepted, 0, 0)
                       else (DecisionRejectedSequence, 0, 0))
                 else (DecisionRejectedEquivalent, 0, 0))
           else (compare_times current incoming, 0, 0))"

definition stored_or_zero :: "state_store \<Rightarrow> state_key \<Rightarrow> state_value" where
  "stored_or_zero s key = (case gm_get (st_values s) key of Some v \<Rightarrow> v | None \<Rightarrow> zero_state_value)"

definition store_put :: "state_value \<Rightarrow> state_store \<Rightarrow> state_store" where
  "store_put v s = s\<lparr>st_values := gm_put (sv_Key v) v (st_values s)\<rparr>"

definition applyWithResult :: "state_value \<Rightarrow> state_store \<Rightarrow> (state_value \<times> apply_result) \<times> state_store" where
  "applyWithResult incoming0 s =
     (let incoming = normalize_state incoming0;
          current = stored_or_zero s (sv_Key incoming);
          (dec, currentPriority, incomingPriority) =
            (if gm_get (st_values s) (sv_Key incoming) \<noteq> None then compareLocked s current incoming
             else (DecisionAccepted, 0, 0))
      in if dec \<noteq> DecisionAccepted \<and> dec \<noteq> DecisionAcceptedProviderReport
         then ((current, \<lparr>ar_Applied = False, ar_Decision = dec, ar_Current = current,
                 ar_Incoming = incoming, ar_CurrentPriority = currentPriority,
                 ar_IncomingPriority = incomingPriority\<rparr>), s)
         else let incoming = incoming\<lparr>sv_Version := sv_Version current + 1\<rparr>
              in ((incoming, \<lparr>ar_Applied = True, ar_Decision = dec, ar_Current = current,
                    ar_Incoming = incoming, ar_CurrentPriority = currentPriority,
                    ar_IncomingPriority = incomingPriority\<rparr>), store_put incoming s))"

definition apply_state :: "state_value \<Rightarrow> state_store \<Rightarrow> (state_value \<times> bool) \<times> state_store" where
  "apply_state incoming s =
     (let ((value, result), s') = applyWithResult incoming s in ((value, ar_Applied result), s'))"

definition applyOptimistic :: "state_value \<Rightarrow> state_store \<Rightarrow> state_value \<times> state_store" where
  "applyOptimistic incoming0 s =
     (let incoming = normalize_state incoming0;
          incoming = incoming\<lparr>sv_Version := sv_Version (stored_or_zero s (sv_Key incoming)) + 1\<rparr>
      in (incoming, store_put incoming s))"

definition ensureUnknown :: "state_value \<Rightarrow> state_store \<Rightarrow> (state_value \<times> bool) \<times> state_store" where
  "ensureUnknown incoming0 s =
     (let incoming = normalize_state (incoming0\<lparr>sv_Quality := QualityUnknown\<rparr>)
      in case gm_get (st_values s) (sv_Key incoming) of
           Some current \<Rightarrow> ((current, False), s)
         | None \<Rightarrow>
             (let incoming = incoming\<lparr>sv_Version := 1\<rparr> in ((incoming, True), store_put incoming s)))"

definition sortStateValues :: "state_value list \<Rightarrow> state_value list" where
  "sortStateValues values = sort_slice (\<lambda>left right. sv_Key left < sv_Key right) values"

definition device_states :: "string \<Rightarrow> state_store \<Rightarrow> state_value list" where
  "device_states deviceID s =
     sortStateValues (map snd (filter (\<lambda>(key, value). key_DeviceID key = deviceID) (st_values s)))"

definition get_state :: "state_key \<Rightarrow> state_store \<Rightarrow> state_value option" where
  "get_state key s = gm_get (st_values s) key"

definition checkpoint_of :: "state_store \<Rightarrow> checkpoint" where
  "checkpoint_of s = \<lparr>cp_Version = CheckpointVersion, cp_Values = sortStateValues (map snd (st_values s))\<rparr>"

definition restored_value :: "state_value \<Rightarrow> state_value" where
  "restored_value value0 =
     (let value = normalize_state (value0\<lparr>sv_Quality := QualityStale, sv_Source := SourcePersistentCache,
            sv_Available := False, sv_UnavailableReason := UnavailableStale, sv_PendingCommandID := [],
            sv_ExpiresAt := zero_time\<rparr>)
      in if sv_Version value = 0 then value\<lparr>sv_Version := 1\<rparr> else value)"

definition key_complete :: "state_key \<Rightarrow> bool" where
  "key_complete key \<longleftrightarrow> \<not> (key_DeviceID key = [] \<or> key_EndpointID key = [] \<or>
     key_CapabilityID key = [] \<or> key_PropertyID key = [])"

definition restoreCheckpoint :: "checkpoint \<Rightarrow> state_store \<Rightarrow> bool \<times> state_store" where
  "restoreCheckpoint cp s =
     (if cp_Version cp \<noteq> CheckpointVersion then (False, s)
      else (True, s\<lparr>st_values := fold (\<lambda>value restored.
              if \<not> key_complete (sv_Key value) then restored
              else gm_put (sv_Key (restored_value value)) (restored_value value) restored)
            (cp_Values cp) []\<rparr>))"

definition resolveOptimistic ::
  "string \<Rightarrow> state_value option \<Rightarrow> state_store \<Rightarrow> (state_value \<times> bool) \<times> state_store" where
  "resolveOptimistic commandID fallback s =
     (case find (\<lambda>(key, current). sv_PendingCommandID current = commandID) (st_values s) of
        None \<Rightarrow> ((zero_state_value, False), s)
      | Some (key, current) \<Rightarrow>
          (let restored =
             (case fallback of
                Some fb \<Rightarrow> fb\<lparr>sv_Version := sv_Version current + 1, sv_PendingCommandID := []\<rparr>
              | None \<Rightarrow> current\<lparr>sv_Quality := QualityStale, sv_PendingCommandID := [],
                    sv_Version := sv_Version current + 1, sv_Available := False,
                    sv_UnavailableReason := UnavailableCommandUnconfirmed\<rparr>)
           in ((restored, True), s\<lparr>st_values := gm_put key restored (st_values s)\<rparr>)))"

definition markStale :: "time \<Rightarrow> state_store \<Rightarrow> state_value list \<times> state_store" where
  "markStale now s =
     (let (values, changed) = gm_sweep (\<lambda>key value.
            if sv_ExpiresAt value = zero_time \<or> now < sv_ExpiresAt value \<or> sv_Quality value = QualityStale
            then None
            else Some (value\<lparr>sv_Quality := QualityStale, sv_Available := False,
                   sv_UnavailableReason := UnavailableExpired, sv_PendingCommandID := [],
                   sv_Version := sv_Version value + 1\<rparr>)) (st_values s)
      in (changed, s\<lparr>st_values := values\<rparr>))"

text \<open>The loop body that \<open>MarkDeviceUnavailable\<close> and \<open>MarkCapabilityUnavailable\<close> share.\<close>

definition unavailable_value :: "unavailable_reason \<Rightarrow> string \<Rightarrow> state_value \<Rightarrow> state_value option" where
  "unavailable_value reason traceID value =
     (let quality = (if \<not> sv_Known value then QualityUnknown else QualityStale)
      in if \<not> sv_Available value \<and> sv_Quality value = quality \<and> sv_UnavailableReason value = reason
         then None
         else Some (value\<lparr>sv_Quality := quality, sv_Available := False, sv_UnavailableReason := reason,
                sv_TraceID := traceID, sv_PendingCommandID := [], sv_Version := sv_Version value + 1\<rparr>))"

definition first_trace :: "string list \<Rightarrow> string" where
  "first_trace traceIDs = (case traceIDs of [] \<Rightarrow> [] | t # _ \<Rightarrow> t)"

definition markDeviceUnavailable ::
  "string \<Rightarrow> unavailable_reason \<Rightarrow> string list \<Rightarrow> state_store \<Rightarrow> state_value list \<times> state_store" where
  "markDeviceUnavailable deviceID reason traceIDs s =
     (let (values, changed) = gm_sweep (\<lambda>key value.
            if key_DeviceID key \<noteq> deviceID then None
            else unavailable_value reason (first_trace traceIDs) value) (st_values s)
      in (changed, s\<lparr>st_values := values\<rparr>))"

definition markDeviceStale :: "string \<Rightarrow> state_store \<Rightarrow> state_value list \<times> state_store" where
  "markDeviceStale deviceID s = markDeviceUnavailable deviceID UnavailableDeviceOffline [] s"

definition markCapabilityUnavailable ::
  "string \<Rightarrow> string \<Rightarrow> string \<Rightarrow> unavailable_reason \<Rightarrow> string list \<Rightarrow> state_store \<Rightarrow>
     state_value list \<times> state_store" where
  "markCapabilityUnavailable deviceID endpointID capabilityID reason traceIDs s =
     (let (values, changed) = gm_sweep (\<lambda>key value.
            if key_DeviceID key \<noteq> deviceID \<or> key_EndpointID key \<noteq> endpointID \<or>
               key_CapabilityID key \<noteq> capabilityID then None
            else unavailable_value reason (first_trace traceIDs) value) (st_values s)
      in (changed, s\<lparr>st_values := values\<rparr>))"

section \<open>Well-formed values\<close>

definition live_quality :: "quality \<Rightarrow> bool" where
  "live_quality q \<longleftrightarrow> q \<in> {QualityConfirmed, QualityReported, QualityPolled, QualityOptimistic}"

text \<open>An available value is known, of a live quality and has no reason; an unavailable one has a reason.\<close>

definition avail_ok :: "state_value \<Rightarrow> bool" where
  "avail_ok v \<longleftrightarrow>
     (if sv_Available v then sv_Known v \<and> live_quality (sv_Quality v) \<and> sv_UnavailableReason v = UnavailableOther []
      else sv_UnavailableReason v \<noteq> UnavailableOther [])"

definition declared_quality :: "quality \<Rightarrow> bool" where
  "declared_quality q \<longleftrightarrow> (\<forall>t. q \<noteq> QualityOther t)"

definition store_inv :: "state_store \<Rightarrow> bool" where
  "store_inv s \<longleftrightarrow> gm_ok (st_values s) \<and> (\<forall>k v. get_state k s = Some v \<longrightarrow> sv_Key v = k \<and> avail_ok v)"

lemma normalize_state_sel [simp]:
  "sv_Key (normalize_state v) = sv_Key v" "sv_Value (normalize_state v) = sv_Value v"
  "sv_ProviderID (normalize_state v) = sv_ProviderID v" "sv_Quality (normalize_state v) = sv_Quality v"
  "sv_Sequence (normalize_state v) = sv_Sequence v" "sv_ObservedAt (normalize_state v) = sv_ObservedAt v"
  "sv_ReceivedAt (normalize_state v) = sv_ReceivedAt v" "sv_ExpiresAt (normalize_state v) = sv_ExpiresAt v"
  "sv_PendingCommandID (normalize_state v) = sv_PendingCommandID v"
  "sv_Version (normalize_state v) = sv_Version v" "sv_Source (normalize_state v) = sv_Source v"
  "sv_Known (normalize_state v) \<longleftrightarrow> sv_Known v \<or> val_Kind (sv_Value v) \<noteq> KindOther []"
  by (simp_all add: normalize_state_def Let_def split: quality.split)

lemma normalize_avail_ok: "declared_quality (sv_Quality v) \<Longrightarrow> avail_ok (normalize_state v)"
  by (cases "sv_Quality v")
    (simp_all add: normalize_state_def Let_def avail_ok_def live_quality_def declared_quality_def)

lemma normalize_stale: "sv_Quality v = QualityStale \<Longrightarrow> \<not> sv_Available (normalize_state v)"
  by (simp add: normalize_state_def Let_def)

lemma avail_ok_version [simp]: "avail_ok (v\<lparr>sv_Version := n\<rparr>) = avail_ok v"
  by (simp add: avail_ok_def)

lemma get_store_put [simp]:
  "get_state k (store_put v s) = (if k = sv_Key v then Some v else get_state k s)"
  by (simp add: get_state_def store_put_def gomap_simps)

lemma st_priority_put [simp]: "st_priority (store_put v s) = st_priority s"
  by (simp add: store_put_def)

lemma store_inv_put: "store_inv s \<Longrightarrow> avail_ok v \<Longrightarrow> store_inv (store_put v s)"
  by (auto simp: store_inv_def) (simp add: store_put_def)

lemma store_inv_gm_put:
  "store_inv s \<Longrightarrow> avail_ok v \<Longrightarrow> sv_Key v = k \<Longrightarrow> store_inv (s\<lparr>st_values := gm_put k v (st_values s)\<rparr>)"
  using store_inv_put [of s v] by (simp add: store_put_def)

lemma stored_or_zero_get: "get_state k s = Some v \<Longrightarrow> stored_or_zero s k = v"
  by (simp add: stored_or_zero_def get_state_def)

section \<open>The selection rule\<close>

text \<open>
  What a report has to satisfy to replace the current value: it answers an optimistic write;
  or its provider has the higher priority; or, between equals, it has the higher sequence
  number of the same provider, or else the later observation, the better quality, the later
  arrival.
\<close>

definition age :: "state_value \<Rightarrow> int \<times> int \<times> int" where
  "age x = (sv_ObservedAt x, qualityRank (sv_Quality x), sv_ReceivedAt x)"

definition supersedes :: "state_store \<Rightarrow> state_value \<Rightarrow> state_value \<Rightarrow> bool" where
  "supersedes s c v \<longleftrightarrow>
     (let prio = (\<lambda>x. providerPriorityLocked s (sv_Key x) (sv_ProviderID x))
      in if sv_Quality c = QualityOptimistic \<and> sv_Quality v \<in> {QualityReported, QualityConfirmed} then True
         else if sv_ProviderID c \<noteq> [] \<and> sv_ProviderID v \<noteq> [] \<and> sv_ProviderID c \<noteq> sv_ProviderID v \<and> prio c \<noteq> prio v
         then prio c < prio v
         else if sv_ProviderID c = sv_ProviderID v \<and> 0 < sv_Sequence c \<and> 0 < sv_Sequence v
         then sv_Sequence c < sv_Sequence v
         else age c < age v)"

lemma compare_times_accepts:
  "compare_times c v = DecisionAccepted \<longleftrightarrow> age c < age v"
  "compare_times c v \<noteq> DecisionAcceptedProviderReport"
  by (auto simp: compare_times_def age_def)

lemma compareLocked_accepts:
  "fst (compareLocked s c v) \<in> {DecisionAccepted, DecisionAcceptedProviderReport} \<longleftrightarrow> supersedes s c v"
proof (cases "sv_Quality c = QualityOptimistic \<and> sv_Quality v \<in> {QualityReported, QualityConfirmed}")
  case True
  then show ?thesis by (simp add: compareLocked_def supersedes_def)
next
  case False
  then show ?thesis
    unfolding compareLocked_def supersedes_def Let_def
    by (simp only: insert_iff empty_iff simp_thms if_False) (simp add: compare_times_accepts)
qed

lemma apply_state_cases:
  obtains (accept) "get_state (sv_Key v) s = None \<or> supersedes s (stored_or_zero s (sv_Key v)) (normalize_state v)"
      "apply_state v s =
         (let x = (normalize_state v)\<lparr>sv_Version := sv_Version (stored_or_zero s (sv_Key v)) + 1\<rparr>
          in ((x, True), store_put x s))"
    | (reject) c where "get_state (sv_Key v) s = Some c" "\<not> supersedes s c (normalize_state v)"
      "apply_state v s = ((c, False), s)"
proof (cases "get_state (sv_Key v) s = None \<or> supersedes s (stored_or_zero s (sv_Key v)) (normalize_state v)")
  case True
  then have "apply_state v s =
      (let x = (normalize_state v)\<lparr>sv_Version := sv_Version (stored_or_zero s (sv_Key v)) + 1\<rparr>
       in ((x, True), store_put x s))"
    using compareLocked_accepts [of s "stored_or_zero s (sv_Key v)" "normalize_state v"]
    by (auto simp: apply_state_def applyWithResult_def Let_def get_state_def split: prod.splits)
  with True show ?thesis by (rule accept)
next
  case False
  then obtain c where c: "get_state (sv_Key v) s = Some c" by auto
  moreover have "\<not> supersedes s c (normalize_state v)" using False stored_or_zero_get [OF c] by simp
  moreover from this have "apply_state v s = ((c, False), s)"
    using compareLocked_accepts [of s c "normalize_state v"] stored_or_zero_get [OF c] c
    by (auto simp: apply_state_def applyWithResult_def Let_def get_state_def split: prod.splits)
  ultimately show ?thesis by (rule reject)
qed

section \<open>Runs of the store\<close>

definition store_init :: "state_store \<Rightarrow> bool" where
  "store_init s \<longleftrightarrow> (\<exists>options. s = newStore options)"

text \<open>
  The callers' side of the contract: reports carry one of the declared qualities, a reason
  for unavailability is not empty, and the fallback of a rolled-back command is a value the
  store returned for the key the command wrote.
\<close>

inductive store_step :: "state_store \<Rightarrow> state_store \<Rightarrow> bool" where
  step_apply: "declared_quality (sv_Quality v) \<Longrightarrow> store_step s (snd (apply_state v s))"
| step_optimistic: "declared_quality (sv_Quality v) \<Longrightarrow> store_step s (snd (applyOptimistic v s))"
| step_unknown: "store_step s (snd (ensureUnknown v s))"
| step_resolve: "(\<And>fb k v. fallback = Some fb \<Longrightarrow> get_state k s = Some v \<Longrightarrow>
      sv_PendingCommandID v = commandID \<Longrightarrow> sv_Key fb = k \<and> avail_ok fb) \<Longrightarrow>
    store_step s (snd (resolveOptimistic commandID fallback s))"
| step_stale: "store_step s (snd (markStale now s))"
| step_device: "reason \<noteq> UnavailableOther [] \<Longrightarrow> store_step s (snd (markDeviceUnavailable d reason ts s))"
| step_capability: "reason \<noteq> UnavailableOther [] \<Longrightarrow>
    store_step s (snd (markCapabilityUnavailable d e c reason ts s))"
| step_restore: "store_step s (snd (restoreCheckpoint cp s))"
| step_resolver: "store_step s (setPriorityResolver r s)"

lemma apply_inv: "store_inv s \<Longrightarrow> declared_quality (sv_Quality v) \<Longrightarrow> store_inv (snd (apply_state v s))"
  by (rule apply_state_cases [of v s]) (auto simp: Let_def normalize_avail_ok intro!: store_inv_put)

lemma applyOptimistic_inv:
  "store_inv s \<Longrightarrow> declared_quality (sv_Quality v) \<Longrightarrow> store_inv (snd (applyOptimistic v s))"
  by (simp add: applyOptimistic_def Let_def normalize_avail_ok store_inv_put)

lemma ensureUnknown_inv: "store_inv s \<Longrightarrow> store_inv (snd (ensureUnknown v s))"
  by (auto simp: ensureUnknown_def Let_def declared_quality_def
      intro!: store_inv_put normalize_avail_ok split: option.split)

lemma resolveOptimistic_cases:
  obtains (none) "\<And>k v. (k, v) \<in> set (st_values s) \<Longrightarrow> sv_PendingCommandID v \<noteq> cmd"
      "resolveOptimistic cmd fb s = ((zero_state_value, False), s)"
    | (some) k c where "(k, c) \<in> set (st_values s)" "sv_PendingCommandID c = cmd"
      "find (\<lambda>(key, current). sv_PendingCommandID current = cmd) (st_values s) = Some (k, c)"
proof (cases "find (\<lambda>(key, current). sv_PendingCommandID current = cmd) (st_values s)")
  case None
  then have "resolveOptimistic cmd fb s = ((zero_state_value, False), s)" by (simp add: resolveOptimistic_def)
  with None show ?thesis by (intro none) (auto simp: find_None_iff)
next
  case (Some a)
  then show ?thesis using find_SomeD [OF Some] by (cases a) (auto intro: some)
qed

lemma resolveOptimistic_inv:
  assumes inv: "store_inv s"
    and fb: "\<And>fb k v. fallback = Some fb \<Longrightarrow> get_state k s = Some v \<Longrightarrow>
      sv_PendingCommandID v = cmd \<Longrightarrow> sv_Key fb = k \<and> avail_ok fb"
  shows "store_inv (snd (resolveOptimistic cmd fallback s))"
proof (cases rule: resolveOptimistic_cases [of s cmd fallback])
  case none
  with inv show ?thesis by simp
next
  case (some k c)
  then have get: "get_state k s = Some c" using inv by (simp add: store_inv_def get_state_def gm_in_set_get)
  then have "sv_Key c = k" using inv by (simp add: store_inv_def)
  then show ?thesis
  proof (cases fallback)
    case None
    then show ?thesis using inv some(3) \<open>sv_Key c = k\<close>
      by (simp add: resolveOptimistic_def Let_def avail_ok_def store_inv_gm_put)
  next
    case (Some f)
    with fb [OF Some get some(2)] inv some(3) show ?thesis
      by (simp add: resolveOptimistic_def Let_def avail_ok_def store_inv_gm_put)
  qed
qed

text \<open>A sweep keeps the invariant when the rewritten values keep their key and are well formed.\<close>

lemma sweep_inv:
  assumes inv: "store_inv s"
    and f: "\<And>k v v'. f k v = Some v' \<Longrightarrow> sv_Key v' = sv_Key v \<and> avail_ok v'"
  shows "store_inv (s\<lparr>st_values := fst (gm_sweep f (st_values s))\<rparr>)"
proof -
  have "sv_Key v' = k \<and> avail_ok v'" if "gm_get (fst (gm_sweep f (st_values s))) k = Some v'" for k v'
  proof -
    from that obtain v where v: "get_state k s = Some v" "v' = (case f k v of None \<Rightarrow> v | Some v' \<Rightarrow> v')"
      by (auto simp: gomap_simps get_state_def split: option.splits)
    with inv have "sv_Key v = k" "avail_ok v" by (simp_all add: store_inv_def)
    with v f show ?thesis by (cases "f k v") auto
  qed
  with inv show ?thesis by (simp add: store_inv_def get_state_def)
qed

lemma unavailable_value_ok:
  "unavailable_value reason t v = Some v' \<Longrightarrow> reason \<noteq> UnavailableOther [] \<Longrightarrow> sv_Key v' = sv_Key v \<and> avail_ok v'"
  by (auto simp: unavailable_value_def Let_def avail_ok_def split: if_splits)

lemma mark_inv:
  assumes "store_inv s"
  shows "store_inv (snd (markStale now s))"
    and "reason \<noteq> UnavailableOther [] \<Longrightarrow> store_inv (snd (markDeviceUnavailable d reason ts s))"
    and "reason \<noteq> UnavailableOther [] \<Longrightarrow> store_inv (snd (markCapabilityUnavailable d e c reason ts s))"
proof -
  show "store_inv (snd (markStale now s))"
    unfolding markStale_def case_prod_beta Let_def snd_conv
    by (rule sweep_inv [OF assms]) (auto simp: avail_ok_def split: if_splits)
  assume reason: "reason \<noteq> UnavailableOther []"
  show "store_inv (snd (markDeviceUnavailable d reason ts s))"
    unfolding markDeviceUnavailable_def case_prod_beta Let_def snd_conv
    by (rule sweep_inv [OF assms]) (metis unavailable_value_ok [OF _ reason] option.distinct(1))
  show "store_inv (snd (markCapabilityUnavailable d e c reason ts s))"
    unfolding markCapabilityUnavailable_def case_prod_beta Let_def snd_conv
    by (rule sweep_inv [OF assms]) (metis unavailable_value_ok [OF _ reason] option.distinct(1))
qed

lemma restored_value_sel [simp]: "sv_Key (restored_value v) = sv_Key v"
  "sv_Quality (restored_value v) = QualityStale" "sv_PendingCommandID (restored_value v) = []"
  "sv_Value (restored_value v) = sv_Value v" "sv_Available (restored_value v) = False"
  by (simp_all add: restored_value_def Let_def normalize_stale)

lemma restored_value_ok: "avail_ok (restored_value v)"
  by (simp add: restored_value_def Let_def normalize_avail_ok declared_quality_def)

lemma restore_fold_get:
  "gm_get (fold (\<lambda>value restored. if \<not> key_complete (sv_Key value) then restored
      else gm_put (sv_Key (restored_value value)) (restored_value value) restored) vs m) k =
   (case find (\<lambda>v. key_complete (sv_Key v) \<and> sv_Key v = k) (rev vs) of
      Some v \<Rightarrow> Some (restored_value v) | None \<Rightarrow> gm_get m k)"
proof (induction vs arbitrary: m)
  case Nil
  show ?case by simp
next
  case (Cons v vs)
  have "find P (xs @ [y]) = (case find P xs of None \<Rightarrow> if P y then Some y else None | r \<Rightarrow> r)" for P and xs and y :: state_value
    by (induction xs) auto
  with Cons show ?case by (auto simp: gomap_simps split: option.splits)
qed

lemma restore_fold_ok:
  "gm_ok m \<Longrightarrow> gm_ok (fold (\<lambda>value restored. if \<not> key_complete (sv_Key value) then restored
      else gm_put (sv_Key (restored_value value)) (restored_value value) restored) vs m)"
  by (induction vs arbitrary: m) simp_all

lemma restore_get:
  "cp_Version cp = CheckpointVersion \<Longrightarrow> get_state k (snd (restoreCheckpoint cp s)) =
   map_option restored_value (find (\<lambda>v. key_complete (sv_Key v) \<and> sv_Key v = k) (rev (cp_Values cp)))"
  unfolding restoreCheckpoint_def get_state_def
  by (simp add: restore_fold_get del: not_not split: option.split)

lemma restore_inv: "store_inv s \<Longrightarrow> store_inv (snd (restoreCheckpoint cp s))"
proof (cases "cp_Version cp = CheckpointVersion")
  case True
  then have "gm_ok (st_values (snd (restoreCheckpoint cp s)))"
    unfolding restoreCheckpoint_def by (simp add: restore_fold_ok del: not_not)
  with True show ?thesis
    by (auto simp: store_inv_def restore_get find_Some_iff restored_value_ok)
qed (simp add: restoreCheckpoint_def)

interpretation store_sys: invariant_system store_init store_step store_inv
proof unfold_locales
  fix s assume "store_init s"
  then show "store_inv s" by (auto simp: store_init_def newStore_def store_inv_def get_state_def)
next
  fix s t assume inv: "store_inv s" and "store_step s t"
  from this(2) show "store_inv t"
  proof cases
    case (step_resolve fallback commandID)
    with resolveOptimistic_inv [OF inv] show ?thesis by blast
  next
    case (step_resolver r)
    with inv show ?thesis by (simp add: store_inv_def setPriorityResolver_def get_state_def)
  qed (use inv in \<open>auto intro: apply_inv applyOptimistic_inv ensureUnknown_inv mark_inv restore_inv\<close>)
qed

text \<open>
  C25. Consistent availability. In every state the store can reach, the keys are distinct and each
  value sits under its own key; a value is available only when it is known, of a live quality
  and without a reason, and every unavailable value says why.
\<close>

theorem store_values_consistent:
  assumes "reachable store_init store_step s"
  shows "gm_ok (st_values s) \<and> (\<forall>k v. get_state k s = Some v \<longrightarrow> sv_Key v = k \<and>
     (sv_Available v \<longrightarrow> sv_Known v \<and> sv_Quality v \<in> {QualityConfirmed, QualityReported, QualityPolled, QualityOptimistic} \<and>
        sv_UnavailableReason v = UnavailableOther []) \<and>
     (\<not> sv_Available v \<longrightarrow> sv_UnavailableReason v \<noteq> UnavailableOther []))"
  using store_sys.reachable_inv [OF assms] unfolding store_inv_def avail_ok_def live_quality_def by metis

text \<open>
  C29. \<open>Apply\<close> implements the selection rule: it succeeds exactly when there is no value yet or
  the normalised report supersedes it; then the report is stored under the next version and
  no other key changes; otherwise the store is unchanged and the current value is returned.
\<close>

theorem apply_state_refines:
  "(\<exists>x. apply_state v s = ((x, True), store_put x s) \<and>
      x = (normalize_state v)\<lparr>sv_Version := sv_Version (stored_or_zero s (sv_Key v)) + 1\<rparr> \<and>
      (case get_state (sv_Key v) s of None \<Rightarrow> True | Some c \<Rightarrow> supersedes s c (normalize_state v)) \<and>
      (\<forall>k. get_state k (store_put x s) = (if k = sv_Key v then Some x else get_state k s))) \<or>
   (\<exists>c. apply_state v s = ((c, False), s) \<and> get_state (sv_Key v) s = Some c \<and>
      \<not> supersedes s c (normalize_state v))"
proof (cases rule: apply_state_cases [of v s])
  case accept
  then show ?thesis using stored_or_zero_get [of "sv_Key v" s] by (auto simp: Let_def split: option.splits)
next
  case (reject c)
  then show ?thesis by blast
qed

text \<open>
  The rule never flips back: a report that was superseded does not supersede its successor,
  unless the successor is an optimistic write.
\<close>

lemma supersedes_asym:
  "supersedes s c v \<Longrightarrow> sv_Quality v \<noteq> QualityOptimistic \<Longrightarrow> sv_Quality c \<noteq> QualityOptimistic \<Longrightarrow> \<not> supersedes s v c"
proof (cases "sv_ProviderID c \<noteq> [] \<and> sv_ProviderID v \<noteq> [] \<and> sv_ProviderID c \<noteq> sv_ProviderID v \<and>
    providerPriorityLocked s (sv_Key c) (sv_ProviderID c) \<noteq> providerPriorityLocked s (sv_Key v) (sv_ProviderID v)")
  case True
  assume "supersedes s c v" and "sv_Quality v \<noteq> QualityOptimistic" and "sv_Quality c \<noteq> QualityOptimistic"
  with True show ?thesis by (auto simp: supersedes_def)
next
  case False
  assume "supersedes s c v" and "sv_Quality v \<noteq> QualityOptimistic" and "sv_Quality c \<noteq> QualityOptimistic"
  with False show ?thesis
    by (cases "sv_ProviderID c = sv_ProviderID v \<and> 0 < sv_Sequence c \<and> 0 < sv_Sequence v")
      (auto simp: supersedes_def not_less less_imp_le)
qed

section \<open>Reports of one provider\<close>

definition report_on :: "state_key \<Rightarrow> string \<Rightarrow> state_value \<Rightarrow> bool" where
  "report_on k p r \<longleftrightarrow> sv_Key r = k \<and> sv_ProviderID r = p \<and> 0 < sv_Sequence r \<and> sv_Quality r \<noteq> QualityOptimistic"

definition apply_all :: "state_value list \<Rightarrow> state_store \<Rightarrow> state_store" where
  "apply_all rs s = fold (\<lambda>r s. snd (apply_state r s)) rs s"

text \<open>The newest report so far: \<open>r\<close> is stored, and nothing seen has a higher sequence number.\<close>

definition holds_newest :: "state_key \<Rightarrow> state_value set \<Rightarrow> state_store \<Rightarrow> bool" where
  "holds_newest k rs s \<longleftrightarrow> (\<exists>r \<in> rs. (\<forall>r' \<in> rs. sv_Sequence r' \<le> sv_Sequence r) \<and>
     (\<exists>n. get_state k s = Some ((normalize_state r)\<lparr>sv_Version := n\<rparr>)))"

lemma supersedes_sequence:
  "sv_ProviderID c = sv_ProviderID v \<Longrightarrow> 0 < sv_Sequence c \<Longrightarrow> 0 < sv_Sequence v \<Longrightarrow>
   sv_Quality c \<noteq> QualityOptimistic \<Longrightarrow> supersedes s c v \<longleftrightarrow> sv_Sequence c < sv_Sequence v"
  by (simp add: supersedes_def)

lemma apply_first: "report_on k p r \<Longrightarrow> get_state k s = None \<Longrightarrow> holds_newest k {r} (snd (apply_state r s))"
  by (rule apply_state_cases [of r s]) (auto simp: Let_def holds_newest_def report_on_def)

lemma apply_newest:
  assumes r: "report_on k p r" and rs: "\<And>r'. r' \<in> rs \<Longrightarrow> report_on k p r'" and h: "holds_newest k rs s"
  shows "holds_newest k (insert r rs) (snd (apply_state r s))"
proof -
  from h obtain m n where m: "m \<in> rs" "\<forall>r' \<in> rs. sv_Sequence r' \<le> sv_Sequence m"
      "get_state k s = Some ((normalize_state m)\<lparr>sv_Version := n\<rparr>)"
    unfolding holds_newest_def by blast
  let ?c = "(normalize_state m)\<lparr>sv_Version := n\<rparr>"
  have sup: "supersedes s ?c (normalize_state r) \<longleftrightarrow> sv_Sequence m < sv_Sequence r"
    using r rs [OF m(1)] by (subst supersedes_sequence) (simp_all add: report_on_def)
  have k: "sv_Key r = k" using r by (simp add: report_on_def)
  show ?thesis
  proof (cases rule: apply_state_cases [of r s])
    case accept
    then have "sv_Sequence m < sv_Sequence r" using sup m(3) k stored_or_zero_get [OF m(3)] by simp
    then have "\<forall>r' \<in> insert r rs. sv_Sequence r' \<le> sv_Sequence r" using m(2) by fastforce
    with accept k show ?thesis unfolding holds_newest_def by (auto simp: Let_def)
  next
    case (reject c)
    then have "sv_Sequence r \<le> sv_Sequence m" using sup m(3) k by simp
    with reject m k show ?thesis unfolding holds_newest_def by auto
  qed
qed

lemma apply_all_newest:
  assumes "\<And>r. r \<in> set rs \<union> seen \<Longrightarrow> report_on k p r" and "holds_newest k seen s"
  shows "holds_newest k (set rs \<union> seen) (apply_all rs s)"
  using assms
proof (induction rs arbitrary: seen s)
  case Nil
  then show ?case by (simp add: apply_all_def)
next
  case (Cons r rs)
  then have "holds_newest k (insert r seen) (snd (apply_state r s))"
    by (intro apply_newest [of k p]) auto
  from Cons.IH [OF _ this] Cons.prems(1) show ?case by (simp add: apply_all_def)
qed

text \<open>
  C2. Arrival order does not matter. Reports of one provider on one key, whatever the order in
  which they arrive and whatever is lost or repeated, leave the report with the highest
  sequence number in the store.
\<close>

theorem newest_sequence_wins:
  assumes "\<forall>r \<in> set rs. report_on k p r" and "rs \<noteq> []" and "get_state k s = None"
  shows "\<exists>r \<in> set rs. (\<forall>r' \<in> set rs. sv_Sequence r' \<le> sv_Sequence r) \<and>
    (\<exists>n. get_state k (apply_all rs s) = Some ((normalize_state r)\<lparr>sv_Version := n\<rparr>))"
proof -
  obtain r rs' where rs: "rs = r # rs'" using assms(2) by (cases rs) auto
  have "holds_newest k {r} (snd (apply_state r s))" using assms(1,3) rs by (intro apply_first [of k p]) auto
  then have "holds_newest k (set rs' \<union> {r}) (apply_all rs' (snd (apply_state r s)))"
    using assms(1) rs by (intro apply_all_newest [of rs' "{r}" k p]) auto
  then show ?thesis unfolding holds_newest_def rs by (simp add: apply_all_def Un_commute)
qed

section \<open>Optimistic writes\<close>

definition owns_nothing :: "string \<Rightarrow> state_store \<Rightarrow> bool" where
  "owns_nothing cmd s \<longleftrightarrow> (\<forall>k v. (k, v) \<in> set (st_values s) \<longrightarrow> sv_PendingCommandID v \<noteq> cmd)"

lemma set_gm_put: "(k', v') \<in> set (gm_put k v m) \<Longrightarrow> (k', v') = (k, v) \<or> (k', v') \<in> set m"
  by (induction m) (auto split: if_splits)

lemma owns_nothing_put: "owns_nothing cmd s \<Longrightarrow> sv_PendingCommandID v \<noteq> cmd \<Longrightarrow> owns_nothing cmd (store_put v s)"
  unfolding owns_nothing_def store_put_def by (auto dest!: set_gm_put)

text \<open>
  Rollback. When a command's optimistic write is resolved with the value that was there
  before, the key holds that value again, two versions later and with no pending command, and
  no other key is touched.
\<close>

theorem optimistic_rollback:
  assumes "reachable store_init store_step s" and "owns_nothing cmd s"
    and "sv_PendingCommandID v = cmd" and "get_state (sv_Key v) s = Some old"
  shows "\<exists>x s'. resolveOptimistic cmd (Some old) (snd (applyOptimistic v s)) = ((x, True), s') \<and>
    x = old\<lparr>sv_Version := sv_Version old + 2, sv_PendingCommandID := []\<rparr> \<and>
    (\<forall>k. get_state k s' = (if k = sv_Key v then Some x else get_state k s))"
proof -
  have inv: "store_inv s" by (rule store_sys.reachable_inv [OF assms(1)])
  define w where "w = (normalize_state v)\<lparr>sv_Version := sv_Version old + 1\<rparr>"
  have s1: "snd (applyOptimistic v s) = store_put w s"
    using stored_or_zero_get [OF assms(4)] by (simp add: applyOptimistic_def Let_def w_def)
  have pend: "sv_PendingCommandID w = cmd" and key: "sv_Key w = sv_Key v" using assms(3) by (simp_all add: w_def)
  have ok: "gm_ok (st_values (store_put w s))" using inv by (simp add: store_put_def store_inv_def)
  have "find (\<lambda>(key, current). sv_PendingCommandID current = cmd) (st_values (store_put w s)) = Some (sv_Key v, w)"
  proof (rule find_unique)
    show "(sv_Key v, w) \<in> set (st_values (store_put w s))"
      using key by (intro gm_get_in_set) (simp add: store_put_def gomap_simps)
    show "y = (sv_Key v, w)" if "y \<in> set (st_values (store_put w s))"
        "case y of (key, current) \<Rightarrow> sv_PendingCommandID current = cmd" for y
    proof (cases y)
      case (Pair k' v')
      then have "(k', v') = (sv_Key v, w) \<or> (k', v') \<in> set (st_values s)"
        using that(1) key by (intro set_gm_put) (simp add: store_put_def)
      with that(2) assms(2) Pair show ?thesis by (auto simp: owns_nothing_def)
    qed
  qed (simp add: pend)
  then show ?thesis
    unfolding s1 by (simp add: resolveOptimistic_def w_def store_put_def get_state_def gomap_simps Let_def)
qed

text \<open>
  C11. A report beats a rollback. Once a device report answered the optimistic write of a
  command, resolving the command changes nothing, with or without a fallback, and the report
  stays.
\<close>

theorem report_beats_rollback:
  assumes "owns_nothing cmd s" and "sv_Quality v = QualityOptimistic" and "sv_PendingCommandID v = cmd"
    and "sv_Key r = sv_Key v" and "sv_Quality r \<in> {QualityReported, QualityConfirmed}" and "sv_PendingCommandID r \<noteq> cmd"
  shows "\<exists>x s'. apply_state r (snd (applyOptimistic v s)) = ((x, True), s') \<and>
    get_state (sv_Key v) s' = Some x \<and> sv_Value x = sv_Value r \<and>
    resolveOptimistic cmd fallback s' = ((zero_state_value, False), s')"
proof -
  define w where "w = fst (applyOptimistic v s)"
  have s1: "snd (applyOptimistic v s) = store_put w s" by (simp add: applyOptimistic_def Let_def w_def)
  have w: "sv_Quality w = QualityOptimistic" "sv_PendingCommandID w = cmd" "sv_Key w = sv_Key v"
    using assms(2,3) by (simp_all add: applyOptimistic_def Let_def w_def)
  define x where "x = (normalize_state r)\<lparr>sv_Version := sv_Version w + 1\<rparr>"
  have get: "get_state (sv_Key r) (store_put w s) = Some w" using w(3) assms(4) by simp
  have sup: "supersedes (store_put w s) w (normalize_state r)" using w(1) assms(5) by (simp add: supersedes_def)
  have app: "apply_state r (store_put w s) = ((x, True), store_put x (store_put w s))"
    using sup get stored_or_zero_get [OF get]
    by (cases rule: apply_state_cases [of r "store_put w s"]) (simp_all add: x_def Let_def)
  have "st_values (store_put x (store_put w s)) = st_values (store_put x s)"
    using assms(4) w(3) by (simp add: store_put_def x_def update_Some_unfold)
  then have "owns_nothing cmd (store_put x (store_put w s))"
    using owns_nothing_put [OF assms(1), of x] assms(6) by (simp add: owns_nothing_def x_def)
  then have "resolveOptimistic cmd fallback (store_put x (store_put w s)) =
      ((zero_state_value, False), store_put x (store_put w s))"
    by (cases rule: resolveOptimistic_cases [of "store_put x (store_put w s)" cmd fallback])
      (auto simp: owns_nothing_def)
  with app show ?thesis unfolding s1 by (auto simp: x_def assms(4))
qed

section \<open>Sweeps\<close>

interpretation stale_sweep: settling_sweep
  "\<lambda>key value. if sv_ExpiresAt value = zero_time \<or> now < sv_ExpiresAt value \<or> sv_Quality value = QualityStale
     then None
     else Some (value\<lparr>sv_Quality := QualityStale, sv_Available := False,
            sv_UnavailableReason := UnavailableExpired, sv_PendingCommandID := [],
            sv_Version := sv_Version value + 1\<rparr>)"
  by unfold_locales (auto split: if_splits)

lemma unavailable_value_settles: "unavailable_value r t v = Some v' \<Longrightarrow> unavailable_value r t' v' = None"
  by (auto simp: unavailable_value_def Let_def split: if_splits)

lemma unavailable_value_None:
  "unavailable_value r t v = None \<longleftrightarrow> \<not> sv_Available v \<and>
     sv_Quality v = (if sv_Known v then QualityStale else QualityUnknown) \<and> sv_UnavailableReason v = r"
  by (simp add: unavailable_value_def Let_def)

interpretation device_sweep: settling_sweep
  "\<lambda>key value. if key_DeviceID key \<noteq> deviceID then None else unavailable_value reason trace value"
  by unfold_locales (auto dest: unavailable_value_settles split: if_splits)

interpretation capability_sweep: settling_sweep
  "\<lambda>key value. if key_DeviceID key \<noteq> deviceID \<or> key_EndpointID key \<noteq> endpointID \<or> key_CapabilityID key \<noteq> capabilityID
     then None else unavailable_value reason trace value"
  by unfold_locales (auto dest: unavailable_value_settles split: if_splits)

lemma markDeviceUnavailable_get:
  "get_state k (snd (markDeviceUnavailable d reason ts s)) =
     (case get_state k s of None \<Rightarrow> None
      | Some v \<Rightarrow> Some (if key_DeviceID k = d
          then case unavailable_value reason (first_trace ts) v of None \<Rightarrow> v | Some v' \<Rightarrow> v' else v))"
  by (simp add: markDeviceUnavailable_def case_prod_beta get_state_def gomap_simps split: option.split)

text \<open>
  Going offline. Marking a device unavailable keeps every key and every payload, makes all
  values of the device unavailable for the given reason without a pending command, leaves the
  other devices alone, and a second notification reports no change and does not touch a version.
\<close>

theorem device_unavailable_idempotent:
  assumes "markDeviceUnavailable d reason ts s = (changed, s')"
  shows "(\<forall>k. map_option sv_Value (get_state k s') = map_option sv_Value (get_state k s)) \<and>
    (\<forall>k v. key_DeviceID k = d \<longrightarrow> get_state k s' = Some v \<longrightarrow>
       \<not> sv_Available v \<and> sv_UnavailableReason v = reason \<and>
       sv_Quality v = (if sv_Known v then QualityStale else QualityUnknown)) \<and>
    (\<forall>k. key_DeviceID k \<noteq> d \<longrightarrow> get_state k s' = get_state k s) \<and>
    (\<forall>ts'. markDeviceUnavailable d reason ts' s' = ([], s'))"
proof -
  have s': "s' = snd (markDeviceUnavailable d reason ts s)" using assms by simp
  have "markDeviceUnavailable d reason ts' s' = ([], s')" for ts'
  proof -
    let ?f = "\<lambda>t key value. if key_DeviceID key \<noteq> d then None else unavailable_value reason (first_trace t) value"
    have "?f ts' k v = None" if "(k, v) \<in> set (fst (gm_sweep (?f ts) (st_values s)))" for k v
      using device_sweep.sweep_settled_set [OF that] by (simp add: unavailable_value_None split: if_splits)
    then have "gm_sweep (?f ts') (fst (gm_sweep (?f ts) (st_values s))) = (fst (gm_sweep (?f ts) (st_values s)), [])"
      by (intro gm_sweep_idle)
    then show ?thesis unfolding s' by (simp add: markDeviceUnavailable_def case_prod_beta)
  qed
  moreover have "\<not> sv_Available v \<and> sv_UnavailableReason v = reason \<and>
      sv_Quality v = (if sv_Known v then QualityStale else QualityUnknown)"
    if "key_DeviceID k = d" "get_state k s' = Some v" for k v
    using that unfolding s' markDeviceUnavailable_get
    by (auto simp: unavailable_value_def Let_def split: option.splits if_splits)
  moreover have "map_option sv_Value (get_state k s') = map_option sv_Value (get_state k s)" for k
    unfolding s' markDeviceUnavailable_get by (auto simp: unavailable_value_def Let_def split: option.split)
  moreover have "get_state k s' = get_state k s" if "key_DeviceID k \<noteq> d" for k
    using that unfolding s' markDeviceUnavailable_get by (simp split: option.split)
  ultimately show ?thesis by blast
qed

lemma markStale_get:
  "get_state k (snd (markStale now s)) =
     (case get_state k s of None \<Rightarrow> None
      | Some v \<Rightarrow> Some (if sv_ExpiresAt v = zero_time \<or> now < sv_ExpiresAt v \<or> sv_Quality v = QualityStale then v
          else v\<lparr>sv_Quality := QualityStale, sv_Available := False,
            sv_UnavailableReason := UnavailableExpired, sv_PendingCommandID := [], sv_Version := sv_Version v + 1\<rparr>))"
  by (auto simp: markStale_def case_prod_beta get_state_def gomap_simps split: option.split)

text \<open>
  Expiry. After \<open>MarkStale\<close> at a given time no value whose deadline has passed is
  available, the values without a passed deadline are unchanged, and a second sweep at the
  same time finds nothing to do.
\<close>

theorem expired_values_unavailable:
  assumes "reachable store_init store_step s" and "markStale now s = (changed, s')"
  shows "(\<forall>k v. get_state k s' = Some v \<longrightarrow> sv_ExpiresAt v \<noteq> zero_time \<longrightarrow> sv_ExpiresAt v \<le> now \<longrightarrow> \<not> sv_Available v) \<and>
    (\<forall>k v. get_state k s = Some v \<longrightarrow> sv_ExpiresAt v = zero_time \<or> now < sv_ExpiresAt v \<longrightarrow> get_state k s' = Some v) \<and>
    markStale now s' = ([], s')"
proof -
  have s': "s' = snd (markStale now s)" using assms(2) by simp
  have inv: "store_inv s'" unfolding s' by (rule mark_inv(1) [OF store_sys.reachable_inv [OF assms(1)]])
  have "\<not> sv_Available v" if "get_state k s' = Some v" "sv_ExpiresAt v \<noteq> zero_time" "sv_ExpiresAt v \<le> now" for k v
  proof -
    have "sv_Quality v = QualityStale"
      using that unfolding s' markStale_get by (auto split: option.splits if_splits)
    moreover have "avail_ok v" using inv that(1) by (simp add: store_inv_def)
    ultimately show ?thesis by (auto simp: avail_ok_def live_quality_def)
  qed
  moreover have "markStale now s' = ([], s')"
    unfolding s' by (simp add: markStale_def case_prod_beta stale_sweep.sweep_twice)
  moreover have "get_state k s' = Some v"
    if "get_state k s = Some v" "sv_ExpiresAt v = zero_time \<or> now < sv_ExpiresAt v" for k v
    using that unfolding s' markStale_get by auto
  ultimately show ?thesis by blast
qed

section \<open>Checkpoints\<close>

lemma store_values_keys: "store_inv s \<Longrightarrow> map sv_Key (map snd (st_values s)) = map fst (st_values s)"
  by (auto simp: store_inv_def get_state_def map_of_eq_Some_iff)

lemma sorted_states: "sorted (map sv_Key (sortStateValues vs))"
  unfolding sortStateValues_def by (rule sorted_sort_slice) simp

lemma find_rev_checkpoint:
  assumes inv: "store_inv s" and comp: "\<And>k v. get_state k s = Some v \<Longrightarrow> key_complete k"
  shows "find (\<lambda>v. key_complete (sv_Key v) \<and> sv_Key v = k) (rev (cp_Values (checkpoint_of s))) = get_state k s"
proof -
  have ok: "gm_ok (st_values s)" using inv by (simp add: store_inv_def)
  have elem: "v \<in> set (rev (cp_Values (checkpoint_of s))) \<longleftrightarrow> get_state (sv_Key v) s = Some v" for v
  proof -
    have "v \<in> set (rev (cp_Values (checkpoint_of s))) \<longleftrightarrow> (\<exists>k. (k, v) \<in> set (st_values s))"
      by (force simp: checkpoint_of_def sortStateValues_def)
    also have "\<dots> \<longleftrightarrow> (\<exists>k. get_state k s = Some v)" using ok by (simp add: get_state_def map_of_eq_Some_iff)
    also have "\<dots> \<longleftrightarrow> get_state (sv_Key v) s = Some v" using inv by (auto simp: store_inv_def)
    finally show ?thesis .
  qed
  show ?thesis
  proof (cases "get_state k s")
    case None
    with elem show ?thesis by (auto simp: find_None_iff)
  next
    case (Some v)
    then have "sv_Key v = k" using inv by (simp add: store_inv_def)
    with Some elem comp show ?thesis by (intro trans [OF find_unique Some [symmetric]]) auto
  qed
qed

text \<open>
  C36. Restart. Restoring a checkpoint of a store whose keys are complete brings back exactly the
  same keys and payloads, none of them available and none owned by a command; the checkpoint
  is sorted by key and does not depend on the iteration order of the map; a checkpoint of
  another version is refused and changes nothing.
\<close>

theorem checkpoint_restore:
  assumes "reachable store_init store_step s" and "\<forall>k v. get_state k s = Some v \<longrightarrow> key_complete k"
  shows "fst (restoreCheckpoint (checkpoint_of s) t) \<and>
    (\<forall>k. get_state k (snd (restoreCheckpoint (checkpoint_of s) t)) = map_option restored_value (get_state k s)) \<and>
    (\<forall>k v. get_state k (snd (restoreCheckpoint (checkpoint_of s) t)) = Some v \<longrightarrow>
       \<not> sv_Available v \<and> sv_Quality v = QualityStale \<and> sv_PendingCommandID v = [] \<and>
       (\<exists>old. get_state k s = Some old \<and> sv_Value v = sv_Value old)) \<and>
    sorted (map sv_Key (cp_Values (checkpoint_of s))) \<and>
    (\<forall>m. mset m = mset (st_values s) \<longrightarrow> checkpoint_of (s\<lparr>st_values := m\<rparr>) = checkpoint_of s)"
proof -
  have inv: "store_inv s" by (rule store_sys.reachable_inv [OF assms(1)])
  have get: "get_state k (snd (restoreCheckpoint (checkpoint_of s) t)) = map_option restored_value (get_state k s)" for k
    using find_rev_checkpoint [OF inv] assms(2) by (subst restore_get) (simp_all add: checkpoint_of_def)
  have ok: "fst (restoreCheckpoint (checkpoint_of s) t)" by (simp add: restoreCheckpoint_def checkpoint_of_def)
  have sorted: "sorted (map sv_Key (cp_Values (checkpoint_of s)))" by (simp add: checkpoint_of_def sorted_states)
  have perm: "checkpoint_of (s\<lparr>st_values := m\<rparr>) = checkpoint_of s" if m: "mset m = mset (st_values s)" for m
  proof -
    have "sort_slice (\<lambda>l r. sv_Key l < sv_Key r) (map snd (st_values s)) =
        sort_slice (\<lambda>l r. sv_Key l < sv_Key r) (map snd m)"
    proof (rule sort_slice_perm [where f = sv_Key])
      show "distinct (map sv_Key (map snd (st_values s)))"
        unfolding store_values_keys [OF inv] using inv by (simp add: store_inv_def)
    qed (simp_all add: m)
    then show ?thesis by (simp add: checkpoint_of_def sortStateValues_def)
  qed
  show ?thesis using get ok sorted perm by auto
qed

text \<open>
  Redelivery. A report that another one has superseded stays out: delivering the older one
  again, after the newer one was stored, changes nothing.
\<close>

theorem superseded_report_stays_out:
  assumes "get_state (sv_Key v) s = Some (normalize_state c)" and "sv_Key c = sv_Key v"
    and "supersedes s (normalize_state c) (normalize_state v)"
    and "sv_Quality c \<noteq> QualityOptimistic" and "sv_Quality v \<noteq> QualityOptimistic"
  shows "\<exists>x s'. apply_state v s = ((x, True), s') \<and> apply_state c s' = ((x, False), s')"
proof -
  define x where "x = (normalize_state v)\<lparr>sv_Version := sv_Version c + 1\<rparr>"
  have app: "apply_state v s = ((x, True), store_put x s)"
    using assms(1,3) stored_or_zero_get [OF assms(1)]
    by (cases rule: apply_state_cases [of v s]) (simp_all add: x_def Let_def)
  have prio: "providerPriorityLocked (store_put y s) = providerPriorityLocked s" for y
    by (simp add: providerPriorityLocked_def fun_eq_iff)
  have "supersedes (store_put x s) (normalize_state c) x = supersedes s (normalize_state c) (normalize_state v)"
  proof -
    have "sv_Key x = sv_Key (normalize_state v)" "sv_ProviderID x = sv_ProviderID (normalize_state v)"
      "sv_Quality x = sv_Quality (normalize_state v)" "sv_Sequence x = sv_Sequence (normalize_state v)"
      "age x = age (normalize_state v)" by (simp_all add: x_def age_def)
    then show ?thesis unfolding supersedes_def Let_def prio by (simp only:)
  qed
  with assms(3) have "supersedes (store_put x s) (normalize_state c) x" by simp
  then have "\<not> supersedes (store_put x s) x (normalize_state c)"
    using assms(4,5) by (intro supersedes_asym) (simp_all add: x_def)
  moreover have get: "get_state (sv_Key c) (store_put x s) = Some x" using assms(2) by (simp add: x_def)
  ultimately have "apply_state c (store_put x s) = ((x, False), store_put x s)"
    using stored_or_zero_get [OF get] by (cases rule: apply_state_cases [of c "store_put x s"]) simp_all
  with app show ?thesis by blast
qed

section \<open>Concrete runs\<close>

definition lamp_key :: state_key where
  "lamp_key = Key ''lamp'' ''main'' ''switch'' ''on''"

definition sample_report :: "bool \<Rightarrow> u64 \<Rightarrow> state_value" where
  "sample_report b n = zero_state_value\<lparr>sv_Key := lamp_key, sv_Value := BoolStateValue b, sv_ProviderID := ''mqtt'',
     sv_Quality := QualityReported, sv_Sequence := n, sv_ObservedAt := 10, sv_ReceivedAt := 11, sv_ExpiresAt := 50\<rparr>"

definition sample_optimistic :: state_value where
  "sample_optimistic = (sample_report False 0)\<lparr>sv_Quality := QualityOptimistic, sv_PendingCommandID := ''cmd''\<rparr>"

definition sample_store :: state_store where
  "sample_store = snd (apply_state (sample_report True 1) (newStore []))"

lemmas sample_state_defs = sample_report_def lamp_key_def zero_state_value_def BoolStateValue_def
  sample_optimistic_def

lemma sample_store_eq:
  "sample_store = \<lparr>st_values = [(lamp_key, (normalize_state (sample_report True 1))\<lparr>sv_Version := 1\<rparr>)], st_priority = None\<rparr>"
  by (simp add: sample_store_def apply_state_def applyWithResult_def newStore_def stored_or_zero_def
      store_put_def sample_state_defs Let_def)

lemma sample_store_reachable: "reachable store_init store_step sample_store"
  unfolding sample_store_def
  by (rule reach_step [where s = "newStore []"], rule reach_init,
      force simp: store_init_def, rule step_apply, simp add: sample_state_defs declared_quality_def)

lemma sample_store_get:
  "get_state lamp_key sample_store = Some ((normalize_state (sample_report True 1))\<lparr>sv_Version := 1\<rparr>)"
  by (simp add: sample_store_eq get_state_def)

theorem store_values_consistent_witness: "gm_ok (st_values sample_store)"
  using store_values_consistent [OF sample_store_reachable] by simp

theorem newest_sequence_wins_witness:
  "\<exists>n. get_state lamp_key (apply_all [sample_report True 5, sample_report False 3] (newStore [])) =
     Some ((normalize_state (sample_report True 5))\<lparr>sv_Version := n\<rparr>)"
  using newest_sequence_wins [of "[sample_report True 5, sample_report False 3]" lamp_key "''mqtt''" "newStore []"]
  by (auto simp: report_on_def sample_state_defs newStore_def get_state_def)

theorem optimistic_rollback_witness:
  "\<exists>x s'. resolveOptimistic ''cmd'' (get_state lamp_key sample_store)
      (snd (applyOptimistic sample_optimistic sample_store)) = ((x, True), s') \<and> get_state lamp_key s' = Some x"
proof -
  have key: "sv_Key sample_optimistic = lamp_key" "sv_PendingCommandID sample_optimistic = ''cmd''"
    by (simp_all add: sample_state_defs)
  have "owns_nothing ''cmd'' sample_store"
    by (simp add: owns_nothing_def sample_store_eq) (simp add: sample_state_defs)
  from optimistic_rollback [OF sample_store_reachable this key(2)] key(1) sample_store_get
  show ?thesis by auto
qed

theorem report_beats_rollback_witness:
  "\<exists>x s'. apply_state (sample_report True 2) (snd (applyOptimistic sample_optimistic sample_store)) = ((x, True), s') \<and>
     resolveOptimistic ''cmd'' None s' = ((zero_state_value, False), s')"
proof -
  have "owns_nothing ''cmd'' sample_store"
    by (simp add: owns_nothing_def sample_store_eq) (simp add: sample_state_defs)
  from report_beats_rollback [OF this, of sample_optimistic "sample_report True 2" None] show ?thesis
    by (auto simp: sample_state_defs)
qed

theorem device_unavailable_idempotent_witness:
  "markDeviceUnavailable ''lamp'' UnavailableDisabled []
     (snd (markDeviceUnavailable ''lamp'' UnavailableDisabled [''t''] sample_store)) =
   ([], snd (markDeviceUnavailable ''lamp'' UnavailableDisabled [''t''] sample_store))"
  using device_unavailable_idempotent [OF prod.collapse [symmetric]] by blast

theorem expired_values_unavailable_witness:
  "markStale 60 (snd (markStale 60 sample_store)) = ([], snd (markStale 60 sample_store))"
  using expired_values_unavailable [OF sample_store_reachable prod.collapse [symmetric]] by blast

theorem checkpoint_restore_witness:
  "get_state lamp_key (snd (restoreCheckpoint (checkpoint_of sample_store) (newStore []))) =
   map_option restored_value (get_state lamp_key sample_store)"
proof -
  have "\<forall>k v. get_state k sample_store = Some v \<longrightarrow> key_complete k"
    by (auto simp: sample_store_eq get_state_def key_complete_def lamp_key_def split: if_splits)
  from checkpoint_restore [OF sample_store_reachable this] show ?thesis by blast
qed

theorem superseded_report_stays_out_witness:
  "\<exists>x s'. apply_state (sample_report False 2) (store_put (normalize_state (sample_report True 1)) (newStore [])) = ((x, True), s') \<and>
     apply_state (sample_report True 1) s' = ((x, False), s')"
  by (rule superseded_report_stays_out)
    (simp_all add: sample_report_def newStore_def supersedes_def zero_state_value_def)

end
