(* ===== verification/Device_Model.thy ===== *)
theory Device_Model
  imports Go_Prelude Float64
begin

text \<open>
  The unified device model, \<open>internal/domain/device/device.go\<close>: typed property values,
  definitions and their validation, the tree of endpoints, capabilities and properties, and
  the availability of a device; and \<open>internal/registry/device_registry.go\<close>, the registry that
  holds the devices.

  A pointer payload is an \<open>option\<close>. String types with constants are datatypes whose
  constructor \<open>...Other\<close> stands for every other string, the empty one included. An error value
  carries the data its message is formatted from. Values are copied, so \<open>Clone\<close> is the identity.
\<close>

section \<open>Values\<close>

datatype value_type = ValueTypeBool | ValueTypeInt | ValueTypeNumber | ValueTypeString | ValueTypeEnum
  | ValueTypeOther string

record property_value =
  pv_Type :: value_type
  pv_Bool :: "bool option"
  pv_Int :: "int option"
  pv_Number :: "float64 option"
  pv_String :: "string option"

definition BoolValue :: "bool \<Rightarrow> property_value" where
  "BoolValue value = \<lparr>pv_Type = ValueTypeBool, pv_Bool = Some value, pv_Int = None, pv_Number = None, pv_String = None\<rparr>"

definition IntValue :: "int \<Rightarrow> property_value" where
  "IntValue value = \<lparr>pv_Type = ValueTypeInt, pv_Bool = None, pv_Int = Some value, pv_Number = None, pv_String = None\<rparr>"

definition NumberValue :: "float64 \<Rightarrow> property_value" where
  "NumberValue value = \<lparr>pv_Type = ValueTypeNumber, pv_Bool = None, pv_Int = None, pv_Number = Some value, pv_String = None\<rparr>"

definition StringValue :: "string \<Rightarrow> property_value" where
  "StringValue value = \<lparr>pv_Type = ValueTypeString, pv_Bool = None, pv_Int = None, pv_Number = None, pv_String = Some value\<rparr>"

definition EnumValue :: "string \<Rightarrow> property_value" where
  "EnumValue value = \<lparr>pv_Type = ValueTypeEnum, pv_Bool = None, pv_Int = None, pv_Number = None, pv_String = Some value\<rparr>"

lemmas value_constructors = BoolValue_def IntValue_def NumberValue_def StringValue_def EnumValue_def

definition both :: "('a \<Rightarrow> 'a \<Rightarrow> bool) \<Rightarrow> 'a option \<Rightarrow> 'a option \<Rightarrow> bool" where
  "both eq l r = (case (l, r) of (Some x, Some y) \<Rightarrow> eq x y | _ \<Rightarrow> False)"

definition value_equal :: "property_value \<Rightarrow> property_value \<Rightarrow> bool" where
  "value_equal p other =
     (if pv_Type p \<noteq> pv_Type other then False
      else case pv_Type p of
             ValueTypeBool \<Rightarrow> both (=) (pv_Bool p) (pv_Bool other)
           | ValueTypeInt \<Rightarrow> both (=) (pv_Int p) (pv_Int other)
           | ValueTypeNumber \<Rightarrow> both f64_eq (pv_Number p) (pv_Number other)
           | ValueTypeString \<Rightarrow> both (=) (pv_String p) (pv_String other)
           | ValueTypeEnum \<Rightarrow> both (=) (pv_String p) (pv_String other)
           | ValueTypeOther _ \<Rightarrow> False)"

definition payload_count :: "property_value \<Rightarrow> nat" where
  "payload_count p =
     (if pv_Bool p \<noteq> None then 1 else 0) + (if pv_Int p \<noteq> None then 1 else 0) +
     (if pv_Number p \<noteq> None then 1 else 0) + (if pv_String p \<noteq> None then 1 else 0)"

definition hasSinglePayload :: "property_value \<Rightarrow> bool" where
  "hasSinglePayload p =
     (if payload_count p \<noteq> 1 then False
      else case pv_Type p of
             ValueTypeBool \<Rightarrow> pv_Bool p \<noteq> None
           | ValueTypeInt \<Rightarrow> pv_Int p \<noteq> None
           | ValueTypeNumber \<Rightarrow> pv_Number p \<noteq> None
           | ValueTypeString \<Rightarrow> pv_String p \<noteq> None
           | ValueTypeEnum \<Rightarrow> pv_String p \<noteq> None
           | ValueTypeOther _ \<Rightarrow> False)"

section \<open>Definitions\<close>

datatype parameter_level = ParameterRequired | ParameterOptional | ParameterCustom | ParameterLevelOther string

datatype availability = AvailabilityOnline | AvailabilityOffline | AvailabilityUnknown | AvailabilityOther string

datatype runtime_mode = RuntimeModePending | RuntimeModeLocal | RuntimeModeCloud | RuntimeModeOther string

datatype state_transport = StateTransportPending | StateTransportLocalMQTT | StateTransportCloudMQTT
  | StateTransportCloudHTTP | StateTransportOther string

datatype location_mode = LocationModeSource | LocationModeCustom | LocationModeOther string

record property_definition =
  pd_ID :: string
  pd_Name :: string
  pd_Type :: value_type
  pd_ParameterLevel :: parameter_level
  pd_Unit :: string
  pd_Readable :: bool
  pd_Writable :: bool
  pd_Notifiable :: bool
  pd_Min :: "float64 option"
  pd_Max :: "float64 option"
  pd_Step :: "float64 option"
  pd_Enum :: "string list"
  pd_StaleAfterSeconds :: int

record property =
  prop_Definition :: property_definition
  prop_Value :: property_value
  prop_StateTransport :: state_transport

record command_parameter =
  par_ID :: string
  par_Name :: string
  par_Type :: value_type
  par_Required :: bool

record command_definition =
  cd_ID :: string
  cd_Name :: string
  cd_Idempotent :: bool
  cd_Parameters :: "command_parameter list"

record event_definition =
  ed_ID :: string
  ed_Name :: string
  ed_Payload :: value_type

record capability =
  cap_ID :: string
  cap_Type :: string
  cap_Properties :: "property list"
  cap_Commands :: "command_definition list"
  cap_Events :: "event_definition list"

record endpoint =
  ep_ID :: string
  ep_Name :: string
  ep_Type :: string
  ep_Capabilities :: "capability list"

record device =
  dev_SchemaVersion :: int
  dev_ID :: string
  dev_ProviderID :: string
  dev_Name :: string
  dev_SourceName :: string
  dev_NameOverridden :: bool
  dev_Type :: string
  dev_HomeID :: string
  dev_HomeName :: string
  dev_RoomID :: string
  dev_RoomName :: string
  dev_LocationMode :: location_mode
  dev_SourceHomeID :: string
  dev_SourceHomeName :: string
  dev_SourceRoomID :: string
  dev_SourceRoomName :: string
  dev_Availability :: availability
  dev_Online :: bool
  dev_Sequence :: u64
  dev_Disabled :: bool
  dev_Removed :: bool
  dev_RuntimeMode :: runtime_mode
  dev_StateTransport :: state_transport
  dev_MappingError :: string
  dev_Endpoints :: "endpoint list"
  dev_LastUpdateAt :: time

definition SchemaVersion :: int where
  "SchemaVersion = 1"

section \<open>Stable identifiers\<close>

text \<open>
  \<open>^[a-z0-9](?:[a-z0-9._-]{0,62}[a-z0-9])?$\<close>: one edge character, or an edge character, at most
  62 inner characters and an edge character.
\<close>

definition in_range :: "char \<Rightarrow> char \<Rightarrow> char \<Rightarrow> bool" where
  "in_range lo hi c \<longleftrightarrow> lo \<le> c \<and> c \<le> hi"

definition id_edge :: "char \<Rightarrow> bool" where
  "id_edge c \<longleftrightarrow> in_range (CHR ''a'') (CHR ''z'') c \<or> in_range (CHR ''0'') (CHR ''9'') c"

definition id_inner :: "char \<Rightarrow> bool" where
  "id_inner c \<longleftrightarrow> id_edge c \<or> c = CHR ''.'' \<or> c = CHR ''_'' \<or> c = CHR ''-''"

definition ValidStableID :: "string \<Rightarrow> bool" where
  "ValidStableID value =
     (case value of
        [] \<Rightarrow> False
      | c # rest \<Rightarrow> id_edge c \<and>
          (rest = [] \<or> (length (butlast rest) \<le> 62 \<and> list_all id_inner (butlast rest) \<and> id_edge (last rest))))"

section \<open>Validation of a property\<close>

datatype property_error =
    PE_StateTransport state_transport | PE_ParameterLevel parameter_level
  | PE_MinExceedsMax | PE_StepNotPositive | PE_EnumOptionsRequired | PE_IntConstraint string
  | PE_TypeMismatch value_type value_type | PE_NotSinglePayload | PE_PayloadMissing value_type
  | PE_IntBelowMin | PE_IntAboveMax | PE_NumberNotFinite | PE_NumberBelowMin | PE_NumberAboveMax
  | PE_EnumNotDeclared | PE_UnsupportedType value_type | PE_IntStep | PE_NumberStep

definition validValueType :: "value_type \<Rightarrow> bool" where
  "validValueType value \<longleftrightarrow> value = ValueTypeBool \<or> value = ValueTypeInt \<or> value = ValueTypeNumber \<or>
     value = ValueTypeString \<or> value = ValueTypeEnum"

definition known_transport :: "state_transport \<Rightarrow> bool" where
  "known_transport t \<longleftrightarrow> \<not> (t \<noteq> StateTransportOther [] \<and> t \<noteq> StateTransportPending \<and> t \<noteq> StateTransportLocalMQTT \<and>
     t \<noteq> StateTransportCloudMQTT \<and> t \<noteq> StateTransportCloudHTTP)"

text \<open>
  \<open>math.Trunc(c) != c\<close> for one of the three constraints of an int property. The source ranges
  over a map literal; the model reports the first offender in the order of the literal.
\<close>

definition integral_constraint :: "float64 option \<Rightarrow> bool" where
  "integral_constraint c = (case c of None \<Rightarrow> True | Some x \<Rightarrow> f64_eq (f64_trunc x) x)"

definition int_constraint_error :: "property_definition \<Rightarrow> property_error option" where
  "int_constraint_error d =
     (if \<not> integral_constraint (pd_Min d) then Some (PE_IntConstraint ''minimum'')
      else if \<not> integral_constraint (pd_Max d) then Some (PE_IntConstraint ''maximum'')
      else if \<not> integral_constraint (pd_Step d) then Some (PE_IntConstraint ''step'')
      else None)"

definition below :: "float64 \<Rightarrow> float64 option \<Rightarrow> bool" where
  "below x limit = (case limit of None \<Rightarrow> False | Some l \<Rightarrow> f64_lt x l)"

definition above :: "float64 \<Rightarrow> float64 option \<Rightarrow> bool" where
  "above x limit = (case limit of None \<Rightarrow> False | Some l \<Rightarrow> f64_lt l x)"

text \<open>The checks of the definition, and the switch on the type of the value.\<close>

definition definition_error :: "property \<Rightarrow> property_error option" where
  "definition_error p =
     (let d = prop_Definition p
      in if \<not> known_transport (prop_StateTransport p) then Some (PE_StateTransport (prop_StateTransport p))
         else if pd_ParameterLevel d \<noteq> ParameterLevelOther [] \<and> pd_ParameterLevel d \<noteq> ParameterRequired \<and>
                 pd_ParameterLevel d \<noteq> ParameterOptional \<and> pd_ParameterLevel d \<noteq> ParameterCustom
         then Some (PE_ParameterLevel (pd_ParameterLevel d))
         else if both (\<lambda>mn mx. f64_lt mx mn) (pd_Min d) (pd_Max d) then Some PE_MinExceedsMax
         else if (case pd_Step d of None \<Rightarrow> False | Some s \<Rightarrow> f64_le s (F_Zero False)) then Some PE_StepNotPositive
         else if pd_Type d = ValueTypeEnum \<and> pd_Enum d = [] then Some PE_EnumOptionsRequired
         else if pd_Type d = ValueTypeInt then int_constraint_error d
         else None)"

definition value_error :: "property_definition \<Rightarrow> property_value \<Rightarrow> property_error option" where
  "value_error d value =
     (case pv_Type value of
        ValueTypeBool \<Rightarrow> (if pv_Bool value = None then Some (PE_PayloadMissing ValueTypeBool) else None)
      | ValueTypeInt \<Rightarrow>
          (case pv_Int value of
             None \<Rightarrow> Some (PE_PayloadMissing ValueTypeInt)
           | Some i \<Rightarrow>
               if below (f64_of_int i) (pd_Min d) then Some PE_IntBelowMin
               else if above (f64_of_int i) (pd_Max d) then Some PE_IntAboveMax else None)
      | ValueTypeNumber \<Rightarrow>
          (case pv_Number value of
             None \<Rightarrow> Some (PE_PayloadMissing ValueTypeNumber)
           | Some x \<Rightarrow>
               if f64_is_nan x \<or> f64_is_inf x then Some PE_NumberNotFinite
               else if below x (pd_Min d) then Some PE_NumberBelowMin
               else if above x (pd_Max d) then Some PE_NumberAboveMax else None)
      | ValueTypeString \<Rightarrow> (if pv_String value = None then Some (PE_PayloadMissing ValueTypeString) else None)
      | ValueTypeEnum \<Rightarrow>
          (case pv_String value of
             None \<Rightarrow> Some (PE_PayloadMissing ValueTypeEnum)
           | Some s \<Rightarrow> if \<not> list_ex (\<lambda>option. option = s) (pd_Enum d) then Some PE_EnumNotDeclared else None)
      | ValueTypeOther t \<Rightarrow> Some (PE_UnsupportedType (ValueTypeOther t)))"

definition property_validate :: "property \<Rightarrow> property_error option" where
  "property_validate p =
     (let value = prop_Value p; d = prop_Definition p
      in case definition_error p of
           Some e \<Rightarrow> Some e
         | None \<Rightarrow>
             if pv_Type value \<noteq> pd_Type d then Some (PE_TypeMismatch (pv_Type value) (pd_Type d))
             else if payload_count value \<noteq> 1 then Some PE_NotSinglePayload
             else value_error d value)"

definition numericStepOrigin :: "float64 option \<Rightarrow> float64" where
  "numericStepOrigin minimum = (case minimum of None \<Rightarrow> F_Zero False | Some m \<Rightarrow> m)"

definition valueMatchesStep :: "float64 \<Rightarrow> float64 \<Rightarrow> float64 \<Rightarrow> bool" where
  "valueMatchesStep value origin step =
     (if f64_le step (F_Zero False) \<or> f64_is_nan value \<or> f64_is_inf value then False
      else let quotient = f64_div (f64_sub value origin) step
           in f64_le (f64_abs (f64_sub quotient (f64_math_round quotient)))
                (f64_mul (f64_lit (1 / 10 ^ 9)) (f64_max (f64_lit 1) (f64_abs quotient))))"

definition property_validateWrite :: "property \<Rightarrow> property_error option" where
  "property_validateWrite p =
     (let d = prop_Definition p; value = prop_Value p
      in case property_validate p of
           Some e \<Rightarrow> Some e
         | None \<Rightarrow>
             (case pd_Step d of
                None \<Rightarrow> None
              | Some step \<Rightarrow>
                  if \<not> pd_Writable d then None
                  else case pd_Type d of
                         ValueTypeInt \<Rightarrow>
                           (if (case pv_Int value of None \<Rightarrow> True
                                | Some i \<Rightarrow> \<not> valueMatchesStep (f64_of_int i) (numericStepOrigin (pd_Min d)) step)
                            then Some PE_IntStep else None)
                       | ValueTypeNumber \<Rightarrow>
                           (if (case pv_Number value of None \<Rightarrow> True
                                | Some x \<Rightarrow> \<not> valueMatchesStep x (numericStepOrigin (pd_Min d)) step)
                            then Some PE_NumberStep else None)
                       | _ \<Rightarrow> None))"

section \<open>Availability\<close>

definition effectiveAvailability :: "device \<Rightarrow> availability" where
  "effectiveAvailability d =
     (case dev_Availability d of
        AvailabilityOther _ \<Rightarrow> if dev_Online d then AvailabilityOnline else AvailabilityOffline
      | a \<Rightarrow> a)"

definition isOnline :: "device \<Rightarrow> bool" where
  "isOnline d \<longleftrightarrow> effectiveAvailability d = AvailabilityOnline"

definition setAvailability :: "availability \<Rightarrow> device \<Rightarrow> device" where
  "setAvailability value d = d\<lparr>dev_Availability := value, dev_Online := (value = AvailabilityOnline)\<rparr>"

definition setOnline :: "bool \<Rightarrow> device \<Rightarrow> device" where
  "setOnline online d = (if online then setAvailability AvailabilityOnline d else setAvailability AvailabilityOffline d)"

definition normalizeAvailability :: "device \<Rightarrow> device" where
  "normalizeAvailability d = setAvailability (effectiveAvailability d) d"

section \<open>Validation of the structure\<close>

datatype id_kind = KindEndpoint | KindCapability | KindPropertyID | KindCommandID | KindCommandParameter | KindEventID

datatype model_error =
    ME_SchemaVersion int | ME_DeviceOrProviderID | ME_Availability availability | ME_OnlineConflict
  | ME_RuntimeMode runtime_mode | ME_StateTransport state_transport | ME_DisabledOnline
  | ME_InvalidID id_kind string | ME_DuplicateID id_kind string | ME_Property string property_error
  | ME_ParameterType value_type | ME_EventPayload value_type

text \<open>\<open>claimStableID\<close>, and the same two checks that the loops over the tree spell out.\<close>

definition claimStableID :: "string list \<Rightarrow> string \<Rightarrow> id_kind \<Rightarrow> model_error option" where
  "claimStableID seen i kind =
     (if \<not> ValidStableID i then Some (ME_InvalidID kind i)
      else if i \<in> set seen then Some (ME_DuplicateID kind i)
      else None)"

fun validate_properties :: "string list \<Rightarrow> property list \<Rightarrow> model_error option" where
  "validate_properties seen [] = None"
| "validate_properties seen (p # ps) =
     (case claimStableID seen (pd_ID (prop_Definition p)) KindPropertyID of
        Some e \<Rightarrow> Some e
      | None \<Rightarrow>
          (case property_validate p of
             Some e \<Rightarrow> Some (ME_Property (pd_ID (prop_Definition p)) e)
           | None \<Rightarrow> validate_properties (pd_ID (prop_Definition p) # seen) ps))"

fun validate_parameters :: "string list \<Rightarrow> command_parameter list \<Rightarrow> model_error option" where
  "validate_parameters seen [] = None"
| "validate_parameters seen (p # ps) =
     (case claimStableID seen (par_ID p) KindCommandParameter of
        Some e \<Rightarrow> Some e
      | None \<Rightarrow>
          if \<not> validValueType (par_Type p) then Some (ME_ParameterType (par_Type p))
          else validate_parameters (par_ID p # seen) ps)"

fun validate_commands :: "string list \<Rightarrow> command_definition list \<Rightarrow> model_error + string list" where
  "validate_commands seen [] = Inr seen"
| "validate_commands seen (c # cs) =
     (case claimStableID seen (cd_ID c) KindCommandID of
        Some e \<Rightarrow> Inl e
      | None \<Rightarrow>
          (case validate_parameters [] (cd_Parameters c) of
             Some e \<Rightarrow> Inl e
           | None \<Rightarrow> validate_commands (cd_ID c # seen) cs))"

fun validate_events :: "string list \<Rightarrow> event_definition list \<Rightarrow> model_error option" where
  "validate_events seen [] = None"
| "validate_events seen (e # es) =
     (case claimStableID seen (ed_ID e) KindEventID of
        Some err \<Rightarrow> Some err
      | None \<Rightarrow>
          if \<not> validValueType (ed_Payload e) then Some (ME_EventPayload (ed_Payload e))
          else validate_events (ed_ID e # seen) es)"

definition validate_capability :: "capability \<Rightarrow> model_error option" where
  "validate_capability c =
     (case validate_properties [] (cap_Properties c) of
        Some e \<Rightarrow> Some e
      | None \<Rightarrow>
          (case validate_commands [] (cap_Commands c) of
             Inl e \<Rightarrow> Some e
           | Inr seen \<Rightarrow> validate_events seen (cap_Events c)))"

fun validate_capabilities :: "string list \<Rightarrow> capability list \<Rightarrow> model_error option" where
  "validate_capabilities seen [] = None"
| "validate_capabilities seen (c # cs) =
     (case claimStableID seen (cap_ID c) KindCapability of
        Some e \<Rightarrow> Some e
      | None \<Rightarrow>
          (case validate_capability c of
             Some e \<Rightarrow> Some e
           | None \<Rightarrow> validate_capabilities (cap_ID c # seen) cs))"

fun validate_endpoints :: "string list \<Rightarrow> endpoint list \<Rightarrow> model_error option" where
  "validate_endpoints seen [] = None"
| "validate_endpoints seen (e # es) =
     (case claimStableID seen (ep_ID e) KindEndpoint of
        Some err \<Rightarrow> Some err
      | None \<Rightarrow>
          (case validate_capabilities [] (ep_Capabilities e) of
             Some err \<Rightarrow> Some err
           | None \<Rightarrow> validate_endpoints (ep_ID e # seen) es))"

definition validateStructure :: "device \<Rightarrow> model_error option" where
  "validateStructure d =
     (if dev_SchemaVersion d \<noteq> SchemaVersion then Some (ME_SchemaVersion (dev_SchemaVersion d))
      else if \<not> ValidStableID (dev_ID d) \<or> \<not> ValidStableID (dev_ProviderID d) then Some ME_DeviceOrProviderID
      else if dev_Availability d \<noteq> AvailabilityOther [] \<and> dev_Availability d \<noteq> AvailabilityOnline \<and>
              dev_Availability d \<noteq> AvailabilityOffline \<and> dev_Availability d \<noteq> AvailabilityUnknown
      then Some (ME_Availability (dev_Availability d))
      else if dev_Availability d \<noteq> AvailabilityOther [] \<and>
              dev_Online d \<noteq> (dev_Availability d = AvailabilityOnline)
      then Some ME_OnlineConflict
      else if dev_RuntimeMode d \<noteq> RuntimeModeOther [] \<and> dev_RuntimeMode d \<noteq> RuntimeModePending \<and>
              dev_RuntimeMode d \<noteq> RuntimeModeLocal \<and> dev_RuntimeMode d \<noteq> RuntimeModeCloud
      then Some (ME_RuntimeMode (dev_RuntimeMode d))
      else if \<not> known_transport (dev_StateTransport d) then Some (ME_StateTransport (dev_StateTransport d))
      else if (dev_Disabled d \<or> dev_Removed d) \<and> isOnline d then Some ME_DisabledOnline
      else validate_endpoints [] (dev_Endpoints d))"

section \<open>Reading and writing a property\<close>

text \<open>
  \<open>Property\<close> and \<open>SetProperty\<close> search the matching endpoints, in them the matching
  capabilities, and stop at the first matching property.
\<close>

fun find_property :: "string \<Rightarrow> property list \<Rightarrow> property option" where
  "find_property propertyID [] = None"
| "find_property propertyID (p # ps) =
     (if pd_ID (prop_Definition p) = propertyID then Some p else find_property propertyID ps)"

fun find_in_capabilities :: "string \<Rightarrow> string \<Rightarrow> capability list \<Rightarrow> property option" where
  "find_in_capabilities capabilityID propertyID [] = None"
| "find_in_capabilities capabilityID propertyID (c # cs) =
     (if cap_ID c \<noteq> capabilityID then find_in_capabilities capabilityID propertyID cs
      else case find_property propertyID (cap_Properties c) of
             Some p \<Rightarrow> Some p
           | None \<Rightarrow> find_in_capabilities capabilityID propertyID cs)"

fun find_in_endpoints :: "string \<Rightarrow> string \<Rightarrow> string \<Rightarrow> endpoint list \<Rightarrow> property option" where
  "find_in_endpoints endpointID capabilityID propertyID [] = None"
| "find_in_endpoints endpointID capabilityID propertyID (e # es) =
     (if ep_ID e \<noteq> endpointID then find_in_endpoints endpointID capabilityID propertyID es
      else case find_in_capabilities capabilityID propertyID (ep_Capabilities e) of
             Some p \<Rightarrow> Some p
           | None \<Rightarrow> find_in_endpoints endpointID capabilityID propertyID es)"

definition device_property :: "device \<Rightarrow> string \<Rightarrow> string \<Rightarrow> string \<Rightarrow> property option" where
  "device_property d endpointID capabilityID propertyID =
     find_in_endpoints endpointID capabilityID propertyID (dev_Endpoints d)"

fun set_in_properties :: "string \<Rightarrow> property_value \<Rightarrow> property list \<Rightarrow> property list option" where
  "set_in_properties propertyID value [] = None"
| "set_in_properties propertyID value (p # ps) =
     (if pd_ID (prop_Definition p) = propertyID then Some (p\<lparr>prop_Value := value\<rparr> # ps)
      else map_option ((#) p) (set_in_properties propertyID value ps))"

fun set_in_capabilities ::
  "string \<Rightarrow> string \<Rightarrow> property_value \<Rightarrow> capability list \<Rightarrow> capability list option" where
  "set_in_capabilities capabilityID propertyID value [] = None"
| "set_in_capabilities capabilityID propertyID value (c # cs) =
     (case (if cap_ID c \<noteq> capabilityID then None else set_in_properties propertyID value (cap_Properties c)) of
        Some ps \<Rightarrow> Some (c\<lparr>cap_Properties := ps\<rparr> # cs)
      | None \<Rightarrow> map_option ((#) c) (set_in_capabilities capabilityID propertyID value cs))"

fun set_in_endpoints ::
  "string \<Rightarrow> string \<Rightarrow> string \<Rightarrow> property_value \<Rightarrow> endpoint list \<Rightarrow> endpoint list option" where
  "set_in_endpoints endpointID capabilityID propertyID value [] = None"
| "set_in_endpoints endpointID capabilityID propertyID value (e # es) =
     (case (if ep_ID e \<noteq> endpointID then None
            else set_in_capabilities capabilityID propertyID value (ep_Capabilities e)) of
        Some cs \<Rightarrow> Some (e\<lparr>ep_Capabilities := cs\<rparr> # es)
      | None \<Rightarrow> map_option ((#) e) (set_in_endpoints endpointID capabilityID propertyID value es))"

definition setProperty :: "string \<Rightarrow> string \<Rightarrow> string \<Rightarrow> property_value \<Rightarrow> device \<Rightarrow> bool \<times> device" where
  "setProperty endpointID capabilityID propertyID value d =
     (case set_in_endpoints endpointID capabilityID propertyID value (dev_Endpoints d) of
        Some es \<Rightarrow> (True, d\<lparr>dev_Endpoints := es\<rparr>)
      | None \<Rightarrow> (False, d))"

section \<open>The registry\<close>

type_synonym device_registry = "(string, device) gomap"

definition registry_upsert :: "device \<Rightarrow> device_registry \<Rightarrow> device_registry" where
  "registry_upsert item r = (let item = normalizeAvailability item in gm_put (dev_ID item) item r)"

definition newDeviceRegistry :: "device list \<Rightarrow> device_registry" where
  "newDeviceRegistry items = fold registry_upsert items []"

definition registry_delete :: "string \<Rightarrow> device_registry \<Rightarrow> device_registry" where
  "registry_delete i r = gm_del i r"

definition registry_get :: "string \<Rightarrow> device_registry \<Rightarrow> device option" where
  "registry_get i r = gm_get r i"

definition registry_list :: "device_registry \<Rightarrow> device list" where
  "registry_list r = sort_slice (\<lambda>a b. dev_ID a < dev_ID b) (map snd r)"

section \<open>Equality of values\<close>

text \<open>
  The contract of an equality test that is only reflexive on some values: a nil payload or a
  \<open>NaN\<close> is not even equal to itself.
\<close>

locale value_equality =
  fixes eq :: "'v \<Rightarrow> 'v \<Rightarrow> bool" and sound :: "'v \<Rightarrow> bool"
  assumes eq_sym: "eq x y \<Longrightarrow> eq y x"
    and eq_trans: "eq x y \<Longrightarrow> eq y z \<Longrightarrow> eq x z"
    and eq_refl: "sound x \<longleftrightarrow> eq x x"
begin

lemma eq_sound: "eq x y \<Longrightarrow> sound x \<and> sound y"
  using eq_refl eq_sym eq_trans by blast

lemma eq_cong: "eq x y \<Longrightarrow> eq x z \<longleftrightarrow> eq y z"
  using eq_sym eq_trans by blast

end

definition comparable :: "property_value \<Rightarrow> bool" where
  "comparable v =
     (case pv_Type v of
        ValueTypeBool \<Rightarrow> pv_Bool v \<noteq> None
      | ValueTypeInt \<Rightarrow> pv_Int v \<noteq> None
      | ValueTypeNumber \<Rightarrow> (case pv_Number v of None \<Rightarrow> False | Some x \<Rightarrow> \<not> f64_is_nan x)
      | ValueTypeString \<Rightarrow> pv_String v \<noteq> None
      | ValueTypeEnum \<Rightarrow> pv_String v \<noteq> None
      | ValueTypeOther _ \<Rightarrow> False)"

lemma both_simps [simp]: "both eq (Some x) (Some y) = eq x y" "\<not> both eq None r" "\<not> both eq l None"
  by (auto simp: both_def split: option.split)

lemma both_eq_iff: "both (=) x y \<longleftrightarrow> x \<noteq> None \<and> x = y"
  by (cases x; cases y) auto

interpretation value_eq: value_equality value_equal comparable
proof unfold_locales
  fix x y z :: property_value
  show "value_equal x y \<Longrightarrow> value_equal y x"
    by (auto simp: value_equal_def both_eq_iff both_def f64_eq_sym split: value_type.splits option.splits if_splits)
  show "value_equal x y \<Longrightarrow> value_equal y z \<Longrightarrow> value_equal x z"
    by (auto simp: value_equal_def both_eq_iff both_def split: value_type.splits option.splits if_splits
        intro: f64_eq_trans)
  show "comparable x = value_equal x x"
    by (auto simp: value_equal_def comparable_def both_eq_iff both_def f64_eq_self
        split: value_type.splits option.splits)
qed

section \<open>Conforming values\<close>

text \<open>What a definition promises of a value: it is built by the constructor of the type, within the bounds.\<close>

definition conforms :: "property_definition \<Rightarrow> property_value \<Rightarrow> bool" where
  "conforms d v =
     (case pd_Type d of
        ValueTypeBool \<Rightarrow> \<exists>b. v = BoolValue b
      | ValueTypeInt \<Rightarrow> \<exists>i. v = IntValue i \<and> \<not> below (f64_of_int i) (pd_Min d) \<and> \<not> above (f64_of_int i) (pd_Max d)
      | ValueTypeNumber \<Rightarrow> \<exists>x. v = NumberValue x \<and> f64_finite x \<and> \<not> below x (pd_Min d) \<and> \<not> above x (pd_Max d)
      | ValueTypeString \<Rightarrow> \<exists>t. v = StringValue t
      | ValueTypeEnum \<Rightarrow> \<exists>t \<in> set (pd_Enum d). v = EnumValue t
      | ValueTypeOther _ \<Rightarrow> False)"

lemma single_payload:
  assumes "payload_count v = 1"
  shows "pv_Type v = ValueTypeBool \<Longrightarrow> pv_Bool v = Some b \<Longrightarrow> v = BoolValue b"
    and "pv_Type v = ValueTypeInt \<Longrightarrow> pv_Int v = Some i \<Longrightarrow> v = IntValue i"
    and "pv_Type v = ValueTypeNumber \<Longrightarrow> pv_Number v = Some x \<Longrightarrow> v = NumberValue x"
    and "pv_Type v = ValueTypeString \<Longrightarrow> pv_String v = Some t \<Longrightarrow> v = StringValue t"
    and "pv_Type v = ValueTypeEnum \<Longrightarrow> pv_String v = Some t \<Longrightarrow> v = EnumValue t"
  using assms by (auto simp: payload_count_def value_constructors intro!: property_value.equality split: if_splits)

lemma payload_count_constructors [simp]:
  "payload_count (BoolValue b) = 1" "payload_count (IntValue i) = 1" "payload_count (NumberValue x) = 1"
  "payload_count (StringValue t) = 1" "payload_count (EnumValue t) = 1"
  by (simp_all add: payload_count_def value_constructors)

lemma pv_Type_constructors [simp]:
  "pv_Type (BoolValue b) = ValueTypeBool" "pv_Type (IntValue i) = ValueTypeInt"
  "pv_Type (NumberValue x) = ValueTypeNumber" "pv_Type (StringValue t) = ValueTypeString"
  "pv_Type (EnumValue t) = ValueTypeEnum"
  by (simp_all add: value_constructors)

lemma value_constructors_inject [simp]:
  "BoolValue b = BoolValue b' \<longleftrightarrow> b = b'" "IntValue i = IntValue i' \<longleftrightarrow> i = i'"
  "NumberValue x = NumberValue x' \<longleftrightarrow> x = x'" "StringValue t = StringValue t' \<longleftrightarrow> t = t'"
  "EnumValue t = EnumValue t' \<longleftrightarrow> t = t'"
  by (simp_all add: value_constructors)

lemma value_error_constructors [simp]:
  "value_error d (BoolValue b) = None"
  "value_error d (IntValue i) = None \<longleftrightarrow> \<not> below (f64_of_int i) (pd_Min d) \<and> \<not> above (f64_of_int i) (pd_Max d)"
  "value_error d (NumberValue x) = None \<longleftrightarrow> f64_finite x \<and> \<not> below x (pd_Min d) \<and> \<not> above x (pd_Max d)"
  "value_error d (StringValue t) = None"
  "value_error d (EnumValue t) = None \<longleftrightarrow> t \<in> set (pd_Enum d)"
  by (auto simp: value_error_def value_constructors f64_finite_def list_ex_iff)

lemma value_error_conforms:
  assumes "payload_count v = 1" and "pv_Type v = pd_Type d" and "value_error d v = None"
  shows "conforms d v"
proof (cases "pv_Type v")
  case ValueTypeBool
  then obtain b where "pv_Bool v = Some b" using assms(3) by (auto simp: value_error_def split: if_splits)
  with single_payload(1) [OF assms(1) ValueTypeBool] assms(2) ValueTypeBool show ?thesis by (auto simp: conforms_def)
next
  case ValueTypeInt
  then obtain i where "pv_Int v = Some i" using assms(3) by (auto simp: value_error_def split: option.splits)
  then have "v = IntValue i" by (rule single_payload(2) [OF assms(1) ValueTypeInt])
  with assms show ?thesis by (auto simp: conforms_def simp flip: assms(2))
next
  case ValueTypeNumber
  then obtain x where "pv_Number v = Some x" using assms(3) by (auto simp: value_error_def split: option.splits)
  then have "v = NumberValue x" by (rule single_payload(3) [OF assms(1) ValueTypeNumber])
  with assms show ?thesis by (auto simp: conforms_def simp flip: assms(2))
next
  case ValueTypeString
  then obtain t where "pv_String v = Some t" using assms(3) by (auto simp: value_error_def split: if_splits)
  with single_payload(4) [OF assms(1) ValueTypeString] assms(2) ValueTypeString show ?thesis by (auto simp: conforms_def)
next
  case ValueTypeEnum
  then obtain t where "pv_String v = Some t" using assms(3) by (auto simp: value_error_def split: option.splits)
  then have "v = EnumValue t" by (rule single_payload(5) [OF assms(1) ValueTypeEnum])
  with assms show ?thesis by (auto simp: conforms_def simp flip: assms(2))
next
  case (ValueTypeOther t)
  with assms(3) show ?thesis by (simp add: value_error_def)
qed

lemma conforms_value_error:
  "conforms d v \<Longrightarrow> payload_count v = 1 \<and> pv_Type v = pd_Type d \<and> value_error d v = None"
  by (auto simp: conforms_def split: value_type.splits)

lemma validate_iff: "property_validate p = None \<longleftrightarrow> definition_error p = None \<and> conforms (prop_Definition p) (prop_Value p)"
  using value_error_conforms [of "prop_Value p" "prop_Definition p"]
    conforms_value_error [of "prop_Definition p" "prop_Value p"]
  by (auto simp: property_validate_def Let_def split: option.splits)

lemma conforms_comparable: "conforms d v \<Longrightarrow> comparable v \<and> hasSinglePayload v"
  by (auto simp: conforms_def comparable_def hasSinglePayload_def f64_finite_not_nan split: value_type.splits)
    (simp_all add: value_constructors f64_finite_not_nan)


section \<open>Well-formed devices\<close>

lemma claim_none [simp]: "claimStableID seen i kind = None \<longleftrightarrow> ValidStableID i \<and> i \<notin> set seen"
  by (simp add: claimStableID_def)

lemma claim_someD [dest]: "claimStableID seen i kind = Some e \<Longrightarrow> \<not> ValidStableID i \<or> i \<in> set seen"
  by (auto simp: claimStableID_def split: if_splits)

definition ids_ok :: "string list \<Rightarrow> bool" where
  "ids_ok is \<longleftrightarrow> distinct is \<and> (\<forall>i \<in> set is. ValidStableID i)"

definition capability_ok :: "capability \<Rightarrow> bool" where
  "capability_ok c \<longleftrightarrow>
     ids_ok (map (pd_ID \<circ> prop_Definition) (cap_Properties c)) \<and>
     (\<forall>p \<in> set (cap_Properties c). property_validate p = None) \<and>
     ids_ok (map cd_ID (cap_Commands c) @ map ed_ID (cap_Events c)) \<and>
     (\<forall>k \<in> set (cap_Commands c). ids_ok (map par_ID (cd_Parameters k)) \<and>
        (\<forall>a \<in> set (cd_Parameters k). validValueType (par_Type a))) \<and>
     (\<forall>e \<in> set (cap_Events c). validValueType (ed_Payload e))"

definition endpoint_ok :: "endpoint \<Rightarrow> bool" where
  "endpoint_ok e \<longleftrightarrow> ids_ok (map cap_ID (ep_Capabilities e)) \<and> (\<forall>c \<in> set (ep_Capabilities e). capability_ok c)"

definition header_ok :: "device \<Rightarrow> bool" where
  "header_ok d \<longleftrightarrow>
     dev_SchemaVersion d = SchemaVersion \<and> ValidStableID (dev_ID d) \<and> ValidStableID (dev_ProviderID d) \<and>
     (dev_Availability d = AvailabilityOther [] \<or>
      dev_Availability d \<in> {AvailabilityOnline, AvailabilityOffline, AvailabilityUnknown} \<and>
      dev_Online d = (dev_Availability d = AvailabilityOnline)) \<and>
     dev_RuntimeMode d \<in> {RuntimeModeOther [], RuntimeModePending, RuntimeModeLocal, RuntimeModeCloud} \<and>
     known_transport (dev_StateTransport d) \<and> (dev_Disabled d \<or> dev_Removed d \<longrightarrow> \<not> isOnline d)"

definition device_ok :: "device \<Rightarrow> bool" where
  "device_ok d \<longleftrightarrow> header_ok d \<and> ids_ok (map ep_ID (dev_Endpoints d)) \<and> (\<forall>e \<in> set (dev_Endpoints d). endpoint_ok e)"

text \<open>A loop that claims identifiers accepts exactly lists of fresh, valid and pairwise different ones.\<close>

lemma validate_properties_iff:
  "validate_properties seen ps = None \<longleftrightarrow> ids_ok (map (pd_ID \<circ> prop_Definition) ps) \<and>
     set seen \<inter> (pd_ID \<circ> prop_Definition) ` set ps = {} \<and> (\<forall>p \<in> set ps. property_validate p = None)"
  by (induction seen ps rule: validate_properties.induct) (auto simp: ids_ok_def split: option.splits)

lemma validate_parameters_iff:
  "validate_parameters seen ps = None \<longleftrightarrow> ids_ok (map par_ID ps) \<and>
     set seen \<inter> par_ID ` set ps = {} \<and> (\<forall>p \<in> set ps. validValueType (par_Type p))"
  by (induction seen ps rule: validate_parameters.induct) (auto simp: ids_ok_def split: option.splits)

lemma validate_commands_iff:
  "(\<exists>seen'. validate_commands seen cs = Inr seen') \<longleftrightarrow> ids_ok (map cd_ID cs) \<and> set seen \<inter> cd_ID ` set cs = {} \<and>
     (\<forall>k \<in> set cs. validate_parameters [] (cd_Parameters k) = None)"
  by (induction seen cs rule: validate_commands.induct) (auto simp: ids_ok_def split: option.splits)

lemma validate_commands_seen: "validate_commands seen cs = Inr seen' \<Longrightarrow> set seen' = set seen \<union> cd_ID ` set cs"
  by (induction seen cs rule: validate_commands.induct) (auto split: option.splits)

lemma validate_events_iff:
  "validate_events seen es = None \<longleftrightarrow> ids_ok (map ed_ID es) \<and>
     set seen \<inter> ed_ID ` set es = {} \<and> (\<forall>e \<in> set es. validValueType (ed_Payload e))"
  by (induction seen es rule: validate_events.induct) (auto simp: ids_ok_def split: option.splits)

lemma validate_capability_iff: "validate_capability c = None \<longleftrightarrow> capability_ok c"
proof (cases "validate_commands [] (cap_Commands c)")
  case (Inl e)
  then have "\<not> (\<exists>s. validate_commands [] (cap_Commands c) = Inr s)" by simp
  then have "\<not> capability_ok c"
    unfolding validate_commands_iff capability_ok_def by (auto simp: ids_ok_def validate_parameters_iff)
  with Inl show ?thesis by (simp add: validate_capability_def split: option.split)
next
  case (Inr seen)
  have seen: "set seen = cd_ID ` set (cap_Commands c)" using validate_commands_seen [OF Inr] by simp
  have "\<exists>s. validate_commands [] (cap_Commands c) = Inr s" using Inr by blast
  then have cmds: "ids_ok (map cd_ID (cap_Commands c))"
      "\<forall>k \<in> set (cap_Commands c). ids_ok (map par_ID (cd_Parameters k)) \<and> (\<forall>a \<in> set (cd_Parameters k). validValueType (par_Type a))"
    unfolding validate_commands_iff by (auto simp: validate_parameters_iff)
  have ids: "ids_ok (map cd_ID (cap_Commands c) @ map ed_ID (cap_Events c)) \<longleftrightarrow>
      ids_ok (map ed_ID (cap_Events c)) \<and> set seen \<inter> ed_ID ` set (cap_Events c) = {}"
    using cmds(1) seen by (auto simp: ids_ok_def)
  have "validate_capability c = None \<longleftrightarrow>
      validate_properties [] (cap_Properties c) = None \<and> validate_events seen (cap_Events c) = None"
    using Inr by (simp add: validate_capability_def split: option.split)
  also have "\<dots> \<longleftrightarrow> capability_ok c"
    using cmds(2) ids unfolding validate_properties_iff validate_events_iff capability_ok_def by auto
  finally show ?thesis .
qed

lemma validate_capabilities_iff:
  "validate_capabilities seen cs = None \<longleftrightarrow> ids_ok (map cap_ID cs) \<and>
     set seen \<inter> cap_ID ` set cs = {} \<and> (\<forall>c \<in> set cs. capability_ok c)"
  by (induction seen cs rule: validate_capabilities.induct)
    (auto simp: ids_ok_def validate_capability_iff [symmetric] split: option.splits)

lemma validate_endpoints_iff:
  "validate_endpoints seen es = None \<longleftrightarrow> ids_ok (map ep_ID es) \<and>
     set seen \<inter> ep_ID ` set es = {} \<and> (\<forall>e \<in> set es. endpoint_ok e)"
proof -
  have ok: "endpoint_ok e \<longleftrightarrow> validate_capabilities [] (ep_Capabilities e) = None" for e
    by (simp add: endpoint_ok_def validate_capabilities_iff)
  show ?thesis
    by (induction seen es rule: validate_endpoints.induct) (auto simp: ids_ok_def ok split: option.splits)
qed

lemma validateStructure_iff: "validateStructure d = None \<longleftrightarrow> device_ok d"
proof -
  have "validateStructure d = None \<longleftrightarrow> header_ok d \<and> validate_endpoints [] (dev_Endpoints d) = None"
    unfolding validateStructure_def header_ok_def by (simp; blast?)
  then show ?thesis by (simp add: device_ok_def validate_endpoints_iff)
qed

text \<open>
  C28. \<open>ValidateStructure\<close> decides well-formedness: it returns no error exactly for the devices
  whose identifiers are valid and unique at every level of the tree, whose properties all
  validate, whose parameters and payloads have known types, and whose availability agrees
  with its compatibility flag.
\<close>

theorem validate_structure_decides: "validateStructure d = None \<longleftrightarrow> device_ok d"
  by (rule validateStructure_iff)

section \<open>Reading back a written property\<close>

lemma find_property_set:
  "set_in_properties i v ps = Some ps' \<Longrightarrow>
     find_property i ps' = map_option (prop_Value_update (\<lambda>_. v)) (find_property i ps) \<and> find_property i ps \<noteq> None \<and>
     (\<forall>j. j \<noteq> i \<longrightarrow> find_property j ps' = find_property j ps)"
  by (induction i v ps arbitrary: ps' rule: set_in_properties.induct) (auto split: if_splits)

lemma set_in_properties_none: "set_in_properties i v ps = None \<longleftrightarrow> find_property i ps = None"
  by (induction i v ps rule: set_in_properties.induct) auto

lemma set_in_capabilities_none: "set_in_capabilities c i v cs = None \<longleftrightarrow> find_in_capabilities c i cs = None"
proof (induction c i v cs rule: set_in_capabilities.induct)
  case (2 c i v a cs)
  with set_in_properties_none [of i v "cap_Properties a"] show ?case
    by (cases "find_property i (cap_Properties a)") auto
qed simp

lemma set_in_endpoints_none: "set_in_endpoints e c i v es = None \<longleftrightarrow> find_in_endpoints e c i es = None"
proof (induction e c i v es rule: set_in_endpoints.induct)
  case (2 e c i v a es)
  with set_in_capabilities_none [of c i v "ep_Capabilities a"] show ?case
    by (cases "find_in_capabilities c i (ep_Capabilities a)") auto
qed simp

lemma find_in_capabilities_set:
  "set_in_capabilities c i v cs = Some cs' \<Longrightarrow>
     find_in_capabilities c i cs' = map_option (prop_Value_update (\<lambda>_. v)) (find_in_capabilities c i cs) \<and>
     (\<forall>c' j. (c', j) \<noteq> (c, i) \<longrightarrow> find_in_capabilities c' j cs' = find_in_capabilities c' j cs)"
proof (induction c i v cs arbitrary: cs' rule: set_in_capabilities.induct)
  case (1 c i v)
  then show ?case by simp
next
  case (2 c i v a cs)
  show ?case
  proof (cases "if cap_ID a \<noteq> c then None else set_in_properties i v (cap_Properties a)")
    case None
    with "2.prems" obtain cs0 where cs0: "set_in_capabilities c i v cs = Some cs0" "cs' = a # cs0" by auto
    have "cap_ID a = c \<Longrightarrow> find_property i (cap_Properties a) = None"
      using None by (simp add: set_in_properties_none)
    with "2.IH" [OF None cs0(1)] cs0(2) show ?thesis by (auto split: option.split)
  next
    case (Some ps)
    then have id: "cap_ID a = c" and ps: "set_in_properties i v (cap_Properties a) = Some ps"
      by (auto split: if_splits)
    with Some "2.prems" have cs': "cs' = a\<lparr>cap_Properties := ps\<rparr> # cs" by simp
    show ?thesis unfolding cs' using find_property_set [OF ps] id by (auto split: option.split)
  qed
qed

lemma find_in_endpoints_set:
  "set_in_endpoints e c i v es = Some es' \<Longrightarrow>
     find_in_endpoints e c i es' = map_option (prop_Value_update (\<lambda>_. v)) (find_in_endpoints e c i es) \<and>
     (\<forall>e' c' j. (e', c', j) \<noteq> (e, c, i) \<longrightarrow> find_in_endpoints e' c' j es' = find_in_endpoints e' c' j es)"
proof (induction e c i v es arbitrary: es' rule: set_in_endpoints.induct)
  case (1 e c i v)
  then show ?case by simp
next
  case (2 e c i v a es)
  show ?case
  proof (cases "if ep_ID a \<noteq> e then None else set_in_capabilities c i v (ep_Capabilities a)")
    case None
    with "2.prems" obtain es0 where es0: "set_in_endpoints e c i v es = Some es0" "es' = a # es0" by auto
    have "ep_ID a = e \<Longrightarrow> find_in_capabilities c i (ep_Capabilities a) = None"
      using None by (simp add: set_in_capabilities_none)
    with "2.IH" [OF None es0(1)] es0(2) show ?thesis by (auto split: option.split)
  next
    case (Some cs)
    then have id: "ep_ID a = e" and cs: "set_in_capabilities c i v (ep_Capabilities a) = Some cs"
      by (auto split: if_splits)
    have hit: "find_in_capabilities c i (ep_Capabilities a) \<noteq> None"
      using cs set_in_capabilities_none [of c i v "ep_Capabilities a"] by simp
    from Some "2.prems" have es': "es' = a\<lparr>ep_Capabilities := cs\<rparr> # es" by simp
    show ?thesis unfolding es' using find_in_capabilities_set [OF cs] id hit by (auto split: option.split)
  qed
qed

text \<open>
  Write and read back. \<open>SetProperty\<close> succeeds exactly when \<open>Property\<close> finds the path; then
  the path reads the new value under the same definition and every other path reads what it
  read before; otherwise the device is unchanged.
\<close>

theorem set_property_reads_back:
  assumes "setProperty e c i v d = (ok, d')"
  shows "(ok \<longleftrightarrow> device_property d e c i \<noteq> None) \<and>
    device_property d' e c i = map_option (prop_Value_update (\<lambda>_. v)) (device_property d e c i) \<and>
    (\<forall>e' c' i'. (e', c', i') \<noteq> (e, c, i) \<longrightarrow> device_property d' e' c' i' = device_property d e' c' i') \<and>
    (\<not> ok \<longrightarrow> d' = d)"
proof (cases "set_in_endpoints e c i v (dev_Endpoints d)")
  case None
  moreover from this have "device_property d e c i = None"
    by (simp add: device_property_def set_in_endpoints_none)
  ultimately show ?thesis using assms by (auto simp: setProperty_def)
next
  case (Some es)
  moreover from this have "device_property d e c i \<noteq> None"
    using set_in_endpoints_none [of e c i v "dev_Endpoints d"] by (simp add: device_property_def)
  ultimately show ?thesis
    using assms find_in_endpoints_set [OF Some] by (auto simp: setProperty_def device_property_def)
qed

lemma set_in_properties_keeps:
  "set_in_properties i v ps = Some ps' \<Longrightarrow>
     map (pd_ID \<circ> prop_Definition) ps' = map (pd_ID \<circ> prop_Definition) ps \<and>
     (\<forall>p \<in> set ps'. p \<in> set ps \<or> (\<exists>q. find_property i ps = Some q \<and> p = q\<lparr>prop_Value := v\<rparr>))"
  by (induction i v ps arbitrary: ps' rule: set_in_properties.induct) (simp, fastforce split: if_splits)

lemma set_in_capabilities_keeps:
  assumes "set_in_capabilities c i v cs = Some cs'" and "\<forall>a \<in> set cs. capability_ok a"
    and "\<And>q. find_in_capabilities c i cs = Some q \<Longrightarrow> property_validate (q\<lparr>prop_Value := v\<rparr>) = None"
  shows "map cap_ID cs' = map cap_ID cs \<and> (\<forall>a \<in> set cs'. capability_ok a)"
  using assms
proof (induction c i v cs arbitrary: cs' rule: set_in_capabilities.induct)
  case (1 c i v)
  then show ?case by simp
next
  case (2 c i v a cs)
  show ?case
  proof (cases "if cap_ID a \<noteq> c then None else set_in_properties i v (cap_Properties a)")
    case None
    with "2.prems" obtain cs0 where cs0: "set_in_capabilities c i v cs = Some cs0" "cs' = a # cs0" by auto
    have "cap_ID a = c \<Longrightarrow> find_property i (cap_Properties a) = None"
      using None by (simp add: set_in_properties_none)
    then have "find_in_capabilities c i (a # cs) = find_in_capabilities c i cs" by simp
    with "2.IH" [OF None cs0(1)] "2.prems"(2,3) cs0(2) show ?thesis by simp
  next
    case (Some ps)
    then have ps: "cap_ID a = c" "set_in_properties i v (cap_Properties a) = Some ps" by (auto split: if_splits)
    have "property_validate (q\<lparr>prop_Value := v\<rparr>) = None" if "find_property i (cap_Properties a) = Some q" for q
      using "2.prems"(3) [of q] that ps(1) by simp
    then have "capability_ok (a\<lparr>cap_Properties := ps\<rparr>)"
      using set_in_properties_keeps [OF ps(2)] "2.prems"(2) unfolding capability_ok_def by auto
    with Some "2.prems" show ?thesis by auto
  qed
qed

lemma set_in_endpoints_keeps:
  assumes "set_in_endpoints e c i v es = Some es'" and "\<forall>a \<in> set es. endpoint_ok a"
    and "\<And>q. find_in_endpoints e c i es = Some q \<Longrightarrow> property_validate (q\<lparr>prop_Value := v\<rparr>) = None"
  shows "map ep_ID es' = map ep_ID es \<and> (\<forall>a \<in> set es'. endpoint_ok a)"
  using assms
proof (induction e c i v es arbitrary: es' rule: set_in_endpoints.induct)
  case (1 e c i v)
  then show ?case by simp
next
  case (2 e c i v a es)
  show ?case
  proof (cases "if ep_ID a \<noteq> e then None else set_in_capabilities c i v (ep_Capabilities a)")
    case None
    with "2.prems" obtain es0 where es0: "set_in_endpoints e c i v es = Some es0" "es' = a # es0" by auto
    have "ep_ID a = e \<Longrightarrow> find_in_capabilities c i (ep_Capabilities a) = None"
      using None by (simp add: set_in_capabilities_none)
    then have "find_in_endpoints e c i (a # es) = find_in_endpoints e c i es" by simp
    with "2.IH" [OF None es0(1)] "2.prems"(2,3) es0(2) show ?thesis by simp
  next
    case (Some cs)
    then have cs: "ep_ID a = e" "set_in_capabilities c i v (ep_Capabilities a) = Some cs" by (auto split: if_splits)
    have "property_validate (q\<lparr>prop_Value := v\<rparr>) = None" if "find_in_capabilities c i (ep_Capabilities a) = Some q" for q
      using "2.prems"(3) [of q] that cs(1) by simp
    moreover have "\<forall>b \<in> set (ep_Capabilities a). capability_ok b" using "2.prems"(2) by (simp add: endpoint_ok_def)
    ultimately have "map cap_ID cs = map cap_ID (ep_Capabilities a) \<and> (\<forall>b \<in> set cs. capability_ok b)"
      by (intro set_in_capabilities_keeps [OF cs(2)])
    then have "endpoint_ok (a\<lparr>ep_Capabilities := cs\<rparr>)" using "2.prems"(2) by (simp add: endpoint_ok_def)
    with Some "2.prems" show ?thesis by auto
  qed
qed

text \<open>
  A valid write keeps the device valid: replacing the value of a property of a validated
  device by one that validates under the same definition gives a device that
  \<open>ValidateStructure\<close> still accepts.
\<close>

theorem set_property_keeps_valid:
  assumes "validateStructure d = None" and "device_property d e c i = Some q"
    and "property_validate (q\<lparr>prop_Value := v\<rparr>) = None"
  shows "\<exists>d'. setProperty e c i v d = (True, d') \<and> validateStructure d' = None"
proof -
  have "find_in_endpoints e c i (dev_Endpoints d) = Some q" using assms(2) by (simp add: device_property_def)
  then obtain es where es: "set_in_endpoints e c i v (dev_Endpoints d) = Some es"
    using set_in_endpoints_none [of e c i v "dev_Endpoints d"] by auto
  have ok: "device_ok d" using assms(1) by (simp add: validateStructure_iff)
  then have "map ep_ID es = map ep_ID (dev_Endpoints d) \<and> (\<forall>a \<in> set es. endpoint_ok a)"
    using assms(2,3) by (intro set_in_endpoints_keeps [OF es]) (auto simp: device_ok_def device_property_def)
  moreover have "header_ok (d\<lparr>dev_Endpoints := es\<rparr>) = header_ok d"
    by (simp add: header_ok_def isOnline_def effectiveAvailability_def)
  ultimately have "device_ok (d\<lparr>dev_Endpoints := es\<rparr>)" using ok by (simp add: device_ok_def)
  with es show ?thesis by (simp add: setProperty_def validateStructure_iff)
qed

section \<open>Steps\<close>

lemma f64_of_int_sub:
  assumes "\<bar>i\<bar> \<le> 2 ^ 53" and "\<bar>m\<bar> \<le> 2 ^ 53"
  shows "f64_sub (f64_of_int i) (f64_of_int m) = f64_of_int (i - m)"
proof -
  have m: "m \<noteq> 0 \<Longrightarrow> f64_neg (f64_of_int m) = F_Fin (- of_int m)" using assms(2) by (simp add: f64_of_int_exact)
  consider "m = 0" "i = 0" | "m = 0" "i \<noteq> 0" | "m \<noteq> 0" "i = 0" | "m \<noteq> 0" "i \<noteq> 0" by blast
  then show ?thesis
  proof cases
    case 1
    then show ?thesis by (simp add: f64_sub_def)
  next
    case 2
    then have "f64_of_int i = F_Fin (of_int i)" using assms by (simp add: f64_of_int_exact)
    then have "f64_sub (f64_of_int i) (f64_of_int m) = f64_round (of_int i)" using 2 by (simp add: f64_sub_def)
    with 2 show ?thesis by (simp add: f64_of_int_def)
  next
    case 3
    then show ?thesis using m by (simp add: f64_sub_def) (simp add: f64_of_int_def)
  next
    case 4
    then have "f64_of_int i = F_Fin (of_int i)" using assms by (simp add: f64_of_int_exact)
    then show ?thesis using 4 m by (simp add: f64_sub_def) (simp add: f64_of_int_def)
  qed
qed

lemma f64_of_int_div:
  assumes "\<bar>k * s\<bar> \<le> 2 ^ 53" and "0 < s" and "s \<le> 2 ^ 53"
  shows "f64_div (f64_of_int (k * s)) (f64_of_int s) = f64_of_int k"
proof (cases "k = 0")
  case True
  with assms show ?thesis by (simp add: f64_of_int_exact f64_div_def)
next
  case False
  with assms have "f64_of_int (k * s) = F_Fin (of_int (k * s))" "f64_of_int s = F_Fin (of_int s)"
    by (simp_all only: f64_of_int_exact [OF assms(1)] f64_of_int_exact mult_eq_0_iff)
      (simp_all add: f64_of_int_exact)
  then show ?thesis using assms(2) by (simp add: f64_div_def f64_of_int_def)
qed

lemma f64_round_pos:
  assumes "0 < q"
  obtains "f64_round q = F_Zero False" | "f64_round q = F_Inf False" | r where "0 < r" "f64_round q = F_Fin r"
proof -
  define u :: rat where "u = 2 powi (max (ilog2 \<bar>q\<bar>) (-1022) - 52)"
  have u: "0 < u" by (simp add: u_def)
  have "0 \<le> \<lfloor>\<bar>q\<bar> / u\<rfloor>" using u by simp
  then have "0 \<le> round_half_even (\<bar>q\<bar> / u)" by (simp add: round_half_even_def Let_def)
  then have r: "0 \<le> of_int (round_half_even (\<bar>q\<bar> / u)) * u" using u by simp
  define a where "a = of_int (round_half_even (\<bar>q\<bar> / u)) * u"
  have eq: "f64_round q = (if a = 0 then F_Zero False else if 2 ^ 1024 \<le> a then F_Inf False else F_Fin a)"
    using assms unfolding f64_round_def Let_def u_def [symmetric] a_def [symmetric] by simp
  consider "a = 0" | "a \<noteq> 0" "2 ^ 1024 \<le> a" | "a \<noteq> 0" "\<not> 2 ^ 1024 \<le> a" by blast
  then show thesis
  proof cases
    case 1
    with eq show thesis by (intro that(1)) simp
  next
    case 2
    with eq show thesis by (intro that(2)) (simp only: if_False if_True simp_thms)
  next
    case 3
    moreover have "0 < a" using 3 r unfolding a_def by linarith
    moreover have "f64_round q = F_Fin a" using eq 3 by presburger
    ultimately show thesis by (intro that(3))
  qed
qed

text \<open>
  Every setpoint on the grid is accepted: for an integer property whose bounds and step are
  integers of at most 53 bits, the values \<open>minimum + k * step\<close> pass the step check.
\<close>

theorem step_grid_accepted:
  assumes "0 < s" and "s \<le> 2 ^ 53" and "\<bar>m\<bar> \<le> 2 ^ 53" and "\<bar>m + k * s\<bar> \<le> 2 ^ 53" and "\<bar>k * s\<bar> \<le> 2 ^ 53"
  shows "valueMatchesStep (f64_of_int (m + k * s)) (f64_of_int m) (f64_of_int s)"
proof -
  have quot: "f64_div (f64_sub (f64_of_int (m + k * s)) (f64_of_int m)) (f64_of_int s) = f64_of_int k"
    using f64_of_int_sub [OF assms(4,3)] f64_of_int_div [OF assms(5,1,2)] by simp
  have "\<bar>k\<bar> \<le> \<bar>k * s\<bar>" using assms(1) by (simp add: abs_mult mult_le_cancel_left1)
  then have k: "\<bar>k\<bar> \<le> 2 ^ 53" using assms(5) by linarith
  have kf: "f64_of_int k = F_Zero False \<or> f64_of_int k = F_Fin (of_int k)" using k by (cases "k = 0") (simp_all add: f64_of_int_exact)
  have rnd: "f64_math_round (f64_of_int k) = f64_of_int k"
  proof -
    have "\<lfloor>1 / 2 :: rat\<rfloor> = 0" by (simp add: floor_eq_iff)
    then have "rat_round_away (of_int k) = k" by (simp add: rat_round_away_def)
    with k show ?thesis by (cases "k = 0") (simp_all add: f64_of_int_exact f64_math_round_def)
  qed
  have diff: "f64_abs (f64_sub (f64_of_int k) (f64_of_int k)) = F_Zero False"
    using f64_of_int_sub [OF k k] by simp
  have one: "f64_lit 1 = F_Fin 1" using f64_of_int_exact [of 1] by (simp add: f64_of_int_def)
  obtain y where y: "0 < y" "f64_max (f64_lit 1) (f64_abs (f64_of_int k)) = F_Fin y"
  proof (cases "f64_of_int k = F_Zero False")
    case True
    then have "f64_max (f64_lit 1) (f64_abs (f64_of_int k)) = F_Fin 1"
      unfolding one by (simp add: f64_max_def f64_lt_def)
    then show ?thesis by (intro that [of 1]) simp_all
  next
    case False
    with kf have kq: "f64_of_int k = F_Fin (of_int k)" by simp
    have "f64_max (f64_lit 1) (f64_abs (f64_of_int k)) = F_Fin (max 1 \<bar>of_int k\<bar>)"
      unfolding one kq by (auto simp: f64_max_def f64_lt_def max_def)
    then show ?thesis by (intro that [of "max 1 \<bar>of_int k\<bar>"]) (simp_all add: less_max_iff_disj)
  qed
  have "f64_le (F_Zero False) (f64_mul (f64_lit (1 / 10 ^ 9)) (F_Fin y))"
  proof (rule f64_round_pos [of "1 / 10 ^ 9"])
    fix r :: rat assume r: "0 < r" "f64_round (1 / 10 ^ 9) = F_Fin r"
    then have "0 < r * y" using y(1) by simp
    then show ?thesis
      unfolding r(2) by (rule f64_round_pos) (auto simp: f64_mul_def f64_le_def)
  qed (use y in \<open>auto simp: f64_mul_def f64_le_def\<close>)
  moreover have "\<not> f64_le (f64_of_int s) (F_Zero False)" using assms(1,2) by (simp add: f64_of_int_exact f64_le_def)
  moreover have "\<not> f64_is_nan (f64_of_int (m + k * s))" "\<not> f64_is_inf (f64_of_int (m + k * s))"
    using assms(4) by (cases "m + k * s = 0"; simp add: f64_of_int_exact)+
  ultimately show ?thesis
    unfolding valueMatchesStep_def quot Let_def rnd diff y(2) by simp
qed

section \<open>The registry\<close>

definition registry_inv :: "device_registry \<Rightarrow> bool" where
  "registry_inv r \<longleftrightarrow> gm_ok r \<and> (\<forall>i d. registry_get i r = Some d \<longrightarrow> dev_ID d = i \<and>
     dev_Availability d = effectiveAvailability d \<and> dev_Online d = isOnline d)"

definition registry_init :: "device_registry \<Rightarrow> bool" where
  "registry_init r \<longleftrightarrow> (\<exists>items. r = newDeviceRegistry items)"

inductive registry_step :: "device_registry \<Rightarrow> device_registry \<Rightarrow> bool" where
  "registry_step r (registry_upsert d r)"
| "registry_step r (registry_delete i r)"

lemma normalizeAvailability_sel [simp]: "dev_ID (normalizeAvailability d) = dev_ID d"
  "dev_Endpoints (normalizeAvailability d) = dev_Endpoints d"
  by (simp_all add: normalizeAvailability_def setAvailability_def)

lemma normalizeAvailability_consistent:
  "dev_Availability (normalizeAvailability d) = effectiveAvailability (normalizeAvailability d)"
  "dev_Online (normalizeAvailability d) = isOnline (normalizeAvailability d)"
  by (auto simp: normalizeAvailability_def setAvailability_def isOnline_def effectiveAvailability_def
      split: availability.splits)

lemma registry_upsert_get:
  "registry_get i (registry_upsert d r) = (if i = dev_ID d then Some (normalizeAvailability d) else registry_get i r)"
  by (simp add: registry_get_def registry_upsert_def Let_def gomap_simps)

lemma registry_upsert_inv: "registry_inv r \<Longrightarrow> registry_inv (registry_upsert d r)"
proof -
  assume inv: "registry_inv r"
  have "dev_ID x = i \<and> dev_Availability x = effectiveAvailability x \<and> dev_Online x = isOnline x"
    if "registry_get i (registry_upsert d r) = Some x" for i x
  proof (cases "i = dev_ID d")
    case True
    then have x: "x = normalizeAvailability d" using that by (simp add: registry_upsert_get)
    show ?thesis unfolding x True
      by (intro conjI normalizeAvailability_sel(1) normalizeAvailability_consistent)
  next
    case False
    then have "registry_get i r = Some x" using that by (simp add: registry_upsert_get)
    with inv show ?thesis unfolding registry_inv_def by blast
  qed
  moreover have "gm_ok (registry_upsert d r)" 
    unfolding registry_upsert_def Let_def using inv unfolding registry_inv_def by blast
  ultimately show ?thesis unfolding registry_inv_def by blast
qed

lemma registry_new_inv: "registry_inv (newDeviceRegistry items)"
proof -
  have "registry_inv (fold registry_upsert items r)" if "registry_inv r" for r
    using that by (induction items arbitrary: r) (simp_all add: registry_upsert_inv)
  moreover have "registry_inv []" by (simp add: registry_inv_def registry_get_def)
  ultimately show ?thesis unfolding newDeviceRegistry_def by blast
qed

interpretation registry_sys: invariant_system registry_init registry_step registry_inv
proof unfold_locales
  fix r assume "registry_init r"
  then show "registry_inv r" by (auto simp: registry_init_def registry_new_inv)
next
  fix r t assume inv: "registry_inv r" and "registry_step r t"
  from this(2) show "registry_inv t"
  proof cases
    case (1 d)
    with inv show ?thesis by (simp add: registry_upsert_inv)
  next
    case (2 i)
    have "registry_get j (registry_delete i r) = Some d \<Longrightarrow> registry_get j r = Some d" for j d
      by (simp add: registry_get_def registry_delete_def gomap_simps split: if_splits)
    moreover have "gm_ok (registry_delete i r)" using inv by (simp add: registry_inv_def registry_delete_def)
    ultimately show ?thesis using inv "2" unfolding registry_inv_def by blast
  qed
qed

lemma registry_list_facts:
  assumes inv: "registry_inv r"
  shows "sorted_wrt (<) (map dev_ID (registry_list r))" and "d \<in> set (registry_list r) \<longleftrightarrow> registry_get (dev_ID d) r = Some d"
proof -
  have ok: "gm_ok r" using inv by (simp add: registry_inv_def)
  have id: "(i, d) \<in> set r \<Longrightarrow> dev_ID d = i" for i d
    using inv ok by (simp add: registry_inv_def registry_get_def gm_in_set_get)
  have "d \<in> set (registry_list r) \<longleftrightarrow> (\<exists>i. (i, d) \<in> set r)" by (force simp: registry_list_def)
  also have "\<dots> \<longleftrightarrow> (dev_ID d, d) \<in> set r" using id by blast
  also have "\<dots> \<longleftrightarrow> registry_get (dev_ID d) r = Some d"
    using ok by (simp add: registry_get_def map_of_eq_Some_iff)
  finally show "d \<in> set (registry_list r) \<longleftrightarrow> registry_get (dev_ID d) r = Some d" .
  have keys: "map dev_ID (map snd r) = map fst r" using id by auto
  have "mset (map dev_ID (registry_list r)) = mset (map fst r)"
    by (simp add: registry_list_def keys [symmetric] del: map_map)
  then have "distinct (map dev_ID (registry_list r))" using ok by (metis mset_eq_imp_distinct_iff)
  moreover have "sorted (map dev_ID (registry_list r))"
    unfolding registry_list_def by (rule sorted_sort_slice) simp
  ultimately show "sorted_wrt (<) (map dev_ID (registry_list r))" by (simp add: strict_sorted_iff)
qed

text \<open>
  The registry. In every state it can reach, a device is found under its own identifier,
  its availability is one of the three known ones and agrees with the compatibility flag, and
  \<open>List\<close> returns each registered device once, in ascending order of identifiers.
\<close>

theorem registry_consistent:
  assumes "reachable registry_init registry_step r"
  shows "(\<forall>i d. registry_get i r = Some d \<longrightarrow> dev_ID d = i \<and>
      dev_Availability d \<in> {AvailabilityOnline, AvailabilityOffline, AvailabilityUnknown} \<and>
      dev_Online d = (dev_Availability d = AvailabilityOnline)) \<and>
    sorted_wrt (<) (map dev_ID (registry_list r)) \<and>
    (\<forall>d. d \<in> set (registry_list r) \<longleftrightarrow> registry_get (dev_ID d) r = Some d)"
proof -
  have inv: "registry_inv r" by (rule registry_sys.reachable_inv [OF assms])
  have avail: "a = effectiveAvailability d \<Longrightarrow> a \<in> {AvailabilityOnline, AvailabilityOffline, AvailabilityUnknown}"
    for a and d :: device by (auto simp: effectiveAvailability_def split: availability.splits)
  have "registry_get i r = Some d \<Longrightarrow> dev_ID d = i \<and>
      dev_Availability d \<in> {AvailabilityOnline, AvailabilityOffline, AvailabilityUnknown} \<and>
      dev_Online d = (dev_Availability d = AvailabilityOnline)" for i d
    using inv avail [of "dev_Availability d" d] unfolding registry_inv_def isOnline_def by metis
  with registry_list_facts [OF inv] show ?thesis by blast
qed

section \<open>A concrete device\<close>

definition sample_property :: property where
  "sample_property =
     \<lparr>prop_Definition = \<lparr>pd_ID = ''target'', pd_Name = ''Target'', pd_Type = ValueTypeInt,
        pd_ParameterLevel = ParameterLevelOther [], pd_Unit = [], pd_Readable = True, pd_Writable = True,
        pd_Notifiable = True, pd_Min = Some (F_Zero False), pd_Max = None, pd_Step = Some (F_Fin 2), pd_Enum = [],
        pd_StaleAfterSeconds = 0\<rparr>,
      prop_Value = IntValue 4, prop_StateTransport = StateTransportOther []\<rparr>"

definition sample_device :: device where
  "sample_device =
     \<lparr>dev_SchemaVersion = 1, dev_ID = ''lamp'', dev_ProviderID = ''mqtt'', dev_Name = [], dev_SourceName = [],
      dev_NameOverridden = False, dev_Type = ''lightbulb'', dev_HomeID = [], dev_HomeName = [], dev_RoomID = [],
      dev_RoomName = [], dev_LocationMode = LocationModeOther [], dev_SourceHomeID = [], dev_SourceHomeName = [],
      dev_SourceRoomID = [], dev_SourceRoomName = [], dev_Availability = AvailabilityOther [], dev_Online = True,
      dev_Sequence = 0, dev_Disabled = False, dev_Removed = False, dev_RuntimeMode = RuntimeModeOther [],
      dev_StateTransport = StateTransportOther [], dev_MappingError = [],
      dev_Endpoints = [\<lparr>ep_ID = ''main'', ep_Name = [], ep_Type = [],
        ep_Capabilities = [\<lparr>cap_ID = ''light'', cap_Type = [], cap_Properties = [sample_property],
          cap_Commands = [], cap_Events = []\<rparr>]\<rparr>], dev_LastUpdateAt = 0\<rparr>"

lemma two_exact: "f64_of_int 2 = F_Fin 2" "f64_of_int 4 = F_Fin 4" "f64_of_int 6 = F_Fin 6"
  using f64_of_int_exact [of 2] f64_of_int_exact [of 4] f64_of_int_exact [of 6] by simp_all

lemma sample_property_valid: "property_validate sample_property = None"
  by (simp add: validate_iff sample_property_def definition_error_def Let_def conforms_def known_transport_def
      int_constraint_error_def integral_constraint_def f64_trunc_def rat_trunc_def f64_eq_def f64_le_def below_def
      above_def two_exact f64_lt_def)

lemma sample_device_valid: "validateStructure sample_device = None"
  by (simp add: validateStructure_iff device_ok_def header_ok_def endpoint_ok_def capability_ok_def ids_ok_def
      sample_device_def SchemaVersion_def ValidStableID_def id_edge_def id_inner_def in_range_def known_transport_def
      sample_property_valid)
    (simp add: sample_property_def id_edge_def id_inner_def in_range_def)

lemma sample_device_property: "device_property sample_device ''main'' ''light'' ''target'' = Some sample_property"
  by (simp add: device_property_def sample_device_def) (simp add: sample_property_def)


theorem set_property_reads_back_witness:
  "device_property (snd (setProperty ''main'' ''light'' ''target'' (IntValue 6) sample_device)) ''main'' ''light'' ''target'' =
   Some (sample_property\<lparr>prop_Value := IntValue 6\<rparr>)"
  using set_property_reads_back [OF prod.collapse [symmetric], of "''main''" "''light''" "''target''" "IntValue 6" sample_device]
  by (simp add: sample_device_property)

theorem set_property_keeps_valid_witness:
  "\<exists>d'. setProperty ''main'' ''light'' ''target'' (IntValue 6) sample_device = (True, d') \<and> validateStructure d' = None"
  by (rule set_property_keeps_valid [OF sample_device_valid sample_device_property])
    (simp add: validate_iff sample_property_def definition_error_def Let_def conforms_def known_transport_def
      int_constraint_error_def integral_constraint_def f64_trunc_def rat_trunc_def f64_eq_def f64_le_def below_def
      above_def two_exact f64_lt_def)

theorem step_grid_accepted_witness: "valueMatchesStep (f64_of_int 6) (f64_of_int 0) (f64_of_int 2)"
  using step_grid_accepted [of 2 0 3] by simp

theorem registry_consistent_witness:
  "sorted_wrt (<) (map dev_ID (registry_list (newDeviceRegistry [sample_device])))"
proof -
  have "reachable registry_init registry_step (newDeviceRegistry [sample_device])"
    by (rule reach_init) (auto simp: registry_init_def)
  from registry_consistent [OF this] show ?thesis by blast
qed

section \<open>The tolerance of the step check\<close>

lemma nano_rounded: "f64_round (1 / 10 ^ 9) = F_Fin (4835703278458517 / 2 ^ 82)"
  using f64_round_eqI [of "-30" "1 / 10 ^ 9" 4835703278458517] by (simp add: power_int_def field_simps)

lemma tolerance_rounded:
  "f64_round (4835703278458517 / 2 ^ 82 * (1000000001 / 2)) = F_Fin (4503599631874096 / 2 ^ 53)"
  using f64_round_eqI [of "-1" "4835703278458517 / 2 ^ 82 * (1000000001 / 2)" 4503599631874096]
  by (simp add: power_int_def field_simps)

lemma half_exact: "f64_round (1000000001 / 2) = F_Fin (1000000001 / 2)" "f64_round (- 1 / 2) = F_Fin (- 1 / 2)"
  by (rule f64_round_exact [where m = 1000000001 and k = "-1"]; simp add: power_int_def)
    (rule f64_round_exact [where m = 1 and k = "-1"]; simp add: power_int_def)


end
