(* ===== verification/Command_Tracker.thy ===== *)
theory Command_Tracker
  imports Go_Prelude Device_Model
begin

text \<open>
  Commands sent to devices: \<open>internal/domain/command/command.go\<close> (the record of a command) and
  \<open>internal/command/tracker.go\<close> (their life cycle, one pending command per property,
  idempotent actions, expiry and the bounded history).

  The mutex makes every method atomic. The clock reading and the random identifier of a new
  command are arguments. An operation returns, besides its results, the commands it passes to
  \<open>notify\<close>, in order, and the tracker.
\<close>

declare map_of_eq_Some_iff [simp del] Some_eq_map_of_iff [simp del]

section \<open>Commands\<close>

datatype command_status = StatusQueued | StatusSent | StatusAccepted | StatusConfirmed | StatusRejected
  | StatusTimeout | StatusSuperseded | StatusOther string

datatype command_kind = KindProperty | KindAction | CommandKindOther string

datatype command_outcome = OutcomeSucceeded | OutcomeFailed | OutcomeUnknown | OutcomeOther string

record command =
  cmd_ID :: string
  cmd_Kind :: command_kind
  cmd_DeviceID :: string
  cmd_EndpointID :: string
  cmd_CapabilityID :: string
  cmd_PropertyID :: string
  cmd_CommandID :: string
  cmd_Expected :: property_value
  cmd_Parameters :: "(string, property_value) gomap"
  cmd_IdempotencyKey :: string
  cmd_CorrelationID :: string
  cmd_Coalesced :: u64
  cmd_Status :: command_status
  cmd_Outcome :: command_outcome
  cmd_Error :: string
  cmd_CreatedAt :: time
  cmd_UpdatedAt :: time
  cmd_Deadline :: time

definition zero_value :: property_value where
  "zero_value = \<lparr>pv_Type = ValueTypeOther [], pv_Bool = None, pv_Int = None, pv_Number = None, pv_String = None\<rparr>"

definition zero_command :: command where
  "zero_command =
     \<lparr>cmd_ID = [], cmd_Kind = CommandKindOther [], cmd_DeviceID = [], cmd_EndpointID = [], cmd_CapabilityID = [],
      cmd_PropertyID = [], cmd_CommandID = [], cmd_Expected = zero_value, cmd_Parameters = [],
      cmd_IdempotencyKey = [], cmd_CorrelationID = [], cmd_Coalesced = 0, cmd_Status = StatusOther [],
      cmd_Outcome = OutcomeOther [], cmd_Error = [], cmd_CreatedAt = zero_time, cmd_UpdatedAt = zero_time,
      cmd_Deadline = zero_time\<rparr>"

definition terminal :: "command_status \<Rightarrow> bool" where
  "terminal status \<longleftrightarrow> status = StatusConfirmed \<or> status = StatusRejected \<or> status = StatusTimeout \<or>
     status = StatusSuperseded"

fun outcomeForStatus :: "command_status \<Rightarrow> command_outcome" where
  "outcomeForStatus StatusConfirmed = OutcomeSucceeded"
| "outcomeForStatus StatusRejected = OutcomeFailed"
| "outcomeForStatus StatusTimeout = OutcomeUnknown"
| "outcomeForStatus StatusSuperseded = OutcomeUnknown"
| "outcomeForStatus _ = OutcomeOther []"

definition pendingKey :: "string \<Rightarrow> string \<Rightarrow> string \<Rightarrow> string \<Rightarrow> string" where
  "pendingKey deviceID endpointID capabilityID propertyID =
     deviceID @ [NUL] @ endpointID @ [NUL] @ capabilityID @ [NUL] @ propertyID"

definition command_key :: "command \<Rightarrow> string" where
  "command_key c = pendingKey (cmd_DeviceID c) (cmd_EndpointID c) (cmd_CapabilityID c) (cmd_PropertyID c)"

definition actionIdempotencyScope :: "string \<Rightarrow> string \<Rightarrow> string \<Rightarrow> string \<Rightarrow> string \<Rightarrow> string" where
  "actionIdempotencyScope deviceID endpointID capabilityID actionID key =
     deviceID @ [NUL] @ endpointID @ [NUL] @ capabilityID @ [NUL] @ actionID @ [NUL] @ key"

definition parameterMapsEqual :: "(string, property_value) gomap \<Rightarrow> (string, property_value) gomap \<Rightarrow> bool" where
  "parameterMapsEqual left right =
     (if length left \<noteq> length right then False
      else list_all (\<lambda>(key, value).
             case gm_get right key of None \<Rightarrow> False | Some other \<Rightarrow> value_equal value other) left)"

section \<open>The tracker\<close>

record tracker =
  tk_timeout :: duration
  tk_commands :: "(string, command) gomap"
  tk_pending :: "(string, string) gomap"
  tk_idempotency :: "(string, string) gomap"
  tk_maxItems :: int

definition newTracker :: "duration \<Rightarrow> tracker" where
  "newTracker timeout =
     \<lparr>tk_timeout = timeout, tk_commands = [], tk_pending = [], tk_idempotency = [], tk_maxItems = 1000\<rparr>"

definition setTimeout :: "duration \<Rightarrow> tracker \<Rightarrow> tracker" where
  "setTimeout timeout t = t\<lparr>tk_timeout := timeout\<rparr>"

definition get_or_zero :: "tracker \<Rightarrow> string \<Rightarrow> command" where
  "get_or_zero t i = (case gm_get (tk_commands t) i of Some c \<Rightarrow> c | None \<Rightarrow> zero_command)"

definition put_command :: "string \<Rightarrow> command \<Rightarrow> tracker \<Rightarrow> tracker" where
  "put_command i c t = t\<lparr>tk_commands := gm_put i c (tk_commands t)\<rparr>"

text \<open>The loop of \<open>removeOldestTerminalLocked\<close>: the identifier found so far and its creation time.\<close>

fun oldest_body :: "string \<times> command \<Rightarrow> string \<times> time \<Rightarrow> string \<times> time" where
  "oldest_body (i, c) (oldestID, oldest) =
     (if \<not> terminal (cmd_Status c) then (oldestID, oldest)
      else if oldestID = [] \<or> cmd_CreatedAt c < oldest then (i, cmd_CreatedAt c)
      else (oldestID, oldest))"

definition oldest_terminal :: "(string, command) gomap \<Rightarrow> string \<times> time" where
  "oldest_terminal m = fold oldest_body m ([], zero_time)"

definition removeOldestTerminalLocked :: "tracker \<Rightarrow> tracker option" where
  "removeOldestTerminalLocked t =
     (let oldestID = fst (oldest_terminal (tk_commands t))
      in if oldestID \<noteq> []
         then Some (t\<lparr>tk_commands := gm_del oldestID (tk_commands t),
                      tk_idempotency := filter (\<lambda>(key, i). i \<noteq> oldestID) (tk_idempotency t)\<rparr>)
         else None)"

lemma oldest_terminal_fold:
  "fst (fold oldest_body m s) = fst s \<or> (\<exists>c. (fst (fold oldest_body m s), c) \<in> set m \<and> terminal (cmd_Status c))"
proof (induction m arbitrary: s)
  case Nil
  show ?case by simp
next
  case (Cons p m)
  obtain i c o0 t0 where p: "p = (i, c)" "s = (o0, t0)" by fastforce
  have "fst (oldest_body p s) = fst s \<or> (\<exists>c. (fst (oldest_body p s), c) \<in> set (p # m) \<and> terminal (cmd_Status c))"
    unfolding p by auto
  with Cons [of "oldest_body p s"] show ?case by auto
qed

lemma oldest_terminal_mem:
  "fst (oldest_terminal m) \<noteq> [] \<Longrightarrow> \<exists>c. (fst (oldest_terminal m), c) \<in> set m \<and> terminal (cmd_Status c)"
  using oldest_terminal_fold [of m "([], zero_time)"] by (simp add: oldest_terminal_def)

lemma gm_del_shrinks: "(k, v) \<in> set m \<Longrightarrow> length (gm_del k m) < length m"
proof (induction m)
  case Nil
  then show ?case by simp
next
  case (Cons p m)
  then show ?case using length_delete_le [of k m] by (cases p) auto
qed

lemma remove_oldest_shrinks:
  "removeOldestTerminalLocked t = Some t' \<Longrightarrow> length (tk_commands t') < length (tk_commands t)"
  by (auto simp: removeOldestTerminalLocked_def Let_def split: if_splits
      dest!: oldest_terminal_mem intro: gm_del_shrinks)

text \<open>\<open>for len(t.commands) > limit && t.removeOldestTerminalLocked() {}\<close>\<close>

function trim_commands :: "int \<Rightarrow> tracker \<Rightarrow> tracker" where
  "trim_commands limit t =
     (if int (length (tk_commands t)) > limit
      then case removeOldestTerminalLocked t of None \<Rightarrow> t | Some t' \<Rightarrow> trim_commands limit t'
      else t)"
  by pat_completeness auto
termination
  by (relation "measure (\<lambda>(limit, t). length (tk_commands t))") (auto simp: remove_oldest_shrinks)

declare trim_commands.simps [simp del]

definition pruneLocked :: "tracker \<Rightarrow> tracker" where
  "pruneLocked t = trim_commands (tk_maxItems t - 1) t"

definition trim_history :: "tracker \<Rightarrow> tracker" where
  "trim_history t = trim_commands (tk_maxItems t) t"

definition setMaxItems :: "int \<Rightarrow> tracker \<Rightarrow> tracker" where
  "setMaxItems limit t = trim_history (t\<lparr>tk_maxItems := (if limit < 1 then 1 else limit)\<rparr>)"

section \<open>Beginning a command\<close>

definition new_property_command ::
  "time \<Rightarrow> string \<Rightarrow> tracker \<Rightarrow> string \<Rightarrow> string \<Rightarrow> string \<Rightarrow> string \<Rightarrow> property_value \<Rightarrow> string \<Rightarrow> command" where
  "new_property_command now i t deviceID endpointID capabilityID propertyID value correlationID =
     zero_command\<lparr>cmd_ID := i, cmd_DeviceID := deviceID, cmd_EndpointID := endpointID,
       cmd_CapabilityID := capabilityID, cmd_Kind := KindProperty, cmd_PropertyID := propertyID,
       cmd_Expected := value, cmd_CorrelationID := correlationID, cmd_Status := StatusQueued,
       cmd_CreatedAt := now, cmd_UpdatedAt := now, cmd_Deadline := now + tk_timeout t\<rparr>"

definition superseded_command :: "time \<Rightarrow> string \<Rightarrow> command \<Rightarrow> command" where
  "superseded_command now message c =
     c\<lparr>cmd_Status := StatusSuperseded, cmd_Outcome := OutcomeUnknown, cmd_Error := message, cmd_UpdatedAt := now\<rparr>"

definition insert_pending :: "string \<Rightarrow> command \<Rightarrow> tracker \<Rightarrow> tracker" where
  "insert_pending key c t =
     (put_command (cmd_ID c) c t)\<lparr>tk_pending := gm_put key (cmd_ID c) (tk_pending t)\<rparr>"

definition beginPropertyCorrelated ::
  "time \<Rightarrow> string \<Rightarrow> string \<Rightarrow> string \<Rightarrow> string \<Rightarrow> string \<Rightarrow> property_value \<Rightarrow> string \<Rightarrow> tracker \<Rightarrow>
     (command \<times> command option \<times> bool) \<times> command list \<times> tracker" where
  "beginPropertyCorrelated now newID deviceID endpointID capabilityID propertyID value correlationID t0 =
     (let key = pendingKey deviceID endpointID capabilityID propertyID;
          command = new_property_command now newID t0 deviceID endpointID capabilityID propertyID value correlationID;
          t = pruneLocked t0
      in case gm_get (tk_pending t) key of
           None \<Rightarrow> ((command, None, False), [command], insert_pending key command t)
         | Some previousID \<Rightarrow>
             (let previous = get_or_zero t previousID
              in if terminal (cmd_Status previous)
                 then ((command, None, False), [command], insert_pending key command t)
                 else if value_equal (cmd_Expected previous) value
                 then (let previous = previous\<lparr>cmd_Coalesced := cmd_Coalesced previous + 1, cmd_UpdatedAt := now\<rparr>
                       in ((previous, None, True), [previous], put_command previousID previous t))
                 else (let previous = superseded_command now ''replaced by a newer command'' previous;
                           t = put_command previousID previous t
                       in ((command, Some previous, False), [previous, command], insert_pending key command t))))"

definition beginReplacingCorrelated ::
  "time \<Rightarrow> string \<Rightarrow> string \<Rightarrow> string \<Rightarrow> string \<Rightarrow> string \<Rightarrow> property_value \<Rightarrow> string \<Rightarrow> tracker \<Rightarrow>
     (command \<times> command option) \<times> command list \<times> tracker" where
  "beginReplacingCorrelated now newID deviceID endpointID capabilityID propertyID value correlationID t =
     (let ((command, superseded, _), notified, t') =
        beginPropertyCorrelated now newID deviceID endpointID capabilityID propertyID value correlationID t
      in ((command, superseded), notified, t'))"

definition beginReplacing ::
  "time \<Rightarrow> string \<Rightarrow> string \<Rightarrow> string \<Rightarrow> string \<Rightarrow> string \<Rightarrow> property_value \<Rightarrow> tracker \<Rightarrow>
     (command \<times> command option) \<times> command list \<times> tracker" where
  "beginReplacing now newID deviceID endpointID capabilityID propertyID value t =
     beginReplacingCorrelated now newID deviceID endpointID capabilityID propertyID value [] t"

definition begin_command ::
  "time \<Rightarrow> string \<Rightarrow> string \<Rightarrow> string \<Rightarrow> string \<Rightarrow> string \<Rightarrow> property_value \<Rightarrow> tracker \<Rightarrow>
     command \<times> command list \<times> tracker" where
  "begin_command now newID deviceID endpointID capabilityID propertyID value t =
     (let ((command, _), notified, t') = beginReplacing now newID deviceID endpointID capabilityID propertyID value t
      in (command, notified, t'))"

definition new_action_command ::
  "time \<Rightarrow> string \<Rightarrow> tracker \<Rightarrow> string \<Rightarrow> string \<Rightarrow> string \<Rightarrow> string \<Rightarrow> (string, property_value) gomap \<Rightarrow>
     string \<Rightarrow> string \<Rightarrow> command" where
  "new_action_command now i t deviceID endpointID capabilityID actionID parameters idempotencyKey correlationID =
     zero_command\<lparr>cmd_ID := i, cmd_Kind := KindAction, cmd_DeviceID := deviceID, cmd_EndpointID := endpointID,
       cmd_CapabilityID := capabilityID, cmd_CommandID := actionID, cmd_Parameters := parameters,
       cmd_IdempotencyKey := idempotencyKey, cmd_CorrelationID := correlationID, cmd_Status := StatusQueued,
       cmd_CreatedAt := now, cmd_UpdatedAt := now, cmd_Deadline := now + tk_timeout t\<rparr>"

datatype tracker_error = ErrIdempotencyConflict

definition insert_action :: "command \<Rightarrow> tracker \<Rightarrow> tracker" where
  "insert_action command t =
     (let t = put_command (cmd_ID command) command t
      in if cmd_IdempotencyKey command \<noteq> []
         then t\<lparr>tk_idempotency := gm_put (actionIdempotencyScope (cmd_DeviceID command) (cmd_EndpointID command)
                  (cmd_CapabilityID command) (cmd_CommandID command) (cmd_IdempotencyKey command))
                (cmd_ID command) (tk_idempotency t)\<rparr>
         else t)"

definition beginActionIdempotentCorrelated ::
  "time \<Rightarrow> string \<Rightarrow> string \<Rightarrow> string \<Rightarrow> string \<Rightarrow> string \<Rightarrow> (string, property_value) gomap \<Rightarrow> string \<Rightarrow> string \<Rightarrow>
     tracker \<Rightarrow> (tracker_error + command \<times> bool) \<times> command list \<times> tracker" where
  "beginActionIdempotentCorrelated now newID deviceID endpointID capabilityID actionID parameters
       idempotencyKey correlationID t =
     (let command = new_action_command now newID t deviceID endpointID capabilityID actionID parameters
            idempotencyKey correlationID;
          scope = actionIdempotencyScope deviceID endpointID capabilityID actionID idempotencyKey
      in case (if idempotencyKey \<noteq> [] then gm_get (tk_idempotency t) scope else None) of
           Some existingID \<Rightarrow>
             (let existing = get_or_zero t existingID
              in if \<not> parameterMapsEqual (cmd_Parameters existing) parameters
                 then (Inl ErrIdempotencyConflict, [], t)
                 else (Inr (existing, True), [], t))
         | None \<Rightarrow> (Inr (command, False), [command], insert_action command (pruneLocked t)))"

definition beginAction ::
  "time \<Rightarrow> string \<Rightarrow> string \<Rightarrow> string \<Rightarrow> string \<Rightarrow> string \<Rightarrow> (string, property_value) gomap \<Rightarrow> tracker \<Rightarrow>
     command \<times> command list \<times> tracker" where
  "beginAction now newID deviceID endpointID capabilityID actionID parameters t =
     (case beginActionIdempotentCorrelated now newID deviceID endpointID capabilityID actionID parameters [] [] t of
        (Inl _, notified, t') \<Rightarrow> (zero_command, notified, t')
      | (Inr (command, _), notified, t') \<Rightarrow> (command, notified, t'))"

section \<open>Progress of a command\<close>

definition addCoalesced :: "time \<Rightarrow> string \<Rightarrow> u64 \<Rightarrow> tracker \<Rightarrow> (command \<times> bool) \<times> command list \<times> tracker" where
  "addCoalesced now i n t =
     (if n = 0 then ((zero_command, False), [], t)
      else case gm_get (tk_commands t) i of
             None \<Rightarrow> ((zero_command, False), [], t)
           | Some command \<Rightarrow>
               (let command = command\<lparr>cmd_Coalesced := cmd_Coalesced command + n, cmd_UpdatedAt := now\<rparr>
                in ((command, True), [command], put_command i command t)))"

definition supersede :: "time \<Rightarrow> string \<Rightarrow> string \<Rightarrow> tracker \<Rightarrow> (command \<times> bool) \<times> command list \<times> tracker" where
  "supersede now i message0 t =
     (let message = (if message0 = [] then ''replaced by a newer command'' else message0)
      in case gm_get (tk_commands t) i of
           None \<Rightarrow> ((zero_command, False), [], t)
         | Some command \<Rightarrow>
             if terminal (cmd_Status command) then ((command, False), [], t)
             else (let command = superseded_command now message command;
                       t = put_command i command t;
                       key = command_key command;
                       t = (if gm_get (tk_pending t) key = Some i
                            then t\<lparr>tk_pending := gm_del key (tk_pending t)\<rparr> else t)
                   in ((command, True), [command], trim_history t)))"

definition transition_command ::
  "time \<Rightarrow> string \<Rightarrow> command_status \<Rightarrow> string \<Rightarrow> tracker \<Rightarrow> bool \<times> command list \<times> tracker" where
  "transition_command now i status message t =
     (case gm_get (tk_commands t) i of
        None \<Rightarrow> (False, [], t)
      | Some command \<Rightarrow>
          if terminal (cmd_Status command) then (False, [], t)
          else (let command = command\<lparr>cmd_Status := status, cmd_Error := message, cmd_UpdatedAt := now,
                      cmd_Outcome := outcomeForStatus status\<rparr>;
                    t = put_command i command t
                in (True, [command],
                    if terminal status
                    then trim_history (t\<lparr>tk_pending := gm_del (command_key command) (tk_pending t)\<rparr>)
                    else t)))"

definition sent :: "time \<Rightarrow> string \<Rightarrow> tracker \<Rightarrow> bool \<times> command list \<times> tracker" where
  "sent now i t = transition_command now i StatusSent [] t"

definition accepted :: "time \<Rightarrow> string \<Rightarrow> tracker \<Rightarrow> bool \<times> command list \<times> tracker" where
  "accepted now i t = transition_command now i StatusAccepted [] t"

definition confirmed :: "time \<Rightarrow> string \<Rightarrow> tracker \<Rightarrow> bool \<times> command list \<times> tracker" where
  "confirmed now i t = transition_command now i StatusConfirmed [] t"

definition rejected :: "time \<Rightarrow> string \<Rightarrow> string \<Rightarrow> tracker \<Rightarrow> bool \<times> command list \<times> tracker" where
  "rejected now i err t = transition_command now i StatusRejected err t"

definition confirm_value ::
  "time \<Rightarrow> string \<Rightarrow> string \<Rightarrow> string \<Rightarrow> string \<Rightarrow> property_value \<Rightarrow> tracker \<Rightarrow> bool \<times> command list \<times> tracker" where
  "confirm_value now deviceID endpointID capabilityID propertyID value t =
     (let key = pendingKey deviceID endpointID capabilityID propertyID
      in case gm_get (tk_pending t) key of
           None \<Rightarrow> (False, [], t)
         | Some i \<Rightarrow>
             (let command = get_or_zero t i
              in if \<not> value_equal (cmd_Expected command) value then (False, [], t)
                 else (let command = command\<lparr>cmd_Status := StatusConfirmed, cmd_Outcome := OutcomeSucceeded,
                             cmd_UpdatedAt := now\<rparr>;
                           t = put_command i command t
                       in (True, [command], trim_history (t\<lparr>tk_pending := gm_del key (tk_pending t)\<rparr>)))))"

definition expire_body :: "time \<Rightarrow> string \<Rightarrow> command \<Rightarrow> command option" where
  "expire_body now i c =
     (if terminal (cmd_Status c) \<or> now < cmd_Deadline c then None
      else Some (c\<lparr>cmd_Status := StatusTimeout, cmd_Outcome := OutcomeUnknown, cmd_UpdatedAt := now\<rparr>))"

definition expire :: "time \<Rightarrow> tracker \<Rightarrow> command list \<times> tracker" where
  "expire now t =
     (let (commands, expired) = gm_sweep (expire_body now) (tk_commands t);
          pending = fold (\<lambda>c p. gm_del (command_key c) p) expired (tk_pending t)
      in (expired, trim_history (t\<lparr>tk_commands := commands, tk_pending := pending\<rparr>)))"

definition get_command :: "time \<Rightarrow> string \<Rightarrow> tracker \<Rightarrow> command option \<times> tracker" where
  "get_command now i t = (let t = snd (expire now t) in (gm_get (tk_commands t) i, t))"

definition list_commands :: "time \<Rightarrow> tracker \<Rightarrow> command list \<times> tracker" where
  "list_commands now t =
     (let t = snd (expire now t)
      in (sort_slice (\<lambda>a b. cmd_CreatedAt b < cmd_CreatedAt a) (map snd (tk_commands t)), t))"

section \<open>The invariant\<close>

abbreviation commands_of :: "tracker \<Rightarrow> string \<Rightarrow> command option" where
  "commands_of t \<equiv> gm_get (tk_commands t)"

definition scope_of :: "command \<Rightarrow> string" where
  "scope_of c = actionIdempotencyScope (cmd_DeviceID c) (cmd_EndpointID c) (cmd_CapabilityID c) (cmd_CommandID c)
     (cmd_IdempotencyKey c)"

definition command_ok :: "string \<Rightarrow> command \<Rightarrow> bool" where
  "command_ok i c \<longleftrightarrow> cmd_ID c = i \<and> i \<noteq> [] \<and> cmd_Outcome c = outcomeForStatus (cmd_Status c) \<and>
     (if cmd_Kind c = KindProperty then cmd_PropertyID c \<noteq> [] \<and> last (cmd_PropertyID c) \<noteq> NUL
      else cmd_Kind c = KindAction \<and> cmd_PropertyID c = [])"

definition outstanding :: "command \<Rightarrow> bool" where
  "outstanding c \<longleftrightarrow> cmd_Kind c = KindProperty \<and> \<not> terminal (cmd_Status c)"

text \<open>The pending index holds exactly the outstanding property commands, under their keys.\<close>

definition pend_rel :: "(string \<rightharpoonup> command) \<Rightarrow> (string \<rightharpoonup> string) \<Rightarrow> bool" where
  "pend_rel C P \<longleftrightarrow> (\<forall>k i. P k = Some i \<longleftrightarrow> (\<exists>c. C i = Some c \<and> outstanding c \<and> command_key c = k))"

definition idem_rel :: "(string \<rightharpoonup> command) \<Rightarrow> (string \<rightharpoonup> string) \<Rightarrow> bool" where
  "idem_rel C I \<longleftrightarrow> (\<forall>sc i. I sc = Some i \<longrightarrow> (\<exists>c. C i = Some c \<and> cmd_Kind c = KindAction \<and>
     cmd_IdempotencyKey c \<noteq> [] \<and> scope_of c = sc))"

definition finished :: "(string \<rightharpoonup> command) \<Rightarrow> string set" where
  "finished C = {i. \<exists>c. C i = Some c \<and> terminal (cmd_Status c)}"

definition tracker_ok :: "tracker \<Rightarrow> bool" where
  "tracker_ok t \<longleftrightarrow> gm_ok (tk_commands t) \<and> gm_ok (tk_idempotency t) \<and>
     (\<forall>i c. commands_of t i = Some c \<longrightarrow> command_ok i c) \<and>
     pend_rel (commands_of t) (gm_get (tk_pending t)) \<and> idem_rel (commands_of t) (gm_get (tk_idempotency t)) \<and>
     1 \<le> tk_maxItems t"

definition tracker_inv :: "tracker \<Rightarrow> bool" where
  "tracker_inv t \<longleftrightarrow> tracker_ok t \<and> int (card (finished (commands_of t))) \<le> tk_maxItems t"

subsection \<open>Updates of the indexes\<close>

lemma pend_same:
  assumes "pend_rel C P" and "C i = Some c" and "outstanding c' = outstanding c" and "command_key c' = command_key c"
  shows "pend_rel (C(i \<mapsto> c')) P"
  using assms unfolding pend_rel_def by auto

lemma pend_terminate:
  assumes rel: "pend_rel C P" and c: "C i = Some c" "outstanding c" and c': "\<not> outstanding c'"
  shows "pend_rel (C(i \<mapsto> c')) (P(command_key c := None))"
  unfolding pend_rel_def
proof (intro allI)
  fix k j
  have "P (command_key c) = Some i" using rel c unfolding pend_rel_def by blast
  then have only: "C j = Some d \<Longrightarrow> outstanding d \<Longrightarrow> command_key d = command_key c \<Longrightarrow> j = i" for d
    using rel unfolding pend_rel_def by (metis option.inject)
  show "(P(command_key c := None)) k = Some j \<longleftrightarrow>
      (\<exists>d. (C(i \<mapsto> c')) j = Some d \<and> outstanding d \<and> command_key d = k)"
  proof (cases "k = command_key c")
    case True
    then show ?thesis using only c' by auto
  next
    case False
    then show ?thesis using rel c c' unfolding pend_rel_def by (cases "j = i") auto
  qed
qed

lemma pend_insert:
  assumes rel: "pend_rel C P" and "C i = None" and "P (command_key c) = None" and "outstanding c"
  shows "pend_rel (C(i \<mapsto> c)) (P(command_key c \<mapsto> i))"
  unfolding pend_rel_def
proof (intro allI)
  fix k j
  have "\<not> (\<exists>d. C j = Some d \<and> outstanding d \<and> command_key d = command_key c)"
    using rel assms(3) unfolding pend_rel_def by (metis option.distinct(1))
  then show "(P(command_key c \<mapsto> i)) k = Some j \<longleftrightarrow>
      (\<exists>d. (C(i \<mapsto> c)) j = Some d \<and> outstanding d \<and> command_key d = k)"
    using rel assms(2,4) unfolding pend_rel_def by (cases "j = i"; cases "k = command_key c") auto
qed

lemma pend_other:
  "pend_rel C P \<Longrightarrow> (\<And>c. C i = Some c \<Longrightarrow> \<not> outstanding c) \<Longrightarrow> (\<And>c. x = Some c \<Longrightarrow> \<not> outstanding c) \<Longrightarrow>
   pend_rel (C(i := x)) P"
  unfolding pend_rel_def by auto

lemma idem_same:
  "idem_rel C I \<Longrightarrow> C i = Some c \<Longrightarrow> cmd_Kind c' = cmd_Kind c \<Longrightarrow> scope_of c' = scope_of c \<Longrightarrow>
   cmd_IdempotencyKey c' = cmd_IdempotencyKey c \<Longrightarrow> idem_rel (C(i \<mapsto> c')) I"
  unfolding idem_rel_def by fastforce

lemma idem_fresh: "idem_rel C I \<Longrightarrow> C i = None \<Longrightarrow> idem_rel (C(i \<mapsto> c)) I"
  unfolding idem_rel_def by fastforce

lemma finished_upd: "finished (C(i \<mapsto> c)) \<subseteq> insert i (finished C)"
  "\<not> terminal (cmd_Status c) \<Longrightarrow> finished (C(i \<mapsto> c)) \<subseteq> finished C"
  "C i = Some d \<Longrightarrow> cmd_Status c = cmd_Status d \<Longrightarrow> finished (C(i \<mapsto> c)) = finished C"
  by (auto simp: finished_def)

lemma finished_finite: "finite (finished (gm_get m))"
  by (rule finite_subset [OF _ finite_dom_map_of [of m]]) (auto simp: finished_def)

lemma finished_le_length: "card (finished (gm_get m)) \<le> length m"
proof -
  have "finished (gm_get m) \<subseteq> fst ` set m"
    by (auto simp: finished_def dest!: map_of_SomeD intro: rev_image_eqI)
  then have "card (finished (gm_get m)) \<le> card (fst ` set m)" by (simp add: card_mono)
  also have "\<dots> \<le> card (set m)" by (rule card_image_le) simp
  also have "\<dots> \<le> length m" by (rule card_length)
  finally show ?thesis .
qed

text \<open>The key of an action ends in a zero byte, the key of a property command does not.\<close>

lemma command_key_last: "command_ok i c \<Longrightarrow> last (command_key c) = NUL \<longleftrightarrow> cmd_Kind c \<noteq> KindProperty"
  by (auto simp: command_ok_def command_key_def pendingKey_def split: if_splits)

lemma action_not_pending:
  assumes rel: "pend_rel C P" and ok: "\<And>i c. C i = Some c \<Longrightarrow> command_ok i c"
    and c: "command_ok j c" "cmd_Kind c \<noteq> KindProperty"
  shows "P (command_key c) = None"
proof (rule ccontr)
  assume "P (command_key c) \<noteq> None"
  then obtain i where "P (command_key c) = Some i" by auto
  with rel obtain d where d: "C i = Some d" "outstanding d" "command_key d = command_key c"
    unfolding pend_rel_def by blast
  with ok [OF d(1)] c show False using command_key_last [of i d] command_key_last [of j c]
    by (simp add: outstanding_def)
qed

subsection \<open>Trimming the history\<close>

lemma oldest_found:
  "(i, c) \<in> set m \<Longrightarrow> terminal (cmd_Status c) \<Longrightarrow> (\<And>j d. (j, d) \<in> set m \<Longrightarrow> j \<noteq> []) \<Longrightarrow>
   fst (fold oldest_body m s) \<noteq> []"
proof (induction m arbitrary: s)
  case Nil
  then show ?case by simp
next
  case (Cons p m)
  have keep: "fst s \<noteq> [] \<Longrightarrow> (\<And>j d. (j, d) \<in> set m \<Longrightarrow> j \<noteq> []) \<Longrightarrow> fst (fold oldest_body m s) \<noteq> []" for s
    using oldest_terminal_fold [of m s] by metis
  show ?case
  proof (cases "(i, c) = p")
    case True
    then have p: "p = (i, c)" by simp
    have "i \<noteq> []" using Cons.prems(3) [of i c] p by simp
    then have "fst (oldest_body p s) \<noteq> []" using Cons.prems(2) unfolding p by (cases s) simp
    then have "fst (fold oldest_body m (oldest_body p s)) \<noteq> []"
      using Cons.prems(3) by (intro keep) (auto simp del: oldest_body.simps)
    then show ?thesis by simp
  next
    case False
    with Cons.prems have "(i, c) \<in> set m" by auto
    moreover have "j \<noteq> []" if "(j, d) \<in> set m" for j d using Cons.prems(3) that by auto
    ultimately have "fst (fold oldest_body m (oldest_body p s)) \<noteq> []" by (rule Cons.IH [OF _ Cons.prems(2)])
    then show ?thesis by simp
  qed
qed

lemma remove_oldest_some:
  assumes ok: "tracker_ok t" and r: "removeOldestTerminalLocked t = Some t'"
  obtains i c where "commands_of t i = Some c" "terminal (cmd_Status c)"
    "commands_of t' = (commands_of t)(i := None)" "tk_pending t' = tk_pending t" "tk_maxItems t' = tk_maxItems t"
    "tk_timeout t' = tk_timeout t"
    "gm_get (tk_idempotency t') = (\<lambda>sc. if gm_get (tk_idempotency t) sc = Some i then None else gm_get (tk_idempotency t) sc)"
    "gm_ok (tk_commands t')" "gm_ok (tk_idempotency t')"
proof -
  let ?i = "fst (oldest_terminal (tk_commands t))"
  have gok: "gm_ok (tk_commands t)" "gm_ok (tk_idempotency t)" using ok by (simp_all add: tracker_ok_def)
  from r have ne: "?i \<noteq> []" and t': "t' = t\<lparr>tk_commands := gm_del ?i (tk_commands t),
      tk_idempotency := filter (\<lambda>(key, i). i \<noteq> ?i) (tk_idempotency t)\<rparr>"
    by (auto simp: removeOldestTerminalLocked_def Let_def split: if_splits)
  from oldest_terminal_mem [OF ne] obtain c where "(?i, c) \<in> set (tk_commands t)" "terminal (cmd_Status c)" by blast
  moreover from this have "commands_of t ?i = Some c" using gok by (simp add: gm_in_set_get)
  moreover have "gm_get (filter (\<lambda>(key, i). i \<noteq> ?i) (tk_idempotency t)) =
      (\<lambda>sc. if gm_get (tk_idempotency t) sc = Some ?i then None else gm_get (tk_idempotency t) sc)"
    using gok(2) by (simp add: fun_eq_iff gm_get_filter_values)
  moreover have "gm_ok (filter (\<lambda>(key, i). i \<noteq> ?i) (tk_idempotency t))"
    using gok(2) by (rule distinct_map_filter)
  ultimately show thesis
    using gok by (intro that [of ?i c]) (auto simp: t' fun_eq_iff gomap_simps)
qed

lemma remove_oldest_ok:
  assumes ok: "tracker_ok t" and r: "removeOldestTerminalLocked t = Some t'"
  shows "tracker_ok t'"
proof -
  obtain i c where i: "commands_of t i = Some c" "terminal (cmd_Status c)"
    "commands_of t' = (commands_of t)(i := None)" "tk_pending t' = tk_pending t" "tk_maxItems t' = tk_maxItems t"
    "tk_timeout t' = tk_timeout t"
    "gm_get (tk_idempotency t') = (\<lambda>sc. if gm_get (tk_idempotency t) sc = Some i then None else gm_get (tk_idempotency t) sc)"
    "gm_ok (tk_commands t')" "gm_ok (tk_idempotency t')"
    by (rule remove_oldest_some [OF ok r])
  have "pend_rel ((commands_of t)(i := None)) (gm_get (tk_pending t))"
  proof (rule pend_other)
    show "pend_rel (commands_of t) (gm_get (tk_pending t))" using ok by (simp add: tracker_ok_def)
  qed (use i(1,2) in \<open>simp_all add: outstanding_def\<close>)
  moreover have "idem_rel ((commands_of t)(i := None)) (gm_get (tk_idempotency t'))"
  proof -
    have "idem_rel (commands_of t) (gm_get (tk_idempotency t))" using ok by (simp add: tracker_ok_def)
    then show ?thesis unfolding idem_rel_def i(7) by (auto split: if_splits)
  qed
  ultimately show ?thesis using ok i by (simp add: tracker_ok_def)
qed

text \<open>What trimming leaves: every unfinished command, and no finished one when the limit is still exceeded.\<close>

lemma trim_spec:
  assumes "tracker_ok t"
  shows "tracker_ok (trim_commands limit t) \<and> tk_pending (trim_commands limit t) = tk_pending t \<and>
    tk_maxItems (trim_commands limit t) = tk_maxItems t \<and> tk_timeout (trim_commands limit t) = tk_timeout t \<and>
    (\<forall>i c. commands_of (trim_commands limit t) i = Some c \<longrightarrow> commands_of t i = Some c) \<and>
    (\<forall>i c. commands_of t i = Some c \<longrightarrow> \<not> terminal (cmd_Status c) \<longrightarrow> commands_of (trim_commands limit t) i = Some c) \<and>
    (int (length (tk_commands (trim_commands limit t))) \<le> limit \<or> finished (commands_of (trim_commands limit t)) = {})"
  using assms
proof (induction limit t rule: trim_commands.induct)
  case (1 limit t)
  show ?case
  proof (cases "int (length (tk_commands t)) > limit")
    case False
    with "1.prems" show ?thesis by (simp add: trim_commands.simps [of limit t])
  next
    case True
    show ?thesis
    proof (cases "removeOldestTerminalLocked t")
      case None
      have "finished (commands_of t) = {}"
      proof (rule ccontr)
        assume "finished (commands_of t) \<noteq> {}"
        then obtain i c where ic: "(i, c) \<in> set (tk_commands t)" "terminal (cmd_Status c)"
          by (auto simp: finished_def dest: map_of_SomeD)
        have "j \<noteq> []" if "(j, d) \<in> set (tk_commands t)" for j d
          using "1.prems" that by (auto simp: tracker_ok_def command_ok_def dest: gm_in_set_get)
        then have "fst (oldest_terminal (tk_commands t)) \<noteq> []"
          unfolding oldest_terminal_def by (rule oldest_found [OF ic])
        with None show False by (simp add: removeOldestTerminalLocked_def Let_def)
      qed
      with None True "1.prems" show ?thesis by (simp add: trim_commands.simps [of limit t])
    next
      case (Some t')
      have step: "trim_commands limit t = trim_commands limit t'" using True Some by (simp add: trim_commands.simps [of limit t])
      note IH = "1.IH" [OF True Some remove_oldest_ok [OF "1.prems" Some]]
      obtain i c where i: "commands_of t i = Some c" "terminal (cmd_Status c)"
        "commands_of t' = (commands_of t)(i := None)" "tk_pending t' = tk_pending t" "tk_maxItems t' = tk_maxItems t"
        "tk_timeout t' = tk_timeout t"
        "gm_get (tk_idempotency t') = (\<lambda>sc. if gm_get (tk_idempotency t) sc = Some i then None else gm_get (tk_idempotency t) sc)"
        "gm_ok (tk_commands t')" "gm_ok (tk_idempotency t')"
        by (rule remove_oldest_some [OF "1.prems" Some])
      have sub: "commands_of t' j = Some d \<Longrightarrow> commands_of t j = Some d" for j d
        using i(3) by (simp split: if_splits)
      have keep: "commands_of t j = Some d \<Longrightarrow> \<not> terminal (cmd_Status d) \<Longrightarrow> commands_of t' j = Some d" for j d
        using i(1-3) by auto
      show ?thesis unfolding step
      proof (intro conjI)
        show "\<forall>i c. commands_of (trim_commands limit t') i = Some c \<longrightarrow> commands_of t i = Some c"
          using IH sub by blast
        show "\<forall>i c. commands_of t i = Some c \<longrightarrow> \<not> terminal (cmd_Status c) \<longrightarrow>
            commands_of (trim_commands limit t') i = Some c"
          using IH keep by blast
        show "tk_pending (trim_commands limit t') = tk_pending t" unfolding i(4) [symmetric] using IH by blast
        show "tk_maxItems (trim_commands limit t') = tk_maxItems t" unfolding i(5) [symmetric] using IH by blast
        show "tk_timeout (trim_commands limit t') = tk_timeout t" unfolding i(6) [symmetric] using IH by blast
      qed (use IH in blast)+
    qed
  qed
qed

lemmas trim_ok = trim_spec [THEN conjunct1]

lemma trim_history_inv: "tracker_ok t \<Longrightarrow> tracker_inv (trim_history t)"
proof -
  assume ok: "tracker_ok t"
  let ?t = "trim_commands (tk_maxItems t) t"
  note spec = trim_spec [OF ok, of "tk_maxItems t"]
  have max: "tk_maxItems ?t = tk_maxItems t" using spec by blast
  have "int (card (finished (commands_of ?t))) \<le> tk_maxItems t"
  proof (cases "finished (commands_of ?t) = {}")
    case True
    then show ?thesis using ok by (simp add: tracker_ok_def)
  next
    case False
    then have "int (length (tk_commands ?t)) \<le> tk_maxItems t" using spec by blast
    then show ?thesis using finished_le_length [of "tk_commands ?t"] by linarith
  qed
  then show ?thesis unfolding tracker_inv_def trim_history_def max using spec by blast
qed

lemma prune_room: "tracker_ok t \<Longrightarrow> int (card (finished (commands_of (pruneLocked t)))) < tk_maxItems t"
proof -
  assume ok: "tracker_ok t"
  let ?t = "trim_commands (tk_maxItems t - 1) t"
  note spec = trim_spec [OF ok, of "tk_maxItems t - 1"]
  show ?thesis unfolding pruneLocked_def
  proof (cases "finished (commands_of ?t) = {}")
    case True
    then show "int (card (finished (commands_of ?t))) < tk_maxItems t" using ok by (simp add: tracker_ok_def)
  next
    case False
    then have "int (length (tk_commands ?t)) \<le> tk_maxItems t - 1" using spec by blast
    then show "int (card (finished (commands_of ?t))) < tk_maxItems t"
      using finished_le_length [of "tk_commands ?t"] by linarith
  qed
qed

lemma prune_facts:
  assumes "tracker_ok t"
  shows "tracker_ok (pruneLocked t)" "tk_pending (pruneLocked t) = tk_pending t"
    "tk_maxItems (pruneLocked t) = tk_maxItems t"
    "commands_of (pruneLocked t) i = Some c \<Longrightarrow> commands_of t i = Some c"
    "commands_of t i = Some c \<Longrightarrow> \<not> terminal (cmd_Status c) \<Longrightarrow> commands_of (pruneLocked t) i = Some c"
  using trim_spec [OF assms, of "tk_maxItems t - 1"] unfolding pruneLocked_def by blast+

lemma trim_history_facts:
  assumes "tracker_ok t"
  shows "tk_pending (trim_history t) = tk_pending t" "tk_maxItems (trim_history t) = tk_maxItems t"
    "commands_of (trim_history t) i = Some c \<Longrightarrow> commands_of t i = Some c"
    "commands_of t i = Some c \<Longrightarrow> \<not> terminal (cmd_Status c) \<Longrightarrow> commands_of (trim_history t) i = Some c"
  using trim_spec [OF assms, of "tk_maxItems t"] unfolding trim_history_def by blast+

subsection \<open>Rewriting one command\<close>

definition same_identity :: "command \<Rightarrow> command \<Rightarrow> bool" where
  "same_identity c d \<longleftrightarrow> cmd_ID c = cmd_ID d \<and> cmd_Kind c = cmd_Kind d \<and> cmd_DeviceID c = cmd_DeviceID d \<and>
     cmd_EndpointID c = cmd_EndpointID d \<and> cmd_CapabilityID c = cmd_CapabilityID d \<and>
     cmd_PropertyID c = cmd_PropertyID d \<and> cmd_CommandID c = cmd_CommandID d \<and>
     cmd_IdempotencyKey c = cmd_IdempotencyKey d"

lemma same_identity_keys: "same_identity c d \<Longrightarrow> command_key c = command_key d \<and> scope_of c = scope_of d"
  by (simp add: same_identity_def command_key_def scope_of_def)

lemma same_identity_ok:
  "same_identity c d \<Longrightarrow> command_ok i c \<Longrightarrow> cmd_Outcome d = outcomeForStatus (cmd_Status d) \<Longrightarrow> command_ok i d"
  by (auto simp: same_identity_def command_ok_def split: if_splits)

lemma put_command_sel [simp]:
  "tk_commands (put_command i c t) = gm_put i c (tk_commands t)" "tk_pending (put_command i c t) = tk_pending t"
  "tk_idempotency (put_command i c t) = tk_idempotency t" "tk_maxItems (put_command i c t) = tk_maxItems t"
  "tk_timeout (put_command i c t) = tk_timeout t"
  by (simp_all add: put_command_def)

lemma get_gm_put: "gm_get (gm_put i c m) = (gm_get m)(i \<mapsto> c)"
  by (rule update_conv')

lemma get_gm_del: "gm_get (gm_del i m) = (gm_get m)(i := None)"
  by (rule delete_conv')

lemma tracker_okI:
  assumes "gm_ok (tk_commands t)" and "gm_ok (tk_idempotency t)"
    and "\<And>i c. commands_of t i = Some c \<Longrightarrow> command_ok i c"
    and "pend_rel (commands_of t) (gm_get (tk_pending t))" and "idem_rel (commands_of t) (gm_get (tk_idempotency t))"
    and "1 \<le> tk_maxItems t"
  shows "tracker_ok t"
  using assms unfolding tracker_ok_def by blast

lemma tracker_okD:
  assumes "tracker_ok t"
  shows "gm_ok (tk_commands t)" "gm_ok (tk_idempotency t)"
    "commands_of t i = Some c \<Longrightarrow> command_ok i c"
    "pend_rel (commands_of t) (gm_get (tk_pending t))" "idem_rel (commands_of t) (gm_get (tk_idempotency t))"
    "1 \<le> tk_maxItems t"
  using assms unfolding tracker_ok_def by blast+

lemma rewrite_ok:
  assumes ok: "tracker_ok t" and c: "commands_of t i = Some c" and same: "same_identity c d"
    and out: "cmd_Outcome d = outcomeForStatus (cmd_Status d)"
    and P: "pend_rel ((commands_of t)(i \<mapsto> d)) P"
    and t': "tk_commands t' = gm_put i d (tk_commands t)" "gm_get (tk_pending t') = P"
      "tk_idempotency t' = tk_idempotency t" "tk_maxItems t' = tk_maxItems t"
  shows "tracker_ok t'"
proof (rule tracker_okI)
  show "gm_ok (tk_commands t')" unfolding t' by (rule gm_ok_put [OF tracker_okD(1) [OF ok]])
  show "gm_ok (tk_idempotency t')" unfolding t' by (rule tracker_okD(2) [OF ok])
  show "command_ok j e" if "commands_of t' j = Some e" for j e
  proof (cases "j = i")
    case True
    with that show ?thesis unfolding t' get_gm_put
      using same_identity_ok [OF same tracker_okD(3) [OF ok c] out] by simp
  next
    case False
    with that show ?thesis unfolding t' get_gm_put using tracker_okD(3) [OF ok] by simp
  qed
  show "pend_rel (commands_of t') (gm_get (tk_pending t'))" unfolding t' get_gm_put by (rule P)
  show "idem_rel (commands_of t') (gm_get (tk_idempotency t'))"
    unfolding t' get_gm_put using idem_same [OF tracker_okD(5) [OF ok] c] same same_identity_keys [OF same]
    by (simp add: same_identity_def)
  show "1 \<le> tk_maxItems t'" unfolding t' by (rule tracker_okD(6) [OF ok])
qed

lemma put_same_ok:
  assumes ok: "tracker_ok t" and c: "commands_of t i = Some c" and same: "same_identity c d"
    and out: "cmd_Outcome d = outcomeForStatus (cmd_Status d)" and ter: "terminal (cmd_Status d) = terminal (cmd_Status c)"
  shows "tracker_ok (put_command i d t)"
proof (rule rewrite_ok [OF ok c same out])
  show "pend_rel ((commands_of t)(i \<mapsto> d)) (gm_get (tk_pending t))"
    using ter same same_identity_keys [OF same]
    by (intro pend_same [OF tracker_okD(4) [OF ok] c]) (simp_all add: outstanding_def same_identity_def)
qed simp_all

lemma terminate_ok:
  assumes ok: "tracker_ok t" and c: "commands_of t i = Some c" "\<not> terminal (cmd_Status c)"
    and same: "same_identity c d" and out: "cmd_Outcome d = outcomeForStatus (cmd_Status d)" and ter: "terminal (cmd_Status d)"
  shows "tracker_ok ((put_command i d t)\<lparr>tk_pending := gm_del (command_key c) (tk_pending t)\<rparr>)"
proof (rule rewrite_ok [OF ok c(1) same out])
  have d: "\<not> outstanding d" using ter by (simp add: outstanding_def)
  show "pend_rel ((commands_of t)(i \<mapsto> d)) ((gm_get (tk_pending t))(command_key c := None))"
  proof (cases "cmd_Kind c = KindProperty")
    case True
    then show ?thesis using c d by (intro pend_terminate [OF tracker_okD(4) [OF ok]]) (simp_all add: outstanding_def)
  next
    case False
    then have "gm_get (tk_pending t) (command_key c) = None"
      by (intro action_not_pending [OF tracker_okD(4) [OF ok] tracker_okD(3) [OF ok] tracker_okD(3) [OF ok c(1)]])
    then have same_p: "(gm_get (tk_pending t))(command_key c := None) = gm_get (tk_pending t)" by auto
    show ?thesis unfolding same_p
      using False c d by (intro pend_other [OF tracker_okD(4) [OF ok]]) (simp_all add: outstanding_def)
  qed
qed (simp_all add: get_gm_del)

section \<open>Every operation keeps the invariant\<close>

lemma tracker_invD: "tracker_inv t \<Longrightarrow> tracker_ok t"
  by (simp add: tracker_inv_def)

lemma put_same_inv:
  assumes inv: "tracker_inv t" and c: "commands_of t i = Some c" and same: "same_identity c d"
    and out: "cmd_Outcome d = outcomeForStatus (cmd_Status d)" and ter: "terminal (cmd_Status d) = terminal (cmd_Status c)"
  shows "tracker_inv (put_command i d t)"
proof -
  have "finished ((commands_of t)(i \<mapsto> d)) = finished (commands_of t)" using c ter by (auto simp: finished_def)
  then show ?thesis
    using inv put_same_ok [OF tracker_invD [OF inv] c same out ter]
    unfolding tracker_inv_def put_command_sel get_gm_put by (simp only: simp_thms)
qed

lemma addCoalesced_inv: "tracker_inv t \<Longrightarrow> tracker_inv (snd (snd (addCoalesced now i n t)))"
proof -
  assume inv: "tracker_inv t"
  show ?thesis
  proof (cases "n = 0 \<or> commands_of t i = None")
    case True
    with inv show ?thesis by (auto simp: addCoalesced_def split: option.split)
  next
    case False
    then obtain c where c: "commands_of t i = Some c" by auto
    let ?d = "c\<lparr>cmd_Coalesced := cmd_Coalesced c + n, cmd_UpdatedAt := now\<rparr>"
    have "tracker_inv (put_command i ?d t)"
      using tracker_okD(3) [OF tracker_invD [OF inv] c]
      by (intro put_same_inv [OF inv c]) (simp_all add: same_identity_def command_ok_def)
    then show ?thesis using False c by (simp add: addCoalesced_def Let_def)
  qed
qed

lemma transition_inv: "tracker_inv t \<Longrightarrow> tracker_inv (snd (snd (transition_command now i status message t)))"
proof -
  assume inv: "tracker_inv t"
  note ok = tracker_invD [OF inv]
  show ?thesis
  proof (cases "\<exists>c. commands_of t i = Some c \<and> \<not> terminal (cmd_Status c)")
    case False
    with inv show ?thesis by (auto simp: transition_command_def split: option.split)
  next
    case True
    then obtain c where c: "commands_of t i = Some c" "\<not> terminal (cmd_Status c)" by blast
    let ?d = "c\<lparr>cmd_Status := status, cmd_Error := message, cmd_UpdatedAt := now, cmd_Outcome := outcomeForStatus status\<rparr>"
    have same: "same_identity c ?d" and key: "command_key ?d = command_key c"
      by (simp_all add: same_identity_def command_key_def)
    show ?thesis
    proof (cases "terminal status")
      case True
      have "tracker_ok ((put_command i ?d t)\<lparr>tk_pending := gm_del (command_key c) (tk_pending t)\<rparr>)"
        using True by (intro terminate_ok [OF ok c same]) simp_all
      from trim_history_inv [OF this] show ?thesis using c True by (simp add: transition_command_def Let_def key)
    next
      case False
      have "tracker_inv (put_command i ?d t)" using c False by (intro put_same_inv [OF inv c(1) same]) simp_all
      then show ?thesis using c False by (simp add: transition_command_def Let_def)
    qed
  qed
qed

lemma superseded_sel [simp]: "same_identity c (superseded_command now m c)"
  "cmd_Outcome (superseded_command now m c) = outcomeForStatus (cmd_Status (superseded_command now m c))"
  "terminal (cmd_Status (superseded_command now m c))" "command_key (superseded_command now m c) = command_key c"
  by (simp_all add: superseded_command_def same_identity_def terminal_def command_key_def)

lemma gm_del_absent: "gm_get m k = None \<Longrightarrow> gm_del k m = m"
  by (simp add: delete_idem map_of_eq_None_iff)

text \<open>Superseding an outstanding command: the command is terminal, it leaves the pending index, the history is trimmed.\<close>

lemma supersede_eq:
  assumes ok: "tracker_ok t" and c: "commands_of t i = Some c" "\<not> terminal (cmd_Status c)"
  obtains m where "tracker_ok ((put_command i (superseded_command now m c) t)\<lparr>tk_pending := gm_del (command_key c) (tk_pending t)\<rparr>)"
    "snd (snd (supersede now i message t)) =
       trim_history ((put_command i (superseded_command now m c) t)\<lparr>tk_pending := gm_del (command_key c) (tk_pending t)\<rparr>)"
proof -
  define m where "m = (if message = [] then ''replaced by a newer command'' else message)"
  let ?s = "(put_command i (superseded_command now m c) t)\<lparr>tk_pending := gm_del (command_key c) (tk_pending t)\<rparr>"
  have sok: "tracker_ok ?s" by (rule terminate_ok [OF ok c]) simp_all
  have "gm_get (tk_pending t) (command_key c) = Some i \<or> gm_get (tk_pending t) (command_key c) = None"
  proof (cases "cmd_Kind c = KindProperty")
    case True
    then show ?thesis using tracker_okD(4) [OF ok] c unfolding pend_rel_def outstanding_def by blast
  next
    case False
    then show ?thesis
      using action_not_pending [OF tracker_okD(4) [OF ok] tracker_okD(3) [OF ok] tracker_okD(3) [OF ok c(1)]] by simp
  qed
  then have "snd (snd (supersede now i message t)) = trim_history ?s"
    using c by (auto simp: supersede_def Let_def m_def [symmetric] gm_del_absent put_command_def)
  with sok show thesis by (rule that)
qed

lemma supersede_idle:
  "\<not> (\<exists>c. commands_of t i = Some c \<and> \<not> terminal (cmd_Status c)) \<Longrightarrow> snd (snd (supersede now i message t)) = t"
  by (auto simp: supersede_def Let_def split: option.split)

lemma supersede_inv: "tracker_inv t \<Longrightarrow> tracker_inv (snd (snd (supersede now i message t)))"
  by (cases "\<exists>c. commands_of t i = Some c \<and> \<not> terminal (cmd_Status c)")
    (auto simp: supersede_idle intro: trim_history_inv elim!: supersede_eq [OF tracker_invD, where now = now and message = message])

lemma pending_command:
  assumes ok: "tracker_ok t" and p: "gm_get (tk_pending t) k = Some i"
  obtains c where "commands_of t i = Some c" "get_or_zero t i = c" "\<not> terminal (cmd_Status c)"
    "cmd_Kind c = KindProperty" "command_key c = k"
proof -
  from tracker_okD(4) [OF ok] p obtain c where c: "commands_of t i = Some c" "outstanding c" "command_key c = k"
    unfolding pend_rel_def by blast
  with that [of c] show thesis by (simp add: outstanding_def get_or_zero_def)
qed

lemma confirm_value_inv: "tracker_inv t \<Longrightarrow> tracker_inv (snd (snd (confirm_value now d e c p v t)))"
proof -
  assume inv: "tracker_inv t"
  note ok = tracker_invD [OF inv]
  let ?k = "pendingKey d e c p"
  show ?thesis
  proof (cases "\<exists>i. gm_get (tk_pending t) ?k = Some i \<and> value_equal (cmd_Expected (get_or_zero t i)) v")
    case False
    with inv show ?thesis by (auto simp: confirm_value_def Let_def split: option.split)
  next
    case True
    then obtain i where i: "gm_get (tk_pending t) ?k = Some i" "value_equal (cmd_Expected (get_or_zero t i)) v" by blast
    obtain x where x: "commands_of t i = Some x" "get_or_zero t i = x" "\<not> terminal (cmd_Status x)"
        "cmd_Kind x = KindProperty" "command_key x = ?k"
      by (rule pending_command [OF ok i(1)])
    let ?y = "x\<lparr>cmd_Status := StatusConfirmed, cmd_Outcome := OutcomeSucceeded, cmd_UpdatedAt := now\<rparr>"
    have "tracker_ok ((put_command i ?y t)\<lparr>tk_pending := gm_del (command_key x) (tk_pending t)\<rparr>)"
      by (rule terminate_ok [OF ok x(1,3)]) (simp_all add: same_identity_def terminal_def)
    from trim_history_inv [OF this] show ?thesis
      using i x(2,5) by (simp add: confirm_value_def Let_def)
  qed
qed

lemma expire_body_some:
  "expire_body now i c = Some d \<Longrightarrow> same_identity c d \<and> \<not> terminal (cmd_Status c) \<and> terminal (cmd_Status d) \<and>
     cmd_Outcome d = outcomeForStatus (cmd_Status d)"
  by (auto simp: expire_body_def same_identity_def terminal_def split: if_splits)

lemma get_fold_del: "gm_get (fold (\<lambda>c p. gm_del (f c) p) cs m) = (\<lambda>k. if k \<in> f ` set cs then None else gm_get m k)"
  by (induction cs arbitrary: m) (auto simp: get_gm_del fun_eq_iff)

lemma pend_expire:
  assumes ok: "tracker_ok t"
  shows "pend_rel (gm_get (fst (gm_sweep (expire_body now) (tk_commands t))))
    (\<lambda>k. if k \<in> command_key ` set (snd (gm_sweep (expire_body now) (tk_commands t))) then None
         else gm_get (tk_pending t) k)"
  unfolding pend_rel_def
proof (intro allI iffI)
  let ?E = "snd (gm_sweep (expire_body now) (tk_commands t))"
  let ?C = "gm_get (fst (gm_sweep (expire_body now) (tk_commands t)))"
  have rel: "pend_rel (commands_of t) (gm_get (tk_pending t))" by (rule tracker_okD(4) [OF ok])
  fix k i
  { assume p: "(if k \<in> command_key ` set ?E then None else gm_get (tk_pending t) k) = Some i"
    then have k: "k \<notin> command_key ` set ?E" "gm_get (tk_pending t) k = Some i" by (auto split: if_splits)
    then obtain c where c: "commands_of t i = Some c" "outstanding c" "command_key c = k"
      using rel unfolding pend_rel_def by blast
    have "expire_body now i c = None"
    proof (rule ccontr)
      assume "expire_body now i c \<noteq> None"
      then obtain d where d: "expire_body now i c = Some d" by auto
      then have "d \<in> set ?E" unfolding gm_sweep_changed using c(1) by (blast dest: gm_get_in_set)
      moreover have "command_key d = k" using expire_body_some [OF d] same_identity_keys c(3) by metis
      ultimately show False using k(1) by blast
    qed
    then show "\<exists>c. ?C i = Some c \<and> outstanding c \<and> command_key c = k" using c by (simp add: gm_sweep_get) }
  assume "\<exists>c. ?C i = Some c \<and> outstanding c \<and> command_key c = k"
  then obtain d where d: "?C i = Some d" "outstanding d" "command_key d = k" by blast
  from d(1) obtain c where c: "commands_of t i = Some c" "d = (case expire_body now i c of None \<Rightarrow> c | Some x \<Rightarrow> x)"
    by (auto simp: gm_sweep_get split: option.splits)
  have idle: "expire_body now i c = None" and dc: "d = c"
    using c(2) d(2) expire_body_some [of now i c] by (auto simp: outstanding_def split: option.splits)
  have pk: "gm_get (tk_pending t) k = Some i" using rel c(1) d dc unfolding pend_rel_def by blast
  have "k \<notin> command_key ` set ?E"
  proof
    assume "k \<in> command_key ` set ?E"
    then obtain j x y where y: "(j, x) \<in> set (tk_commands t)" "expire_body now j x = Some y" "command_key y = k"
      by (auto simp: gm_sweep_changed)
    have jx: "commands_of t j = Some x" using y(1) tracker_okD(1) [OF ok] by (simp add: gm_in_set_get)
    have kx: "command_key x = k" using y(3) expire_body_some [OF y(2)] same_identity_keys by metis
    have "cmd_Kind x = KindProperty"
      using command_key_last [OF tracker_okD(3) [OF ok jx]] command_key_last [OF tracker_okD(3) [OF ok c(1)]] kx d dc
      by (simp add: outstanding_def)
    then have "outstanding x" using expire_body_some [OF y(2)] by (simp add: outstanding_def)
    then have "gm_get (tk_pending t) k = Some j" using rel jx kx unfolding pend_rel_def by blast
    with pk have "j = i" by simp
    with jx c(1) y(2) idle show False by simp
  qed
  with pk show "(if k \<in> command_key ` set ?E then None else gm_get (tk_pending t) k) = Some i" by simp
qed

lemma expire_ok:
  assumes ok: "tracker_ok t"
  shows "tracker_ok (t\<lparr>tk_commands := fst (gm_sweep (expire_body now) (tk_commands t)),
    tk_pending := fold (\<lambda>c p. gm_del (command_key c) p) (snd (gm_sweep (expire_body now) (tk_commands t))) (tk_pending t)\<rparr>)"
    (is "tracker_ok ?t")
proof (rule tracker_okI)
  show "gm_ok (tk_commands ?t)" using tracker_okD(1) [OF ok] by simp
  show "gm_ok (tk_idempotency ?t)" using tracker_okD(2) [OF ok] by simp
  have cmd: "\<exists>c. commands_of t i = Some c \<and> (d = c \<or> expire_body now i c = Some d)" if "commands_of ?t i = Some d" for i d
    using that by (auto simp: gm_sweep_get split: option.splits)
  show "command_ok i d" if "commands_of ?t i = Some d" for i d
    using cmd [OF that] tracker_okD(3) [OF ok] expire_body_some same_identity_ok by metis
  show "pend_rel (commands_of ?t) (gm_get (tk_pending ?t))"
    using pend_expire [OF ok] by (simp add: get_fold_del)
  have "idem_rel (commands_of t) (gm_get (tk_idempotency t))" by (rule tracker_okD(5) [OF ok])
  moreover have "\<exists>d. commands_of ?t i = Some d \<and> cmd_Kind d = cmd_Kind c \<and> cmd_IdempotencyKey d = cmd_IdempotencyKey c \<and>
      scope_of d = scope_of c" if "commands_of t i = Some c" for i c
  proof (cases "expire_body now i c")
    case None
    with that show ?thesis by (simp add: gm_sweep_get)
  next
    case (Some d)
    with that have "commands_of ?t i = Some d" by (simp add: gm_sweep_get)
    with expire_body_some [OF Some] same_identity_keys [of c d] show ?thesis by (auto simp: same_identity_def)
  qed
  ultimately show "idem_rel (commands_of ?t) (gm_get (tk_idempotency ?t))"
    unfolding idem_rel_def by (simp (no_asm_use)) metis
  show "1 \<le> tk_maxItems ?t" using tracker_okD(6) [OF ok] by simp
qed

lemma expire_eq:
  "expire now t = (snd (gm_sweep (expire_body now) (tk_commands t)),
     trim_history (t\<lparr>tk_commands := fst (gm_sweep (expire_body now) (tk_commands t)),
       tk_pending := fold (\<lambda>c p. gm_del (command_key c) p) (snd (gm_sweep (expire_body now) (tk_commands t))) (tk_pending t)\<rparr>))"
  by (simp add: expire_def case_prod_beta Let_def)

lemma expire_inv: "tracker_inv t \<Longrightarrow> tracker_inv (snd (expire now t))"
  using trim_history_inv [OF expire_ok [OF tracker_invD]] by (simp add: expire_eq)

lemma setMaxItems_inv: "tracker_inv t \<Longrightarrow> tracker_inv (setMaxItems limit t)"
proof -
  assume "tracker_inv t"
  then have "tracker_ok (t\<lparr>tk_maxItems := (if limit < 1 then 1 else limit)\<rparr>)"
    by (simp add: tracker_inv_def tracker_ok_def)
  then show ?thesis unfolding setMaxItems_def by (rule trim_history_inv)
qed

subsection \<open>New commands\<close>

lemma new_property_sel [simp]:
  "cmd_ID (new_property_command now i t d e c p v r) = i"
  "command_key (new_property_command now i t d e c p v r) = pendingKey d e c p"
  "cmd_Status (new_property_command now i t d e c p v r) = StatusQueued"
  "cmd_Kind (new_property_command now i t d e c p v r) = KindProperty"
  "cmd_Expected (new_property_command now i t d e c p v r) = v"
  "outstanding (new_property_command now i t d e c p v r)"
  by (simp_all add: new_property_command_def command_key_def outstanding_def terminal_def)

lemma new_property_ok:
  "i \<noteq> [] \<Longrightarrow> p \<noteq> [] \<Longrightarrow> last p \<noteq> NUL \<Longrightarrow> command_ok i (new_property_command now i t d e c p v r)"
  by (simp add: new_property_command_def command_ok_def zero_command_def)

lemma insert_pending_ok:
  assumes ok: "tracker_ok t" and c: "outstanding c" "command_ok (cmd_ID c) c" "commands_of t (cmd_ID c) = None"
    and free: "gm_get (tk_pending t) (command_key c) = None"
  shows "tracker_ok (insert_pending (command_key c) c t)"
proof (rule tracker_okI)
  let ?t = "insert_pending (command_key c) c t"
  have cmds: "commands_of ?t = (commands_of t)(cmd_ID c \<mapsto> c)" by (simp add: insert_pending_def get_gm_put)
  show "gm_ok (tk_commands ?t)" using tracker_okD(1) [OF ok] by (simp add: insert_pending_def)
  show "gm_ok (tk_idempotency ?t)" using tracker_okD(2) [OF ok] by (simp add: insert_pending_def)
  show "command_ok j e" if "commands_of ?t j = Some e" for j e
    using that c(2) tracker_okD(3) [OF ok, of j e] unfolding cmds by (auto split: if_splits)
  show "pend_rel (commands_of ?t) (gm_get (tk_pending ?t))"
    unfolding cmds using pend_insert [OF tracker_okD(4) [OF ok] c(3) free c(1)]
    by (simp add: insert_pending_def get_gm_put)
  show "idem_rel (commands_of ?t) (gm_get (tk_idempotency ?t))"
    unfolding cmds using idem_fresh [OF tracker_okD(5) [OF ok] c(3)] by (simp add: insert_pending_def)
  show "1 \<le> tk_maxItems ?t" using tracker_okD(6) [OF ok] by (simp add: insert_pending_def)
qed

text \<open>
  The three outcomes of beginning a property command: nothing is pending for the property, an
  identical request is pending, or a different one is.
\<close>

lemma beginProperty_cases:
  fixes now newID d e c p v r t
  defines "new \<equiv> new_property_command now newID t d e c p v r" and "k \<equiv> pendingKey d e c p"
  assumes ok: "tracker_ok t"
  obtains (fresh) "gm_get (tk_pending t) k = None"
      "beginPropertyCorrelated now newID d e c p v r t = ((new, None, False), [new], insert_pending k new (pruneLocked t))"
    | (coalesce) i x where "gm_get (tk_pending t) k = Some i" "commands_of t i = Some x" "\<not> terminal (cmd_Status x)"
      "value_equal (cmd_Expected x) v" "command_key x = k"
      "beginPropertyCorrelated now newID d e c p v r t =
        (let y = x\<lparr>cmd_Coalesced := cmd_Coalesced x + 1, cmd_UpdatedAt := now\<rparr>
         in ((y, None, True), [y], put_command i y (pruneLocked t)))"
    | (replace) i x where "gm_get (tk_pending t) k = Some i" "commands_of t i = Some x" "\<not> terminal (cmd_Status x)"
      "\<not> value_equal (cmd_Expected x) v" "command_key x = k" "cmd_Kind x = KindProperty"
      "beginPropertyCorrelated now newID d e c p v r t =
        (let y = superseded_command now ''replaced by a newer command'' x
         in ((new, Some y, False), [y, new], insert_pending k new (put_command i y (pruneLocked t))))"
proof (cases "gm_get (tk_pending t) k")
  case None
  then show ?thesis
    by (intro fresh) (simp_all add: beginPropertyCorrelated_def Let_def prune_facts(2) [OF ok] new_def k_def)
next
  case (Some i)
  obtain x where x: "commands_of t i = Some x" "get_or_zero t i = x" "\<not> terminal (cmd_Status x)"
      "cmd_Kind x = KindProperty" "command_key x = k"
    by (rule pending_command [OF ok Some])
  have px: "get_or_zero (pruneLocked t) i = x"
    using prune_facts(5) [OF ok x(1,3)] by (simp add: get_or_zero_def)
  show ?thesis
  proof (cases "value_equal (cmd_Expected x) v")
    case True
    with Some x px show ?thesis
      by (intro coalesce [of i x])
        (simp_all add: beginPropertyCorrelated_def Let_def prune_facts(2) [OF ok] k_def)
  next
    case False
    with Some x px show ?thesis
      by (intro replace [of i x])
        (simp_all add: beginPropertyCorrelated_def Let_def prune_facts(2) [OF ok] k_def new_def)
  qed
qed

lemma tracker_ok_cong:
  assumes "tracker_ok s" and "tk_commands t = tk_commands s" and "tk_idempotency t = tk_idempotency s"
    and "gm_get (tk_pending t) = gm_get (tk_pending s)" and "tk_maxItems t = tk_maxItems s"
  shows "tracker_ok t"
  using assms by (simp add: tracker_ok_def)

lemma beginProperty_inv:
  assumes inv: "tracker_inv t" and new: "newID \<noteq> []" "commands_of t newID = None" and p: "p \<noteq> []" "last p \<noteq> NUL"
  shows "tracker_inv (snd (snd (beginPropertyCorrelated now newID d e c p v r t)))"
proof -
  note ok = tracker_invD [OF inv]
  note pok = prune_facts(1) [OF ok]
  let ?new = "new_property_command now newID t d e c p v r" and ?k = "pendingKey d e c p"
  have nok: "command_ok newID ?new" by (rule new_property_ok [OF new(1) p])
  have fresh_id: "commands_of (pruneLocked t) newID = None"
    using prune_facts(4) [OF ok, of newID] new(2) by (metis option.distinct(1) option.exhaust)
  from ok show ?thesis
  proof (cases rule: beginProperty_cases [where now = now and newID = newID and d = d and e = e and c = c and p = p and v = v and r = r])
    case fresh
    have "tracker_ok (insert_pending (command_key ?new) ?new (pruneLocked t))"
      using nok fresh_id fresh(1) prune_facts(2) [OF ok] by (intro insert_pending_ok [OF pok]) simp_all
    moreover have "finished ((commands_of (pruneLocked t))(newID \<mapsto> ?new)) \<subseteq> finished (commands_of (pruneLocked t))"
      by (rule finished_upd(2)) (simp add: terminal_def)
    from card_mono [OF finished_finite this] prune_room [OF ok]
    have "int (card (finished ((commands_of (pruneLocked t))(newID \<mapsto> ?new)))) \<le> tk_maxItems t" by linarith
    ultimately show ?thesis
      unfolding fresh(2) tracker_inv_def
      by (simp add: insert_pending_def get_gm_put prune_facts(3) [OF ok])
  next
    case (coalesce i x)
    let ?y = "x\<lparr>cmd_Coalesced := cmd_Coalesced x + 1, cmd_UpdatedAt := now\<rparr>"
    have px: "commands_of (pruneLocked t) i = Some x" by (rule prune_facts(5) [OF ok coalesce(2,3)])
    have "tracker_inv (pruneLocked t)"
      using pok prune_room [OF ok] by (simp add: tracker_inv_def prune_facts(3) [OF ok])
    then have "tracker_inv (put_command i ?y (pruneLocked t))"
      using tracker_okD(3) [OF ok coalesce(2)]
      by (intro put_same_inv [OF _ px]) (simp_all add: same_identity_def command_ok_def)
    then show ?thesis unfolding coalesce(6) by (simp add: Let_def)
  next
    case (replace i x)
    let ?y = "superseded_command now ''replaced by a newer command'' x"
    let ?s = "(put_command i ?y (pruneLocked t))\<lparr>tk_pending := gm_del ?k (tk_pending (pruneLocked t))\<rparr>"
    have px: "commands_of (pruneLocked t) i = Some x" by (rule prune_facts(5) [OF ok replace(2,3)])
    have "i \<noteq> newID" using replace(2) new(2) by auto
    have "tracker_ok ?s"
      using terminate_ok [OF pok px replace(3), of ?y] replace(5) by simp
    then have sok: "tracker_ok (insert_pending (command_key ?new) ?new ?s)"
      using nok fresh_id \<open>i \<noteq> newID\<close> by (intro insert_pending_ok) (simp_all add: get_gm_put get_gm_del)
    have "tracker_ok (insert_pending ?k ?new (put_command i ?y (pruneLocked t)))"
      by (rule tracker_ok_cong [OF sok]) (simp_all add: insert_pending_def get_gm_put get_gm_del)
    moreover have "finished ((commands_of (pruneLocked t))(i \<mapsto> ?y, newID \<mapsto> ?new)) \<subseteq> insert i (finished (commands_of (pruneLocked t)))"
      by (rule order_trans [OF finished_upd(2) finished_upd(1)]) (simp add: terminal_def)
    from card_mono [OF _ this] prune_room [OF ok] finished_finite [of "tk_commands (pruneLocked t)"]
    have "int (card (finished ((commands_of (pruneLocked t))(i \<mapsto> ?y, newID \<mapsto> ?new)))) \<le> tk_maxItems t"
      using card_insert_le_m1 [of "Suc (card (finished (commands_of (pruneLocked t))))" "finished (commands_of (pruneLocked t))" i]
      by simp
    ultimately show ?thesis
      unfolding replace(7) tracker_inv_def
      by (simp add: insert_pending_def get_gm_put prune_facts(3) [OF ok] Let_def)
  qed
qed

lemma new_action_ok: "i \<noteq> [] \<Longrightarrow> command_ok i (new_action_command now i t d e c a ps k r)"
  by (simp add: new_action_command_def command_ok_def zero_command_def)

lemma new_action_sel [simp]:
  "cmd_ID (new_action_command now i t d e c a ps k r) = i" "cmd_Kind (new_action_command now i t d e c a ps k r) = KindAction"
  "cmd_IdempotencyKey (new_action_command now i t d e c a ps k r) = k"
  "cmd_Parameters (new_action_command now i t d e c a ps k r) = ps"
  "cmd_Status (new_action_command now i t d e c a ps k r) = StatusQueued"
  "scope_of (new_action_command now i t d e c a ps k r) = actionIdempotencyScope d e c a k"
  by (simp_all add: new_action_command_def scope_of_def)

lemma insert_action_sel:
  "commands_of (insert_action c t) = (commands_of t)(cmd_ID c \<mapsto> c)" "tk_pending (insert_action c t) = tk_pending t"
  "tk_maxItems (insert_action c t) = tk_maxItems t"
  "gm_get (tk_idempotency (insert_action c t)) =
     (if cmd_IdempotencyKey c \<noteq> [] then (gm_get (tk_idempotency t))(scope_of c \<mapsto> cmd_ID c) else gm_get (tk_idempotency t))"
  "gm_ok (tk_commands t) \<Longrightarrow> gm_ok (tk_commands (insert_action c t))"
  "gm_ok (tk_idempotency t) \<Longrightarrow> gm_ok (tk_idempotency (insert_action c t))"
  by (simp_all add: insert_action_def Let_def get_gm_put scope_of_def)

lemma insert_action_ok:
  assumes ok: "tracker_ok t" and c: "cmd_Kind c = KindAction" "command_ok (cmd_ID c) c" "commands_of t (cmd_ID c) = None"
  shows "tracker_ok (insert_action c t)"
proof (rule tracker_okI)
  show "gm_ok (tk_commands (insert_action c t))" "gm_ok (tk_idempotency (insert_action c t))"
    using insert_action_sel(5,6) tracker_okD(1,2) [OF ok] by blast+
  show "command_ok j x" if "commands_of (insert_action c t) j = Some x" for j x
    using that c(2) tracker_okD(3) [OF ok, of j x] unfolding insert_action_sel by (auto split: if_splits)
  show "pend_rel (commands_of (insert_action c t)) (gm_get (tk_pending (insert_action c t)))"
    unfolding insert_action_sel using c(1,3) by (intro pend_other [OF tracker_okD(4) [OF ok]]) (auto simp: outstanding_def)
  show "idem_rel (commands_of (insert_action c t)) (gm_get (tk_idempotency (insert_action c t)))"
    unfolding insert_action_sel using idem_fresh [OF tracker_okD(5) [OF ok] c(3)] c(1)
    by (auto simp: idem_rel_def split: if_splits)
  show "1 \<le> tk_maxItems (insert_action c t)" unfolding insert_action_sel by (rule tracker_okD(6) [OF ok])
qed

lemma beginAction_inv:
  assumes inv: "tracker_inv t" and new: "newID \<noteq> []" "commands_of t newID = None"
  shows "tracker_inv (snd (snd (beginActionIdempotentCorrelated now newID d e c a ps k r t)))"
proof -
  note ok = tracker_invD [OF inv]
  let ?new = "new_action_command now newID t d e c a ps k r"
  show ?thesis
  proof (cases "if k \<noteq> [] then gm_get (tk_idempotency t) (actionIdempotencyScope d e c a k) else None")
    case (Some i)
    with inv show ?thesis by (simp add: beginActionIdempotentCorrelated_def Let_def)
  next
    case None
    have fresh_id: "commands_of (pruneLocked t) newID = None"
      using prune_facts(4) [OF ok, of newID] new(2) by (metis option.distinct(1) option.exhaust)
    have "tracker_ok (insert_action ?new (pruneLocked t))"
      using new_action_ok [OF new(1)] fresh_id by (intro insert_action_ok [OF prune_facts(1) [OF ok]]) simp_all
    moreover have "finished ((commands_of (pruneLocked t))(newID \<mapsto> ?new)) \<subseteq> finished (commands_of (pruneLocked t))"
      by (rule finished_upd(2)) (simp add: terminal_def)
    from card_mono [OF finished_finite this] prune_room [OF ok]
    have "int (card (finished (commands_of (insert_action ?new (pruneLocked t))))) \<le> tk_maxItems t"
      unfolding insert_action_sel new_action_sel by linarith
    ultimately have "tracker_inv (insert_action ?new (pruneLocked t))"
      by (simp add: tracker_inv_def insert_action_sel(3) prune_facts(3) [OF ok])
    with None show ?thesis by (simp add: beginActionIdempotentCorrelated_def Let_def)
  qed
qed

section \<open>Runs of the tracker\<close>

definition tracker_init :: "tracker \<Rightarrow> bool" where
  "tracker_init t \<longleftrightarrow> (\<exists>timeout. t = newTracker timeout)"

text \<open>
  The random identifier of a new command is not empty and not in use; the property of a new
  command is addressed by a stable identifier.
\<close>

inductive tracker_step :: "tracker \<Rightarrow> tracker \<Rightarrow> bool" where
  step_begin: "i \<noteq> [] \<Longrightarrow> commands_of t i = None \<Longrightarrow> ValidStableID p \<Longrightarrow>
    tracker_step t (snd (snd (beginPropertyCorrelated now i d e c p v r t)))"
| step_action: "i \<noteq> [] \<Longrightarrow> commands_of t i = None \<Longrightarrow>
    tracker_step t (snd (snd (beginActionIdempotentCorrelated now i d e c a ps k r t)))"
| step_coalesced: "tracker_step t (snd (snd (addCoalesced now i n t)))"
| step_supersede: "tracker_step t (snd (snd (supersede now i message t)))"
| step_transition: "tracker_step t (snd (snd (transition_command now i status message t)))"
| step_confirm: "tracker_step t (snd (snd (confirm_value now d e c p v t)))"
| step_expire: "tracker_step t (snd (expire now t))"
| step_limit: "tracker_step t (setMaxItems limit t)"
| step_timeout: "tracker_step t (setTimeout timeout t)"

lemma ValidStableID_last: "ValidStableID p \<Longrightarrow> p \<noteq> [] \<and> last p \<noteq> NUL"
proof -
  assume v: "ValidStableID p"
  then have "p \<noteq> []" by (auto simp: ValidStableID_def)
  moreover from v have "id_edge (last p)" by (auto simp: ValidStableID_def split: list.splits if_splits)
  then have "last p \<noteq> NUL" by (auto simp: id_edge_def in_range_def)
  ultimately show ?thesis ..
qed

interpretation tracker_sys: invariant_system tracker_init tracker_step tracker_inv
proof unfold_locales
  fix t assume "tracker_init t"
  then show "tracker_inv t"
    by (auto simp: tracker_init_def newTracker_def tracker_inv_def tracker_ok_def pend_rel_def idem_rel_def finished_def)
next
  fix s t assume inv: "tracker_inv s" and "tracker_step s t"
  from this(2) show "tracker_inv t"
  proof cases
    case (step_begin i p now d e c v r)
    with inv ValidStableID_last [of p] show ?thesis by (simp add: beginProperty_inv)
  next
    case (step_timeout timeout)
    with inv show ?thesis by (simp add: setTimeout_def tracker_inv_def tracker_ok_def)
  qed (use inv in \<open>simp_all add: beginAction_inv addCoalesced_inv supersede_inv transition_inv confirm_value_inv
      expire_inv setMaxItems_inv\<close>)
qed

text \<open>
  C3. One command per property. In every state the tracker can reach, no two unfinished commands
  address the same property, the pending index holds exactly the unfinished property commands,
  the outcome of a command is the one of its status, and the finished commands never exceed
  the configured history.
\<close>

theorem tracker_consistent:
  assumes "reachable tracker_init tracker_step t"
  shows "(\<forall>i j c d. commands_of t i = Some c \<longrightarrow> commands_of t j = Some d \<longrightarrow> outstanding c \<longrightarrow> outstanding d \<longrightarrow>
       (cmd_DeviceID c, cmd_EndpointID c, cmd_CapabilityID c, cmd_PropertyID c) =
       (cmd_DeviceID d, cmd_EndpointID d, cmd_CapabilityID d, cmd_PropertyID d) \<longrightarrow> i = j) \<and>
    (\<forall>k i. gm_get (tk_pending t) k = Some i \<longleftrightarrow>
       (\<exists>c. commands_of t i = Some c \<and> outstanding c \<and> command_key c = k)) \<and>
    (\<forall>i c. commands_of t i = Some c \<longrightarrow> cmd_ID c = i \<and> cmd_Outcome c = outcomeForStatus (cmd_Status c)) \<and>
    int (card {i. \<exists>c. commands_of t i = Some c \<and> terminal (cmd_Status c)}) \<le> tk_maxItems t"
proof -
  have inv: "tracker_inv t" by (rule tracker_sys.reachable_inv [OF assms])
  note ok = tracker_invD [OF inv]
  have rel: "gm_get (tk_pending t) k = Some i \<longleftrightarrow> (\<exists>c. commands_of t i = Some c \<and> outstanding c \<and> command_key c = k)" for k i
    using tracker_okD(4) [OF ok] unfolding pend_rel_def by blast
  have "i = j" if "commands_of t i = Some c" "commands_of t j = Some d" "outstanding c" "outstanding d"
      "(cmd_DeviceID c, cmd_EndpointID c, cmd_CapabilityID c, cmd_PropertyID c) =
       (cmd_DeviceID d, cmd_EndpointID d, cmd_CapabilityID d, cmd_PropertyID d)" for i j c d
  proof -
    have "command_key c = command_key d" using that(5) by (simp add: command_key_def)
    then have "gm_get (tk_pending t) (command_key c) = Some i" "gm_get (tk_pending t) (command_key c) = Some j"
      using that rel by metis+
    then show ?thesis by simp
  qed
  moreover have "int (card {i. \<exists>c. commands_of t i = Some c \<and> terminal (cmd_Status c)}) \<le> tk_maxItems t"
    using inv by (simp add: tracker_inv_def finished_def)
  moreover have "cmd_ID c = i \<and> cmd_Outcome c = outcomeForStatus (cmd_Status c)" if "commands_of t i = Some c" for i c
    using tracker_okD(3) [OF ok that] by (simp add: command_ok_def)
  ultimately show ?thesis using rel by blast
qed

section \<open>A finished command stays as it is\<close>

definition final_kept :: "tracker \<Rightarrow> tracker \<Rightarrow> bool" where
  "final_kept t t' \<longleftrightarrow> (\<forall>i c c'. commands_of t i = Some c \<longrightarrow> terminal (cmd_Status c) \<longrightarrow> commands_of t' i = Some c' \<longrightarrow>
     cmd_Status c' = cmd_Status c \<and> cmd_Outcome c' = cmd_Outcome c)"

lemma final_kept_refl: "(\<And>i c. commands_of t' i = Some c \<Longrightarrow> commands_of t i = Some c) \<Longrightarrow> final_kept t t'"
  unfolding final_kept_def by fastforce

lemma final_kept_put:
  assumes "\<And>j d. commands_of t' j = Some d \<Longrightarrow> d = c \<and> j = i \<or> commands_of t j = Some d"
    and "\<And>x. commands_of t i = Some x \<Longrightarrow> terminal (cmd_Status x) \<Longrightarrow> cmd_Status c = cmd_Status x \<and> cmd_Outcome c = cmd_Outcome x"
  shows "final_kept t t'"
  using assms unfolding final_kept_def by fastforce

lemma final_kept_put_command:
  "(\<And>x. commands_of t i = Some x \<Longrightarrow> terminal (cmd_Status x) \<Longrightarrow> cmd_Status c = cmd_Status x \<and> cmd_Outcome c = cmd_Outcome x) \<Longrightarrow>
   final_kept t (put_command i c t)"
  by (rule final_kept_put [of _ c i]) (auto simp: get_gm_put split: if_splits)

lemma trim_history_sub: "tracker_ok t \<Longrightarrow> commands_of (trim_history t) j = Some d \<Longrightarrow> commands_of t j = Some d"
  by (rule trim_history_facts(3))

lemma final_kept_finish:
  assumes ok: "tracker_ok s" and s: "tk_commands s = gm_put i c (tk_commands t)"
    and nt: "commands_of t i = Some x" "\<not> terminal (cmd_Status x)"
  shows "final_kept t (trim_history s)"
proof (rule final_kept_put [of _ c i])
  fix j d assume "commands_of (trim_history s) j = Some d"
  then have "commands_of s j = Some d" by (rule trim_history_sub [OF ok])
  then show "d = c \<and> j = i \<or> commands_of t j = Some d" unfolding s get_gm_put by (auto split: if_splits)
qed (use nt in simp)

lemma begin_final:
  assumes inv: "tracker_inv t" and new: "commands_of t i = None"
  shows "final_kept t (snd (snd (beginPropertyCorrelated now i d e c p v r t)))"
proof -
  note ok = tracker_invD [OF inv]
  have sub: "commands_of (pruneLocked t) j = Some y \<Longrightarrow> commands_of t j = Some y" for j y by (rule prune_facts(4) [OF ok])
  from ok show ?thesis
  proof (cases rule: beginProperty_cases [where now = now and newID = i and d = d and e = e and c = c and p = p and v = v and r = r])
    case fresh
    then show ?thesis unfolding final_kept_def using new sub
      by (fastforce simp: insert_pending_def get_gm_put split: if_splits)
  next
    case (coalesce j x)
    then show ?thesis unfolding final_kept_def Let_def using sub
      by (fastforce simp: get_gm_put split: if_splits)
  next
    case (replace j x)
    then show ?thesis unfolding final_kept_def Let_def using new sub
      by (fastforce simp: insert_pending_def get_gm_put split: if_splits)
  qed
qed

lemma action_final:
  assumes inv: "tracker_inv t" and new: "commands_of t i = None"
  shows "final_kept t (snd (snd (beginActionIdempotentCorrelated now i d e c a ps k r t)))"
proof (cases "if k \<noteq> [] then gm_get (tk_idempotency t) (actionIdempotencyScope d e c a k) else None")
  case (Some j)
  then show ?thesis by (simp add: beginActionIdempotentCorrelated_def Let_def final_kept_def)
next
  case None
  have "commands_of (pruneLocked t) j = Some y \<Longrightarrow> commands_of t j = Some y" for j y
    by (rule prune_facts(4) [OF tracker_invD [OF inv]])
  with None new show ?thesis
    unfolding final_kept_def
    by (fastforce simp: beginActionIdempotentCorrelated_def Let_def insert_action_sel split: if_splits)
qed

lemma addCoalesced_final: "final_kept t (snd (snd (addCoalesced now i n t)))"
proof (cases "n = 0 \<or> commands_of t i = None")
  case True
  then have "snd (snd (addCoalesced now i n t)) = t" by (auto simp: addCoalesced_def split: option.split)
  then show ?thesis by (simp add: final_kept_def)
next
  case False
  then obtain c where c: "commands_of t i = Some c" by auto
  have "final_kept t (put_command i (c\<lparr>cmd_Coalesced := cmd_Coalesced c + n, cmd_UpdatedAt := now\<rparr>) t)"
    using c by (intro final_kept_put_command) simp
  with False c show ?thesis by (simp add: addCoalesced_def Let_def)
qed

lemma transition_final:
  assumes inv: "tracker_inv t"
  shows "final_kept t (snd (snd (transition_command now i status message t)))"
proof (cases "\<exists>c. commands_of t i = Some c \<and> \<not> terminal (cmd_Status c)")
  case False
  then have "snd (snd (transition_command now i status message t)) = t"
    by (auto simp: transition_command_def split: option.split)
  then show ?thesis by (simp add: final_kept_def)
next
  case True
  then obtain c where c: "commands_of t i = Some c" "\<not> terminal (cmd_Status c)" by blast
  let ?d = "c\<lparr>cmd_Status := status, cmd_Error := message, cmd_UpdatedAt := now, cmd_Outcome := outcomeForStatus status\<rparr>"
  have same: "same_identity c ?d" and key: "command_key ?d = command_key c"
    by (simp_all add: same_identity_def command_key_def)
  show ?thesis
  proof (cases "terminal status")
    case True
    let ?s = "(put_command i ?d t)\<lparr>tk_pending := gm_del (command_key c) (tk_pending t)\<rparr>"
    have "tracker_ok ?s" using True by (intro terminate_ok [OF tracker_invD [OF inv] c same]) simp_all
    then have "final_kept t (trim_history ?s)" by (rule final_kept_finish [OF _ _ c]) simp
    with c True show ?thesis by (simp add: transition_command_def Let_def key)
  next
    case False
    have "final_kept t (put_command i ?d t)" using c by (intro final_kept_put_command) simp
    with c False show ?thesis by (simp add: transition_command_def Let_def)
  qed
qed

lemma supersede_final:
  assumes inv: "tracker_inv t"
  shows "final_kept t (snd (snd (supersede now i message t)))"
proof (cases "\<exists>c. commands_of t i = Some c \<and> \<not> terminal (cmd_Status c)")
  case False
  then show ?thesis by (simp add: supersede_idle final_kept_def)
next
  case True
  then obtain c where c: "commands_of t i = Some c" "\<not> terminal (cmd_Status c)" by blast
  show ?thesis
    by (rule supersede_eq [OF tracker_invD [OF inv] c, of now message]) (simp add: final_kept_finish [OF _ _ c])
qed

lemma confirm_cases:
  assumes ok: "tracker_ok t"
  obtains (unchanged) "confirm_value now d e c p v t = (False, [], t)"
      "\<And>i x. gm_get (tk_pending t) (pendingKey d e c p) = Some i \<Longrightarrow> commands_of t i = Some x \<Longrightarrow> \<not> value_equal (cmd_Expected x) v"
    | (confirm) i x y s where "gm_get (tk_pending t) (pendingKey d e c p) = Some i" "commands_of t i = Some x"
      "\<not> terminal (cmd_Status x)" "value_equal (cmd_Expected x) v"
      "y = x\<lparr>cmd_Status := StatusConfirmed, cmd_Outcome := OutcomeSucceeded, cmd_UpdatedAt := now\<rparr>"
      "s = (put_command i y t)\<lparr>tk_pending := gm_del (pendingKey d e c p) (tk_pending t)\<rparr>" "tracker_ok s"
      "confirm_value now d e c p v t = (True, [y], trim_history s)"
proof (cases "\<exists>i. gm_get (tk_pending t) (pendingKey d e c p) = Some i \<and> value_equal (cmd_Expected (get_or_zero t i)) v")
  case False
  then show ?thesis
    by (intro unchanged) (auto simp: confirm_value_def Let_def get_or_zero_def split: option.split)
next
  case True
  then obtain i where i: "gm_get (tk_pending t) (pendingKey d e c p) = Some i"
      "value_equal (cmd_Expected (get_or_zero t i)) v" by blast
  obtain x where x: "commands_of t i = Some x" "get_or_zero t i = x" "\<not> terminal (cmd_Status x)"
      "cmd_Kind x = KindProperty" "command_key x = pendingKey d e c p"
    by (rule pending_command [OF ok i(1)])
  let ?y = "x\<lparr>cmd_Status := StatusConfirmed, cmd_Outcome := OutcomeSucceeded, cmd_UpdatedAt := now\<rparr>"
  have "tracker_ok ((put_command i ?y t)\<lparr>tk_pending := gm_del (command_key x) (tk_pending t)\<rparr>)"
    by (rule terminate_ok [OF ok x(1,3)]) (simp_all add: same_identity_def terminal_def)
  with i x show ?thesis
    by (intro confirm [of i x ?y]) (simp_all add: confirm_value_def Let_def)
qed

lemma confirm_final: "tracker_inv t \<Longrightarrow> final_kept t (snd (snd (confirm_value now d e c p v t)))"
proof -
  assume "tracker_inv t"
  then have ok: "tracker_ok t" by (rule tracker_invD)
  then show ?thesis
  proof (cases rule: confirm_cases [where now = now and d = d and e = e and c = c and p = p and v = v])
    case unchanged
    then show ?thesis by (simp add: final_kept_def)
  next
    case (confirm i x y s)
    have "final_kept t (trim_history s)" by (rule final_kept_finish [OF confirm(7) _ confirm(2,3), of y]) (simp add: confirm(6))
    with confirm(8) show ?thesis by simp
  qed
qed

lemma expire_sub:
  assumes "tracker_ok t" and "commands_of (snd (expire now t)) i = Some d"
  obtains c where "commands_of t i = Some c" "d = c \<and> expire_body now i c = None \<or> expire_body now i c = Some d"
proof -
  have "gm_get (fst (gm_sweep (expire_body now) (tk_commands t))) i = Some d"
    using trim_history_sub [OF expire_ok [OF assms(1), of now]] assms(2) by (simp add: expire_eq)
  then show thesis using that by (auto simp: gm_sweep_get split: option.splits)
qed

lemma expire_final: "tracker_inv t \<Longrightarrow> final_kept t (snd (expire now t))"
  unfolding final_kept_def
proof (intro allI impI)
  fix i c d
  assume inv: "tracker_inv t" and c: "commands_of t i = Some c" "terminal (cmd_Status c)" "commands_of (snd (expire now t)) i = Some d"
  obtain c' where "commands_of t i = Some c'" "d = c' \<and> expire_body now i c' = None \<or> expire_body now i c' = Some d"
    by (rule expire_sub [OF tracker_invD [OF inv] c(3)])
  with c show "cmd_Status d = cmd_Status c \<and> cmd_Outcome d = cmd_Outcome c" by (auto simp: expire_body_def)
qed

lemma limit_final: "tracker_inv t \<Longrightarrow> final_kept t (setMaxItems limit t)"
proof -
  assume "tracker_inv t"
  then have "tracker_ok (t\<lparr>tk_maxItems := (if limit < 1 then 1 else limit)\<rparr>)" by (simp add: tracker_inv_def tracker_ok_def)
  from trim_history_sub [OF this] show ?thesis unfolding setMaxItems_def by (intro final_kept_refl) simp
qed

text \<open>
  C12. Finished is final. No operation changes the status or the outcome of a confirmed,
  rejected, timed-out or superseded command that stays in the history.
\<close>

theorem terminal_is_final:
  assumes "reachable tracker_init tracker_step t" and "tracker_step t t'"
    and "commands_of t i = Some c" and "terminal (cmd_Status c)" and "commands_of t' i = Some c'"
  shows "cmd_Status c' = cmd_Status c \<and> cmd_Outcome c' = cmd_Outcome c"
proof -
  have inv: "tracker_inv t" by (rule tracker_sys.reachable_inv [OF assms(1)])
  from assms(2) have "final_kept t t'"
  proof cases
    case (step_timeout timeout)
    then show ?thesis by (simp add: final_kept_def setTimeout_def)
  qed (use inv in \<open>simp_all add: begin_final action_final addCoalesced_final supersede_final transition_final
      confirm_final expire_final limit_final\<close>)
  then show ?thesis using assms(3-5) unfolding final_kept_def by blast
qed

section \<open>Functional behaviour\<close>

text \<open>
  Coalescing and superseding. A request for a property with an equal pending value is counted
  on the pending command and creates nothing; a request with another value supersedes the
  pending command; in both other cases the new command is queued and becomes the pending one.
\<close>

theorem begin_property_effect:
  assumes "reachable tracker_init tracker_step t" and "commands_of t newID = None"
    and "beginPropertyCorrelated now newID d e c p v r t = ((x, replaced, merged), notified, t')"
  shows "(merged \<longleftrightarrow> (\<exists>i y. gm_get (tk_pending t) (pendingKey d e c p) = Some i \<and> commands_of t i = Some y \<and>
       value_equal (cmd_Expected y) v)) \<and>
    (merged \<longrightarrow> gm_get (tk_pending t) (pendingKey d e c p) = Some (cmd_ID x) \<and> tk_pending t' = tk_pending t \<and>
       commands_of t' (cmd_ID x) = Some x \<and> commands_of t' newID = None \<and>
       (\<exists>y. commands_of t (cmd_ID x) = Some y \<and> cmd_Coalesced x = cmd_Coalesced y + 1)) \<and>
    (\<not> merged \<longrightarrow> cmd_ID x = newID \<and> cmd_Status x = StatusQueued \<and> commands_of t' newID = Some x \<and>
       gm_get (tk_pending t') (pendingKey d e c p) = Some newID \<and>
       (case replaced of
          None \<Rightarrow> gm_get (tk_pending t) (pendingKey d e c p) = None
        | Some y \<Rightarrow> gm_get (tk_pending t) (pendingKey d e c p) = Some (cmd_ID y) \<and>
            cmd_Status y = StatusSuperseded \<and> commands_of t' (cmd_ID y) = Some y))"
proof -
  note ok = tracker_invD [OF tracker_sys.reachable_inv [OF assms(1)]]
  have id: "commands_of t i = Some y \<Longrightarrow> cmd_ID y = i" for i y
    using tracker_okD(3) [OF ok] by (simp add: command_ok_def)
  have fresh_id: "commands_of (pruneLocked t) newID = None"
    using prune_facts(4) [OF ok, of newID] assms(2) by (metis option.distinct(1) option.exhaust)
  from ok show ?thesis
  proof (cases rule: beginProperty_cases [where now = now and newID = newID and d = d and e = e and c = c and p = p and v = v and r = r])
    case fresh
    with assms(3) show ?thesis by (auto simp: insert_pending_def get_gm_put)
  next
    case (coalesce i y)
    have "i \<noteq> newID" using coalesce(2) assms(2) by auto
    with coalesce assms(3) id [OF coalesce(2)] fresh_id show ?thesis
      by (auto simp: Let_def get_gm_put prune_facts(2) [OF ok])
  next
    case (replace i y)
    have "i \<noteq> newID" using replace(2) assms(2) by auto
    moreover have "cmd_ID (superseded_command now m y) = i" "cmd_Status (superseded_command now m y) = StatusSuperseded" for m
      using id [OF replace(2)] by (simp_all add: superseded_command_def)
    ultimately show ?thesis using replace assms(3) by (auto simp: Let_def insert_pending_def get_gm_put)
  qed
qed

lemma parameterMapsEqual_refl:
  assumes "gm_ok ps" and "\<And>k v. (k, v) \<in> set ps \<Longrightarrow> comparable v"
  shows "parameterMapsEqual ps ps"
  using assms by (auto simp: parameterMapsEqual_def list_all_iff gm_in_set_get value_eq.eq_refl)

text \<open>
  Idempotent actions. Once an action was begun under an idempotency key, a repetition with
  equal parameters returns the same command and one with different parameters fails with a
  conflict; neither creates a command, notifies anyone or changes the tracker.
\<close>

theorem action_idempotent:
  assumes "reachable tracker_init tracker_step t" and "k \<noteq> []" and "newID \<noteq> []" and "commands_of t newID = None"
    and "beginActionIdempotentCorrelated now newID d e c a ps k r t = (Inr (x, False), notified, t1)"
  shows "beginActionIdempotentCorrelated now' newID' d e c a ps' k r' t1 =
    (if parameterMapsEqual ps ps' then Inr (x, True) else Inl ErrIdempotencyConflict, [], t1)"
proof -
  note ok = tracker_invD [OF tracker_sys.reachable_inv [OF assms(1)]]
  let ?new = "new_action_command now newID t d e c a ps k r"
  have none: "gm_get (tk_idempotency t) (actionIdempotencyScope d e c a k) = None"
  proof (rule ccontr)
    assume "gm_get (tk_idempotency t) (actionIdempotencyScope d e c a k) \<noteq> None"
    then obtain i where "gm_get (tk_idempotency t) (actionIdempotencyScope d e c a k) = Some i" by auto
    with assms(2,5) show False by (auto simp: beginActionIdempotentCorrelated_def Let_def split: if_splits)
  qed
  then have x: "x = ?new" and t1: "t1 = insert_action ?new (pruneLocked t)"
    using assms(2,5) by (auto simp: beginActionIdempotentCorrelated_def Let_def)
  have "gm_get (tk_idempotency t1) (actionIdempotencyScope d e c a k) = Some newID"
    unfolding t1 insert_action_sel using assms(2) by simp
  moreover have "get_or_zero t1 newID = x" unfolding t1 x get_or_zero_def insert_action_sel by simp
  moreover have "cmd_Parameters x = ps" by (simp add: x)
  ultimately show ?thesis using assms(2) by (simp add: beginActionIdempotentCorrelated_def Let_def)
qed

text \<open>
  Confirmation by report. A report confirms the pending command of its property exactly when
  it carries the expected value; the command then is confirmed, leaves the pending index, and
  every other unfinished command stays; otherwise nothing changes.
\<close>

theorem confirm_by_report:
  assumes "reachable tracker_init tracker_step t" and "confirm_value now d e c p v t = (done, notified, t')"
  shows "(done \<longleftrightarrow> (\<exists>i x. gm_get (tk_pending t) (pendingKey d e c p) = Some i \<and> commands_of t i = Some x \<and>
       value_equal (cmd_Expected x) v)) \<and>
    (\<not> done \<longrightarrow> t' = t \<and> notified = []) \<and>
    (done \<longrightarrow> gm_get (tk_pending t') (pendingKey d e c p) = None \<and>
       (\<exists>y. notified = [y] \<and> cmd_Status y = StatusConfirmed \<and> cmd_Outcome y = OutcomeSucceeded \<and>
          gm_get (tk_pending t) (pendingKey d e c p) = Some (cmd_ID y) \<and>
          (\<forall>j z. commands_of t j = Some z \<longrightarrow> \<not> terminal (cmd_Status z) \<longrightarrow> j \<noteq> cmd_ID y \<longrightarrow> commands_of t' j = Some z)))"
proof -
  note ok = tracker_invD [OF tracker_sys.reachable_inv [OF assms(1)]]
  from ok show ?thesis
  proof (cases rule: confirm_cases [where now = now and d = d and e = e and c = c and p = p and v = v])
    case unchanged
    with assms(2) show ?thesis by auto
  next
    case (confirm i x y s)
    have res: "done" "notified = [y]" "t' = trim_history s" using confirm(8) assms(2) by simp_all
    have id: "cmd_ID y = i" using tracker_okD(3) [OF ok confirm(2)] by (simp add: confirm(5) command_ok_def)
    have "gm_get (tk_pending t') (pendingKey d e c p) = None"
      unfolding res trim_history_facts(1) [OF confirm(7)] by (simp add: confirm(6) get_gm_del)
    moreover have "commands_of t' j = Some z" if "commands_of t j = Some z" "\<not> terminal (cmd_Status z)" "j \<noteq> i" for j z
      unfolding res using that by (intro trim_history_facts(4) [OF confirm(7)]) (simp_all add: confirm(6) get_gm_put)
    ultimately show ?thesis using res id confirm(1,2,4) by (auto simp: confirm(5))
  qed
qed

text \<open>
  Deadlines. After \<open>Expire\<close> at a given time every unfinished command has its deadline ahead;
  the commands reported as expired are exactly the overdue ones, now timed out with an unknown
  outcome, and an unfinished command that is not overdue is untouched.
\<close>

theorem expire_deadlines:
  assumes "reachable tracker_init tracker_step t" and "expire now t = (expired, t')"
  shows "(\<forall>i x. commands_of t' i = Some x \<longrightarrow> terminal (cmd_Status x) \<or> now < cmd_Deadline x) \<and>
    (\<forall>y. y \<in> set expired \<longleftrightarrow> (\<exists>i x. commands_of t i = Some x \<and> \<not> terminal (cmd_Status x) \<and> cmd_Deadline x \<le> now \<and>
       y = x\<lparr>cmd_Status := StatusTimeout, cmd_Outcome := OutcomeUnknown, cmd_UpdatedAt := now\<rparr>)) \<and>
    (\<forall>i x. commands_of t i = Some x \<longrightarrow> \<not> terminal (cmd_Status x) \<longrightarrow> now < cmd_Deadline x \<longrightarrow> commands_of t' i = Some x)"
proof -
  note ok = tracker_invD [OF tracker_sys.reachable_inv [OF assms(1)]]
  have t': "t' = snd (expire now t)" using assms(2) by simp
  have "expired = fst (expire now t)" using assms(2) by simp
  then have ex: "expired = snd (gm_sweep (expire_body now) (tk_commands t))" by (simp add: expire_eq)
  have "terminal (cmd_Status x) \<or> now < cmd_Deadline x" if x: "commands_of t' i = Some x" for i x
  proof -
    obtain y where "commands_of t i = Some y" "x = y \<and> expire_body now i y = None \<or> expire_body now i y = Some x"
      by (rule expire_sub [OF ok x [unfolded t']])
    then show ?thesis by (auto simp: expire_body_def terminal_def split: if_splits)
  qed
  moreover have "y \<in> set expired \<longleftrightarrow> (\<exists>i x. commands_of t i = Some x \<and> \<not> terminal (cmd_Status x) \<and> cmd_Deadline x \<le> now \<and>
      y = x\<lparr>cmd_Status := StatusTimeout, cmd_Outcome := OutcomeUnknown, cmd_UpdatedAt := now\<rparr>)" for y
    unfolding ex gm_sweep_changed
    using tracker_okD(1) [OF ok] by (auto simp: expire_body_def map_of_eq_Some_iff not_less)
  moreover have "commands_of t' i = Some x" if "commands_of t i = Some x" "\<not> terminal (cmd_Status x)" "now < cmd_Deadline x" for i x
    unfolding t' expire_eq snd_conv using that
    by (intro trim_history_facts(4) [OF expire_ok [OF ok]]) (simp_all add: gm_sweep_get expire_body_def)
  ultimately show ?thesis by blast
qed

section \<open>Concrete runs\<close>

definition tracker1 :: tracker where
  "tracker1 = snd (snd (beginPropertyCorrelated 10 ''c1'' ''lamp'' ''main'' ''switch'' ''on'' (BoolValue True) [] (newTracker 5)))"

lemma newTracker_reachable: "reachable tracker_init tracker_step (newTracker 5)"
  by (rule reach_init) (auto simp: tracker_init_def)

lemma tracker1_reachable: "reachable tracker_init tracker_step tracker1"
  unfolding tracker1_def
  by (rule reach_step [OF newTracker_reachable], rule step_begin)
    (simp_all add: newTracker_def ValidStableID_def id_edge_def in_range_def)

lemma trim_small: "int (length (tk_commands t)) \<le> limit \<Longrightarrow> trim_commands limit t = t"
  by (simp add: trim_commands.simps [of limit t])

lemma tracker1_eq:
  "tracker1 = \<lparr>tk_timeout = 5, tk_commands = [(''c1'', new_property_command 10 ''c1'' (newTracker 5) ''lamp'' ''main'' ''switch'' ''on'' (BoolValue True) [])],
     tk_pending = [(pendingKey ''lamp'' ''main'' ''switch'' ''on'', ''c1'')], tk_idempotency = [], tk_maxItems = 1000\<rparr>"
  by (simp add: tracker1_def beginPropertyCorrelated_def newTracker_def pruneLocked_def trim_small Let_def
      insert_pending_def put_command_def)

lemma tracker1_confirms:
  "\<exists>x. gm_get (tk_pending tracker1) (pendingKey ''lamp'' ''main'' ''switch'' ''on'') = Some ''c1'' \<and>
     commands_of tracker1 ''c1'' = Some x \<and> value_equal (cmd_Expected x) (BoolValue True)"
  by (simp add: tracker1_eq) (simp add: value_equal_def BoolValue_def)

theorem tracker_consistent_witness:
  "gm_get (tk_pending tracker1) (pendingKey ''lamp'' ''main'' ''switch'' ''on'') = Some ''c1'' \<longleftrightarrow>
     (\<exists>c. commands_of tracker1 ''c1'' = Some c \<and> outstanding c \<and> command_key c = pendingKey ''lamp'' ''main'' ''switch'' ''on'')"
  using tracker_consistent [OF tracker1_reachable] by blast

theorem terminal_is_final_witness:
  "\<exists>c'. commands_of (setTimeout 9 (snd (snd (supersede 11 ''c1'' ''m'' tracker1)))) ''c1'' = Some c' \<and>
     cmd_Status c' = StatusSuperseded"
proof -
  let ?t = "snd (snd (supersede 11 ''c1'' ''m'' tracker1))"
  have r: "reachable tracker_init tracker_step ?t"
    by (rule reach_step [OF tracker1_reachable], rule step_supersede)
  have "\<exists>c. commands_of ?t ''c1'' = Some c \<and> cmd_Status c = StatusSuperseded"
    by (simp add: supersede_def tracker1_eq Let_def trim_history_def trim_small put_command_def new_property_command_def
        superseded_command_def terminal_def)
  then obtain c where c: "commands_of ?t ''c1'' = Some c" "cmd_Status c = StatusSuperseded" by blast
  then have ter: "terminal (cmd_Status c)" by (simp add: terminal_def)
  have c': "commands_of (setTimeout 9 ?t) ''c1'' = Some c" using c by (simp add: setTimeout_def)
  from terminal_is_final [OF r step_timeout [of ?t 9] c(1) ter c'] c c' show ?thesis by simp
qed

theorem begin_property_effect_witness:
  "snd (snd (fst (beginPropertyCorrelated 11 ''c2'' ''lamp'' ''main'' ''switch'' ''on'' (BoolValue True) [] tracker1)))"
proof -
  obtain x replaced merged notified t' where b:
    "beginPropertyCorrelated 11 ''c2'' ''lamp'' ''main'' ''switch'' ''on'' (BoolValue True) [] tracker1 =
       ((x, replaced, merged), notified, t')" by (metis prod_cases3 prod.collapse)
  have "commands_of tracker1 ''c2'' = None" by (simp add: tracker1_eq)
  from begin_property_effect [OF tracker1_reachable this b] tracker1_confirms have "merged" by blast
  then show ?thesis by (simp add: b)
qed

theorem action_idempotent_witness:
  "fst (beginActionIdempotentCorrelated 12 ''a2'' ''lamp'' ''main'' ''switch'' ''toggle'' [] ''k'' []
     (snd (snd (beginActionIdempotentCorrelated 11 ''a1'' ''lamp'' ''main'' ''switch'' ''toggle'' [] ''k'' [] (newTracker 5))))) =
   Inr (new_action_command 11 ''a1'' (newTracker 5) ''lamp'' ''main'' ''switch'' ''toggle'' [] ''k'' [], True)"
proof -
  let ?n = "new_action_command 11 ''a1'' (newTracker 5) ''lamp'' ''main'' ''switch'' ''toggle'' [] ''k'' []"
  have b: "beginActionIdempotentCorrelated 11 ''a1'' ''lamp'' ''main'' ''switch'' ''toggle'' [] ''k'' [] (newTracker 5) =
      (Inr (?n, False), [?n], insert_action ?n (pruneLocked (newTracker 5)))"
    by (simp add: beginActionIdempotentCorrelated_def Let_def) (simp add: newTracker_def)
  have none: "commands_of (newTracker 5) ''a1'' = None" by (simp add: newTracker_def)
  have "parameterMapsEqual [] []" by (simp add: parameterMapsEqual_def)
  with action_idempotent [OF newTracker_reachable _ _ none b, of 12 "''a2''" "[]" "[]"] b show ?thesis by simp
qed

theorem confirm_by_report_witness:
  "fst (confirm_value 12 ''lamp'' ''main'' ''switch'' ''on'' (BoolValue True) tracker1)"
proof -
  obtain ok n t' where b: "confirm_value 12 ''lamp'' ''main'' ''switch'' ''on'' (BoolValue True) tracker1 = (ok, n, t')"
    by (metis prod_cases3)
  from confirm_by_report [OF tracker1_reachable b] tracker1_confirms b show ?thesis by auto
qed

theorem expire_deadlines_witness: "\<exists>y. y \<in> set (fst (expire 20 tracker1)) \<and> cmd_Status y = StatusTimeout"
proof -
  have c: "commands_of tracker1 ''c1'' = Some (new_property_command 10 ''c1'' (newTracker 5) ''lamp'' ''main'' ''switch'' ''on'' (BoolValue True) [])"
    (is "_ = Some ?c") by (simp add: tracker1_eq)
  have "\<not> terminal (cmd_Status ?c)" "cmd_Deadline ?c \<le> 20"
    by (simp_all add: new_property_command_def terminal_def newTracker_def)
  with c have "?c\<lparr>cmd_Status := StatusTimeout, cmd_Outcome := OutcomeUnknown, cmd_UpdatedAt := 20\<rparr> \<in> set (fst (expire 20 tracker1))"
    using expire_deadlines [OF tracker1_reachable prod.collapse [symmetric], of 20] by blast
  moreover have "cmd_Status (x\<lparr>cmd_Status := StatusTimeout, cmd_Outcome := OutcomeUnknown, cmd_UpdatedAt := 20\<rparr>) = StatusTimeout" for x
    by simp
  ultimately show ?thesis by blast
qed

end
