(* ===== verification/Mapping_Profile.thy ===== *)
theory Mapping_Profile
  imports Device_Model Strconv
begin

text \<open>
  Mapping profiles, \<open>internal/mapping/profile.go\<close>: the pipelines of transforms that convert the
  value of a provider's property into the value of the unified model and back, and their
  validation.

  The validators of the source write messages into a map \<open>fields\<close>. Each is modelled by the
  list of its assignments, in order; the map is built from the whole list, and the profile is
  valid exactly when nothing was assigned.
\<close>

section \<open>Profiles\<close>

datatype profile_kind = KindProvider | KindCapabilityProfile | KindTarget | ProfileKindOther string

datatype transform_type = TransformInvert | TransformReciprocal | TransformIntNumber | TransformScale
  | TransformClamp | TransformEnum | TransformUnit | TransformRangeEnum | TransformEnumNumber
  | TransformThreshold | TransformBoolNumber | TransformBoolEnum | TransformEnumBool | TransformMapRange
  | TransformRound | TransformParseNumber | TransformNumberString | TransformOther string

datatype direction = DirectionForward | DirectionReverse | DirectionOther string

record range_band =
  band_Max :: "float64 option"
  band_Value :: string
  band_Reverse :: float64

record transform =
  tf_Type :: transform_type
  tf_Factor :: "float64 option"
  tf_Offset :: "float64 option"
  tf_Min :: "float64 option"
  tf_Max :: "float64 option"
  tf_Values :: "(string, string) gomap"
  tf_ReverseValues :: "(string, string) gomap"
  tf_FromUnit :: string
  tf_ToUnit :: string
  tf_Bands :: "range_band list"
  tf_Threshold :: "float64 option"
  tf_Operator :: string
  tf_TrueNumber :: "float64 option"
  tf_FalseNumber :: "float64 option"
  tf_TrueValue :: string
  tf_FalseValue :: string
  tf_InputMin :: "float64 option"
  tf_InputMax :: "float64 option"
  tf_OutputMin :: "float64 option"
  tf_OutputMax :: "float64 option"
  tf_Mode :: string

record profile =
  pf_SchemaVersion :: int
  pf_ID :: string
  pf_Identifier :: string
  pf_Version :: int
  pf_Kind :: profile_kind
  pf_InputType :: value_type
  pf_OutputType :: value_type
  pf_Default :: "property_value option"
  pf_Transforms :: "transform list"

definition MappingSchemaVersion :: int where
  "MappingSchemaVersion = 1"

section \<open>Values\<close>

datatype value_fault = VF_Type value_type value_type | VF_SinglePayload | VF_BoolMissing | VF_IntMissing
  | VF_NumberFinite | VF_StringMissing | VF_Unsupported value_type

definition validateValue :: "property_value \<Rightarrow> value_type \<Rightarrow> value_fault option" where
  "validateValue value expected =
     (if pv_Type value \<noteq> expected then Some (VF_Type (pv_Type value) expected)
      else if \<not> hasSinglePayload value then Some VF_SinglePayload
      else case pv_Type value of
             ValueTypeBool \<Rightarrow> (if pv_Bool value = None then Some VF_BoolMissing else None)
           | ValueTypeInt \<Rightarrow> (if pv_Int value = None then Some VF_IntMissing else None)
           | ValueTypeNumber \<Rightarrow>
               (case pv_Number value of
                  None \<Rightarrow> Some VF_NumberFinite
                | Some x \<Rightarrow> if f64_is_nan x \<or> f64_is_inf x then Some VF_NumberFinite else None)
           | ValueTypeString \<Rightarrow> (if pv_String value = None then Some VF_StringMissing else None)
           | ValueTypeEnum \<Rightarrow> (if pv_String value = None then Some VF_StringMissing else None)
           | ValueTypeOther t \<Rightarrow> Some (VF_Unsupported (ValueTypeOther t)))"

section \<open>Assignments to the fields of a validation error\<close>

datatype definition_fault = DF_StaleAfter | DF_EnumRequired | DF_UnsupportedType value_type | DF_Property property_error

datatype message = Message string | FaultMessage value_fault | DefinitionMessage definition_fault

type_synonym assignments = "(string \<times> message) list"

definition assign_if :: "bool \<Rightarrow> string \<Rightarrow> string \<Rightarrow> assignments" where
  "assign_if c key text = (if c then [(key, Message text)] else [])"

text \<open>The map of the fields; the error is nil when nothing was assigned.\<close>

definition fields_of :: "assignments \<Rightarrow> (string, message) gomap" where
  "fields_of as = fold (\<lambda>(key, message) fields. gm_put key message fields) as []"

lemma fields_of_nil [simp]: "fields_of as = [] \<longleftrightarrow> as = []"
proof -
  have put: "gm_put k v m \<noteq> []" for k v and m :: "(string, message) gomap" by (cases m) auto
  have grow: "m \<noteq> [] \<Longrightarrow> fold (\<lambda>(key, message) fields. gm_put key message fields) as m \<noteq> []"
    for as and m :: "(string, message) gomap"
  proof (induction as arbitrary: m)
    case (Cons a as)
    show ?case using Cons.IH [OF put [of "fst a" "snd a" m]] by (simp add: case_prod_beta)
  qed simp
  show ?thesis
  proof (cases as)
    case (Cons a as')
    show ?thesis using grow [OF put [of "fst a" "snd a" "[]"]] by (simp add: fields_of_def Cons case_prod_beta)
  qed (simp add: fields_of_def)
qed

lemma assign_if_nil [simp]: "assign_if c k m = [] \<longleftrightarrow> \<not> c"
  by (simp add: assign_if_def)

section \<open>Units\<close>

definition unitFormula :: "string \<Rightarrow> string \<Rightarrow> (float64 \<times> float64) option" where
  "unitFormula from to =
     (if from = to \<and> from \<noteq> [] then Some (f64_lit 1, f64_lit 0)
      else if from @ '':'' @ to = ''celsius:fahrenheit'' then Some (f64_lit (18 / 10), f64_lit 32)
      else if from @ '':'' @ to = ''fahrenheit:celsius'' then Some (f64_lit (5 / 9), f64_lit (- 32 * 5 / 9))
      else if from @ '':'' @ to = ''celsius:kelvin'' then Some (f64_lit 1, f64_lit (27315 / 100))
      else if from @ '':'' @ to = ''kelvin:celsius'' then Some (f64_lit 1, f64_lit (- 27315 / 100))
      else if from @ '':'' @ to = ''ratio:percent'' then Some (f64_lit 100, f64_lit 0)
      else if from @ '':'' @ to = ''percent:ratio'' then Some (f64_lit (1 / 100), f64_lit 0)
      else None)"

definition nonlinearUnitConversion :: "string \<Rightarrow> string \<Rightarrow> bool" where
  "nonlinearUnitConversion from to \<longleftrightarrow>
     (from = ''kelvin'' \<and> to = ''mired'') \<or> (from = ''mired'' \<and> to = ''kelvin'')"

definition unitConversionSupported :: "string \<Rightarrow> string \<Rightarrow> bool" where
  "unitConversionSupported from to \<longleftrightarrow> unitFormula from to \<noteq> None \<or> nonlinearUnitConversion from to"

section \<open>Validators of transforms\<close>

definition numericType :: "value_type \<Rightarrow> bool" where
  "numericType value \<longleftrightarrow> value = ValueTypeInt \<or> value = ValueTypeNumber"

definition float64Value :: "float64 option \<Rightarrow> float64 \<Rightarrow> float64" where
  "float64Value value fallback = (case value of None \<Rightarrow> fallback | Some x \<Rightarrow> x)"

definition finitePointer :: "float64 option \<Rightarrow> bool" where
  "finitePointer value = (case value of None \<Rightarrow> False | Some x \<Rightarrow> f64_finite x)"

definition thresholdMatches :: "float64 \<Rightarrow> float64 \<Rightarrow> string \<Rightarrow> bool" where
  "thresholdMatches value threshold operator =
     (if operator = ''gte'' then f64_le threshold value
      else if operator = ''gt'' then f64_lt threshold value
      else if operator = ''lte'' then f64_le value threshold
      else if operator = ''lt'' then f64_lt value threshold
      else False)"

definition validateThreshold :: "string \<Rightarrow> transform \<Rightarrow> assignments" where
  "validateThreshold path t =
     assign_if (\<not> finitePointer (tf_Threshold t)) (path @ ''.threshold'') ''must be a finite number'' @
     assign_if (tf_Operator t \<noteq> ''gte'' \<and> tf_Operator t \<noteq> ''gt'' \<and> tf_Operator t \<noteq> ''lte'' \<and> tf_Operator t \<noteq> ''lt'')
       (path @ ''.operator'') ''must be gte, gt, lte, or lt'' @
     assign_if (\<not> finitePointer (tf_TrueNumber t)) (path @ ''.trueNumber'') ''must be a finite reverse value'' @
     assign_if (\<not> finitePointer (tf_FalseNumber t)) (path @ ''.falseNumber'') ''must be a finite reverse value'' @
     (case (tf_Threshold t, tf_TrueNumber t, tf_FalseNumber t) of
        (Some threshold, Some trueNumber, Some falseNumber) \<Rightarrow>
          (if f64_finite threshold \<and> f64_finite trueNumber \<and> f64_finite falseNumber
           then assign_if (\<not> thresholdMatches trueNumber threshold (tf_Operator t)) (path @ ''.trueNumber'')
                  ''reverse value must evaluate to true'' @
                assign_if (thresholdMatches falseNumber threshold (tf_Operator t)) (path @ ''.falseNumber'')
                  ''reverse value must evaluate to false''
           else [])
      | _ \<Rightarrow> [])"

definition validateBooleanLabels :: "string \<Rightarrow> string \<Rightarrow> string \<Rightarrow> assignments" where
  "validateBooleanLabels path trueValue falseValue =
     (if trimSpace trueValue = [] \<or> trimSpace falseValue = []
      then [(path, Message ''trueValue and falseValue must not be empty'')]
      else if trueValue = falseValue then [(path, Message ''trueValue and falseValue must be different'')]
      else [])"

text \<open>One round of the loop of \<open>validateRangeBands\<close>, and the loop with what it carries.\<close>

definition band_checks :: "string \<Rightarrow> bool \<Rightarrow> string list \<Rightarrow> float64 option \<Rightarrow> range_band \<Rightarrow> assignments" where
  "band_checks bandPath final seen previousMax band =
     assign_if (trimSpace (band_Value band) = []) (bandPath @ ''.value'') ''must not be empty'' @
     assign_if (band_Value band \<in> set seen) (bandPath @ ''.value'') ''must be unique for reverse mapping'' @
     assign_if (\<not> f64_finite (band_Reverse band)) (bandPath @ ''.reverse'') ''must be finite'' @
     (case band_Max band of
        None \<Rightarrow> assign_if (\<not> final) (bandPath @ ''.max'') ''only the final band may omit max''
      | Some m \<Rightarrow>
          assign_if (\<not> f64_finite m) (bandPath @ ''.max'') ''must be finite'' @
          assign_if (case previousMax of None \<Rightarrow> False | Some p \<Rightarrow> f64_le m p) (bandPath @ ''.max'')
            ''must be greater than the previous max'') @
     assign_if (case previousMax of None \<Rightarrow> False | Some p \<Rightarrow> f64_le (band_Reverse band) p) (bandPath @ ''.reverse'')
       ''must be greater than the previous max'' @
     assign_if (case band_Max band of None \<Rightarrow> False | Some m \<Rightarrow> f64_lt m (band_Reverse band)) (bandPath @ ''.reverse'')
       ''must be within this band''"

fun check_bands :: "string \<Rightarrow> nat \<Rightarrow> string list \<Rightarrow> float64 option \<Rightarrow> range_band list \<Rightarrow> assignments" where
  "check_bands path index seen previousMax [] = []"
| "check_bands path index seen previousMax (band # bands) =
     band_checks (path @ ''.bands.'' @ show_nat index) (bands = []) seen previousMax band @
     check_bands path (index + 1) (band_Value band # seen)
       (case band_Max band of None \<Rightarrow> previousMax | Some m \<Rightarrow> Some m) bands"

definition validateRangeBands :: "string \<Rightarrow> range_band list \<Rightarrow> assignments" where
  "validateRangeBands path bands =
     (if length bands < 2 then [(path @ ''.bands'', Message ''must contain at least two ordered bands'')]
      else check_bands path 0 [] None bands @
        assign_if (band_Max (last bands) \<noteq> None) (path @ ''.bands'')
          ''final band must omit max to cover remaining values'')"

definition containsString :: "string list \<Rightarrow> string \<Rightarrow> bool" where
  "containsString items want = list_ex (\<lambda>item. item = want) items"

definition sources_of :: "(string, string) gomap \<Rightarrow> string \<Rightarrow> string list" where
  "sources_of values target = map fst (filter (\<lambda>(source, t). t = target) values)"

definition check_target :: "string \<Rightarrow> (string, string) gomap \<Rightarrow> (string, string) gomap \<Rightarrow> string \<Rightarrow> assignments" where
  "check_target path values reverseValues target =
     (let sources = sources_of values target; key = path @ ''.reverseValues.'' @ target
      in case gm_get reverseValues target of
           None \<Rightarrow> assign_if (length sources > 1) key ''required when multiple sources map to this target''
         | Some canonical \<Rightarrow>
             if canonical = [] then [(key, Message ''must not be empty'')]
             else assign_if (\<not> containsString sources canonical) key ''must be a source that maps to this target'')"

definition check_reverse :: "string \<Rightarrow> (string, string) gomap \<Rightarrow> string \<times> string \<Rightarrow> assignments" where
  "check_reverse path values entry =
     (let (target, source) = entry; sources = sources_of values target
      in if target = [] then [(path @ ''.reverseValues'', Message ''reverse targets must not be empty'')]
         else if gm_get values source = None
         then [(path @ ''.reverseValues.'' @ target, Message ''must be a source defined by values'')]
         else assign_if (sources \<noteq> [] \<and> \<not> containsString sources source) (path @ ''.reverseValues.'' @ target)
                ''must be a source that maps to this target'')"

definition validateEnumValues :: "string \<Rightarrow> (string, string) gomap \<Rightarrow> (string, string) gomap \<Rightarrow> assignments" where
  "validateEnumValues path values reverseValues =
     (if values = [] then [(path @ ''.values'', Message ''must not be empty'')]
      else if list_ex (\<lambda>(source, target). source = [] \<or> target = []) values
      then [(path @ ''.values'', Message ''source and target values must not be empty'')]
      else concat (map (check_target path values reverseValues) (remdups (map snd values))) @
        concat (map (check_reverse path values) reverseValues))"

definition non_finite :: "float64 option \<Rightarrow> bool" where
  "non_finite p = (case p of None \<Rightarrow> False | Some x \<Rightarrow> f64_is_nan x \<or> f64_is_inf x)"

section \<open>Validation of the pipeline\<close>

text \<open>The cases of the switch: the assignments, and the type after the transform.\<close>

definition transform_checks :: "string \<Rightarrow> value_type \<Rightarrow> transform \<Rightarrow> assignments" where
  "transform_checks path current t =
     (case tf_Type t of
        TransformInvert \<Rightarrow> assign_if (current \<noteq> ValueTypeBool) path ''invert requires bool input''
      | TransformReciprocal \<Rightarrow> assign_if (\<not> numericType current) path ''reciprocal requires int or number input''
      | TransformIntNumber \<Rightarrow> assign_if (current \<noteq> ValueTypeInt) path ''int-number requires int input''
      | TransformScale \<Rightarrow>
          (let factor = float64Value (tf_Factor t) (f64_lit 1); offset = float64Value (tf_Offset t) (f64_lit 0)
           in assign_if (\<not> numericType current) path ''scale requires int or number input'' @
              assign_if (f64_eq factor (F_Zero False) \<or> f64_is_nan factor \<or> f64_is_inf factor) (path @ ''.factor'')
                ''must be finite and non-zero'' @
              assign_if (f64_is_nan offset \<or> f64_is_inf offset) (path @ ''.offset'') ''must be finite'')
      | TransformClamp \<Rightarrow>
          assign_if (\<not> numericType current) path ''clamp requires int or number input'' @
          assign_if (tf_Min t = None \<and> tf_Max t = None) path ''clamp requires min or max'' @
          assign_if (both (\<lambda>mn mx. f64_lt mx mn) (tf_Min t) (tf_Max t)) path ''minimum exceeds maximum'' @
          assign_if (non_finite (tf_Min t)) (path @ ''.min'') ''must be finite'' @
          assign_if (non_finite (tf_Max t)) (path @ ''.max'') ''must be finite''
      | TransformEnum \<Rightarrow>
          assign_if (current \<noteq> ValueTypeEnum \<and> current \<noteq> ValueTypeString) path
            ''enum mapping requires enum or string input'' @
          validateEnumValues path (tf_Values t) (tf_ReverseValues t)
      | TransformUnit \<Rightarrow>
          assign_if (\<not> numericType current) path ''unit conversion requires int or number input'' @
          assign_if (\<not> unitConversionSupported (tf_FromUnit t) (tf_ToUnit t)) path ''unsupported unit conversion''
      | TransformRangeEnum \<Rightarrow>
          assign_if (\<not> numericType current) path ''range-enum requires int or number input'' @
          validateRangeBands path (tf_Bands t)
      | TransformEnumNumber \<Rightarrow>
          assign_if (current \<noteq> ValueTypeEnum \<and> current \<noteq> ValueTypeString) path
            ''enum-number requires enum or string input'' @
          validateRangeBands path (tf_Bands t)
      | TransformThreshold \<Rightarrow>
          assign_if (\<not> numericType current) path ''threshold requires int or number input'' @
          validateThreshold path t
      | TransformBoolNumber \<Rightarrow>
          assign_if (current \<noteq> ValueTypeBool) path ''bool-number requires bool input'' @
          validateThreshold path t
      | TransformBoolEnum \<Rightarrow>
          assign_if (current \<noteq> ValueTypeBool) path ''bool-enum requires bool input'' @
          validateBooleanLabels path (tf_TrueValue t) (tf_FalseValue t)
      | TransformEnumBool \<Rightarrow>
          assign_if (current \<noteq> ValueTypeEnum \<and> current \<noteq> ValueTypeString) path
            ''enum-bool requires enum or string input'' @
          validateBooleanLabels path (tf_TrueValue t) (tf_FalseValue t)
      | TransformMapRange \<Rightarrow>
          assign_if (\<not> numericType current) path ''map-range requires int or number input'' @
          concat (map (\<lambda>(name, value). assign_if (\<not> finitePointer value) (path @ ''.'' @ name) ''must be a finite number'')
            [(''inputMin'', tf_InputMin t), (''inputMax'', tf_InputMax t), (''outputMin'', tf_OutputMin t),
             (''outputMax'', tf_OutputMax t)]) @
          assign_if (both f64_eq (tf_InputMin t) (tf_InputMax t)) path ''input range must not be zero'' @
          assign_if (both f64_eq (tf_OutputMin t) (tf_OutputMax t)) path
            ''output range must not be zero for reverse mapping''
      | TransformRound \<Rightarrow>
          assign_if (\<not> numericType current) path ''round requires int or number input'' @
          assign_if (tf_Mode t \<noteq> ''nearest'' \<and> tf_Mode t \<noteq> ''floor'' \<and> tf_Mode t \<noteq> ''ceil'') (path @ ''.mode'')
            ''must be nearest, floor, or ceil''
      | TransformParseNumber \<Rightarrow> assign_if (current \<noteq> ValueTypeString) path ''parse-number requires string input''
      | TransformNumberString \<Rightarrow>
          assign_if (\<not> numericType current) path ''number-string requires int or number input''
      | TransformOther _ \<Rightarrow> [(path @ ''.type'', Message ''unsupported transform'')])"

definition transform_next :: "value_type \<Rightarrow> transform \<Rightarrow> value_type" where
  "transform_next current t =
     (case tf_Type t of
        TransformInvert \<Rightarrow> current
      | TransformReciprocal \<Rightarrow> ValueTypeNumber
      | TransformIntNumber \<Rightarrow> ValueTypeNumber
      | TransformScale \<Rightarrow> ValueTypeNumber
      | TransformClamp \<Rightarrow> ValueTypeNumber
      | TransformEnum \<Rightarrow> current
      | TransformUnit \<Rightarrow> ValueTypeNumber
      | TransformRangeEnum \<Rightarrow> ValueTypeEnum
      | TransformEnumNumber \<Rightarrow> ValueTypeNumber
      | TransformThreshold \<Rightarrow> ValueTypeBool
      | TransformBoolNumber \<Rightarrow> ValueTypeNumber
      | TransformBoolEnum \<Rightarrow> ValueTypeEnum
      | TransformEnumBool \<Rightarrow> ValueTypeBool
      | TransformMapRange \<Rightarrow> ValueTypeNumber
      | TransformRound \<Rightarrow> ValueTypeInt
      | TransformParseNumber \<Rightarrow> ValueTypeNumber
      | TransformNumberString \<Rightarrow> ValueTypeString
      | TransformOther _ \<Rightarrow> current)"

fun check_transforms :: "nat \<Rightarrow> value_type \<Rightarrow> transform list \<Rightarrow> assignments \<times> value_type" where
  "check_transforms index current [] = ([], current)"
| "check_transforms index current (t # ts) =
     (let path = ''profile.transforms.'' @ show_nat index;
          (rest, final) = check_transforms (index + 1) (transform_next current t) ts
      in (transform_checks path current t @ rest, final))"

fun value_type_name :: "value_type \<Rightarrow> string" where
  "value_type_name ValueTypeBool = ''bool''"
| "value_type_name ValueTypeInt = ''int''"
| "value_type_name ValueTypeNumber = ''number''"
| "value_type_name ValueTypeString = ''string''"
| "value_type_name ValueTypeEnum = ''enum''"
| "value_type_name (ValueTypeOther t) = t"

definition profile_assignments :: "profile \<Rightarrow> assignments" where
  "profile_assignments p =
     (let (pipeline, final) = check_transforms 0 (pf_InputType p) (pf_Transforms p)
      in assign_if (pf_SchemaVersion p \<noteq> MappingSchemaVersion) ''profile.schemaVersion'' ''must be 1'' @
         assign_if (\<not> ValidStableID (pf_ID p)) ''profile.id'' ''must be a stable lowercase identifier'' @
         assign_if (pf_Identifier p \<noteq> [] \<and> \<not> ValidStableID (pf_Identifier p)) ''profile.identifier''
           ''must be a stable lowercase identifier'' @
         assign_if (pf_Version p < 1) ''profile.version'' ''must be positive'' @
         assign_if (pf_Kind p \<noteq> KindProvider \<and> pf_Kind p \<noteq> KindCapabilityProfile \<and> pf_Kind p \<noteq> KindTarget)
           ''profile.kind'' ''must be provider, capability, or target'' @
         assign_if (\<not> validValueType (pf_InputType p)) ''profile.inputType'' ''unsupported value type'' @
         assign_if (\<not> validValueType (pf_OutputType p)) ''profile.outputType'' ''unsupported value type'' @
         (case pf_Default p of
            None \<Rightarrow> []
          | Some d \<Rightarrow>
              (case validateValue d (pf_InputType p) of None \<Rightarrow> [] | Some e \<Rightarrow> [(''profile.default'', FaultMessage e)])) @
         pipeline @
         assign_if (validValueType (pf_OutputType p) \<and> final \<noteq> pf_OutputType p) ''profile.outputType''
           (''pipeline produces '' @ value_type_name final))"

text \<open>\<open>Validate\<close>: the fields of the \<open>ValidationError\<close>; the error is nil when there are none.\<close>

definition validate_profile :: "profile \<Rightarrow> (string, message) gomap" where
  "validate_profile p = fields_of (profile_assignments p)"

definition transformOutputType :: "value_type \<Rightarrow> transform \<Rightarrow> value_type" where
  "transformOutputType input t =
     (if tf_Type t \<in> {TransformReciprocal, TransformIntNumber, TransformScale, TransformClamp, TransformUnit,
           TransformMapRange, TransformParseNumber, TransformEnumNumber, TransformBoolNumber} then ValueTypeNumber
      else if tf_Type t \<in> {TransformRangeEnum, TransformBoolEnum} then ValueTypeEnum
      else if tf_Type t \<in> {TransformThreshold, TransformEnumBool} then ValueTypeBool
      else if tf_Type t = TransformRound then ValueTypeInt
      else if tf_Type t = TransformNumberString then ValueTypeString
      else input)"

section \<open>Lemmas\<close>

lemma validate_profile_nil: "validate_profile p = [] \<longleftrightarrow> profile_assignments p = []"
  by (simp add: validate_profile_def)

lemma transform_next_eq: "transform_next current t = transformOutputType current t"
  by (cases "tf_Type t") (simp_all add: transform_next_def transformOutputType_def)

text \<open>The types between the transforms, as \<open>Preview\<close> computes them for the reverse direction.\<close>

fun pipeline_types :: "value_type \<Rightarrow> transform list \<Rightarrow> value_type list" where
  "pipeline_types input [] = [input]"
| "pipeline_types input (t # ts) = input # pipeline_types (transformOutputType input t) ts"

lemma check_transforms_final: "snd (check_transforms i current ts) = last (pipeline_types current ts)"
proof (induction ts arbitrary: i current)
  case Nil
  show ?case by simp
next
  case (Cons t ts)
  have "pipeline_types x ts \<noteq> []" for x by (cases ts) simp_all
  with Cons show ?case by (simp add: case_prod_beta Let_def transform_next_eq)
qed

end
