(* ===== verification/Mapping_Engine.thy ===== *)
theory Mapping_Engine
  imports Mapping_Profile
begin

text \<open>
  The mapping engine, \<open>internal/mapping/engine.go\<close>: the forward and the reverse application
  of a transform and \<open>Preview\<close>, which runs a whole pipeline.

  A dereference of a nil pointer panics in the source; it is the outcome \<open>Panic\<close> here, so that
  the absence of panics is a theorem. A multiplication and an addition are rounded separately,
  as on amd64. An error carries the data its message is formatted from.
\<close>

declare map_of_eq_Some_iff [simp del] Some_eq_map_of_iff [simp del]

section \<open>Outcomes\<close>

datatype ('e, 'a) go = Done 'a | Raise 'e | Panic

definition go_bind :: "('e, 'a) go \<Rightarrow> ('a \<Rightarrow> ('e, 'b) go) \<Rightarrow> ('e, 'b) go" where
  "go_bind m f = (case m of Done x \<Rightarrow> f x | Raise e \<Rightarrow> Raise e | Panic \<Rightarrow> Panic)"

definition deref :: "'a option \<Rightarrow> ('e, 'a) go" where
  "deref p = (case p of None \<Rightarrow> Panic | Some x \<Rightarrow> Done x)"

lemma go_bind_simps [simp]:
  "go_bind (Done x) f = f x" "go_bind (Raise e) f = Raise e" "go_bind Panic f = Panic"
  by (simp_all add: go_bind_def)

lemma deref_simps [simp]: "deref (Some x) = Done x" "deref None = Panic"
  by (simp_all add: deref_def)

datatype apply_error = AE_NotFinite | AE_ReciprocalOfZero | AE_IntNotExact int | AE_NumberNotInt float64
  | AE_NotReversible | AE_NoMapping string | AE_NoRangeBand float64 | AE_NoNumericMapping string
  | AE_NeitherLabel string | AE_OutsideInt64 | AE_ParseNumber string | AE_NotInt64 string
  | AE_AmbiguousReverse string | AE_NoReverseMapping string | AE_NoReverseRange string
  | AE_NoReverseBand float64 | AE_NotPositive string | AE_UnsupportedUnit string string
  | AE_UnsupportedTransform transform_type

section \<open>Values\<close>

definition maxSafeInteger :: int where
  "maxSafeInteger = 2 ^ 53 - 1"

definition numericValue :: "property_value \<Rightarrow> ('e, float64) go" where
  "numericValue value = (case pv_Int value of Some i \<Rightarrow> Done (f64_of_int i) | None \<Rightarrow> deref (pv_Number value))"

definition finiteNumber :: "float64 \<Rightarrow> (apply_error, property_value) go" where
  "finiteNumber value = (if f64_is_nan value \<or> f64_is_inf value then Raise AE_NotFinite else Done (NumberValue value))"

definition stringValueForType :: "string \<Rightarrow> value_type \<Rightarrow> property_value" where
  "stringValueForType value kind = (if kind = ValueTypeEnum then EnumValue value else StringValue value)"

definition cloneValue :: "property_value \<Rightarrow> property_value" where
  "cloneValue value =
     (case pv_Type value of
        ValueTypeBool \<Rightarrow> (case pv_Bool value of Some b \<Rightarrow> BoolValue b | None \<Rightarrow> value)
      | ValueTypeInt \<Rightarrow> (case pv_Int value of Some i \<Rightarrow> IntValue i | None \<Rightarrow> value)
      | ValueTypeNumber \<Rightarrow> (case pv_Number value of Some x \<Rightarrow> NumberValue x | None \<Rightarrow> value)
      | ValueTypeString \<Rightarrow> (case pv_String value of Some s \<Rightarrow> StringValue s | None \<Rightarrow> value)
      | ValueTypeEnum \<Rightarrow> (case pv_String value of Some s \<Rightarrow> EnumValue s | None \<Rightarrow> value)
      | ValueTypeOther _ \<Rightarrow> value)"

definition reciprocalValue :: "property_value \<Rightarrow> (apply_error, property_value) go" where
  "reciprocalValue value =
     go_bind (numericValue value) (\<lambda>number.
       if f64_eq number (F_Zero False) then Raise AE_ReciprocalOfZero
       else finiteNumber (f64_div (f64_lit 1) number))"

definition convertUnitValue :: "string \<Rightarrow> string \<Rightarrow> float64 \<Rightarrow> (apply_error, property_value) go" where
  "convertUnitValue from to value =
     (if nonlinearUnitConversion from to
      then if f64_le value (F_Zero False) then Raise (AE_NotPositive from)
           else finiteNumber (f64_div (f64_lit 1000000) value)
      else case unitFormula from to of
             None \<Rightarrow> Raise (AE_UnsupportedUnit from to)
           | Some (factor, offset) \<Rightarrow> finiteNumber (f64_add (f64_mul value factor) offset))"

text \<open>
  The switch on \<open>Mode\<close>, and the test \<open>number < math.MinInt64 || number > math.MaxInt64\<close>: its
  constants are converted to \<open>float64\<close>, the second one to \<open>2\<^sup>6\<^sup>3\<close>.
\<close>

definition round_mode :: "string \<Rightarrow> float64 \<Rightarrow> float64" where
  "round_mode mode number =
     (if mode = ''floor'' then f64_floor number
      else if mode = ''ceil'' then f64_ceil number
      else f64_math_round number)"

definition outside_int64 :: "float64 \<Rightarrow> bool" where
  "outside_int64 number \<longleftrightarrow> f64_lt number (f64_of_int min_int64) \<or> f64_lt (f64_of_int max_int64) number"

definition is_integral :: "float64 \<Rightarrow> bool" where
  "is_integral number \<longleftrightarrow> f64_eq (f64_trunc number) number"

section \<open>Applying a transform\<close>

fun band_for_number :: "range_band list \<Rightarrow> float64 \<Rightarrow> string option" where
  "band_for_number [] number = None"
| "band_for_number (band # bands) number =
     (if (case band_Max band of None \<Rightarrow> True | Some m \<Rightarrow> f64_le number m) then Some (band_Value band)
      else band_for_number bands number)"

fun band_for_value :: "range_band list \<Rightarrow> string \<Rightarrow> float64 option" where
  "band_for_value [] s = None"
| "band_for_value (band # bands) s = (if band_Value band = s then Some (band_Reverse band) else band_for_value bands s)"

definition map_linear :: "float64 \<Rightarrow> float64 \<Rightarrow> float64 \<Rightarrow> float64 \<Rightarrow> float64 \<Rightarrow> float64" where
  "map_linear x fromMin fromMax toMin toMax =
     f64_add toMin (f64_div (f64_mul (f64_sub x fromMin) (f64_sub toMax toMin)) (f64_sub fromMax fromMin))"

definition clamp_number :: "transform \<Rightarrow> float64 \<Rightarrow> float64" where
  "clamp_number t number =
     (let low = (case tf_Min t of None \<Rightarrow> number | Some m \<Rightarrow> f64_max number m)
      in case tf_Max t of None \<Rightarrow> low | Some m \<Rightarrow> f64_min low m)"

definition applyForward :: "transform \<Rightarrow> property_value \<Rightarrow> (apply_error, property_value) go" where
  "applyForward t value =
     (case tf_Type t of
        TransformInvert \<Rightarrow> go_bind (deref (pv_Bool value)) (\<lambda>b. Done (BoolValue (\<not> b)))
      | TransformReciprocal \<Rightarrow> reciprocalValue value
      | TransformIntNumber \<Rightarrow>
          go_bind (deref (pv_Int value)) (\<lambda>i.
            if i < - maxSafeInteger \<or> i > maxSafeInteger then Raise (AE_IntNotExact i)
            else finiteNumber (f64_of_int i))
      | TransformScale \<Rightarrow>
          go_bind (numericValue value) (\<lambda>number.
            finiteNumber (f64_add (f64_mul number (float64Value (tf_Factor t) (f64_lit 1)))
              (float64Value (tf_Offset t) (f64_lit 0))))
      | TransformClamp \<Rightarrow> go_bind (numericValue value) (\<lambda>number. finiteNumber (clamp_number t number))
      | TransformEnum \<Rightarrow>
          go_bind (deref (pv_String value)) (\<lambda>s.
            case gm_get (tf_Values t) s of
              None \<Rightarrow> Raise (AE_NoMapping s)
            | Some mapped \<Rightarrow> Done (stringValueForType mapped (pv_Type value)))
      | TransformUnit \<Rightarrow> go_bind (numericValue value) (convertUnitValue (tf_FromUnit t) (tf_ToUnit t))
      | TransformRangeEnum \<Rightarrow>
          go_bind (numericValue value) (\<lambda>number.
            case band_for_number (tf_Bands t) number of
              None \<Rightarrow> Raise (AE_NoRangeBand number)
            | Some label \<Rightarrow> Done (EnumValue label))
      | TransformEnumNumber \<Rightarrow>
          go_bind (deref (pv_String value)) (\<lambda>s.
            case band_for_value (tf_Bands t) s of
              None \<Rightarrow> Raise (AE_NoNumericMapping s)
            | Some x \<Rightarrow> finiteNumber x)
      | TransformThreshold \<Rightarrow>
          go_bind (numericValue value) (\<lambda>number. go_bind (deref (tf_Threshold t)) (\<lambda>threshold.
            Done (BoolValue (thresholdMatches number threshold (tf_Operator t)))))
      | TransformBoolNumber \<Rightarrow>
          go_bind (deref (pv_Bool value)) (\<lambda>b.
            if b then go_bind (deref (tf_TrueNumber t)) finiteNumber
            else go_bind (deref (tf_FalseNumber t)) finiteNumber)
      | TransformBoolEnum \<Rightarrow>
          go_bind (deref (pv_Bool value)) (\<lambda>b. Done (EnumValue (if b then tf_TrueValue t else tf_FalseValue t)))
      | TransformEnumBool \<Rightarrow>
          go_bind (deref (pv_String value)) (\<lambda>s.
            if s = tf_TrueValue t then Done (BoolValue True)
            else if s = tf_FalseValue t then Done (BoolValue False)
            else Raise (AE_NeitherLabel s))
      | TransformMapRange \<Rightarrow>
          go_bind (deref (tf_OutputMin t)) (\<lambda>outputMin. go_bind (numericValue value) (\<lambda>number.
            go_bind (deref (tf_InputMin t)) (\<lambda>inputMin. go_bind (deref (tf_OutputMax t)) (\<lambda>outputMax.
              go_bind (deref (tf_InputMax t)) (\<lambda>inputMax.
                finiteNumber (map_linear number inputMin inputMax outputMin outputMax))))))
      | TransformRound \<Rightarrow>
          go_bind (numericValue value) (\<lambda>x.
            let number = round_mode (tf_Mode t) x
            in if outside_int64 number then Raise AE_OutsideInt64 else Done (IntValue (f64_to_int64 number)))
      | TransformParseNumber \<Rightarrow>
          go_bind (deref (pv_String value)) (\<lambda>s.
            case parseFloat (trimSpace s) of None \<Rightarrow> Raise (AE_ParseNumber s) | Some number \<Rightarrow> finiteNumber number)
      | TransformNumberString \<Rightarrow>
          go_bind (numericValue value) (\<lambda>number. Done (StringValue (formatFloat number)))
      | TransformOther k \<Rightarrow> Raise (AE_UnsupportedTransform (TransformOther k)))"

definition applyReverse :: "transform \<Rightarrow> property_value \<Rightarrow> value_type \<Rightarrow> (apply_error, property_value) go" where
  "applyReverse t value expected =
     (case tf_Type t of
        TransformInvert \<Rightarrow> go_bind (deref (pv_Bool value)) (\<lambda>b. Done (BoolValue (\<not> b)))
      | TransformReciprocal \<Rightarrow> reciprocalValue value
      | TransformIntNumber \<Rightarrow>
          go_bind (numericValue value) (\<lambda>number.
            if \<not> is_integral number \<or> f64_lt number (f64_neg (f64_of_int maxSafeInteger)) \<or>
               f64_lt (f64_of_int maxSafeInteger) number
            then Raise (AE_NumberNotInt number)
            else Done (IntValue (f64_to_int64 number)))
      | TransformScale \<Rightarrow>
          go_bind (numericValue value) (\<lambda>number.
            finiteNumber (f64_div (f64_sub number (float64Value (tf_Offset t) (f64_lit 0)))
              (float64Value (tf_Factor t) (f64_lit 1))))
      | TransformClamp \<Rightarrow> Raise AE_NotReversible
      | TransformEnum \<Rightarrow>
          go_bind (deref (pv_String value)) (\<lambda>s.
            case gm_get (tf_ReverseValues t) s of
              Some source \<Rightarrow> Done (stringValueForType source expected)
            | None \<Rightarrow>
                (case sources_of (tf_Values t) s of
                   [] \<Rightarrow> Raise (AE_NoReverseMapping s)
                 | [found] \<Rightarrow> Done (stringValueForType found expected)
                 | _ \<Rightarrow> Raise (AE_AmbiguousReverse s)))
      | TransformUnit \<Rightarrow> go_bind (numericValue value) (convertUnitValue (tf_ToUnit t) (tf_FromUnit t))
      | TransformRangeEnum \<Rightarrow>
          go_bind (deref (pv_String value)) (\<lambda>s.
            case band_for_value (tf_Bands t) s of
              None \<Rightarrow> Raise (AE_NoReverseRange s)
            | Some x \<Rightarrow> finiteNumber x)
      | TransformEnumNumber \<Rightarrow>
          go_bind (numericValue value) (\<lambda>number.
            case band_for_number (tf_Bands t) number of
              None \<Rightarrow> Raise (AE_NoReverseBand number)
            | Some label \<Rightarrow> Done (stringValueForType label expected))
      | TransformThreshold \<Rightarrow>
          go_bind (deref (pv_Bool value)) (\<lambda>b.
            if b then go_bind (deref (tf_TrueNumber t)) finiteNumber
            else go_bind (deref (tf_FalseNumber t)) finiteNumber)
      | TransformBoolNumber \<Rightarrow>
          go_bind (numericValue value) (\<lambda>number. go_bind (deref (tf_Threshold t)) (\<lambda>threshold.
            Done (BoolValue (thresholdMatches number threshold (tf_Operator t)))))
      | TransformBoolEnum \<Rightarrow>
          go_bind (deref (pv_String value)) (\<lambda>s.
            if s = tf_TrueValue t then Done (BoolValue True)
            else if s = tf_FalseValue t then Done (BoolValue False)
            else Raise (AE_NeitherLabel s))
      | TransformEnumBool \<Rightarrow>
          go_bind (deref (pv_Bool value)) (\<lambda>b.
            Done (stringValueForType (if b then tf_TrueValue t else tf_FalseValue t) expected))
      | TransformMapRange \<Rightarrow>
          go_bind (deref (tf_InputMin t)) (\<lambda>inputMin. go_bind (numericValue value) (\<lambda>number.
            go_bind (deref (tf_OutputMin t)) (\<lambda>outputMin. go_bind (deref (tf_InputMax t)) (\<lambda>inputMax.
              go_bind (deref (tf_OutputMax t)) (\<lambda>outputMax.
                finiteNumber (map_linear number outputMin outputMax inputMin inputMax))))))
      | TransformRound \<Rightarrow> go_bind (numericValue value) finiteNumber
      | TransformParseNumber \<Rightarrow>
          go_bind (numericValue value) (\<lambda>number. Done (StringValue (formatFloat number)))
      | TransformNumberString \<Rightarrow>
          go_bind (deref (pv_String value)) (\<lambda>s.
            case parseFloat (trimSpace s) of
              None \<Rightarrow> Raise (AE_ParseNumber s)
            | Some number \<Rightarrow>
                if expected = ValueTypeInt
                then if \<not> is_integral number \<or> outside_int64 number then Raise (AE_NotInt64 s)
                     else Done (IntValue (f64_to_int64 number))
                else finiteNumber number)
      | TransformOther k \<Rightarrow> Raise (AE_UnsupportedTransform (TransformOther k)))"

section \<open>Preview\<close>

record preview_request =
  pr_ProfileID :: string
  pr_Profile :: profile
  pr_Direction :: direction
  pr_Value :: "property_value option"

record step =
  step_Index :: int
  step_Transform :: string
  step_Input :: "property_value option"
  step_Output :: property_value

record preview_result =
  res_ProfileID :: string
  res_ProfileVersion :: int
  res_Direction :: direction
  res_Value :: property_value
  res_Steps :: "step list"

datatype preview_error = PE_Profile "(string, message) gomap" | PE_Direction | PE_ValueRequired
  | PE_Value value_fault | PE_Transform int apply_error | PE_OutsideInt64 | PE_Output value_fault

fun transform_name :: "transform_type \<Rightarrow> string" where
  "transform_name TransformInvert = ''invert''"
| "transform_name TransformReciprocal = ''reciprocal''"
| "transform_name TransformIntNumber = ''int-number''"
| "transform_name TransformScale = ''scale''"
| "transform_name TransformClamp = ''clamp''"
| "transform_name TransformEnum = ''enum''"
| "transform_name TransformUnit = ''unit''"
| "transform_name TransformRangeEnum = ''range-enum''"
| "transform_name TransformEnumNumber = ''enum-number''"
| "transform_name TransformThreshold = ''threshold''"
| "transform_name TransformBoolNumber = ''bool-number''"
| "transform_name TransformBoolEnum = ''bool-enum''"
| "transform_name TransformEnumBool = ''enum-bool''"
| "transform_name TransformMapRange = ''map-range''"
| "transform_name TransformRound = ''round''"
| "transform_name TransformParseNumber = ''parse-number''"
| "transform_name TransformNumberString = ''number-string''"
| "transform_name (TransformOther k) = k"

definition pipeline_step :: "nat \<Rightarrow> transform \<Rightarrow> property_value \<Rightarrow> property_value \<Rightarrow> step" where
  "pipeline_step index t input output =
     \<lparr>step_Index = int index, step_Transform = transform_name (tf_Type t), step_Input = Some (cloneValue input),
      step_Output = cloneValue output\<rparr>"

definition transformError :: "nat \<Rightarrow> (apply_error, 'a) go \<Rightarrow> (preview_error, 'a) go" where
  "transformError index m = (case m of Done x \<Rightarrow> Done x | Raise e \<Rightarrow> Raise (PE_Transform (int index) e) | Panic \<Rightarrow> Panic)"

fun run_forward :: "nat \<Rightarrow> transform list \<Rightarrow> property_value \<Rightarrow> step list \<Rightarrow>
    (preview_error, property_value \<times> step list) go" where
  "run_forward index [] current steps = Done (current, steps)"
| "run_forward index (t # ts) current steps =
     go_bind (transformError index (applyForward t current)) (\<lambda>output.
       run_forward (index + 1) ts output (steps @ [pipeline_step index t current output]))"

text \<open>
  The reverse loop counts down; \<open>types\<close> holds the type before each transform. It works on the
  stages in reverse order: an index, the transform there and the type before it.
\<close>

definition stages :: "value_type \<Rightarrow> transform list \<Rightarrow> (nat \<times> transform \<times> value_type) list" where
  "stages input ts = zip [0..<length ts] (zip ts (pipeline_types input ts))"

fun run_reverse :: "(nat \<times> transform \<times> value_type) list \<Rightarrow> property_value \<Rightarrow> step list \<Rightarrow>
    (preview_error, property_value \<times> step list) go" where
  "run_reverse [] current steps = Done (current, steps)"
| "run_reverse ((index, t, expected) # rest) current steps =
     go_bind (transformError index (applyReverse t current expected)) (\<lambda>output.
       run_reverse rest output (steps @ [pipeline_step index t current output]))"

definition int64_output :: "float64 \<Rightarrow> (preview_error, property_value) go" where
  "int64_output number = (if outside_int64 number then Raise PE_OutsideInt64 else Done (IntValue (f64_to_int64 number)))"

definition final_value :: "direction \<Rightarrow> value_type \<Rightarrow> transform list \<Rightarrow> property_value \<Rightarrow>
    (preview_error, property_value) go" where
  "final_value direction finalType ts current =
     (if finalType = ValueTypeInt \<and> pv_Type current = ValueTypeNumber
      then case pv_Number current of
             None \<Rightarrow> Done current
           | Some number \<Rightarrow>
               if is_integral number then int64_output number
               else if direction = DirectionReverse
               then case find (\<lambda>t. tf_Type t = TransformRound) ts of
                      None \<Rightarrow> Done current
                    | Some t \<Rightarrow> int64_output (round_mode (tf_Mode t) number)
               else Done current
      else Done current)"

definition start_value :: "direction \<Rightarrow> profile \<Rightarrow> property_value option \<Rightarrow>
    (preview_error, property_value \<times> step list) go" where
  "start_value direction p value =
     (case value of
        Some v \<Rightarrow> Done (cloneValue v, [])
      | None \<Rightarrow>
          if direction = DirectionReverse then Raise PE_ValueRequired
          else case pf_Default p of
                 None \<Rightarrow> Raise PE_ValueRequired
               | Some d \<Rightarrow> Done (cloneValue d,
                   [\<lparr>step_Index = - 1, step_Transform = ''default'', step_Input = None,
                     step_Output = cloneValue (cloneValue d)\<rparr>]))"

definition run_pipeline :: "direction \<Rightarrow> profile \<Rightarrow> property_value \<Rightarrow> step list \<Rightarrow>
    (preview_error, property_value \<times> step list) go" where
  "run_pipeline direction p current steps =
     (if direction = DirectionForward then run_forward 0 (pf_Transforms p) current steps
      else run_reverse (rev (stages (pf_InputType p) (pf_Transforms p))) current steps)"

definition preview :: "preview_request \<Rightarrow> (preview_error, preview_result) go" where
  "preview request =
     (let p = pr_Profile request;
          direction = (if pr_Direction request = DirectionOther [] then DirectionForward else pr_Direction request);
          expectedType = (if direction = DirectionReverse then pf_OutputType p else pf_InputType p);
          finalType = (if direction = DirectionReverse then pf_InputType p else pf_OutputType p)
      in if validate_profile p \<noteq> [] then Raise (PE_Profile (validate_profile p))
         else if direction \<noteq> DirectionForward \<and> direction \<noteq> DirectionReverse then Raise PE_Direction
         else go_bind (start_value direction p (pr_Value request)) (\<lambda>(start, steps0).
           case validateValue start expectedType of
             Some e \<Rightarrow> Raise (PE_Value e)
           | None \<Rightarrow> go_bind (run_pipeline direction p start steps0) (\<lambda>(current, steps).
               go_bind (final_value direction finalType (pf_Transforms p) current) (\<lambda>result.
                 case validateValue result finalType of
                   Some e \<Rightarrow> Raise (PE_Output e)
                 | None \<Rightarrow> Done \<lparr>res_ProfileID = pf_ID p, res_ProfileVersion = pf_Version p,
                     res_Direction = direction, res_Value = result, res_Steps = steps\<rparr>))))"

section \<open>Lemmas\<close>

subsection \<open>Well-typed values\<close>

text \<open>A value that validates is one of the values the constructors build.\<close>

definition built :: "property_value \<Rightarrow> value_type \<Rightarrow> bool" where
  "built v ty =
     (case ty of
        ValueTypeBool \<Rightarrow> (case pv_Bool v of Some b \<Rightarrow> v = BoolValue b | None \<Rightarrow> False)
      | ValueTypeInt \<Rightarrow> (case pv_Int v of Some i \<Rightarrow> v = IntValue i | None \<Rightarrow> False)
      | ValueTypeNumber \<Rightarrow> (case pv_Number v of Some x \<Rightarrow> v = NumberValue x \<and> f64_finite x | None \<Rightarrow> False)
      | ValueTypeString \<Rightarrow> (case pv_String v of Some s \<Rightarrow> v = StringValue s | None \<Rightarrow> False)
      | ValueTypeEnum \<Rightarrow> (case pv_String v of Some s \<Rightarrow> v = EnumValue s | None \<Rightarrow> False)
      | ValueTypeOther _ \<Rightarrow> False)"

lemma validateValue_built: "validateValue v ty = None \<longleftrightarrow> built v ty"
proof (cases v)
  case (fields k b i x s)
  show ?thesis
    by (cases ty; cases b; cases i; cases x; cases s)
      (auto simp: fields validateValue_def built_def hasSinglePayload_def payload_count_def value_constructors f64_finite_def)
qed

lemma value_fields [simp]:
  "pv_Type (BoolValue b) = ValueTypeBool" "pv_Bool (BoolValue b) = Some b" "pv_Int (BoolValue b) = None"
  "pv_Number (BoolValue b) = None" "pv_String (BoolValue b) = None"
  "pv_Type (IntValue i) = ValueTypeInt" "pv_Int (IntValue i) = Some i" "pv_Bool (IntValue i) = None"
  "pv_Type (NumberValue x) = ValueTypeNumber" "pv_Int (NumberValue x) = None" "pv_Number (NumberValue x) = Some x"
  "pv_Type (StringValue s) = ValueTypeString" "pv_String (StringValue s) = Some s"
  "pv_Type (EnumValue s) = ValueTypeEnum" "pv_String (EnumValue s) = Some s"
  by (simp_all add: value_constructors)

lemma value_inject [simp]:
  "BoolValue b = BoolValue b' \<longleftrightarrow> b = b'" "IntValue i = IntValue i' \<longleftrightarrow> i = i'"
  "NumberValue x = NumberValue x' \<longleftrightarrow> x = x'" "StringValue s = StringValue s' \<longleftrightarrow> s = s'"
  "EnumValue s = EnumValue s' \<longleftrightarrow> s = s'"
  by (auto simp: value_constructors)

lemma built_simps [simp]:
  "built (BoolValue b) ValueTypeBool" "built (IntValue i) ValueTypeInt"
  "built (NumberValue x) ValueTypeNumber \<longleftrightarrow> f64_finite x"
  "built (StringValue s) ValueTypeString" "built (EnumValue s) ValueTypeEnum"
  by (simp_all add: built_def)

lemma built_cases:
  assumes "built v ty"
  obtains (bool) b where "ty = ValueTypeBool" "v = BoolValue b"
    | (int) i where "ty = ValueTypeInt" "v = IntValue i"
    | (number) x where "ty = ValueTypeNumber" "v = NumberValue x" "f64_finite x"
    | (str) s where "ty = ValueTypeString" "v = StringValue s"
    | (enum) s where "ty = ValueTypeEnum" "v = EnumValue s"
  using assms by (auto simp: built_def split: value_type.splits option.splits)

lemma built_type: "built v ty \<Longrightarrow> pv_Type v = ty"
  by (erule built_cases) simp_all

lemma clone_built: "built v ty \<Longrightarrow> cloneValue v = v"
  by (erule built_cases) (simp_all add: cloneValue_def)

subsection \<open>Steps of the pipeline\<close>

definition go_ok :: "('a \<Rightarrow> bool) \<Rightarrow> ('e, 'a) go \<Rightarrow> bool" where
  "go_ok P m = (case m of Done x \<Rightarrow> P x | Raise e \<Rightarrow> True | Panic \<Rightarrow> False)"

lemma go_ok_simps [simp]: "go_ok P (Done x) = P x" "go_ok P (Raise e)" "\<not> go_ok P Panic"
  by (simp_all add: go_ok_def)

lemma go_ok_bind: "go_ok Q m \<Longrightarrow> (\<And>x. Q x \<Longrightarrow> go_ok P (f x)) \<Longrightarrow> go_ok P (go_bind m f)"
  by (cases m) auto

lemma go_ok_transformError [simp]: "go_ok P (transformError i m) = go_ok P m"
  by (cases m) (simp_all add: transformError_def)

lemma finiteNumber_ok [simp]: "go_ok P (finiteNumber x) \<longleftrightarrow> (f64_finite x \<longrightarrow> P (NumberValue x))"
  by (auto simp: finiteNumber_def f64_finite_def)

definition numeric :: "property_value \<Rightarrow> bool" where
  "numeric v \<longleftrightarrow> (\<exists>i. v = IntValue i) \<or> (\<exists>x. v = NumberValue x \<and> f64_finite x)"

lemma numeric_simps [simp]: "numeric (IntValue i)" "numeric (NumberValue x) \<longleftrightarrow> f64_finite x"
  by (auto simp: numeric_def value_constructors)

lemma numericValue_ok: "numeric v \<Longrightarrow> (\<And>x. go_ok P (f x)) \<Longrightarrow> go_ok P (go_bind (numericValue v) f)"
  by (auto simp: numeric_def numericValue_def)

lemma built_numeric: "built v ty \<Longrightarrow> numericType ty \<Longrightarrow> numeric v"
  by (erule built_cases) (simp_all add: numericType_def)

lemma stringValueForType_built: "ty = ValueTypeEnum \<or> ty = ValueTypeString \<Longrightarrow> built (stringValueForType s ty) ty"
  by (auto simp: stringValueForType_def)

lemma built_label: "built v ty \<Longrightarrow> ty = ValueTypeEnum \<or> ty = ValueTypeString \<Longrightarrow> \<exists>s. pv_String v = Some s"
  by (erule built_cases) simp_all

lemma convertUnitValue_ok: "go_ok (\<lambda>v. built v ValueTypeNumber) (convertUnitValue from to x)"
  by (auto simp: convertUnitValue_def split: option.splits)

lemma reciprocalValue_ok: "numeric v \<Longrightarrow> go_ok (\<lambda>v. built v ValueTypeNumber) (reciprocalValue v)"
  unfolding reciprocalValue_def by (rule numericValue_ok) auto

lemma finitePointer_obtain: "finitePointer p \<Longrightarrow> \<exists>x. p = Some x \<and> f64_finite x"
  by (auto simp: finitePointer_def split: option.splits)

lemma validateThreshold_nil:
  assumes "validateThreshold path t = []"
  shows "\<exists>th tn fn. tf_Threshold t = Some th \<and> tf_TrueNumber t = Some tn \<and> tf_FalseNumber t = Some fn \<and>
    f64_finite th \<and> f64_finite tn \<and> f64_finite fn \<and>
    thresholdMatches tn th (tf_Operator t) \<and> \<not> thresholdMatches fn th (tf_Operator t)"
  using assms by (auto simp: validateThreshold_def dest!: finitePointer_obtain)

lemma forward_step:
  assumes checks: "transform_checks path cur t = []" and v: "built v cur"
  shows "go_ok (\<lambda>v'. built v' (transform_next cur t)) (applyForward t v)"
proof -
  note simps = applyForward_def transform_checks_def transform_next_def numericType_def
  have num: "numericType cur \<Longrightarrow> numeric v" using v by (rule built_numeric)
  have lab: "cur = ValueTypeEnum \<or> cur = ValueTypeString \<Longrightarrow> \<exists>s. pv_String v = Some s" using v by (rule built_label)
  have ty: "pv_Type v = cur" using v by (rule built_type)
  show ?thesis
  proof (cases "tf_Type t")
    case TransformInvert
    with checks v show ?thesis by (auto simp: simps elim: built_cases)
  next
    case TransformReciprocal
    with checks num show ?thesis by (simp add: applyForward_def transform_checks_def transform_next_def reciprocalValue_ok)
  next
    case TransformIntNumber
    with checks v show ?thesis by (auto simp: simps elim: built_cases)
  next
    case TransformScale
    with checks num show ?thesis
      by (auto simp: applyForward_def transform_checks_def transform_next_def Let_def intro!: numericValue_ok)
  next
    case TransformClamp
    with checks num show ?thesis
      by (auto simp: applyForward_def transform_checks_def transform_next_def intro!: numericValue_ok)
  next
    case TransformEnum
    with checks have c: "cur = ValueTypeEnum \<or> cur = ValueTypeString" by (auto simp: transform_checks_def)
    with lab obtain s where "pv_String v = Some s" by blast
    then show ?thesis using TransformEnum ty stringValueForType_built [OF c]
      by (auto simp: applyForward_def transform_next_def split: option.splits)
  next
    case TransformUnit
    with checks num show ?thesis
      by (auto simp: applyForward_def transform_checks_def transform_next_def intro!: numericValue_ok convertUnitValue_ok)
  next
    case TransformRangeEnum
    with checks num show ?thesis
      by (auto simp: applyForward_def transform_checks_def transform_next_def intro!: numericValue_ok split: option.splits)
  next
    case TransformEnumNumber
    with checks lab show ?thesis by (auto simp: simps split: option.splits)
  next
    case TransformThreshold
    with checks num show ?thesis
      by (auto simp: applyForward_def transform_checks_def transform_next_def intro!: numericValue_ok dest!: validateThreshold_nil)
  next
    case TransformBoolNumber
    with checks v show ?thesis by (auto simp: simps dest!: validateThreshold_nil elim: built_cases)
  next
    case TransformBoolEnum
    with checks v show ?thesis by (auto simp: simps elim: built_cases)
  next
    case TransformEnumBool
    with checks lab show ?thesis by (auto simp: simps)
  next
    case TransformMapRange
    with checks num show ?thesis
      by (auto simp: applyForward_def transform_checks_def transform_next_def intro!: numericValue_ok dest!: finitePointer_obtain)
  next
    case TransformRound
    with checks num show ?thesis
      by (auto simp: applyForward_def transform_checks_def transform_next_def Let_def intro!: numericValue_ok)
  next
    case TransformParseNumber
    with checks lab show ?thesis by (auto simp: simps split: option.splits)
  next
    case TransformNumberString
    with checks num show ?thesis
      by (auto simp: applyForward_def transform_checks_def transform_next_def intro!: numericValue_ok)
  next
    case (TransformOther k)
    with checks show ?thesis by (simp add: transform_checks_def)
  qed
qed

text \<open>
  In the reverse direction a stage whose type is \<open>int\<close> may hold a number: it is converted
  when the pipeline has ended.
\<close>

definition stage_value :: "property_value \<Rightarrow> value_type \<Rightarrow> bool" where
  "stage_value v ty \<longleftrightarrow> built v ty \<or> (ty = ValueTypeInt \<and> built v ValueTypeNumber)"

lemma stage_simps [simp]:
  "stage_value v ValueTypeNumber = built v ValueTypeNumber" "stage_value v ValueTypeBool = built v ValueTypeBool"
  "stage_value v ValueTypeEnum = built v ValueTypeEnum" "stage_value v ValueTypeString = built v ValueTypeString"
  "built v ty \<Longrightarrow> stage_value v ty"
  by (auto simp: stage_value_def)

lemma stage_numeric: "stage_value v ty \<Longrightarrow> numericType ty \<Longrightarrow> numeric v"
  by (auto simp: stage_value_def numericType_def intro: built_numeric)

lemma number_stage: "numericType ty \<Longrightarrow> built v ValueTypeNumber \<Longrightarrow> stage_value v ty"
  by (auto simp: stage_value_def numericType_def)

lemma go_ok_mono: "go_ok P m \<Longrightarrow> (\<And>x. P x \<Longrightarrow> Q x) \<Longrightarrow> go_ok Q m"
  by (cases m) auto

lemma finite_number_stage: "numericType ty \<Longrightarrow> go_ok (\<lambda>v. stage_value v ty) (finiteNumber x)"
  by (simp add: number_stage)

lemma reverse_step:
  assumes checks: "transform_checks path cur t = []" and v: "stage_value v (transform_next cur t)"
  shows "go_ok (\<lambda>v'. stage_value v' cur) (applyReverse t v cur)"
proof -
  note simps = applyReverse_def transform_checks_def transform_next_def
  have num: "numericType (transform_next cur t) \<Longrightarrow> numeric v" using v by (rule stage_numeric)
  have n: "numericType ValueTypeNumber" "numericType ValueTypeInt" by (simp_all add: numericType_def)
  have string_ok: "stage_value (stringValueForType s cur) cur" if "cur = ValueTypeEnum \<or> cur = ValueTypeString" for s
    using stringValueForType_built [OF that] by simp
  show ?thesis
  proof (cases "tf_Type t")
    case TransformInvert
    with checks v show ?thesis by (auto simp: simps elim: built_cases)
  next
    case TransformReciprocal
    with checks num n show ?thesis by (auto simp: simps intro: go_ok_mono [OF reciprocalValue_ok] number_stage)
  next
    case TransformIntNumber
    with checks num n show ?thesis by (auto simp: simps intro!: numericValue_ok)
  next
    case TransformScale
    with checks num n show ?thesis by (auto simp: simps Let_def intro!: numericValue_ok number_stage)
  next
    case TransformClamp
    then show ?thesis by (simp add: simps)
  next
    case TransformEnum
    with checks have c: "cur = ValueTypeEnum \<or> cur = ValueTypeString" by (auto simp: transform_checks_def)
    moreover from this v TransformEnum obtain s where "pv_String v = Some s"
      using built_label [of v cur] by (auto simp: transform_next_def)
    ultimately show ?thesis using TransformEnum string_ok [OF c]
      by (auto simp: applyReverse_def split: option.splits list.splits)
  next
    case TransformUnit
    with checks num n show ?thesis
      by (auto simp: simps intro!: numericValue_ok go_ok_mono [OF convertUnitValue_ok] number_stage)
  next
    case TransformRangeEnum
    with checks v show ?thesis
      by (auto simp: simps number_stage split: option.splits elim!: built_cases)
  next
    case TransformEnumNumber
    with checks num n string_ok show ?thesis by (auto simp: simps intro!: numericValue_ok split: option.splits)
  next
    case TransformThreshold
    with checks v show ?thesis
      by (auto simp: simps number_stage dest!: validateThreshold_nil elim!: built_cases)
  next
    case TransformBoolNumber
    with checks num n show ?thesis by (auto simp: simps intro!: numericValue_ok dest!: validateThreshold_nil)
  next
    case TransformBoolEnum
    with checks v show ?thesis by (auto simp: simps elim!: built_cases)
  next
    case TransformEnumBool
    with checks v string_ok show ?thesis by (auto simp: simps elim!: built_cases)
  next
    case TransformMapRange
    with checks num n show ?thesis
      by (auto simp: simps intro!: numericValue_ok number_stage dest!: finitePointer_obtain)
  next
    case TransformRound
    with checks num n show ?thesis by (auto simp: simps intro!: numericValue_ok number_stage)
  next
    case TransformParseNumber
    with checks num n show ?thesis by (auto simp: simps intro!: numericValue_ok)
  next
    case TransformNumberString
    with checks v show ?thesis
      by (auto simp: simps number_stage split: option.splits elim!: built_cases)
  next
    case (TransformOther k)
    with checks show ?thesis by (simp add: transform_checks_def)
  qed
qed

subsection \<open>Pipelines\<close>

lemma check_transforms_nil_Cons:
  assumes "fst (check_transforms i cur (t # ts)) = []"
  shows "transform_checks (''profile.transforms.'' @ show_nat i) cur t = []"
    and "fst (check_transforms (i + 1) (transformOutputType cur t) ts) = []"
  using assms by (simp_all add: Let_def case_prod_beta transform_next_eq)

lemma pipeline_types_nonempty [simp]: "pipeline_types ty ts \<noteq> []"
  by (cases ts) simp_all

lemma forward_run:
  assumes "fst (check_transforms i cur ts) = []" and "built v cur"
  shows "go_ok (\<lambda>(v', steps'). built v' (last (pipeline_types cur ts)) \<and> length steps' = length steps + length ts)
    (run_forward k ts v steps)"
  using assms
proof (induction ts arbitrary: i cur v k steps)
  case Nil
  then show ?case by simp
next
  case (Cons t ts)
  note checks = check_transforms_nil_Cons [OF Cons.prems(1)]
  show ?case
    unfolding run_forward.simps
  proof (rule go_ok_bind [where Q = "\<lambda>v'. built v' (transformOutputType cur t)"])
    show "go_ok (\<lambda>v'. built v' (transformOutputType cur t)) (transformError k (applyForward t v))"
      using forward_step [OF checks(1) Cons.prems(2)] by (simp add: transform_next_eq)
  next
    fix x assume "built x (transformOutputType cur t)"
    from Cons.IH [OF checks(2) this]
    show "go_ok (\<lambda>(v', steps'). built v' (last (pipeline_types cur (t # ts))) \<and> length steps' = length steps + length (t # ts))
        (run_forward (k + 1) ts x (steps @ [pipeline_step k t v x]))"
      by (rule go_ok_mono) auto
  qed
qed

lemma pipeline_types_snoc:
  "pipeline_types cur (ts @ [t]) = pipeline_types cur ts @ [transformOutputType (last (pipeline_types cur ts)) t]"
  by (induction ts arbitrary: cur) simp_all

lemma length_pipeline_types [simp]: "length (pipeline_types cur ts) = Suc (length ts)"
  by (induction ts arbitrary: cur) simp_all

lemma stages_snoc:
  "stages cur (ts @ [t]) = stages cur ts @ [(length ts, t, last (pipeline_types cur ts))]"
proof -
  have "zip (ts @ [t]) (pipeline_types cur (ts @ [t])) = zip ts (pipeline_types cur ts) @ [(t, last (pipeline_types cur ts))]"
    (is "zip _ ?types = _")
  proof (rule nth_equalityI)
    fix i assume "i < length (zip (ts @ [t]) ?types)"
    then have i: "i \<le> length ts" by simp
    show "zip (ts @ [t]) ?types ! i = (zip ts (pipeline_types cur ts) @ [(t, last (pipeline_types cur ts))]) ! i"
      using i by (cases "i = length ts") (simp_all add: pipeline_types_snoc nth_append last_conv_nth)
  qed simp
  then show ?thesis by (simp add: stages_def zip_append1)
qed

lemma check_transforms_snoc:
  assumes "fst (check_transforms i cur (ts @ [t])) = []"
  shows "fst (check_transforms i cur ts) = [] \<and> (\<exists>path. transform_checks path (last (pipeline_types cur ts)) t = [])"
  using assms
  by (induction ts arbitrary: i cur) (auto simp: Let_def case_prod_beta transform_next_eq)

lemma reverse_run:
  assumes "fst (check_transforms i cur ts) = []" and "stage_value v (last (pipeline_types cur ts))"
  shows "go_ok (\<lambda>(v', steps'). stage_value v' cur \<and> length steps' = length steps + length ts)
    (run_reverse (rev (stages cur ts)) v steps)"
  using assms
proof (induction ts arbitrary: i v steps rule: rev_induct)
  case Nil
  then show ?case by (simp add: stages_def)
next
  case (snoc t ts)
  let ?ty = "last (pipeline_types cur ts)"
  from check_transforms_snoc [OF snoc.prems(1)] obtain path
    where c: "fst (check_transforms i cur ts) = []" "transform_checks path ?ty t = []" by blast
  have v: "stage_value v (transform_next ?ty t)" using snoc.prems(2) by (simp add: pipeline_types_snoc transform_next_eq)
  show ?case
    unfolding stages_snoc rev_append rev.simps append_Nil append_Cons run_reverse.simps
  proof (rule go_ok_bind [where Q = "\<lambda>v'. stage_value v' ?ty"])
    show "go_ok (\<lambda>v'. stage_value v' ?ty) (transformError (length ts) (applyReverse t v ?ty))"
      using reverse_step [OF c(2) v] by simp
  next
    fix x assume "stage_value x ?ty"
    from snoc.IH [OF c(1) this]
    show "go_ok (\<lambda>(v', steps'). stage_value v' cur \<and> length steps' = length steps + length (ts @ [t]))
        (run_reverse (rev (stages cur ts)) x (steps @ [pipeline_step (length ts) t v x]))"
      by (rule go_ok_mono) auto
  qed
qed

subsection \<open>The end of a preview\<close>

lemma validate_profile_pipeline:
  assumes "validate_profile p = []"
  shows "fst (check_transforms 0 (pf_InputType p) (pf_Transforms p)) = []"
    and "last (pipeline_types (pf_InputType p) (pf_Transforms p)) = pf_OutputType p"
  using assms check_transforms_final [of 0 "pf_InputType p" "pf_Transforms p"]
  by (auto simp: validate_profile_nil profile_assignments_def Let_def case_prod_beta)

lemma is_integral_finite: "\<not> outside_int64 x \<Longrightarrow> built (IntValue (f64_to_int64 x)) ValueTypeInt"
  by simp

text \<open>What the conversion at the end leaves: only a fraction that no transform rounds is not an int.\<close>

lemma final_value_reverse:
  assumes "stage_value v ty"
  shows "go_ok (\<lambda>v'. built v' ty \<or> (ty = ValueTypeInt \<and> built v' ValueTypeNumber \<and> TransformRound \<notin> tf_Type ` set ts))
    (final_value DirectionReverse ty ts v)"
proof (cases "ty = ValueTypeInt \<and> built v ValueTypeNumber")
  case True
  then obtain x where v: "v = NumberValue x" by (auto simp: built_def split: option.splits)
  show ?thesis
  proof (cases "find (\<lambda>t. tf_Type t = TransformRound) ts")
    case None
    then have "TransformRound \<notin> tf_Type ` set ts" by (auto simp: find_None_iff)
    with True None show ?thesis by (simp add: final_value_def v int64_output_def)
  next
    case (Some t)
    with True show ?thesis by (simp add: final_value_def v int64_output_def)
  qed
next
  case False
  with assms have "built v ty" "ty = ValueTypeInt \<Longrightarrow> pv_Type v = ValueTypeInt"
    by (auto simp: stage_value_def dest: built_type)
  then show ?thesis by (auto simp: final_value_def)
qed

lemma final_value_forward: "built v ty \<Longrightarrow> final_value DirectionForward ty ts v = Done v"
  by (auto simp: final_value_def dest: built_type)

definition request_direction :: "preview_request \<Rightarrow> direction" where
  "request_direction r = (if pr_Direction r = DirectionOther [] then DirectionForward else pr_Direction r)"

definition final_type :: "preview_request \<Rightarrow> value_type" where
  "final_type r = (if request_direction r = DirectionReverse then pf_InputType (pr_Profile r) else pf_OutputType (pr_Profile r))"

lemma run_pipeline_ok:
  assumes valid: "validate_profile p = []"
    and v: "built v (if d = DirectionReverse then pf_OutputType p else pf_InputType p)"
    and d: "d = DirectionForward \<or> d = DirectionReverse"
  shows "go_ok (\<lambda>(v', steps'). length steps' = length steps + length (pf_Transforms p) \<and>
      go_ok (\<lambda>w. built w (if d = DirectionReverse then pf_InputType p else pf_OutputType p) \<or>
        (d = DirectionReverse \<and> pf_InputType p = ValueTypeInt \<and> built w ValueTypeNumber \<and>
         TransformRound \<notin> tf_Type ` set (pf_Transforms p)))
        (final_value d (if d = DirectionReverse then pf_InputType p else pf_OutputType p) (pf_Transforms p) v'))
    (run_pipeline d p v steps)"
proof (cases "d = DirectionReverse")
  case True
  have "stage_value v (last (pipeline_types (pf_InputType p) (pf_Transforms p)))"
    using v True validate_profile_pipeline(2) [OF valid] by simp
  from reverse_run [OF validate_profile_pipeline(1) [OF valid] this, of steps]
  show ?thesis using True by (auto simp: run_pipeline_def intro: final_value_reverse elim!: go_ok_mono)
next
  case False
  with d v have v': "built v (pf_InputType p)" and "d = DirectionForward" by auto
  with forward_run [OF validate_profile_pipeline(1) [OF valid] v', of steps 0] validate_profile_pipeline(2) [OF valid] 
  show ?thesis by (auto simp: run_pipeline_def final_value_forward elim!: go_ok_mono)
qed

lemma go_ok_iff: "go_ok P m \<longleftrightarrow> m \<noteq> Panic \<and> (\<forall>x. m = Done x \<longrightarrow> P x)"
  by (cases m) auto

lemma number_not_int: "built v ValueTypeNumber \<Longrightarrow> validateValue v ValueTypeInt = Some (VF_Type ValueTypeNumber ValueTypeInt)"
  by (auto simp: validateValue_def dest: built_type)

text \<open>The outcomes a preview may have.\<close>

definition preview_outcome :: "preview_request \<Rightarrow> (preview_error, preview_result) go \<Rightarrow> bool" where
  "preview_outcome r m =
     (case m of
        Panic \<Rightarrow> False
      | Done res \<Rightarrow> built (res_Value res) (final_type r) \<and>
          length (res_Steps res) = length (pf_Transforms (pr_Profile r)) + (if pr_Value r = None then 1 else 0)
      | Raise e \<Rightarrow> (case e of PE_Output f \<Rightarrow> request_direction r = DirectionReverse \<and>
            pf_InputType (pr_Profile r) = ValueTypeInt \<and> f = VF_Type ValueTypeNumber ValueTypeInt \<and>
            TransformRound \<notin> tf_Type ` set (pf_Transforms (pr_Profile r)) | _ \<Rightarrow> True))"

lemma run_forward_error: "run_forward i ts v steps \<noteq> Raise (PE_Output e)"
proof (induction ts arbitrary: i v steps)
  case (Cons t ts)
  then show ?case by (cases "applyForward t v") (simp_all add: transformError_def)
qed simp

lemma run_reverse_error: "run_reverse sts v steps \<noteq> Raise (PE_Output e)"
proof (induction sts arbitrary: v steps)
  case (Cons s sts)
  obtain i t ty where "s = (i, t, ty)" by (cases s)
  with Cons show ?case by (cases "applyReverse t v ty") (simp_all add: transformError_def)
qed simp

lemma final_value_error: "final_value d ty ts v \<noteq> Raise (PE_Output e)"
  by (auto simp: final_value_def int64_output_def split: option.splits)

text \<open>The three stretches of \<open>Preview\<close> after its checks of the request: the pipeline, the conversion, the last check.\<close>

definition preview_finish :: "preview_request \<Rightarrow> property_value \<Rightarrow> step list \<Rightarrow> (preview_error, preview_result) go" where
  "preview_finish r w steps =
     go_bind (final_value (request_direction r) (final_type r) (pf_Transforms (pr_Profile r)) w) (\<lambda>result.
       case validateValue result (final_type r) of
         Some e \<Rightarrow> Raise (PE_Output e)
       | None \<Rightarrow> Done \<lparr>res_ProfileID = pf_ID (pr_Profile r), res_ProfileVersion = pf_Version (pr_Profile r),
           res_Direction = request_direction r, res_Value = result, res_Steps = steps\<rparr>)"

definition preview_run :: "preview_request \<Rightarrow> property_value \<Rightarrow> step list \<Rightarrow> (preview_error, preview_result) go" where
  "preview_run r v steps0 =
     go_bind (run_pipeline (request_direction r) (pr_Profile r) v steps0) (\<lambda>(w, steps). preview_finish r w steps)"

definition start_type :: "preview_request \<Rightarrow> value_type" where
  "start_type r = (if request_direction r = DirectionReverse then pf_OutputType (pr_Profile r) else pf_InputType (pr_Profile r))"

lemma preview_split:
  assumes "validate_profile (pr_Profile r) = []"
    and "request_direction r = DirectionForward \<or> request_direction r = DirectionReverse"
  shows "preview r = go_bind (start_value (request_direction r) (pr_Profile r) (pr_Value r)) (\<lambda>(v, steps0).
    case validateValue v (start_type r) of Some e \<Rightarrow> Raise (PE_Value e) | None \<Rightarrow> preview_run r v steps0)"
  using assms
  unfolding preview_def Let_def preview_run_def preview_finish_def start_type_def final_type_def request_direction_def
  by auto

lemma preview_finish_outcome:
  assumes fin: "go_ok (\<lambda>w'. built w' (final_type r) \<or>
      (request_direction r = DirectionReverse \<and> pf_InputType (pr_Profile r) = ValueTypeInt \<and> built w' ValueTypeNumber \<and>
       TransformRound \<notin> tf_Type ` set (pf_Transforms (pr_Profile r))))
      (final_value (request_direction r) (final_type r) (pf_Transforms (pr_Profile r)) w)"
    and len: "length steps = length (pf_Transforms (pr_Profile r)) + (if pr_Value r = None then 1 else 0)"
  shows "preview_outcome r (preview_finish r w steps)"
proof (cases "final_value (request_direction r) (final_type r) (pf_Transforms (pr_Profile r)) w")
  case Panic
  with fin show ?thesis by simp
next
  case (Raise e)
  with final_value_error [of "request_direction r" "final_type r" "pf_Transforms (pr_Profile r)" w] show ?thesis
    by (auto simp: preview_finish_def preview_outcome_def split: preview_error.splits)
next
  case (Done x)
  show ?thesis
  proof (cases "validateValue x (final_type r)")
    case None
    then have "built x (final_type r)" by (simp only: validateValue_built)
    with Done None len show ?thesis by (simp add: preview_finish_def preview_outcome_def)
  next
    case (Some e)
    then have "\<not> built x (final_type r)" by (simp flip: validateValue_built)
    with fin Done have dev: "request_direction r = DirectionReverse" "pf_InputType (pr_Profile r) = ValueTypeInt"
      "built x ValueTypeNumber" "TransformRound \<notin> tf_Type ` set (pf_Transforms (pr_Profile r))" by auto
    then have "e = VF_Type ValueTypeNumber ValueTypeInt" using Some by (simp add: final_type_def number_not_int)
    with Done Some dev show ?thesis by (simp add: preview_finish_def preview_outcome_def)
  qed
qed

lemma preview_run_outcome:
  assumes ok: "validate_profile (pr_Profile r) = []" and v: "built v (start_type r)"
    and d: "request_direction r = DirectionForward \<or> request_direction r = DirectionReverse"
    and len: "length steps0 = (if pr_Value r = None then 1 else 0)"
  shows "preview_outcome r (preview_run r v steps0)"
proof -
  note run = run_pipeline_ok [OF ok v [unfolded start_type_def] d, of steps0, folded final_type_def]
  show ?thesis
  proof (cases "run_pipeline (request_direction r) (pr_Profile r) v steps0")
    case Panic
    with run show ?thesis by simp
  next
    case (Raise e)
    then have "e \<noteq> PE_Output f" for f
      by (auto simp: run_pipeline_def run_forward_error run_reverse_error split: if_splits)
    with Raise show ?thesis by (auto simp: preview_run_def preview_outcome_def split: preview_error.splits)
  next
    case (Done out)
    with run len show ?thesis
      by (cases out) (auto simp: preview_run_def intro: preview_finish_outcome)
  qed
qed

lemma preview_outcome: "preview_outcome r (preview r)"
proof (cases "validate_profile (pr_Profile r) = [] \<and>
    (request_direction r = DirectionForward \<or> request_direction r = DirectionReverse)")
  case False
  then show ?thesis by (auto simp: preview_def Let_def request_direction_def [symmetric] preview_outcome_def)
next
  case True
  note split = preview_split [OF conjunct1 [OF True] conjunct2 [OF True]]
  show ?thesis
  proof (cases "start_value (request_direction r) (pr_Profile r) (pr_Value r)")
    case Panic
    then show ?thesis by (auto simp: start_value_def split: option.splits if_splits)
  next
    case (Raise e)
    then have "e = PE_ValueRequired" by (auto simp: start_value_def split: option.splits if_splits)
    with Raise show ?thesis by (simp add: split preview_outcome_def)
  next
    case (Done start)
    obtain v steps0 where start: "start = (v, steps0)" by (cases start)
    have "length steps0 = (if pr_Value r = None then 1 else 0)"
      using Done start by (auto simp: start_value_def split: option.splits if_splits)
    with True have "built v (start_type r) \<Longrightarrow> preview_outcome r (preview_run r v steps0)"
      by (auto intro: preview_run_outcome)
    then show ?thesis unfolding split Done start go_bind_simps validateValue_built [symmetric]
      by (auto simp: preview_outcome_def [of r "Raise e" for e] split: option.splits)
  qed
qed

subsection \<open>Round trips\<close>

lemma band_checks_nil:
  assumes "band_checks p final seen prev band = []"
  shows "f64_finite (band_Reverse band)" "band_Max band = None \<Longrightarrow> final"
    "band_Max band = Some m \<Longrightarrow> f64_finite m" "band_Max band = Some m \<Longrightarrow> f64_le (band_Reverse band) m"
    "prev = Some q \<Longrightarrow> f64_finite q \<Longrightarrow> f64_lt q (band_Reverse band)"
    "prev = Some q \<Longrightarrow> f64_finite q \<Longrightarrow> band_Max band = Some m \<Longrightarrow> f64_lt q m"
  using assms
  by (auto simp: band_checks_def f64_not_lt f64_finite_not_nan split: option.splits)
    (metis f64_finite_not_nan f64_not_lt)+

lemma check_bands_above:
  "check_bands path i seen (Some q) bands = [] \<Longrightarrow> f64_finite q \<Longrightarrow> band_for_value bands s = Some x \<Longrightarrow> f64_lt q x"
proof (induction bands arbitrary: i seen q)
  case (Cons b bs)
  then have head: "band_checks (path @ ''.bands.'' @ show_nat i) (bs = []) seen (Some q) b = []" by simp
  note h = band_checks_nil [OF head]
  show ?case
  proof (cases "band_Value b = s")
    case True
    with Cons.prems h(5) show ?thesis by simp
  next
    case False
    then have rest: "band_for_value bs s = Some x" using Cons.prems by simp
    then have "bs \<noteq> []" by auto
    with h(2) obtain m where m: "band_Max b = Some m" by (cases "band_Max b") auto
    with Cons.prems have "check_bands path (i + 1) (band_Value b # seen) (Some m) bs = []" by simp
    from Cons.IH [OF this h(3) [OF m] rest] have "f64_lt m x" .
    with h(6) [OF refl Cons.prems(2) m] show ?thesis by (blast intro: f64_lt_le_trans f64_lt_imp_le)
  qed
qed simp

lemma check_bands_roundtrip:
  "check_bands path i seen prev bands = [] \<Longrightarrow> band_for_value bands s = Some x \<Longrightarrow> f64_finite x \<and> band_for_number bands x = Some s"
proof (induction bands arbitrary: i seen prev)
  case (Cons b bs)
  then have head: "band_checks (path @ ''.bands.'' @ show_nat i) (bs = []) seen prev b = []" by simp
  note h = band_checks_nil [OF head]
  show ?case
  proof (cases "band_Value b = s")
    case True
    with Cons.prems h(1,4) show ?thesis by (auto split: option.splits)
  next
    case False
    then have rest: "band_for_value bs s = Some x" using Cons.prems by simp
    then have "bs \<noteq> []" by auto
    with h(2) obtain m where m: "band_Max b = Some m" by (cases "band_Max b") auto
    with Cons.prems have tail: "check_bands path (i + 1) (band_Value b # seen) (Some m) bs = []" by simp
    have "\<not> f64_le x m" using check_bands_above [OF tail h(3) [OF m] rest] by (rule f64_lt_not_le)
    with Cons.IH [OF tail rest] m show ?thesis by simp
  qed
qed simp

lemma range_bands_roundtrip:
  "validateRangeBands path bands = [] \<Longrightarrow> band_for_value bands s = Some x \<Longrightarrow> f64_finite x \<and> band_for_number bands x = Some s"
  using check_bands_roundtrip [of path 0 "[]" None bands s x] by (simp add: validateRangeBands_def split: if_splits)

lemma band_for_number_label: "band_for_number bands x = Some s \<Longrightarrow> \<exists>y. band_for_value bands s = Some y"
  by (induction bands) (auto split: if_splits)

lemma sources_of_iff: "source \<in> set (sources_of values target) \<longleftrightarrow> (source, target) \<in> set values"
  by (auto simp: sources_of_def image_iff)

text \<open>A validated enum table sends every target it can produce back to a source of that target.\<close>

lemma enum_values_reverse:
  assumes valid: "validateEnumValues path values reverseValues = []" and emitted: "gm_get values s = Some target"
  shows "case gm_get reverseValues target of
      Some source \<Rightarrow> (source, target) \<in> set values
    | None \<Rightarrow> \<exists>source. sources_of values target = [source] \<and> (source, target) \<in> set values"
proof -
  have mem: "(s, target) \<in> set values" using emitted by (rule gm_get_in_set)
  then have s: "s \<in> set (sources_of values target)" by (simp add: sources_of_iff)
  have "target \<in> set (map snd values)" using mem by force
  with valid mem have "check_target path values reverseValues target = []"
    by (auto simp: validateEnumValues_def split: if_splits)
  then show ?thesis using s
    by (cases "sources_of values target")
      (auto simp: check_target_def Let_def containsString_def list_ex_iff sources_of_iff [symmetric]
        split: option.splits if_splits)
qed

definition discrete_transforms :: "transform_type set" where
  "discrete_transforms = {TransformInvert, TransformThreshold, TransformRangeEnum, TransformBoolEnum, TransformEnumBool, TransformEnum}"

definition lossless_transforms :: "transform_type set" where
  "lossless_transforms = {TransformInvert, TransformBoolNumber, TransformBoolEnum, TransformEnumBool, TransformEnumNumber, TransformIntNumber}"

lemma finiteNumber_done: "finiteNumber x = Done v \<longleftrightarrow> f64_finite x \<and> v = NumberValue x"
  by (auto simp: finiteNumber_def f64_finite_def)

lemma numericValue_number [simp]: "numericValue (NumberValue x) = Done x"
  by (simp add: numericValue_def)

lemma finite_number [simp]: "f64_finite x \<Longrightarrow> finiteNumber x = Done (NumberValue x)"
  by (simp add: finiteNumber_done)

lemma built_string_value: "built v ty \<Longrightarrow> ty = ValueTypeEnum \<or> ty = ValueTypeString \<Longrightarrow> pv_String v = Some s \<Longrightarrow> v = stringValueForType s ty"
  by (erule built_cases) (simp_all add: stringValueForType_def)

lemma stringValueForType_fields [simp]: "pv_String (stringValueForType s ty) = Some s"
  by (simp add: stringValueForType_def)

lemma stringValueForType_type: "ty = ValueTypeEnum \<or> ty = ValueTypeString \<Longrightarrow> pv_Type (stringValueForType s ty) = ty"
  by (auto simp: stringValueForType_def)

lemma labels_nil: "validateBooleanLabels path a b = [] \<Longrightarrow> a \<noteq> b"
  by (auto simp: validateBooleanLabels_def split: if_splits)

lemma enum_forward_reverse:
  assumes "tf_Type t = TransformEnum" and "validateEnumValues path (tf_Values t) (tf_ReverseValues t) = []"
    and "cur = ValueTypeEnum \<or> cur = ValueTypeString" and "gm_ok (tf_Values t)" and "gm_get (tf_Values t) s = Some target"
  shows "\<exists>v'. applyReverse t (stringValueForType target cur) cur = Done v' \<and>
    applyForward t v' = Done (stringValueForType target cur)"
proof -
  have there: "applyForward t (stringValueForType source cur) = Done (stringValueForType target cur)"
    if "(source, target) \<in> set (tf_Values t)" for source
    using that assms gm_in_set_get [OF assms(4) that] by (simp add: applyForward_def stringValueForType_type)
  show ?thesis
    using enum_values_reverse [OF assms(2,5)] there assms(1)
    by (auto simp: applyReverse_def split: option.splits)
qed

lemma discrete_roundtrip:
  assumes checks: "transform_checks path cur t = []" and ty: "tf_Type t \<in> discrete_transforms"
    and ok: "gm_ok (tf_Values t)" and v0: "built v0 cur" and v: "applyForward t v0 = Done v"
  shows "\<exists>v'. applyReverse t v cur = Done v' \<and> applyForward t v' = Done v"
proof -
  have v_built: "built v (transform_next cur t)" using forward_step [OF checks v0] v by simp
  note simps = applyForward_def applyReverse_def transform_checks_def transform_next_def
  consider "tf_Type t = TransformInvert" | "tf_Type t = TransformThreshold" | "tf_Type t = TransformRangeEnum"
    | "tf_Type t = TransformBoolEnum" | "tf_Type t = TransformEnumBool" | "tf_Type t = TransformEnum"
    using ty by (auto simp: discrete_transforms_def)
  then show ?thesis
  proof cases
    case 1
    with checks v_built show ?thesis by (auto simp: simps elim!: built_cases)
  next
    case 2
    with checks v_built show ?thesis by (auto simp: simps dest!: validateThreshold_nil elim!: built_cases)
  next
    case 3
    then have valid: "validateRangeBands path (tf_Bands t) = []" using checks by (simp add: transform_checks_def)
    from 3 v obtain x label where l: "band_for_number (tf_Bands t) x = Some label" "v = EnumValue label"
      by (cases "numericValue v0 :: (apply_error, float64) go") (auto simp: applyForward_def split: option.splits)
    from band_for_number_label [OF l(1)] obtain y where y: "band_for_value (tf_Bands t) label = Some y" by blast
    from range_bands_roundtrip [OF valid y] y l(2) 3 show ?thesis by (auto simp: applyForward_def applyReverse_def)
  next
    case 4
    with v v0 checks show ?thesis
      by (auto simp: simps elim!: built_cases dest!: labels_nil)
  next
    case 5
    with checks v_built show ?thesis by (auto simp: simps elim!: built_cases dest!: labels_nil)
  next
    case 6
    then have valid: "validateEnumValues path (tf_Values t) (tf_ReverseValues t) = []"
      and c: "cur = ValueTypeEnum \<or> cur = ValueTypeString" using checks by (auto simp: transform_checks_def)
    from v 6 v0 c obtain s target where "gm_get (tf_Values t) s = Some target" "v = stringValueForType target cur"
      using built_label [OF v0 c] built_type [OF v0] by (auto simp: applyForward_def split: option.splits)
    then show ?thesis using enum_forward_reverse [OF 6 valid c ok] by blast
  qed
qed

lemma f64_to_int64_of_int:
  assumes "\<bar>i\<bar> \<le> maxSafeInteger"
  shows "f64_to_int64 (f64_of_int i) = i \<and> is_integral (f64_of_int i) \<and>
    \<not> f64_lt (f64_of_int i) (f64_neg (f64_of_int maxSafeInteger)) \<and> \<not> f64_lt (f64_of_int maxSafeInteger) (f64_of_int i)"
proof (cases "i = 0")
  case True
  have "f64_of_int maxSafeInteger = F_Fin (of_int maxSafeInteger)" by (rule f64_of_int_exact) (simp_all add: maxSafeInteger_def)
  with True show ?thesis
    by (simp add: f64_to_int64_def is_integral_def f64_trunc_def f64_eq_def f64_lt_def maxSafeInteger_def)
next
  case False
  have b: "\<bar>i\<bar> \<le> 2 ^ 53" using assms by (simp add: maxSafeInteger_def)
  have m: "f64_of_int maxSafeInteger = F_Fin (of_int maxSafeInteger)" by (rule f64_of_int_exact) (simp_all add: maxSafeInteger_def)
  have i: "f64_of_int i = F_Fin (of_int i)" using b False by (rule f64_of_int_exact)
  have "(of_int i :: rat) \<le> of_int maxSafeInteger" "- of_int maxSafeInteger \<le> (of_int i :: rat)"
    using assms by (simp_all only: of_int_le_iff of_int_minus [symmetric] abs_le_iff minus_le_iff)
  then show ?thesis using False b
    by (auto simp: i m f64_to_int64_def is_integral_def f64_trunc_def f64_eq_def f64_lt_def rat_trunc_def)
qed

lemma lossless_roundtrip:
  assumes checks: "transform_checks path cur t = []" and ty: "tf_Type t \<in> lossless_transforms"
    and v: "built v cur" and v': "applyForward t v = Done v'"
  shows "applyReverse t v' cur = Done v"
proof -
  note simps = applyForward_def applyReverse_def transform_checks_def
  consider "tf_Type t = TransformInvert" | "tf_Type t = TransformBoolNumber" | "tf_Type t = TransformBoolEnum"
    | "tf_Type t = TransformEnumBool" | "tf_Type t = TransformEnumNumber" | "tf_Type t = TransformIntNumber"
    using ty by (auto simp: lossless_transforms_def)
  then show ?thesis
  proof cases
    case 1
    with checks v v' show ?thesis by (auto simp: simps elim!: built_cases)
  next
    case 2
    with checks v v' show ?thesis
      by (auto simp: simps elim!: built_cases dest!: validateThreshold_nil split: if_splits)
  next
    case 3
    with checks v v' show ?thesis by (auto simp: simps elim!: built_cases dest!: labels_nil split: if_splits)
  next
    case 4
    with checks v v' show ?thesis
      by (auto simp: simps elim!: built_cases dest!: labels_nil simp: stringValueForType_def split: if_splits)
  next
    case 5
    then have valid: "validateRangeBands path (tf_Bands t) = []"
      and c: "cur = ValueTypeEnum \<or> cur = ValueTypeString" using checks by (auto simp: transform_checks_def)
    from built_label [OF v c] obtain s where s: "pv_String v = Some s" by blast
    with 5 v' obtain x where x: "band_for_value (tf_Bands t) s = Some x" "v' = NumberValue x"
      by (auto simp: applyForward_def finiteNumber_done split: option.splits)
    from range_bands_roundtrip [OF valid x(1)] x(2) 5 show ?thesis
      by (simp add: applyReverse_def built_string_value [OF v c s])
  next
    case 6
    with checks v v' obtain i where "v = IntValue i" "\<bar>i\<bar> \<le> maxSafeInteger" "v' = NumberValue (f64_of_int i)"
      by (auto simp: simps finiteNumber_done elim!: built_cases split: if_splits)
    with f64_to_int64_of_int [of i] 6 show ?thesis by (simp add: applyReverse_def)
  qed
qed

lemma f64_of_max_int64: "f64_of_int max_int64 = F_Fin (2 ^ 63)"
proof -
  have q: "(of_int max_int64 :: rat) = 2 ^ 63 - 1" by simp
  have p: "(2 :: rat) powi 62 = 2 ^ 62" "(2 :: rat) powi (62 + 1) = 2 ^ 63" "(2 :: rat) powi (62 - 52) = 2 ^ 10"
    by (simp_all add: power_int_def)
  have "f64_round (of_int max_int64) = F_Fin (of_int (2 ^ 53) * 2 powi (62 - 52))"
  proof (rule f64_round_eqI)
    show "2 powi 62 \<le> (of_int max_int64 :: rat)" "(of_int max_int64 :: rat) < 2 powi (62 + 1)" unfolding p q by simp_all
    show "\<bar>of_int max_int64 / 2 powi (62 - 52) - of_int (2 ^ 53)\<bar> < (1 / 2 :: rat)" unfolding p q by simp
    show "of_int (2 ^ 53) * 2 powi (62 - 52) < (2 ^ 1024 :: rat)" unfolding p by simp
  qed simp_all
  then show ?thesis unfolding f64_of_int_def p by simp
qed

lemma f64_of_min_int64: "f64_of_int min_int64 = F_Fin (- (2 ^ 63))"
proof -
  have "f64_round (of_int min_int64) = F_Fin (of_int min_int64)"
    by (rule f64_round_exact [where m = 1 and k = 63]) simp_all
  then show ?thesis by (simp add: f64_of_int_def)
qed

lemma round_mode_integral: "f64_finite x \<Longrightarrow> (\<exists>z. round_mode m x = F_Zero z) \<or> (\<exists>n. round_mode m x = F_Fin (of_int n))"
  by (cases x) (auto simp: round_mode_def f64_floor_def f64_ceil_def f64_math_round_def)

lemma round_mode_int64:
  assumes "f64_finite x" and inside: "\<not> outside_int64 (round_mode m x)"
  shows "min_int64 \<le> f64_to_int64 (round_mode m x) \<and> f64_to_int64 (round_mode m x) \<le> max_int64 \<and>
    (if round_mode m x = F_Fin (2 ^ 63) then f64_to_int64 (round_mode m x) = min_int64
     else of_int (f64_to_int64 (round_mode m x)) = f64_val (round_mode m x))"
  using round_mode_integral [OF assms(1), of m]
proof
  assume "\<exists>n. round_mode m x = F_Fin (of_int n)"
  then obtain n where n: "round_mode m x = F_Fin (of_int n)" by blast
  with inside have "- (2 ^ 63) \<le> (of_int n :: rat)" "(of_int n :: rat) \<le> 2 ^ 63"
    unfolding outside_int64_def f64_of_max_int64 f64_of_min_int64 by (simp_all add: f64_lt_def)
  then have "(of_int (- (2 ^ 63)) :: rat) \<le> of_int n" "(of_int n :: rat) \<le> of_int (2 ^ 63)" by simp_all
  then have range: "- (2 ^ 63) \<le> n" "n \<le> 2 ^ 63" by (simp_all only: of_int_le_iff)
  have "(of_int n = (2 ^ 63 :: rat)) = (n = 2 ^ 63)"
    using of_int_eq_iff [of n "2 ^ 63", where 'a = rat] by simp
  moreover have "f64_to_int64 (F_Fin (of_int n)) = (if n = 2 ^ 63 then min_int64 else n)"
    using range by (auto simp: f64_to_int64_def rat_trunc_def Let_def)
  ultimately show ?thesis using range unfolding n by auto
qed (auto simp: f64_to_int64_def)

section \<open>Properties\<close>

text \<open>C4. \<open>Preview\<close> never panics, whatever the request. A result has the type the profile promises for
  the direction and exactly one payload, a finite one, and lists one step per transform and one for a
  default. The last check of the output can only fail in the reverse direction, for a number that is not
  an int at the end of a pipeline with an int input and no rounding.\<close>

theorem preview_typed:
  "preview r \<noteq> Panic \<and>
   (\<forall>res. preview r = Done res \<longrightarrow> validateValue (res_Value res) (final_type r) = None \<and>
      length (res_Steps res) = length (pf_Transforms (pr_Profile r)) + (if pr_Value r = None then 1 else 0)) \<and>
   (\<forall>e. preview r = Raise (PE_Output e) \<longrightarrow> request_direction r = DirectionReverse \<and>
      pf_InputType (pr_Profile r) = ValueTypeInt \<and> e = VF_Type ValueTypeNumber ValueTypeInt \<and>
      TransformRound \<notin> tf_Type ` set (pf_Transforms (pr_Profile r)))"
  using preview_outcome [of r] by (auto simp: preview_outcome_def validateValue_built)

text \<open>A profile with one transform, and requests for it.\<close>

definition blank_transform :: transform where
  "blank_transform =
     \<lparr>tf_Type = TransformInvert, tf_Factor = None, tf_Offset = None, tf_Min = None, tf_Max = None, tf_Values = [],
      tf_ReverseValues = [], tf_FromUnit = [], tf_ToUnit = [], tf_Bands = [], tf_Threshold = None, tf_Operator = [],
      tf_TrueNumber = None, tf_FalseNumber = None, tf_TrueValue = [], tf_FalseValue = [], tf_InputMin = None,
      tf_InputMax = None, tf_OutputMin = None, tf_OutputMax = None, tf_Mode = []\<rparr>"

definition example_profile :: profile where
  "example_profile =
     \<lparr>pf_SchemaVersion = 1, pf_ID = ''p'', pf_Identifier = [], pf_Version = 1, pf_Kind = KindProvider,
      pf_InputType = ValueTypeBool, pf_OutputType = ValueTypeBool, pf_Default = Some (BoolValue True),
      pf_Transforms = [blank_transform]\<rparr>"

definition example_request :: preview_request where
  "example_request = \<lparr>pr_ProfileID = [], pr_Profile = example_profile, pr_Direction = DirectionOther [], pr_Value = None\<rparr>"

theorem preview_typed_witness:
  "\<exists>res. preview example_request = Done res \<and> length (res_Steps res) = 2 \<and>
     validateValue (res_Value res) ValueTypeBool = None"
proof -
  have "preview example_request =
      Done \<lparr>res_ProfileID = ''p'', res_ProfileVersion = 1, res_Direction = DirectionForward, res_Value = BoolValue False,
        res_Steps = [\<lparr>step_Index = -1, step_Transform = ''default'', step_Input = None, step_Output = BoolValue True\<rparr>,
          \<lparr>step_Index = 0, step_Transform = ''invert'', step_Input = Some (BoolValue True), step_Output = BoolValue False\<rparr>]\<rparr>"
    by code_simp
  moreover have "final_type example_request = ValueTypeBool" "length (pf_Transforms (pr_Profile example_request)) = 1"
    "pr_Value example_request = None" by code_simp+
  ultimately show ?thesis using preview_typed [of example_request] by simp
qed

text \<open>C23. Every value that a validated invert, threshold, range-enum, bool-enum, enum-bool or enum transform can
  produce is accepted by the reverse direction, and what the reverse direction answers is mapped forward to
  the same value: a command that writes a displayed value reads back as that value.\<close>

theorem transform_command_roundtrip:
  assumes "transform_checks path cur t = []" and "tf_Type t \<in> discrete_transforms" and "gm_ok (tf_Values t)"
    and "validateValue v0 cur = None" and "applyForward t v0 = Done v"
  shows "\<exists>v'. applyReverse t v cur = Done v' \<and> applyForward t v' = Done v"
  using discrete_roundtrip assms unfolding validateValue_built by blast

definition example_enum :: transform where
  "example_enum = blank_transform\<lparr>tf_Type := TransformEnum, tf_Values := [(''a'', ''x''), (''b'', ''x''), (''c'', ''y'')],
     tf_ReverseValues := [(''x'', ''b'')]\<rparr>"

theorem transform_command_roundtrip_witness:
  "\<exists>v'. applyReverse example_enum (EnumValue ''x'') ValueTypeEnum = Done v' \<and>
     applyForward example_enum v' = Done (EnumValue ''x'')"
proof (rule transform_command_roundtrip [of "''p''" _ _ "EnumValue ''a''"])
  show "transform_checks ''p'' ValueTypeEnum example_enum = []" by code_simp
  show "tf_Type example_enum \<in> discrete_transforms" by (simp add: example_enum_def discrete_transforms_def)
  show "gm_ok (tf_Values example_enum)" "validateValue (EnumValue ''a'') ValueTypeEnum = None"
    "applyForward example_enum (EnumValue ''a'') = Done (EnumValue ''x'')" by code_simp+
qed

text \<open>C30. For an invert, bool-number, bool-enum, enum-bool, enum-number or int-number transform that validates, the
  reverse direction undoes the forward one: no value is changed by going there and back.\<close>

theorem transform_lossless_roundtrip:
  assumes "transform_checks path cur t = []" and "tf_Type t \<in> lossless_transforms"
    and "validateValue v cur = None" and "applyForward t v = Done v'"
  shows "applyReverse t v' cur = Done v"
  using lossless_roundtrip assms unfolding validateValue_built by blast

theorem transform_lossless_roundtrip_witness:
  "applyReverse (blank_transform\<lparr>tf_Type := TransformBoolEnum, tf_TrueValue := ''on'', tf_FalseValue := ''off''\<rparr>)
     (EnumValue ''off'') ValueTypeBool = Done (BoolValue False)"
proof (rule transform_lossless_roundtrip [where path = "''p''"])
  let ?t = "blank_transform\<lparr>tf_Type := TransformBoolEnum, tf_TrueValue := ''on'', tf_FalseValue := ''off''\<rparr>"
  show "transform_checks ''p'' ValueTypeBool ?t = []" by code_simp
  show "tf_Type ?t \<in> lossless_transforms" by (simp add: lossless_transforms_def)
  show "validateValue (BoolValue False) ValueTypeBool = None" "applyForward ?t (BoolValue False) = Done (EnumValue ''off'')"
    by code_simp+
qed

text \<open>A round transform answers the rounded number as an int64, with one exception: the guard compares with
  the float \<open>2\<^sup>6\<^sup>3\<close>, so a number that rounds to \<open>2\<^sup>6\<^sup>3\<close> passes it and becomes the smallest int64.\<close>

theorem round_forward_int64:
  assumes "tf_Type t = TransformRound" and "f64_finite x" and "applyForward t (NumberValue x) = Done w"
  shows "\<exists>i. w = IntValue i \<and> min_int64 \<le> i \<and> i \<le> max_int64 \<and>
    (if round_mode (tf_Mode t) x = F_Fin (2 ^ 63) then i = min_int64 else of_int i = f64_val (round_mode (tf_Mode t) x))"
proof -
  have "w = IntValue (f64_to_int64 (round_mode (tf_Mode t) x))" and "\<not> outside_int64 (round_mode (tf_Mode t) x)"
    using assms by (auto simp: applyForward_def Let_def split: if_splits)
  with round_mode_int64 [OF assms(2), of "tf_Mode t"] show ?thesis by blast
qed

theorem round_forward_int64_witness:
  "applyForward (blank_transform\<lparr>tf_Type := TransformRound, tf_Mode := ''floor''\<rparr>) (NumberValue (F_Fin (2 ^ 63))) = Done (IntValue min_int64)"
proof -
  let ?t = "blank_transform\<lparr>tf_Type := TransformRound, tf_Mode := ''floor''\<rparr>"
  have r: "round_mode (tf_Mode ?t) (F_Fin (2 ^ 63)) = F_Fin (2 ^ 63)"
    by (simp add: round_mode_def f64_floor_def)
  then have "\<not> outside_int64 (round_mode (tf_Mode ?t) (F_Fin (2 ^ 63)))"
    unfolding outside_int64_def f64_of_max_int64 f64_of_min_int64 by (simp add: f64_lt_def)
  then obtain w where w: "applyForward ?t (NumberValue (F_Fin (2 ^ 63))) = Done w"
    by (simp add: applyForward_def Let_def)
  from round_forward_int64 [OF _ _ w] r w show ?thesis by auto
qed

end
