(* ===== verification/Model_Table.thy ===== *)
theory Model_Table
  imports Device_Model
begin

text \<open>
  The contracts of the unified device model, the tables of
  \<open>internal/domain/device/model_contract.go\<close>: for every device type the parameters a publisher
  must or may provide. The display names and notes of the tables, texts for people, are left out.
\<close>

declare map_of_eq_Some_iff [simp del] Some_eq_map_of_iff [simp del]

section \<open>Parameters\<close>

record parameter_path =
  path_EndpointID :: string
  path_CapabilityID :: string
  path_PropertyID :: string

record parameter_role =
  role_Level :: parameter_level
  role_Behavior :: string

record model_parameter =
  mp_Path :: parameter_path
  mp_Level :: parameter_level
  mp_Type :: value_type
  mp_Unit :: string
  mp_Readable :: bool
  mp_Writable :: bool
  mp_Notifiable :: bool
  mp_Min :: "float64 option"
  mp_Max :: "float64 option"
  mp_Step :: "float64 option"
  mp_StaleAfterSeconds :: int
  mp_Enum :: "string list"
  mp_Publisher :: parameter_role
  mp_Consumer :: parameter_role

record custom_policy =
  policy_Publisher :: parameter_role
  policy_Consumer :: parameter_role

record model_contract =
  mc_DeviceType :: string
  mc_Version :: int
  mc_BuiltIn :: bool
  mc_Parameters :: "model_parameter list"
  mc_Custom :: custom_policy

definition model_path :: "string \<Rightarrow> string \<Rightarrow> string \<Rightarrow> parameter_path" where
  "model_path endpoint cap prop = \<lparr>path_EndpointID = endpoint, path_CapabilityID = cap, path_PropertyID = prop\<rparr>"

definition role :: "parameter_level \<Rightarrow> string \<Rightarrow> parameter_role" where
  "role level behavior = \<lparr>role_Level = level, role_Behavior = behavior\<rparr>"

definition required :: "string \<Rightarrow> string \<Rightarrow> value_type \<Rightarrow> bool \<Rightarrow> model_parameter" where
  "required capabilityID propertyID valueType writable =
     \<lparr>mp_Path = model_path ''main'' capabilityID propertyID, mp_Level = ParameterRequired, mp_Type = valueType,
      mp_Unit = [], mp_Readable = True, mp_Writable = writable, mp_Notifiable = True, mp_Min = None, mp_Max = None,
      mp_Step = None, mp_StaleAfterSeconds = 0, mp_Enum = [], mp_Publisher = role ParameterRequired ''must-publish'',
      mp_Consumer = role ParameterRequired ''must-map''\<rparr>"

definition requiredMeasurement :: "string \<Rightarrow> string \<Rightarrow> string \<Rightarrow> float64 \<Rightarrow> float64 \<Rightarrow> float64 \<Rightarrow> model_parameter" where
  "requiredMeasurement capabilityID propertyID unit minimum maximum step =
     (required capabilityID propertyID ValueTypeNumber False)
       \<lparr>mp_Unit := unit, mp_Min := Some minimum, mp_Max := Some maximum, mp_Step := Some step\<rparr>"

definition requiredWritableMeasurement ::
    "string \<Rightarrow> string \<Rightarrow> string \<Rightarrow> float64 \<Rightarrow> float64 \<Rightarrow> float64 \<Rightarrow> model_parameter" where
  "requiredWritableMeasurement capabilityID propertyID unit minimum maximum step =
     (requiredMeasurement capabilityID propertyID unit minimum maximum step)\<lparr>mp_Writable := True\<rparr>"

definition requiredEnum :: "string \<Rightarrow> string \<Rightarrow> bool \<Rightarrow> string list \<Rightarrow> model_parameter" where
  "requiredEnum capabilityID propertyID writable values =
     (required capabilityID propertyID ValueTypeEnum writable)\<lparr>mp_Enum := values\<rparr>"

definition requiredInt ::
    "string \<Rightarrow> string \<Rightarrow> string \<Rightarrow> bool \<Rightarrow> float64 \<Rightarrow> float64 \<Rightarrow> float64 \<Rightarrow> model_parameter" where
  "requiredInt capabilityID propertyID unit writable minimum maximum step =
     (required capabilityID propertyID ValueTypeInt writable)
       \<lparr>mp_Unit := unit, mp_Min := Some minimum, mp_Max := Some maximum, mp_Step := Some step\<rparr>"

definition optional :: "string \<Rightarrow> string \<Rightarrow> value_type \<Rightarrow> string \<Rightarrow> bool \<Rightarrow> string list \<Rightarrow> model_parameter" where
  "optional capabilityID propertyID valueType unit writable enum =
     \<lparr>mp_Path = model_path ''main'' capabilityID propertyID, mp_Level = ParameterOptional, mp_Type = valueType,
      mp_Unit = unit, mp_Readable = True, mp_Writable = writable, mp_Notifiable = True, mp_Min = None, mp_Max = None,
      mp_Step = None, mp_StaleAfterSeconds = 0, mp_Enum = enum,
      mp_Publisher = role ParameterOptional ''publish-if-supported'',
      mp_Consumer = role ParameterOptional ''map-if-supported''\<rparr>"

definition optionalEnum :: "string \<Rightarrow> string \<Rightarrow> bool \<Rightarrow> string list \<Rightarrow> model_parameter" where
  "optionalEnum capabilityID propertyID writable values =
     optional capabilityID propertyID ValueTypeEnum [] writable values"

definition optionalMeasurement ::
    "string \<Rightarrow> string \<Rightarrow> string \<Rightarrow> bool \<Rightarrow> float64 \<Rightarrow> float64 \<Rightarrow> float64 \<Rightarrow> model_parameter" where
  "optionalMeasurement capabilityID propertyID unit writable minimum maximum step =
     (optional capabilityID propertyID ValueTypeNumber unit writable [])
       \<lparr>mp_Min := Some minimum, mp_Max := Some maximum, mp_Step := Some step\<rparr>"

definition optionalInt ::
    "string \<Rightarrow> string \<Rightarrow> string \<Rightarrow> bool \<Rightarrow> float64 \<Rightarrow> float64 \<Rightarrow> float64 \<Rightarrow> model_parameter" where
  "optionalInt capabilityID propertyID unit writable minimum maximum step =
     (optional capabilityID propertyID ValueTypeInt unit writable [])
       \<lparr>mp_Min := Some minimum, mp_Max := Some maximum, mp_Step := Some step\<rparr>"

definition withCustomPolicy :: "model_contract \<Rightarrow> model_contract" where
  "withCustomPolicy contract =
     contract\<lparr>mc_Custom := \<lparr>policy_Publisher = role ParameterCustom ''preserve-and-mark-custom'',
       policy_Consumer = role ParameterCustom ''explicit-path-mapping-only''\<rparr>\<rparr>"

text \<open>An entry of the table: the fields the literal does not mention have their zero values.\<close>

definition model_of :: "string \<Rightarrow> int \<Rightarrow> model_parameter list \<Rightarrow> model_contract" where
  "model_of deviceType version parameters =
     \<lparr>mc_DeviceType = deviceType, mc_Version = version, mc_BuiltIn = False, mc_Parameters = parameters,
      mc_Custom = \<lparr>policy_Publisher = role (ParameterLevelOther []) [], policy_Consumer = role (ParameterLevelOther []) []\<rparr>\<rparr>"

section \<open>The tables\<close>

definition batteryLevelParameters :: "model_parameter list" where
  "batteryLevelParameters =
     [optionalInt ''battery'' ''level'' ''percent'' False (f64_lit 0) (f64_lit 100) (f64_lit 1),
      optional ''battery'' ''low'' ValueTypeBool [] False [],
      optional ''battery'' ''charging'' ValueTypeBool [] False []]"

definition batteryParameters :: "model_parameter list" where
  "batteryParameters =
     batteryLevelParameters @ [optional ''security'' ''tampered'' ValueTypeBool [] False []]"

definition sensorHealthParameters :: "model_parameter list" where
  "sensorHealthParameters =
     batteryParameters @ [optional ''status'' ''active'' ValueTypeBool [] False [],
      optional ''status'' ''fault'' ValueTypeBool [] False []]"

definition electricalParameters :: "model_parameter list" where
  "electricalParameters =
     [optionalMeasurement ''electrical'' ''current-power'' ''watt'' False (f64_lit 0) (f64_lit 100000) (f64_lit (1 /
        10)),
      optionalMeasurement ''electrical'' ''voltage'' ''volt'' False (f64_lit 0) (f64_lit 1000) (f64_lit (1 / 10)),
      optionalMeasurement ''electrical'' ''current'' ''ampere'' False (f64_lit 0) (f64_lit 1000) (f64_lit (1 / 1000)),
      optionalMeasurement ''electrical'' ''frequency'' ''hertz'' False (f64_lit 0) (f64_lit 1000) (f64_lit (1 / 10)),
      optionalMeasurement ''electrical'' ''power-factor'' ''ratio'' False (f64_lit 0) (f64_lit 1) (f64_lit (1 / 100)),
      optionalMeasurement ''electrical'' ''energy'' ''kilowatt-hour'' False (f64_lit 0) (f64_lit 1000000000) (f64_lit
        (1 / 1000))]"

definition filterParameters :: "model_parameter list" where
  "filterParameters =
     [optionalMeasurement ''filter'' ''life-level'' ''percent'' False (f64_lit 0) (f64_lit 100) (f64_lit 1),
      optional ''filter'' ''change-indication'' ValueTypeBool [] False [],
      optionalInt ''filter'' ''used-time'' ''hour'' False (f64_lit 0) (f64_lit 1000000) (f64_lit 1),
      optionalInt ''filter'' ''remaining-time'' ''hour'' False (f64_lit 0) (f64_lit 1000000) (f64_lit 1)]"

definition TypeSwitch :: string where
  "TypeSwitch = ''switch''"

definition TypeTemperatureSensor :: string where
  "TypeTemperatureSensor = ''temperature-sensor''"

definition TypeHumiditySensor :: string where
  "TypeHumiditySensor = ''humidity-sensor''"

definition TypeTemperatureHumiditySensor :: string where
  "TypeTemperatureHumiditySensor = ''temperature-humidity-sensor''"

definition TypePressureSensor :: string where
  "TypePressureSensor = ''pressure-sensor''"

definition TypeNoiseSensor :: string where
  "TypeNoiseSensor = ''noise-sensor''"

definition TypeWaterLevelSensor :: string where
  "TypeWaterLevelSensor = ''water-level-sensor''"

definition TypeSoilMoistureSensor :: string where
  "TypeSoilMoistureSensor = ''soil-moisture-sensor''"

definition TypeLightbulb :: string where
  "TypeLightbulb = ''lightbulb''"

definition TypeOutlet :: string where
  "TypeOutlet = ''outlet''"

definition TypeNetworkDevice :: string where
  "TypeNetworkDevice = ''network-device''"

definition TypeContactSensor :: string where
  "TypeContactSensor = ''contact-sensor''"

definition TypeMotionSensor :: string where
  "TypeMotionSensor = ''motion-sensor''"

definition TypeFan :: string where
  "TypeFan = ''fan''"

definition TypeAirPurifier :: string where
  "TypeAirPurifier = ''air-purifier''"

definition TypeWindowCovering :: string where
  "TypeWindowCovering = ''window-covering''"

definition TypeIlluminanceSensor :: string where
  "TypeIlluminanceSensor = ''illuminance-sensor''"

definition TypeOccupancySensor :: string where
  "TypeOccupancySensor = ''occupancy-sensor''"

definition TypeLeakSensor :: string where
  "TypeLeakSensor = ''leak-sensor''"

definition TypeSmokeSensor :: string where
  "TypeSmokeSensor = ''smoke-sensor''"

definition TypeCarbonMonoxideSensor :: string where
  "TypeCarbonMonoxideSensor = ''carbon-monoxide-sensor''"

definition TypeCarbonDioxideSensor :: string where
  "TypeCarbonDioxideSensor = ''carbon-dioxide-sensor''"

definition TypeAirQualitySensor :: string where
  "TypeAirQualitySensor = ''air-quality-sensor''"

definition TypeThermostat :: string where
  "TypeThermostat = ''thermostat''"

definition TypeAirConditioner :: string where
  "TypeAirConditioner = ''air-conditioner''"

definition TypeHeaterCooler :: string where
  "TypeHeaterCooler = ''heater-cooler''"

definition TypeHumidifierDehumidifier :: string where
  "TypeHumidifierDehumidifier = ''humidifier-dehumidifier''"

definition TypeLock :: string where
  "TypeLock = ''lock''"

definition TypeGarageDoor :: string where
  "TypeGarageDoor = ''garage-door''"

definition TypeSecuritySystem :: string where
  "TypeSecuritySystem = ''security-system''"

definition TypeValve :: string where
  "TypeValve = ''valve''"

definition TypePump :: string where
  "TypePump = ''pump''"

definition TypeWaterHeater :: string where
  "TypeWaterHeater = ''water-heater''"

definition TypePowerMeter :: string where
  "TypePowerMeter = ''power-meter''"

definition TypeEVCharger :: string where
  "TypeEVCharger = ''ev-charger''"

definition TypeSpeaker :: string where
  "TypeSpeaker = ''speaker''"

definition TypeTelevision :: string where
  "TypeTelevision = ''television''"

definition TypeCamera :: string where
  "TypeCamera = ''camera''"

definition TypeRobotVacuum :: string where
  "TypeRobotVacuum = ''robot-vacuum''"

definition contractSwitch :: model_contract where
  "contractSwitch = model_of TypeSwitch 2
     ([required ''switch'' ''power'' ValueTypeBool True,
       optional ''switch'' ''in-use'' ValueTypeBool [] False [],
       optional ''switch'' ''lock-physical-controls'' ValueTypeBool [] True [],
       optional ''status'' ''fault'' ValueTypeBool [] False []])"

definition contractLightbulb :: model_contract where
  "contractLightbulb = model_of TypeLightbulb 2
     ([required ''switch'' ''power'' ValueTypeBool True,
       optionalMeasurement ''light'' ''brightness'' ''percent'' True (f64_lit 0) (f64_lit 100) (f64_lit 1),
       optionalInt ''light'' ''color-temperature'' ''mired'' True (f64_lit 50) (f64_lit 1000) (f64_lit 1),
       optionalMeasurement ''light'' ''hue'' ''degree'' True (f64_lit 0) (f64_lit 360) (f64_lit (1 / 10)),
       optionalMeasurement ''light'' ''saturation'' ''percent'' True (f64_lit 0) (f64_lit 100) (f64_lit (1 / 10)),
       optionalEnum ''light'' ''color-mode'' False [''brightness'', ''color-temperature'', ''color''],
       optionalEnum ''light'' ''effect'' True [''none'', ''reading'', ''night'', ''color-loop'', ''custom''],
       optional ''light'' ''adaptive-lighting'' ValueTypeBool [] True [],
       optional ''status'' ''fault'' ValueTypeBool [] False []])"

definition contractOutlet :: model_contract where
  "contractOutlet = model_of TypeOutlet 2
     ([required ''switch'' ''power'' ValueTypeBool True,
       optional ''outlet'' ''in-use'' ValueTypeBool [] False [],
       optional ''outlet'' ''overload'' ValueTypeBool [] False [],
       optional ''outlet'' ''lock-physical-controls'' ValueTypeBool [] True []] @ electricalParameters)"

definition contractTemperatureSensor :: model_contract where
  "contractTemperatureSensor = model_of TypeTemperatureSensor 1
     ([requiredMeasurement ''temperature'' ''current-temperature'' ''celsius'' (f64_lit (- 100)) (f64_lit 200)
         (f64_lit (1 / 10)),
       optionalMeasurement ''temperature'' ''minimum-temperature'' ''celsius'' False (f64_lit (- 100)) (f64_lit 200)
         (f64_lit (1 / 10)),
       optionalMeasurement ''temperature'' ''maximum-temperature'' ''celsius'' False (f64_lit (- 100)) (f64_lit 200)
         (f64_lit (1 / 10))] @ sensorHealthParameters)"

definition contractHumiditySensor :: model_contract where
  "contractHumiditySensor = model_of TypeHumiditySensor 1
     ([requiredMeasurement ''humidity'' ''current-humidity'' ''percent'' (f64_lit 0) (f64_lit 100) (f64_lit (1 / 10)),
       optionalMeasurement ''humidity'' ''minimum-humidity'' ''percent'' False (f64_lit 0) (f64_lit 100) (f64_lit (1
         / 10)),
       optionalMeasurement ''humidity'' ''maximum-humidity'' ''percent'' False (f64_lit 0) (f64_lit 100) (f64_lit (1
         / 10))] @ sensorHealthParameters)"

definition contractTemperatureHumiditySensor :: model_contract where
  "contractTemperatureHumiditySensor = model_of TypeTemperatureHumiditySensor 2
     ([requiredMeasurement ''temperature'' ''current-temperature'' ''celsius'' (f64_lit (- 100)) (f64_lit 200)
         (f64_lit (1 / 10)),
       requiredMeasurement ''humidity'' ''current-humidity'' ''percent'' (f64_lit 0) (f64_lit 100) (f64_lit (1 / 10)),
       optionalMeasurement ''temperature'' ''dew-point'' ''celsius'' False (f64_lit (- 100)) (f64_lit 100) (f64_lit
         (1 / 10)),
       optionalMeasurement ''humidity'' ''absolute-humidity'' ''gram-per-cubic-meter'' False (f64_lit 0) (f64_lit
         1000) (f64_lit (1 / 10))] @ sensorHealthParameters)"

definition contractPressureSensor :: model_contract where
  "contractPressureSensor = model_of TypePressureSensor 1
     ([requiredMeasurement ''pressure'' ''current-pressure'' ''hectopascal'' (f64_lit 0) (f64_lit 2000) (f64_lit (1 /
         10)),
       optionalEnum ''pressure'' ''trend'' False [''falling'', ''steady'', ''rising'']] @ sensorHealthParameters)"

definition contractNoiseSensor :: model_contract where
  "contractNoiseSensor = model_of TypeNoiseSensor 1
     ([requiredMeasurement ''noise'' ''current-level'' ''decibel'' (f64_lit 0) (f64_lit 200) (f64_lit (1 / 10)),
       optionalMeasurement ''noise'' ''peak-level'' ''decibel'' False (f64_lit 0) (f64_lit 200) (f64_lit (1 / 10))] @
         sensorHealthParameters)"

definition contractWaterLevelSensor :: model_contract where
  "contractWaterLevelSensor = model_of TypeWaterLevelSensor 1
     ([requiredMeasurement ''water-level'' ''current-level'' ''percent'' (f64_lit 0) (f64_lit 100) (f64_lit (1 / 10)),
       optional ''water-level'' ''low'' ValueTypeBool [] False [],
       optional ''water-level'' ''overflow'' ValueTypeBool [] False []] @ sensorHealthParameters)"

definition contractSoilMoistureSensor :: model_contract where
  "contractSoilMoistureSensor = model_of TypeSoilMoistureSensor 1
     ([requiredMeasurement ''soil-moisture'' ''current-moisture'' ''percent'' (f64_lit 0) (f64_lit 100) (f64_lit (1 /
         10)),
       optionalMeasurement ''soil-moisture'' ''conductivity'' ''microsiemens-per-centimeter'' False (f64_lit 0)
         (f64_lit 100000) (f64_lit 1),
       optionalMeasurement ''temperature'' ''current-temperature'' ''celsius'' False (f64_lit (- 100)) (f64_lit 200)
         (f64_lit (1 / 10))] @ sensorHealthParameters)"

definition contractNetworkDevice :: model_contract where
  "contractNetworkDevice = model_of TypeNetworkDevice 2
     ([required ''switch'' ''power'' ValueTypeBool True,
       optional ''network'' ''wake-pending'' ValueTypeBool [] False []])"

definition contractContactSensor :: model_contract where
  "contractContactSensor = model_of TypeContactSensor 2
     ([required ''contact'' ''contact-detected'' ValueTypeBool False,
       optionalInt ''contact'' ''open-duration'' ''second'' False (f64_lit 0) (f64_lit 31536000) (f64_lit 1),
       optionalInt ''contact'' ''event-count'' ''count'' False (f64_lit 0) (f64_lit 1000000000) (f64_lit 1)] @
         sensorHealthParameters)"

definition contractMotionSensor :: model_contract where
  "contractMotionSensor = model_of TypeMotionSensor 2
     ([required ''motion'' ''motion-detected'' ValueTypeBool False,
       optionalEnum ''motion'' ''sensitivity'' True [''low'', ''medium'', ''high''],
       optionalInt ''motion'' ''clear-after'' ''second'' True (f64_lit 0) (f64_lit 86400) (f64_lit 1),
       optionalMeasurement ''illuminance'' ''current-illuminance'' ''lux'' False (f64_lit 0) (f64_lit 100000)
         (f64_lit (1 / 10))] @ sensorHealthParameters)"

definition contractFan :: model_contract where
  "contractFan = model_of TypeFan 2
     ([required ''fan'' ''active'' ValueTypeBool True,
       requiredEnum ''fan'' ''current-state'' False [''inactive'', ''idle'', ''blowing-air''],
       optional ''fan'' ''target-state'' ValueTypeEnum [] True [''manual'', ''auto''],
       optionalMeasurement ''fan'' ''rotation-speed'' ''percent'' True (f64_lit 0) (f64_lit 100) (f64_lit 1),
       optionalEnum ''fan'' ''speed-level'' True [''auto'', ''low'', ''medium'', ''high'', ''turbo''],
       optional ''fan'' ''swing-mode'' ValueTypeBool [] True [],
       optional ''fan'' ''rotation-direction'' ValueTypeEnum [] True [''clockwise'', ''counter-clockwise''],
       optional ''fan'' ''lock-physical-controls'' ValueTypeBool [] True [],
       optionalInt ''fan'' ''set-duration'' ''second'' True (f64_lit 0) (f64_lit 86400) (f64_lit 1),
       optionalInt ''fan'' ''remaining-duration'' ''second'' False (f64_lit 0) (f64_lit 86400) (f64_lit 1),
       optional ''status'' ''fault'' ValueTypeBool [] False []])"

definition contractAirPurifier :: model_contract where
  "contractAirPurifier = model_of TypeAirPurifier 2
     ([required ''air-purifier'' ''active'' ValueTypeBool True,
       requiredEnum ''air-purifier'' ''current-state'' False [''inactive'', ''idle'', ''purifying-air''],
       optional ''air-purifier'' ''target-state'' ValueTypeEnum [] True [''manual'', ''auto''],
       optionalMeasurement ''air-purifier'' ''rotation-speed'' ''percent'' True (f64_lit 0) (f64_lit 100) (f64_lit 1),
       optional ''air-purifier'' ''swing-mode'' ValueTypeBool [] True [],
       optional ''air-purifier'' ''lock-physical-controls'' ValueTypeBool [] True [],
       optional ''air-quality'' ''current-air-quality'' ValueTypeEnum [] False [''unknown'', ''excellent'', ''good'',
         ''fair'', ''inferior'', ''poor''],
       optionalMeasurement ''air-quality'' ''pm2.5-density'' ''microgram-per-cubic-meter'' False (f64_lit 0) (f64_lit
         10000) (f64_lit (1 / 10)),
       optionalMeasurement ''air-quality'' ''pm10-density'' ''microgram-per-cubic-meter'' False (f64_lit 0) (f64_lit
         10000) (f64_lit (1 / 10)),
       optionalMeasurement ''air-quality'' ''voc-density'' ''microgram-per-cubic-meter'' False (f64_lit 0) (f64_lit
         100000) (f64_lit (1 / 10)),
       optionalMeasurement ''air-quality'' ''carbon-dioxide-level'' ''ppm'' False (f64_lit 0) (f64_lit 100000)
         (f64_lit 1),
       optionalMeasurement ''temperature'' ''current-temperature'' ''celsius'' False (f64_lit (- 100)) (f64_lit 200)
         (f64_lit (1 / 10)),
       optionalMeasurement ''humidity'' ''current-humidity'' ''percent'' False (f64_lit 0) (f64_lit 100) (f64_lit (1
         / 10)),
       optionalInt ''air-purifier'' ''set-duration'' ''second'' True (f64_lit 0) (f64_lit 86400) (f64_lit 1),
       optionalInt ''air-purifier'' ''remaining-duration'' ''second'' False (f64_lit 0) (f64_lit 86400) (f64_lit 1),
       optional ''status'' ''fault'' ValueTypeBool [] False []] @ filterParameters)"

definition contractWindowCovering :: model_contract where
  "contractWindowCovering = model_of TypeWindowCovering 2
     ([requiredInt ''window-covering'' ''current-position'' ''percent'' False (f64_lit 0) (f64_lit 100) (f64_lit 1),
       requiredInt ''window-covering'' ''target-position'' ''percent'' True (f64_lit 0) (f64_lit 100) (f64_lit 1),
       requiredEnum ''window-covering'' ''position-state'' False [''decreasing'', ''increasing'', ''stopped''],
       optional ''window-covering'' ''obstruction-detected'' ValueTypeBool [] False [],
       optionalInt ''window-covering'' ''current-horizontal-tilt'' ''degree'' False (f64_lit (- 90)) (f64_lit 90)
         (f64_lit 1),
       optionalInt ''window-covering'' ''target-horizontal-tilt'' ''degree'' True (f64_lit (- 90)) (f64_lit 90)
         (f64_lit 1),
       optionalInt ''window-covering'' ''current-vertical-tilt'' ''degree'' False (f64_lit (- 90)) (f64_lit 90)
         (f64_lit 1),
       optionalInt ''window-covering'' ''target-vertical-tilt'' ''degree'' True (f64_lit (- 90)) (f64_lit 90)
         (f64_lit 1),
       optional ''window-covering'' ''hold-position'' ValueTypeBool [] True [],
       optional ''status'' ''fault'' ValueTypeBool [] False []])"

definition contractIlluminanceSensor :: model_contract where
  "contractIlluminanceSensor = model_of TypeIlluminanceSensor 2
     ([requiredMeasurement ''illuminance'' ''current-illuminance'' ''lux'' (f64_lit 0) (f64_lit 100000) (f64_lit (1 /
         10)),
       optionalMeasurement ''illuminance'' ''minimum-illuminance'' ''lux'' False (f64_lit 0) (f64_lit 100000)
         (f64_lit (1 / 10)),
       optionalMeasurement ''illuminance'' ''maximum-illuminance'' ''lux'' False (f64_lit 0) (f64_lit 100000)
         (f64_lit (1 / 10))] @ sensorHealthParameters)"

definition contractOccupancySensor :: model_contract where
  "contractOccupancySensor = model_of TypeOccupancySensor 2
     ([required ''occupancy'' ''occupancy-detected'' ValueTypeBool False,
       optionalInt ''occupancy'' ''person-count'' ''count'' False (f64_lit 0) (f64_lit 1000) (f64_lit 1),
       optionalEnum ''occupancy'' ''sensitivity'' True [''low'', ''medium'', ''high''],
       optionalInt ''occupancy'' ''clear-after'' ''second'' True (f64_lit 0) (f64_lit 86400) (f64_lit 1)] @
         sensorHealthParameters)"

definition contractLeakSensor :: model_contract where
  "contractLeakSensor = model_of TypeLeakSensor 2
     ([required ''leak'' ''leak-detected'' ValueTypeBool False,
       optionalMeasurement ''water-level'' ''current-level'' ''millimeter'' False (f64_lit 0) (f64_lit 100000)
         (f64_lit (1 / 10))] @ sensorHealthParameters)"

definition contractSmokeSensor :: model_contract where
  "contractSmokeSensor = model_of TypeSmokeSensor 2
     ([required ''smoke'' ''smoke-detected'' ValueTypeBool False,
       optionalMeasurement ''smoke'' ''density'' ''percent'' False (f64_lit 0) (f64_lit 100) (f64_lit (1 / 10))] @
         sensorHealthParameters)"

definition contractCarbonMonoxideSensor :: model_contract where
  "contractCarbonMonoxideSensor = model_of TypeCarbonMonoxideSensor 2
     ([required ''carbon-monoxide'' ''detected'' ValueTypeBool False,
       optionalMeasurement ''carbon-monoxide'' ''current-level'' ''ppm'' False (f64_lit 0) (f64_lit 10000) (f64_lit
         (1 / 10)),
       optionalMeasurement ''carbon-monoxide'' ''peak-level'' ''ppm'' False (f64_lit 0) (f64_lit 10000) (f64_lit (1 /
         10))] @ sensorHealthParameters)"

definition contractCarbonDioxideSensor :: model_contract where
  "contractCarbonDioxideSensor = model_of TypeCarbonDioxideSensor 2
     ([required ''carbon-dioxide'' ''detected'' ValueTypeBool False,
       optionalMeasurement ''carbon-dioxide'' ''current-level'' ''ppm'' False (f64_lit 0) (f64_lit 100000) (f64_lit 1),
       optionalMeasurement ''carbon-dioxide'' ''peak-level'' ''ppm'' False (f64_lit 0) (f64_lit 100000) (f64_lit 1)]
         @ sensorHealthParameters)"

definition contractAirQualitySensor :: model_contract where
  "contractAirQualitySensor = model_of TypeAirQualitySensor 2
     ([requiredEnum ''air-quality'' ''current-air-quality'' False [''unknown'', ''excellent'', ''good'', ''fair'',
         ''inferior'', ''poor''],
       optionalMeasurement ''air-quality'' ''index'' ''aqi'' False (f64_lit 0) (f64_lit 1000) (f64_lit 1),
       optionalMeasurement ''air-quality'' ''pm2.5-density'' ''microgram-per-cubic-meter'' False (f64_lit 0) (f64_lit
         10000) (f64_lit (1 / 10)),
       optionalMeasurement ''air-quality'' ''pm10-density'' ''microgram-per-cubic-meter'' False (f64_lit 0) (f64_lit
         10000) (f64_lit (1 / 10)),
       optionalMeasurement ''air-quality'' ''voc-density'' ''microgram-per-cubic-meter'' False (f64_lit 0) (f64_lit
         100000) (f64_lit (1 / 10)),
       optionalMeasurement ''air-quality'' ''carbon-monoxide-level'' ''ppm'' False (f64_lit 0) (f64_lit 10000)
         (f64_lit (1 / 10)),
       optionalMeasurement ''air-quality'' ''carbon-dioxide-level'' ''ppm'' False (f64_lit 0) (f64_lit 100000)
         (f64_lit 1),
       optionalMeasurement ''air-quality'' ''nitrogen-dioxide-density'' ''microgram-per-cubic-meter'' False (f64_lit
         0) (f64_lit 10000) (f64_lit (1 / 10)),
       optionalMeasurement ''air-quality'' ''ozone-density'' ''microgram-per-cubic-meter'' False (f64_lit 0) (f64_lit
         10000) (f64_lit (1 / 10)),
       optionalMeasurement ''temperature'' ''current-temperature'' ''celsius'' False (f64_lit (- 100)) (f64_lit 200)
         (f64_lit (1 / 10)),
       optionalMeasurement ''humidity'' ''current-humidity'' ''percent'' False (f64_lit 0) (f64_lit 100) (f64_lit (1
         / 10))] @ sensorHealthParameters)"

definition contractThermostat :: model_contract where
  "contractThermostat = model_of TypeThermostat 2
     ([requiredEnum ''thermostat'' ''current-state'' False [''off'', ''heating'', ''cooling'', ''idle''],
       requiredEnum ''thermostat'' ''target-mode'' True [''off'', ''heat'', ''cool'', ''auto''],
       requiredMeasurement ''temperature'' ''current-temperature'' ''celsius'' (f64_lit (- 100)) (f64_lit 200)
         (f64_lit (1 / 10)),
       requiredWritableMeasurement ''temperature'' ''target-temperature'' ''celsius'' (f64_lit 5) (f64_lit 35)
         (f64_lit (1 / 10)),
       optionalMeasurement ''temperature'' ''heating-threshold'' ''celsius'' True (f64_lit 5) (f64_lit 35) (f64_lit
         (1 / 10)),
       optionalMeasurement ''temperature'' ''cooling-threshold'' ''celsius'' True (f64_lit 5) (f64_lit 35) (f64_lit
         (1 / 10)),
       optionalMeasurement ''humidity'' ''current-humidity'' ''percent'' False (f64_lit 0) (f64_lit 100) (f64_lit (1
         / 10)),
       optional ''thermostat'' ''display-units'' ValueTypeEnum [] True [''celsius'', ''fahrenheit''],
       optionalEnum ''thermostat'' ''fan-mode'' True [''auto'', ''on'', ''circulate''],
       optional ''thermostat'' ''hold'' ValueTypeBool [] True [],
       optional ''thermostat'' ''lock-physical-controls'' ValueTypeBool [] True [],
       optional ''status'' ''fault'' ValueTypeBool [] False []])"

definition contractAirConditioner :: model_contract where
  "contractAirConditioner = model_of TypeAirConditioner 3
     ([required ''air-conditioner'' ''active'' ValueTypeBool True,
       optionalEnum ''air-conditioner'' ''current-state'' False [''off'', ''idle'', ''cooling'', ''heating'',
         ''drying'', ''fan-only''],
       requiredEnum ''air-conditioner'' ''target-mode'' True [''off'', ''auto'', ''cool'', ''heat'', ''dry'', ''fan''],
       optionalMeasurement ''temperature'' ''current-temperature'' ''celsius'' False (f64_lit (- 100)) (f64_lit 200)
         (f64_lit (1 / 10)),
       requiredWritableMeasurement ''temperature'' ''target-temperature'' ''celsius'' (f64_lit 16) (f64_lit 32)
         (f64_lit (5 / 10)),
       optionalEnum ''air-conditioner'' ''fan-speed'' True [''auto'', ''low'', ''medium_low'', ''medium'',
         ''medium_high'', ''high'', ''turbo'', ''quiet''],
       optionalMeasurement ''air-conditioner'' ''rotation-speed'' ''percent'' True (f64_lit 0) (f64_lit 100) (f64_lit
         1),
       optional ''air-conditioner'' ''vertical-swing'' ValueTypeBool [] True [],
       optional ''air-conditioner'' ''horizontal-swing'' ValueTypeBool [] True [],
       optionalEnum ''air-conditioner'' ''vertical-swing-mode'' True [''default'', ''swing_full'', ''fixed_upmost'',
         ''fixed_middle_up'', ''fixed_middle'', ''fixed_middle_low'', ''fixed_lowest'', ''swing_downmost'',
         ''swing_middle_low'', ''swing_middle'', ''swing_middle_up'', ''swing_upmost''],
       optionalEnum ''air-conditioner'' ''horizontal-swing-mode'' True [''default'', ''swing_full'',
         ''fixed_leftmost'', ''fixed_middle_left'', ''fixed_middle'', ''fixed_middle_right'', ''fixed_rightmost''],
       optionalEnum ''air-conditioner'' ''wind-direction'' True [''auto'', ''up'', ''middle'', ''down''],
       optional ''air-conditioner'' ''auxiliary-heat'' ValueTypeBool [] True [],
       optional ''air-conditioner'' ''eight-degree-heat'' ValueTypeBool [] True [],
       optional ''air-conditioner'' ''sleep-mode'' ValueTypeBool [] True [],
       optional ''air-conditioner'' ''sleep'' ValueTypeBool [] True [],
       optional ''air-conditioner'' ''eco-mode'' ValueTypeBool [] True [],
       optional ''air-conditioner'' ''power-save'' ValueTypeBool [] True [],
       optional ''air-conditioner'' ''x-fan'' ValueTypeBool [] True [],
       optional ''air-conditioner'' ''health'' ValueTypeBool [] True [],
       optional ''air-conditioner'' ''air'' ValueTypeBool [] True [],
       optional ''air-conditioner'' ''display-enabled'' ValueTypeBool [] True [],
       optional ''air-conditioner'' ''anti-direct-blow'' ValueTypeBool [] True [],
       optional ''air-conditioner'' ''light-sensor'' ValueTypeBool [] True [],
       optional ''air-conditioner'' ''beeper'' ValueTypeBool [] True [],
       optional ''air-conditioner'' ''auto-x-fan'' ValueTypeBool [] True [],
       optional ''air-conditioner'' ''auto-light'' ValueTypeBool [] True [],
       optionalMeasurement ''humidity'' ''current-humidity'' ''percent'' False (f64_lit 0) (f64_lit 100) (f64_lit (1
         / 10)),
       optionalMeasurement ''temperature'' ''outside-temperature'' ''celsius'' False (f64_lit (- 100)) (f64_lit 200)
         (f64_lit (1 / 10)),
       optional ''air-conditioner'' ''display-units'' ValueTypeEnum [] True [''celsius'', ''fahrenheit''],
       optional ''air-conditioner'' ''fault'' ValueTypeString [] False [],
       optionalInt ''air-conditioner'' ''set-duration'' ''second'' True (f64_lit 0) (f64_lit 86400) (f64_lit 1),
       optionalInt ''air-conditioner'' ''remaining-duration'' ''second'' False (f64_lit 0) (f64_lit 86400) (f64_lit
         1)] @ filterParameters)"

definition contractHeaterCooler :: model_contract where
  "contractHeaterCooler = model_of TypeHeaterCooler 2
     ([required ''heater-cooler'' ''active'' ValueTypeBool True,
       requiredEnum ''heater-cooler'' ''current-state'' False [''inactive'', ''idle'', ''heating'', ''cooling''],
       requiredEnum ''heater-cooler'' ''target-state'' True [''auto'', ''heat'', ''cool''],
       requiredMeasurement ''temperature'' ''current-temperature'' ''celsius'' (f64_lit (- 100)) (f64_lit 200)
         (f64_lit (1 / 10)),
       optionalMeasurement ''temperature'' ''heating-threshold'' ''celsius'' True (f64_lit 5) (f64_lit 35) (f64_lit
         (1 / 10)),
       optionalMeasurement ''temperature'' ''cooling-threshold'' ''celsius'' True (f64_lit 5) (f64_lit 35) (f64_lit
         (1 / 10)),
       optionalMeasurement ''heater-cooler'' ''rotation-speed'' ''percent'' True (f64_lit 0) (f64_lit 100) (f64_lit 1),
       optional ''heater-cooler'' ''swing-mode'' ValueTypeBool [] True [],
       optional ''heater-cooler'' ''lock-physical-controls'' ValueTypeBool [] True [],
       optionalInt ''heater-cooler'' ''set-duration'' ''second'' True (f64_lit 0) (f64_lit 86400) (f64_lit 1),
       optionalInt ''heater-cooler'' ''remaining-duration'' ''second'' False (f64_lit 0) (f64_lit 86400) (f64_lit 1),
       optional ''status'' ''fault'' ValueTypeBool [] False []])"

definition contractHumidifierDehumidifier :: model_contract where
  "contractHumidifierDehumidifier = model_of TypeHumidifierDehumidifier 2
     ([required ''humidifier-dehumidifier'' ''active'' ValueTypeBool True,
       requiredEnum ''humidifier-dehumidifier'' ''current-state'' False [''inactive'', ''idle'', ''humidifying'',
         ''dehumidifying''],
       requiredEnum ''humidifier-dehumidifier'' ''target-state'' True [''auto'', ''humidify'', ''dehumidify''],
       requiredMeasurement ''humidity'' ''current-humidity'' ''percent'' (f64_lit 0) (f64_lit 100) (f64_lit (1 / 10)),
       requiredWritableMeasurement ''humidity'' ''target-humidity'' ''percent'' (f64_lit 0) (f64_lit 100) (f64_lit 1),
       optionalMeasurement ''humidifier-dehumidifier'' ''water-level'' ''percent'' False (f64_lit 0) (f64_lit 100)
         (f64_lit 1),
       optional ''humidifier-dehumidifier'' ''water-shortage'' ValueTypeBool [] False [],
       optional ''humidifier-dehumidifier'' ''lock-physical-controls'' ValueTypeBool [] True [],
       optionalMeasurement ''humidifier-dehumidifier'' ''rotation-speed'' ''percent'' True (f64_lit 0) (f64_lit 100)
         (f64_lit 1),
       optionalInt ''humidifier-dehumidifier'' ''set-duration'' ''second'' True (f64_lit 0) (f64_lit 86400) (f64_lit 1),
       optional ''status'' ''fault'' ValueTypeBool [] False []] @ filterParameters)"

definition contractLock :: model_contract where
  "contractLock = model_of TypeLock 2
     ([requiredEnum ''lock'' ''current-state'' False [''unsecured'', ''secured'', ''jammed'', ''unknown''],
       requiredEnum ''lock'' ''target-state'' True [''unsecured'', ''secured''],
       optional ''lock'' ''jammed'' ValueTypeBool [] False [],
       optional ''lock'' ''door-open'' ValueTypeBool [] False [],
       optionalEnum ''lock'' ''last-operation'' False [''lock'', ''unlock'', ''auto-lock'', ''key'', ''inside'',
         ''unknown''],
       optional ''lock'' ''lock-physical-controls'' ValueTypeBool [] True []] @ sensorHealthParameters)"

definition contractGarageDoor :: model_contract where
  "contractGarageDoor = model_of TypeGarageDoor 2
     ([requiredEnum ''garage-door'' ''current-state'' False [''open'', ''closed'', ''opening'', ''closing'',
         ''stopped'', ''unknown''],
       requiredEnum ''garage-door'' ''target-state'' True [''open'', ''closed''],
       optional ''garage-door'' ''obstruction-detected'' ValueTypeBool [] False [],
       optional ''garage-door'' ''lock-current-state'' ValueTypeEnum [] False [''unsecured'', ''secured'',
         ''jammed'', ''unknown''],
       optional ''garage-door'' ''lock-target-state'' ValueTypeEnum [] True [''unsecured'', ''secured''],
       optional ''status'' ''fault'' ValueTypeBool [] False []])"

definition contractSecuritySystem :: model_contract where
  "contractSecuritySystem = model_of TypeSecuritySystem 2
     ([requiredEnum ''security-system'' ''current-state'' False [''stay-arm'', ''away-arm'', ''night-arm'',
         ''disarmed'', ''triggered''],
       requiredEnum ''security-system'' ''target-state'' True [''stay-arm'', ''away-arm'', ''night-arm'', ''disarmed''],
       optional ''security-system'' ''alarm-type'' ValueTypeEnum [] False [''none'', ''unknown'', ''burglar'',
         ''fire'', ''water'', ''panic''],
       optional ''security-system'' ''siren-active'' ValueTypeBool [] True [],
       optionalInt ''security-system'' ''exit-delay'' ''second'' True (f64_lit 0) (f64_lit 3600) (f64_lit 1),
       optionalInt ''security-system'' ''entry-delay'' ''second'' True (f64_lit 0) (f64_lit 3600) (f64_lit 1),
       optional ''security'' ''tampered'' ValueTypeBool [] False [],
       optional ''status'' ''fault'' ValueTypeBool [] False []])"

definition contractValve :: model_contract where
  "contractValve = model_of TypeValve 2
     ([required ''valve'' ''active'' ValueTypeBool True,
       required ''valve'' ''in-use'' ValueTypeBool False,
       requiredEnum ''valve'' ''valve-type'' False [''generic'', ''irrigation'', ''shower'', ''faucet''],
       optionalInt ''valve'' ''set-duration'' ''second'' True (f64_lit 0) (f64_lit 86400) (f64_lit 1),
       optionalInt ''valve'' ''remaining-duration'' ''second'' False (f64_lit 0) (f64_lit 86400) (f64_lit 1),
       optionalMeasurement ''valve'' ''position'' ''percent'' True (f64_lit 0) (f64_lit 100) (f64_lit 1),
       optionalMeasurement ''flow'' ''current-flow'' ''liter-per-minute'' False (f64_lit 0) (f64_lit 100000) (f64_lit
         (1 / 10)),
       optionalMeasurement ''flow'' ''total-volume'' ''liter'' False (f64_lit 0) (f64_lit 1000000000) (f64_lit (1 /
         10)),
       optional ''status'' ''fault'' ValueTypeBool [] False []])"

definition contractPump :: model_contract where
  "contractPump = model_of TypePump 1
     ([required ''pump'' ''active'' ValueTypeBool True,
       requiredEnum ''pump'' ''current-state'' False [''inactive'', ''starting'', ''running'', ''stopping'', ''fault''],
       optionalMeasurement ''pump'' ''speed'' ''percent'' True (f64_lit 0) (f64_lit 100) (f64_lit 1),
       optionalMeasurement ''flow'' ''current-flow'' ''liter-per-minute'' False (f64_lit 0) (f64_lit 100000) (f64_lit
         (1 / 10)),
       optionalMeasurement ''pressure'' ''current-pressure'' ''kilopascal'' False (f64_lit 0) (f64_lit 100000)
         (f64_lit (1 / 10)),
       optionalInt ''pump'' ''set-duration'' ''second'' True (f64_lit 0) (f64_lit 86400) (f64_lit 1),
       optionalInt ''pump'' ''remaining-duration'' ''second'' False (f64_lit 0) (f64_lit 86400) (f64_lit 1),
       optional ''status'' ''fault'' ValueTypeBool [] False []])"

definition contractWaterHeater :: model_contract where
  "contractWaterHeater = model_of TypeWaterHeater 1
     ([required ''water-heater'' ''active'' ValueTypeBool True,
       requiredEnum ''water-heater'' ''current-state'' False [''inactive'', ''idle'', ''heating'', ''keeping-warm'',
         ''fault''],
       requiredMeasurement ''temperature'' ''current-temperature'' ''celsius'' (f64_lit 0) (f64_lit 100) (f64_lit (1
         / 10)),
       requiredWritableMeasurement ''temperature'' ''target-temperature'' ''celsius'' (f64_lit 5) (f64_lit 100)
         (f64_lit (5 / 10)),
       optionalEnum ''water-heater'' ''mode'' True [''standard'', ''eco'', ''boost'', ''vacation''],
       optionalMeasurement ''water-heater'' ''water-level'' ''percent'' False (f64_lit 0) (f64_lit 100) (f64_lit 1),
       optionalInt ''water-heater'' ''remaining-time'' ''second'' False (f64_lit 0) (f64_lit 86400) (f64_lit 1),
       optional ''water-heater'' ''lock-physical-controls'' ValueTypeBool [] True [],
       optional ''status'' ''fault'' ValueTypeBool [] False []])"

definition contractPowerMeter :: model_contract where
  "contractPowerMeter = model_of TypePowerMeter 1
     ([requiredMeasurement ''electrical'' ''current-power'' ''watt'' (f64_lit 0) (f64_lit 1000000000) (f64_lit (1 /
         10)),
       optionalEnum ''electrical'' ''power-flow'' False [''importing'', ''exporting'', ''idle''],
       optionalMeasurement ''electrical'' ''reactive-power'' ''var'' False (f64_lit (- 1000000000)) (f64_lit
         1000000000) (f64_lit (1 / 10)),
       optionalMeasurement ''electrical'' ''apparent-power'' ''volt-ampere'' False (f64_lit 0) (f64_lit 1000000000)
         (f64_lit (1 / 10))] @ drop 1 electricalParameters @ sensorHealthParameters)"

definition contractEVCharger :: model_contract where
  "contractEVCharger = model_of TypeEVCharger 1
     ([required ''ev-charger'' ''active'' ValueTypeBool True,
       requiredEnum ''ev-charger'' ''current-state'' False [''disconnected'', ''connected'', ''charging'',
         ''paused'', ''complete'', ''fault''],
       optionalMeasurement ''ev-charger'' ''target-current'' ''ampere'' True (f64_lit 0) (f64_lit 1000) (f64_lit (1 /
         10)),
       optionalMeasurement ''ev-charger'' ''session-energy'' ''kilowatt-hour'' False (f64_lit 0) (f64_lit 1000000)
         (f64_lit (1 / 1000)),
       optionalInt ''ev-charger'' ''session-duration'' ''second'' False (f64_lit 0) (f64_lit 31536000) (f64_lit 1),
       optionalInt ''ev-charger'' ''remaining-duration'' ''second'' False (f64_lit 0) (f64_lit 31536000) (f64_lit 1),
       optional ''ev-charger'' ''cable-locked'' ValueTypeBool [] False [],
       optional ''status'' ''fault'' ValueTypeBool [] False []] @ electricalParameters)"

definition contractSpeaker :: model_contract where
  "contractSpeaker = model_of TypeSpeaker 2
     ([required ''speaker'' ''active'' ValueTypeBool True,
       requiredWritableMeasurement ''speaker'' ''volume'' ''percent'' (f64_lit 0) (f64_lit 100) (f64_lit 1),
       required ''speaker'' ''mute'' ValueTypeBool True,
       optionalEnum ''speaker'' ''current-media-state'' False [''playing'', ''paused'', ''stopped'', ''loading'',
         ''interrupted''],
       optionalEnum ''speaker'' ''target-media-state'' True [''play'', ''pause'', ''stop''],
       optional ''speaker'' ''input-source'' ValueTypeString [] True [],
       optional ''speaker'' ''title'' ValueTypeString [] False [],
       optional ''speaker'' ''artist'' ValueTypeString [] False [],
       optionalInt ''speaker'' ''position'' ''second'' True (f64_lit 0) (f64_lit 31536000) (f64_lit 1),
       optionalInt ''speaker'' ''duration'' ''second'' False (f64_lit 0) (f64_lit 31536000) (f64_lit 1),
       optional ''speaker'' ''shuffle'' ValueTypeBool [] True [],
       optionalEnum ''speaker'' ''repeat'' True [''off'', ''one'', ''all'']])"

definition contractTelevision :: model_contract where
  "contractTelevision = model_of TypeTelevision 2
     ([required ''television'' ''active'' ValueTypeBool True,
       requiredWritableMeasurement ''television'' ''volume'' ''percent'' (f64_lit 0) (f64_lit 100) (f64_lit 1),
       requiredEnum ''television'' ''target-media-state'' True [''play'', ''pause'', ''stop''],
       requiredEnum ''television'' ''remote-key'' True [''select'', ''up'', ''down'', ''left'', ''right'', ''exit'',
         ''back'', ''info'', ''play'', ''pause'', ''stop'', ''rewind'', ''fast-forward'', ''next'', ''previous'',
         ''power'', ''volume-up'', ''volume-down'', ''mute''],
       optionalEnum ''television'' ''current-media-state'' False [''playing'', ''paused'', ''stopped'', ''loading'',
         ''interrupted'']])"

definition contractCamera :: model_contract where
  "contractCamera = model_of TypeCamera 2
     ([optional ''camera'' ''privacy'' ValueTypeBool [] True [],
       optional ''camera'' ''indicator'' ValueTypeBool [] True [],
       optionalEnum ''camera'' ''night-vision'' True [''off'', ''on'', ''auto''],
       optional ''camera'' ''motion-detection'' ValueTypeBool [] True [],
       optional ''camera'' ''motion-detected'' ValueTypeBool [] False [],
       optional ''media'' ''live-stream'' ValueTypeBool [] False [],
       optional ''media'' ''snapshot'' ValueTypeBool [] False [],
       optional ''media'' ''microphone'' ValueTypeBool [] False [],
       optional ''media'' ''talkback'' ValueTypeBool [] False [],
       optionalEnum ''ptz'' ''movement'' True [''stop'', ''up'', ''down'', ''left'', ''right'', ''up-left'',
         ''up-right'', ''down-left'', ''down-right''],
       optionalInt ''ptz'' ''movement-speed'' ''percent'' True (f64_lit 1) (f64_lit 100) (f64_lit 1),
       optionalMeasurement ''ptz'' ''pan-position'' ''degree'' True (f64_lit (- 360)) (f64_lit 360) (f64_lit (1 / 10)),
       optionalMeasurement ''ptz'' ''tilt-position'' ''degree'' True (f64_lit (- 180)) (f64_lit 180) (f64_lit (1 / 10)),
       optionalMeasurement ''ptz'' ''zoom-level'' ''percent'' True (f64_lit 0) (f64_lit 100) (f64_lit 1),
       optional ''ptz'' ''current-preset'' ValueTypeString [] False [],
       optional ''ptz'' ''target-preset'' ValueTypeString [] True [],
       optionalInt ''ptz'' ''preset-count'' ''count'' False (f64_lit 0) (f64_lit 1000) (f64_lit 1)] @
         batteryLevelParameters)"

definition contractRobotVacuum :: model_contract where
  "contractRobotVacuum = model_of TypeRobotVacuum 2
     ([required ''robot-vacuum'' ''active'' ValueTypeBool True,
       requiredEnum ''robot-vacuum'' ''current-state'' False [''idle'', ''cleaning'', ''paused'', ''returning'',
         ''charging'', ''error''],
       requiredEnum ''robot-vacuum'' ''target-mode'' True [''vacuum'', ''mop'', ''vacuum-and-mop'', ''spot''],
       optionalMeasurement ''robot-vacuum'' ''cleaning-progress'' ''percent'' False (f64_lit 0) (f64_lit 100)
         (f64_lit 1),
       optionalMeasurement ''robot-vacuum'' ''fan-speed'' ''percent'' True (f64_lit 0) (f64_lit 100) (f64_lit 1),
       optional ''robot-vacuum'' ''fault'' ValueTypeString [] False [],
       optional ''battery'' ''charging'' ValueTypeBool [] False [],
       optionalInt ''battery'' ''level'' ''percent'' False (f64_lit 0) (f64_lit 100) (f64_lit 1),
       optional ''battery'' ''low'' ValueTypeBool [] False [],
       optionalMeasurement ''robot-vacuum'' ''cleaned-area'' ''square-meter'' False (f64_lit 0) (f64_lit 100000)
         (f64_lit (1 / 10)),
       optionalInt ''robot-vacuum'' ''cleaning-time'' ''second'' False (f64_lit 0) (f64_lit 31536000) (f64_lit 1),
       optionalMeasurement ''robot-vacuum'' ''water-level'' ''percent'' True (f64_lit 0) (f64_lit 100) (f64_lit 1),
       optional ''robot-vacuum'' ''mop-attached'' ValueTypeBool [] False [],
       optional ''robot-vacuum'' ''dust-bin-present'' ValueTypeBool [] False []] @ filterParameters)"

definition modelContracts :: "(string, model_contract) gomap" where
  "modelContracts =
     [(TypeSwitch, contractSwitch),
      (TypeLightbulb, contractLightbulb),
      (TypeOutlet, contractOutlet),
      (TypeTemperatureSensor, contractTemperatureSensor),
      (TypeHumiditySensor, contractHumiditySensor),
      (TypeTemperatureHumiditySensor, contractTemperatureHumiditySensor),
      (TypePressureSensor, contractPressureSensor),
      (TypeNoiseSensor, contractNoiseSensor),
      (TypeWaterLevelSensor, contractWaterLevelSensor),
      (TypeSoilMoistureSensor, contractSoilMoistureSensor),
      (TypeNetworkDevice, contractNetworkDevice),
      (TypeContactSensor, contractContactSensor),
      (TypeMotionSensor, contractMotionSensor),
      (TypeFan, contractFan),
      (TypeAirPurifier, contractAirPurifier),
      (TypeWindowCovering, contractWindowCovering),
      (TypeIlluminanceSensor, contractIlluminanceSensor),
      (TypeOccupancySensor, contractOccupancySensor),
      (TypeLeakSensor, contractLeakSensor),
      (TypeSmokeSensor, contractSmokeSensor),
      (TypeCarbonMonoxideSensor, contractCarbonMonoxideSensor),
      (TypeCarbonDioxideSensor, contractCarbonDioxideSensor),
      (TypeAirQualitySensor, contractAirQualitySensor),
      (TypeThermostat, contractThermostat),
      (TypeAirConditioner, contractAirConditioner),
      (TypeHeaterCooler, contractHeaterCooler),
      (TypeHumidifierDehumidifier, contractHumidifierDehumidifier),
      (TypeLock, contractLock),
      (TypeGarageDoor, contractGarageDoor),
      (TypeSecuritySystem, contractSecuritySystem),
      (TypeValve, contractValve),
      (TypePump, contractPump),
      (TypeWaterHeater, contractWaterHeater),
      (TypePowerMeter, contractPowerMeter),
      (TypeEVCharger, contractEVCharger),
      (TypeSpeaker, contractSpeaker),
      (TypeTelevision, contractTelevision),
      (TypeCamera, contractCamera),
      (TypeRobotVacuum, contractRobotVacuum)]"

lemmas contract_defs = contractSwitch_def contractLightbulb_def contractOutlet_def contractTemperatureSensor_def
  contractHumiditySensor_def contractTemperatureHumiditySensor_def contractPressureSensor_def contractNoiseSensor_def
  contractWaterLevelSensor_def contractSoilMoistureSensor_def contractNetworkDevice_def contractContactSensor_def
  contractMotionSensor_def contractFan_def contractAirPurifier_def contractWindowCovering_def
  contractIlluminanceSensor_def contractOccupancySensor_def contractLeakSensor_def contractSmokeSensor_def
  contractCarbonMonoxideSensor_def contractCarbonDioxideSensor_def contractAirQualitySensor_def
  contractThermostat_def contractAirConditioner_def contractHeaterCooler_def contractHumidifierDehumidifier_def
  contractLock_def contractGarageDoor_def contractSecuritySystem_def contractValve_def contractPump_def
  contractWaterHeater_def contractPowerMeter_def contractEVCharger_def contractSpeaker_def contractTelevision_def
  contractCamera_def contractRobotVacuum_def

lemmas type_defs = TypeSwitch_def TypeTemperatureSensor_def TypeHumiditySensor_def TypeTemperatureHumiditySensor_def
  TypePressureSensor_def TypeNoiseSensor_def TypeWaterLevelSensor_def TypeSoilMoistureSensor_def TypeLightbulb_def
  TypeOutlet_def TypeNetworkDevice_def TypeContactSensor_def TypeMotionSensor_def TypeFan_def TypeAirPurifier_def
  TypeWindowCovering_def TypeIlluminanceSensor_def TypeOccupancySensor_def TypeLeakSensor_def TypeSmokeSensor_def
  TypeCarbonMonoxideSensor_def TypeCarbonDioxideSensor_def TypeAirQualitySensor_def TypeThermostat_def
  TypeAirConditioner_def TypeHeaterCooler_def TypeHumidifierDehumidifier_def TypeLock_def TypeGarageDoor_def
  TypeSecuritySystem_def TypeValve_def TypePump_def TypeWaterHeater_def TypePowerMeter_def TypeEVCharger_def
  TypeSpeaker_def TypeTelevision_def TypeCamera_def TypeRobotVacuum_def


end
