(* ===== verification/Model_Contract.thy ===== *)
theory Model_Contract
  imports Model_Table
begin

text \<open>
  The operations on the contracts of the unified device model,
  \<open>internal/domain/device/model_contract.go\<close>: looking up contracts, the publisher boundary
  (\<open>NormalizeModelParameters\<close>, \<open>Validate\<close>) and the consumer boundary (\<open>ProjectForConsumer\<close>).

  A nil index (an unknown device type) is \<open>None\<close>. An error carries the data its message is
  formatted from.
\<close>

declare map_of_eq_Some_iff [simp del] Some_eq_map_of_iff [simp del]

section \<open>Looking up contracts\<close>

definition path_key :: "parameter_path \<Rightarrow> string" where
  "path_key p = path_EndpointID p @ NUL # path_CapabilityID p @ NUL # path_PropertyID p"

definition path_string :: "parameter_path \<Rightarrow> string" where
  "path_string p = path_EndpointID p @ ''/'' @ path_CapabilityID p @ ''/'' @ path_PropertyID p"

definition parameterIndex :: "string \<Rightarrow> (string, model_parameter) gomap option" where
  "parameterIndex deviceType =
     (case gm_get modelContracts deviceType of
        None \<Rightarrow> None
      | Some contract \<Rightarrow>
          Some (fold (\<lambda>parameter result. gm_put (path_key (mp_Path parameter)) parameter result)
            (mc_Parameters contract) []))"

definition index_get :: "(string, model_parameter) gomap option \<Rightarrow> string \<Rightarrow> model_parameter option" where
  "index_get index key = (case index of None \<Rightarrow> None | Some m \<Rightarrow> gm_get m key)"

definition modelContracts_list :: "model_contract list" where
  "modelContracts_list =
     sort_slice (\<lambda>a b. mc_DeviceType a < mc_DeviceType b)
       (map (\<lambda>(_, contract). (withCustomPolicy contract)\<lparr>mc_BuiltIn := True\<rparr>) modelContracts)"

definition modelContractFor :: "string \<Rightarrow> model_contract option" where
  "modelContractFor deviceType =
     (case gm_get modelContracts deviceType of
        None \<Rightarrow> None
      | Some contract \<Rightarrow> Some ((withCustomPolicy contract)\<lparr>mc_BuiltIn := True\<rparr>))"

section \<open>The publisher boundary\<close>

datatype publisher_error = PU_CustomLevel parameter_path parameter_level
  | PU_Level parameter_path parameter_level parameter_level
  | PU_Type parameter_path value_type value_type
  | PU_Missing parameter_path

text \<open>The properties of a device in the order of the nested loops, with their paths.\<close>

definition capability_entries :: "string \<Rightarrow> capability \<Rightarrow> (parameter_path \<times> property) list" where
  "capability_entries endpointID c =
     map (\<lambda>p. (model_path endpointID (cap_ID c) (pd_ID (prop_Definition p)), p)) (cap_Properties c)"

definition device_entries :: "device \<Rightarrow> (parameter_path \<times> property) list" where
  "device_entries d =
     concat (map (\<lambda>e. concat (map (capability_entries (ep_ID e)) (ep_Capabilities e))) (dev_Endpoints d))"

fun check_published :: "(string, model_parameter) gomap \<Rightarrow> (parameter_path \<times> property) list \<Rightarrow> string list \<Rightarrow>
    publisher_error + string list" where
  "check_published index [] found = Inr found"
| "check_published index ((path, p) # rest) found =
     (let level = pd_ParameterLevel (prop_Definition p)
      in case gm_get index (path_key path) of
           None \<Rightarrow>
             if level \<noteq> ParameterLevelOther [] \<and> level \<noteq> ParameterCustom then Inl (PU_CustomLevel path level)
             else check_published index rest found
         | Some parameter \<Rightarrow>
             if level \<noteq> ParameterLevelOther [] \<and> level \<noteq> mp_Level parameter
             then Inl (PU_Level path level (mp_Level parameter))
             else if pd_Type (prop_Definition p) \<noteq> mp_Type parameter
             then Inl (PU_Type path (pd_Type (prop_Definition p)) (mp_Type parameter))
             else check_published index rest (path_key path # found))"

text \<open>Which of several missing parameters is reported depends on the order of the map; the model takes the first.\<close>

definition validatePublisherModel :: "device \<Rightarrow> publisher_error option" where
  "validatePublisherModel d =
     (case parameterIndex (dev_Type d) of
        None \<Rightarrow> None
      | Some index \<Rightarrow>
          (case check_published index (device_entries d) [] of
             Inl e \<Rightarrow> Some e
           | Inr found \<Rightarrow>
               (case find (\<lambda>(key, parameter). mp_Level parameter = ParameterRequired \<and> key \<notin> set found) index of
                  None \<Rightarrow> None
                | Some (key, parameter) \<Rightarrow> Some (PU_Missing (mp_Path parameter)))))"

datatype validate_error = DV_Structure model_error | DV_InvalidModel publisher_error

definition device_validate :: "device \<Rightarrow> validate_error option" where
  "device_validate d =
     (case validateStructure d of
        Some e \<Rightarrow> Some (DV_Structure e)
      | None \<Rightarrow> map_option DV_InvalidModel (validatePublisherModel d))"

definition normalize_property :: "(string, model_parameter) gomap option \<Rightarrow> string \<Rightarrow> string \<Rightarrow> property \<Rightarrow> property" where
  "normalize_property index endpointID capabilityID p =
     p\<lparr>prop_Definition := (prop_Definition p)\<lparr>pd_ParameterLevel :=
       (case index_get index (path_key (model_path endpointID capabilityID (pd_ID (prop_Definition p)))) of
          Some parameter \<Rightarrow> mp_Level parameter
        | None \<Rightarrow> ParameterCustom)\<rparr>\<rparr>"

definition normalize_capability :: "(string, model_parameter) gomap option \<Rightarrow> string \<Rightarrow> capability \<Rightarrow> capability" where
  "normalize_capability index endpointID c =
     c\<lparr>cap_Properties := map (normalize_property index endpointID (cap_ID c)) (cap_Properties c)\<rparr>"

definition normalize_endpoint :: "(string, model_parameter) gomap option \<Rightarrow> endpoint \<Rightarrow> endpoint" where
  "normalize_endpoint index e =
     e\<lparr>ep_Capabilities := map (normalize_capability index (ep_ID e)) (ep_Capabilities e)\<rparr>"

text \<open>The device is changed in place, also when the validation that follows fails.\<close>

definition normalizeModelParameters :: "device \<Rightarrow> device \<times> validate_error option" where
  "normalizeModelParameters d =
     (let d = d\<lparr>dev_Endpoints := map (normalize_endpoint (parameterIndex (dev_Type d))) (dev_Endpoints d)\<rparr>
      in (d, device_validate d))"

section \<open>The consumer boundary\<close>

record consumer_mapping =
  cm_Source :: parameter_path
  cm_DefaultModelPath :: parameter_path
  cm_Target :: string
  cm_Level :: parameter_level

record consumer_contract =
  cc_ConsumerID :: string
  cc_DeviceType :: string
  cc_Parameters :: "consumer_mapping list"

record mapped_parameter =
  mapped_Source :: parameter_path
  mapped_Target :: string
  mapped_Level :: parameter_level
  mapped_Property :: property

record consumer_projection =
  pj_ConsumerID :: string
  pj_DeviceID :: string
  pj_Parameters :: "mapped_parameter list"
  pj_MissingOptional :: "parameter_path list"

datatype projection_error = PJ_DeviceType string | PJ_InvalidMapping parameter_path
  | PJ_Requires string parameter_path | PJ_StandardAsCustom parameter_path | PJ_CustomAsStandard parameter_path

definition consumer_model_path :: "consumer_mapping \<Rightarrow> parameter_path" where
  "consumer_model_path m =
     (if path_EndpointID (cm_DefaultModelPath m) \<noteq> [] \<or> path_CapabilityID (cm_DefaultModelPath m) \<noteq> [] \<or>
         path_PropertyID (cm_DefaultModelPath m) \<noteq> []
      then cm_DefaultModelPath m else cm_Source m)"

definition property_at :: "device \<Rightarrow> parameter_path \<Rightarrow> property option" where
  "property_at d path = device_property d (path_EndpointID path) (path_CapabilityID path) (path_PropertyID path)"

fun project_mappings :: "string \<Rightarrow> device \<Rightarrow> consumer_mapping list \<Rightarrow> mapped_parameter list \<Rightarrow> parameter_path list \<Rightarrow>
    projection_error + (mapped_parameter list \<times> parameter_path list)" where
  "project_mappings consumerID item [] parameters missing = Inr (parameters, missing)"
| "project_mappings consumerID item (m # ms) parameters missing =
     (if cm_Target m = [] \<or> (cm_Level m \<noteq> ParameterRequired \<and> cm_Level m \<noteq> ParameterOptional \<and> cm_Level m \<noteq> ParameterCustom)
      then Inl (PJ_InvalidMapping (cm_Source m))
      else case property_at item (cm_Source m) of
             None \<Rightarrow>
               if cm_Level m = ParameterRequired then Inl (PJ_Requires consumerID (cm_Source m))
               else project_mappings consumerID item ms parameters (missing @ [cm_Source m])
           | Some p \<Rightarrow>
               (let standard = index_get (parameterIndex (dev_Type item)) (path_key (consumer_model_path m)) \<noteq> None
                in if cm_Level m = ParameterCustom \<and> standard then Inl (PJ_StandardAsCustom (cm_Source m))
                   else if cm_Level m \<noteq> ParameterCustom \<and> \<not> standard then Inl (PJ_CustomAsStandard (cm_Source m))
                   else project_mappings consumerID item ms
                     (parameters @ [\<lparr>mapped_Source = cm_Source m, mapped_Target = cm_Target m,
                        mapped_Level = cm_Level m, mapped_Property = p\<rparr>]) missing))"

definition projectForConsumer :: "device \<Rightarrow> consumer_contract \<Rightarrow> projection_error + consumer_projection" where
  "projectForConsumer item contract =
     (if cc_ConsumerID contract = [] \<or> cc_DeviceType contract \<noteq> dev_Type item then Inl (PJ_DeviceType (dev_Type item))
      else case project_mappings (cc_ConsumerID contract) item (cc_Parameters contract) [] [] of
             Inl e \<Rightarrow> Inl e
           | Inr (parameters, missing) \<Rightarrow>
               Inr \<lparr>pj_ConsumerID = cc_ConsumerID contract, pj_DeviceID = dev_ID item, pj_Parameters = parameters,
                 pj_MissingOptional = missing\<rparr>)"

section \<open>Lemmas\<close>

subsection \<open>The tables\<close>

lemmas parameter_defs = required_def requiredMeasurement_def requiredWritableMeasurement_def
  requiredEnum_def requiredInt_def optional_def optionalEnum_def optionalMeasurement_def optionalInt_def
  model_path_def role_def

lemmas table_defs = contract_defs model_of_def batteryLevelParameters_def batteryParameters_def
  sensorHealthParameters_def electricalParameters_def filterParameters_def

definition param_ids :: "model_parameter \<Rightarrow> string \<times> string" where
  "param_ids p = (path_CapabilityID (mp_Path p), path_PropertyID (mp_Path p))"

lemma param_ids_simps [simp]:
  "param_ids (required c p ty w) = (c, p)"
  "param_ids (requiredMeasurement c p u a b s) = (c, p)"
  "param_ids (requiredWritableMeasurement c p u a b s) = (c, p)"
  "param_ids (requiredEnum c p w vs) = (c, p)"
  "param_ids (requiredInt c p u w a b s) = (c, p)"
  "param_ids (optional c p ty u w vs) = (c, p)"
  "param_ids (optionalEnum c p w vs) = (c, p)"
  "param_ids (optionalMeasurement c p u w a b s) = (c, p)"
  "param_ids (optionalInt c p u w a b s) = (c, p)"
  by (simp_all add: param_ids_def parameter_defs)

lemma contracts_distinct: "list_all (\<lambda>(ty, c). distinct (map param_ids (mc_Parameters c))) modelContracts"
  by (simp add: modelContracts_def table_defs)

text \<open>What a row of the table has to be: the options belong to enums, the bounds to numbers, the roles to the level.\<close>

definition parameter_shape :: "model_parameter \<Rightarrow> bool" where
  "parameter_shape p \<longleftrightarrow>
     path_EndpointID (mp_Path p) = ''main'' \<and> mp_Readable p \<and> mp_Notifiable p \<and>
     (mp_Level p = ParameterRequired \<or> mp_Level p = ParameterOptional) \<and>
     role_Level (mp_Publisher p) = mp_Level p \<and> role_Level (mp_Consumer p) = mp_Level p \<and>
     (mp_Type p = ValueTypeEnum \<longleftrightarrow> mp_Enum p \<noteq> []) \<and> distinct (mp_Enum p) \<and>
     (mp_Min p \<noteq> None \<longrightarrow> mp_Type p = ValueTypeInt \<or> mp_Type p = ValueTypeNumber)"

lemma parameter_shape_simps [simp]:
  "parameter_shape (required c p ty w) \<longleftrightarrow> ty \<noteq> ValueTypeEnum"
  "parameter_shape (requiredMeasurement c p u a b s)"
  "parameter_shape (requiredWritableMeasurement c p u a b s)"
  "parameter_shape (requiredEnum c p w vs) \<longleftrightarrow> vs \<noteq> [] \<and> distinct vs"
  "parameter_shape (requiredInt c p u w a b s)"
  "parameter_shape (optional c p ty u w vs) \<longleftrightarrow> (ty = ValueTypeEnum \<longleftrightarrow> vs \<noteq> []) \<and> distinct vs"
  "parameter_shape (optionalEnum c p w vs) \<longleftrightarrow> vs \<noteq> [] \<and> distinct vs"
  "parameter_shape (optionalMeasurement c p u w a b s)"
  "parameter_shape (optionalInt c p u w a b s)"
  by (auto simp add: parameter_shape_def parameter_defs)

lemma contracts_shape: "list_all (\<lambda>(ty, c). list_all parameter_shape (mc_Parameters c)) modelContracts"
  by (simp add: modelContracts_def table_defs)

text \<open>The identifiers in the tables are stable identifiers.\<close>

lemma table_ids_valid:
  "list_all ValidStableID
     [''absolute-humidity'', ''active'', ''adaptive-lighting'', ''air'', ''air-conditioner'', ''air-purifier'',
      ''air-quality'', ''alarm-type'', ''anti-direct-blow'', ''apparent-power'', ''artist'', ''auto-light'',
      ''auto-x-fan'', ''auxiliary-heat'', ''battery'', ''beeper'', ''brightness'', ''cable-locked'',
      ''camera'', ''carbon-dioxide'', ''carbon-dioxide-level'', ''carbon-monoxide'',
      ''carbon-monoxide-level'', ''change-indication'', ''charging'', ''cleaned-area'', ''cleaning-progress'',
      ''cleaning-time'', ''clear-after'', ''color-mode'', ''color-temperature'', ''conductivity'',
      ''contact'', ''contact-detected'', ''cooling-threshold'', ''current'', ''current-air-quality'',
      ''current-flow'', ''current-horizontal-tilt'', ''current-humidity'', ''current-illuminance'',
      ''current-level'', ''current-media-state'', ''current-moisture'', ''current-position'',
      ''current-power'', ''current-preset'', ''current-pressure'', ''current-state'', ''current-temperature'',
      ''current-vertical-tilt'', ''density'', ''detected'', ''dew-point'', ''display-enabled'',
      ''display-units'', ''door-open'', ''duration'', ''dust-bin-present'', ''eco-mode'', ''effect'',
      ''eight-degree-heat'', ''electrical'', ''energy'', ''entry-delay'', ''ev-charger'', ''event-count'',
      ''exit-delay'', ''fan'', ''fan-mode'', ''fan-speed'', ''fault'', ''filter'', ''flow'', ''frequency'',
      ''garage-door'', ''health'', ''heater-cooler'', ''heating-threshold'', ''hold'', ''hold-position'',
      ''horizontal-swing'', ''horizontal-swing-mode'', ''hue'', ''humidifier-dehumidifier'', ''humidity'',
      ''illuminance'', ''in-use'', ''index'', ''indicator'', ''input-source'', ''jammed'', ''last-operation'',
      ''leak'', ''leak-detected'', ''level'', ''life-level'', ''light'', ''light-sensor'', ''live-stream'',
      ''lock'', ''lock-current-state'', ''lock-physical-controls'', ''lock-target-state'', ''low'',
      ''maximum-humidity'', ''maximum-illuminance'', ''maximum-temperature'', ''media'', ''microphone'',
      ''minimum-humidity'', ''minimum-illuminance'', ''minimum-temperature'', ''mode'', ''mop-attached'',
      ''motion'', ''motion-detected'', ''motion-detection'', ''movement'', ''movement-speed'', ''mute'',
      ''network'', ''night-vision'', ''nitrogen-dioxide-density'', ''noise'', ''obstruction-detected'',
      ''occupancy'', ''occupancy-detected'', ''open-duration'', ''outlet'', ''outside-temperature'',
      ''overflow'', ''overload'', ''ozone-density'', ''pan-position'', ''peak-level'', ''person-count'',
      ''pm10-density'', ''pm2.5-density'', ''position'', ''position-state'', ''power'', ''power-factor'',
      ''power-flow'', ''power-save'', ''preset-count'', ''pressure'', ''privacy'', ''ptz'', ''pump'',
      ''reactive-power'', ''remaining-duration'', ''remaining-time'', ''remote-key'', ''repeat'',
      ''robot-vacuum'', ''rotation-direction'', ''rotation-speed'', ''saturation'', ''security'',
      ''security-system'', ''sensitivity'', ''session-duration'', ''session-energy'', ''set-duration'',
      ''shuffle'', ''siren-active'', ''sleep'', ''sleep-mode'', ''smoke'', ''smoke-detected'', ''snapshot'',
      ''soil-moisture'', ''speaker'', ''speed'', ''speed-level'', ''status'', ''swing-mode'', ''switch'',
      ''talkback'', ''tampered'', ''target-current'', ''target-horizontal-tilt'', ''target-humidity'',
      ''target-media-state'', ''target-mode'', ''target-position'', ''target-preset'', ''target-state'',
      ''target-temperature'', ''target-vertical-tilt'', ''television'', ''temperature'', ''thermostat'',
      ''tilt-position'', ''title'', ''total-volume'', ''trend'', ''used-time'', ''valve'', ''valve-type'',
      ''vertical-swing'', ''vertical-swing-mode'', ''voc-density'', ''voltage'', ''volume'', ''wake-pending'',
      ''water-heater'', ''water-level'', ''water-shortage'', ''wind-direction'', ''window-covering'',
      ''x-fan'', ''zoom-level'']"
  by code_simp

lemma contracts_ids:
  "list_all (\<lambda>(ty, c). list_all (\<lambda>p. ValidStableID (fst (param_ids p)) \<and> ValidStableID (snd (param_ids p)))
     (mc_Parameters c)) modelContracts"
  using table_ids_valid by (simp add: modelContracts_def table_defs)

lemma contracts_types:
  "list_all (\<lambda>(ty, c). mc_DeviceType c = ty) modelContracts" "gm_ok modelContracts"
  by (simp_all add: modelContracts_def contract_defs model_of_def) (simp add: type_defs)

subsection \<open>The index of a contract\<close>

lemma edge_not_nul: "id_edge c \<Longrightarrow> c \<noteq> NUL"
  by (auto simp: id_edge_def in_range_def less_eq_char_def)

lemma stable_id_no_nul:
  assumes "ValidStableID s"
  shows "NUL \<notin> set s"
proof -
  have inner: "id_inner c \<Longrightarrow> c \<noteq> NUL" for c using edge_not_nul by (auto simp: id_inner_def)
  obtain c rest where s: "s = c # rest" using assms by (cases s) (simp_all add: ValidStableID_def)
  show ?thesis
  proof (cases "rest = []")
    case True
    then show ?thesis using assms edge_not_nul s by (auto simp: ValidStableID_def)
  next
    case False
    then have "set rest = insert (last rest) (set (butlast rest))"
      by (metis Un_insert_right append_butlast_last_id list.simps(15) set_append sup_bot_right list.set(1))
    moreover have "id_edge c" "id_edge (last rest)" "\<forall>x \<in> set (butlast rest). id_inner x"
      using assms s False by (simp_all add: ValidStableID_def list_all_iff)
    ultimately show ?thesis unfolding s using edge_not_nul inner by (metis insertE list.set_intros(1) set_ConsD)
  qed
qed

lemma path_key_inj:
  assumes "NUL \<notin> set (path_EndpointID p)" "NUL \<notin> set (path_CapabilityID p)"
    and "NUL \<notin> set (path_EndpointID q)" "NUL \<notin> set (path_CapabilityID q)" and "path_key p = path_key q"
  shows "p = q"
proof -
  from nul_join_inj [OF assms(1,3) assms(5) [unfolded path_key_def]]
  have "path_EndpointID p = path_EndpointID q"
    and "path_CapabilityID p @ NUL # path_PropertyID p = path_CapabilityID q @ NUL # path_PropertyID q" by auto
  with nul_join_inj [OF assms(2,4)] show ?thesis by (cases p; cases q) auto
qed

lemma index_fold:
  "gm_get (fold (\<lambda>p r. gm_put (path_key (mp_Path p)) p r) ps m) key =
     (case find (\<lambda>p. path_key (mp_Path p) = key) (rev ps) of Some p \<Rightarrow> Some p | None \<Rightarrow> gm_get m key)"
  by (induction ps rule: rev_induct) (auto simp: gm_get_put)

lemma index_ok: "parameterIndex ty = Some index \<Longrightarrow> gm_ok index"
proof -
  have "gm_ok m \<Longrightarrow> gm_ok (fold (\<lambda>p r. gm_put (path_key (mp_Path p)) p r) ps m)" for ps and m :: "(string, model_parameter) gomap"
    by (induction ps arbitrary: m) simp_all
  then show "parameterIndex ty = Some index \<Longrightarrow> gm_ok index"
    by (auto simp: parameterIndex_def split: option.splits)
qed

lemma index_sound:
  assumes "parameterIndex ty = Some index" and "gm_get index key = Some p"
  shows "\<exists>c. gm_get modelContracts ty = Some c \<and> p \<in> set (mc_Parameters c) \<and> path_key (mp_Path p) = key"
  using assms by (auto simp: parameterIndex_def index_fold split: option.splits dest!: find_SomeD)

text \<open>Facts about the parameters of one contract, from the facts about all of them.\<close>

lemma contract_facts:
  assumes "gm_get modelContracts ty = Some c"
  shows "mc_DeviceType c = ty" "distinct (map param_ids (mc_Parameters c))"
    and "p \<in> set (mc_Parameters c) \<Longrightarrow> parameter_shape p"
    and "p \<in> set (mc_Parameters c) \<Longrightarrow> ValidStableID (path_CapabilityID (mp_Path p)) \<and> ValidStableID (path_PropertyID (mp_Path p))"
  using gm_get_in_set [OF assms] contracts_types(1) contracts_distinct contracts_shape contracts_ids
  by (fastforce simp: list_all_iff param_ids_def)+

lemma contract_path_no_nul:
  assumes "gm_get modelContracts ty = Some c" and "p \<in> set (mc_Parameters c)"
  shows "NUL \<notin> set (path_EndpointID (mp_Path p))" "NUL \<notin> set (path_CapabilityID (mp_Path p))"
  using contract_facts(3,4) [OF assms] by (auto simp: parameter_shape_def dest: stable_id_no_nul)

lemma index_complete:
  assumes c: "gm_get modelContracts ty = Some c" and p: "p \<in> set (mc_Parameters c)"
  shows "index_get (parameterIndex ty) (path_key (mp_Path p)) = Some p"
proof -
  have uniq: "q = p" if q: "q \<in> set (mc_Parameters c)" and key: "path_key (mp_Path q) = path_key (mp_Path p)" for q
  proof -
    have "mp_Path q = mp_Path p"
      using contract_path_no_nul [OF c q] contract_path_no_nul [OF c p] key by (metis path_key_inj)
    then have "param_ids q = param_ids p" by (simp add: param_ids_def)
    with contract_facts(2) [OF c] q p show ?thesis by (meson distinct_map inj_onD)
  qed
  have "find (\<lambda>q. path_key (mp_Path q) = path_key (mp_Path p)) (rev (mc_Parameters c)) = Some p"
    using p uniq by (intro find_unique) auto
  then show ?thesis by (simp add: index_get_def parameterIndex_def c index_fold)
qed

subsection \<open>The properties of a device\<close>

lemma in_device_entries:
  "(path, p) \<in> set (device_entries d) \<longleftrightarrow>
     (\<exists>e \<in> set (dev_Endpoints d). \<exists>c \<in> set (ep_Capabilities e). p \<in> set (cap_Properties c) \<and>
        path = model_path (ep_ID e) (cap_ID c) (pd_ID (prop_Definition p)))"
  by (auto simp: device_entries_def capability_entries_def)

lemma find_property_SomeD: "find_property i ps = Some p \<Longrightarrow> p \<in> set ps \<and> pd_ID (prop_Definition p) = i"
  by (induction ps) (auto split: if_splits)

lemma find_in_capabilities_SomeD:
  "find_in_capabilities c i cs = Some p \<Longrightarrow> \<exists>k \<in> set cs. cap_ID k = c \<and> find_property i (cap_Properties k) = Some p"
  by (induction cs) (auto split: if_splits option.splits)

lemma find_in_endpoints_SomeD:
  "find_in_endpoints e c i es = Some p \<Longrightarrow> \<exists>k \<in> set es. ep_ID k = e \<and> find_in_capabilities c i (ep_Capabilities k) = Some p"
  by (induction es) (auto split: if_splits option.splits)

lemma property_at_entry: "property_at d path = Some p \<Longrightarrow> (path, p) \<in> set (device_entries d)"
  unfolding property_at_def device_property_def in_device_entries
  by (cases path) (fastforce simp: model_path_def dest!: find_in_endpoints_SomeD find_in_capabilities_SomeD find_property_SomeD)

lemma find_property_None: "find_property i ps = None \<Longrightarrow> p \<in> set ps \<Longrightarrow> pd_ID (prop_Definition p) \<noteq> i"
  by (induction ps) (auto split: if_splits)

lemma find_in_capabilities_None:
  "find_in_capabilities c i cs = None \<Longrightarrow> k \<in> set cs \<Longrightarrow> cap_ID k = c \<Longrightarrow> find_property i (cap_Properties k) = None"
  by (induction cs) (auto split: if_splits option.splits)

lemma find_in_endpoints_None:
  "find_in_endpoints e c i es = None \<Longrightarrow> k \<in> set es \<Longrightarrow> ep_ID k = e \<Longrightarrow> find_in_capabilities c i (ep_Capabilities k) = None"
  by (induction es) (auto split: if_splits option.splits)

lemma entry_property_at:
  assumes "(path, p) \<in> set (device_entries d)"
  shows "\<exists>p'. property_at d path = Some p'"
proof (rule ccontr)
  assume "\<nexists>p'. property_at d path = Some p'"
  then have none: "find_in_endpoints (path_EndpointID path) (path_CapabilityID path) (path_PropertyID path) (dev_Endpoints d) = None"
    by (simp add: property_at_def device_property_def)
  from assms obtain e c where e: "e \<in> set (dev_Endpoints d)" "c \<in> set (ep_Capabilities e)" "p \<in> set (cap_Properties c)"
    and path: "path = model_path (ep_ID e) (cap_ID c) (pd_ID (prop_Definition p))" by (auto simp: in_device_entries)
  have "find_in_capabilities (cap_ID c) (pd_ID (prop_Definition p)) (ep_Capabilities e) = None"
    using find_in_endpoints_None [OF none e(1)] by (simp add: path model_path_def)
  from find_property_None [OF find_in_capabilities_None [OF this e(2) refl] e(3)] show False by simp
qed

lemma device_ok_entry:
  assumes "device_ok d" and "(path, p) \<in> set (device_entries d)"
  shows "property_validate p = None" "ValidStableID (path_EndpointID path)" "ValidStableID (path_CapabilityID path)"
  using assms unfolding in_device_entries device_ok_def endpoint_ok_def capability_ok_def ids_ok_def
  by (auto simp: model_path_def)

subsection \<open>Publishing\<close>

text \<open>One entry passes the checks of the loop.\<close>

definition entry_ok :: "(string, model_parameter) gomap \<Rightarrow> parameter_path \<times> property \<Rightarrow> bool" where
  "entry_ok index entry =
     (case entry of (path, p) \<Rightarrow>
       (case gm_get index (path_key path) of
          None \<Rightarrow> pd_ParameterLevel (prop_Definition p) \<in> {ParameterLevelOther [], ParameterCustom}
        | Some parameter \<Rightarrow> pd_ParameterLevel (prop_Definition p) \<in> {ParameterLevelOther [], mp_Level parameter} \<and>
            pd_Type (prop_Definition p) = mp_Type parameter))"

lemma check_published_Inr:
  "(\<exists>found'. check_published index es found = Inr found') \<longleftrightarrow> list_all (entry_ok index) es"
  by (induction index es found rule: check_published.induct) (auto simp: entry_ok_def Let_def split: option.splits)

lemma check_published_found:
  "check_published index es found = Inr found' \<Longrightarrow>
     set found' = set found \<union> {path_key path | path p. (path, p) \<in> set es \<and> gm_get index (path_key path) \<noteq> None}"
  by (induction index es found rule: check_published.induct) (auto simp: Let_def split: option.splits if_splits)

lemma validatePublisherModel_iff:
  "validatePublisherModel d = None \<longleftrightarrow>
     (case parameterIndex (dev_Type d) of
        None \<Rightarrow> True
      | Some index \<Rightarrow> list_all (entry_ok index) (device_entries d) \<and>
          (\<forall>(key, parameter) \<in> set index. mp_Level parameter = ParameterRequired \<longrightarrow>
             key \<in> {path_key path | path p. (path, p) \<in> set (device_entries d) \<and> gm_get index (path_key path) \<noteq> None}))"
proof (cases "parameterIndex (dev_Type d)")
  case (Some index)
  show ?thesis
  proof (cases "check_published index (device_entries d) []")
    case (Inl e)
    then have "\<not> list_all (entry_ok index) (device_entries d)" using check_published_Inr [of index "device_entries d" "[]"] by auto
    with Inl Some show ?thesis by (simp add: validatePublisherModel_def)
  next
    case (Inr found)
    then have all: "list_all (entry_ok index) (device_entries d)" using check_published_Inr [of index "device_entries d" "[]"] by auto
    have "find (\<lambda>(key, parameter). mp_Level parameter = ParameterRequired \<and> key \<notin> set found) index = None \<longleftrightarrow>
        (\<forall>(key, parameter) \<in> set index. mp_Level parameter = ParameterRequired \<longrightarrow> key \<in> set found)"
      by (auto simp: find_None_iff)
    with all Inr Some check_published_found [OF Inr] show ?thesis
      by (auto simp: validatePublisherModel_def split: option.splits)
  qed
qed (simp add: validatePublisherModel_def)

subsection \<open>Normalisation\<close>

lemma normalize_sel [simp]:
  "prop_Value (normalize_property index e c p) = prop_Value p"
  "pd_ID (prop_Definition (normalize_property index e c p)) = pd_ID (prop_Definition p)"
  "cap_ID (normalize_capability index e k) = cap_ID k" "ep_ID (normalize_endpoint index n) = ep_ID n"
  by (simp_all add: normalize_property_def normalize_capability_def normalize_endpoint_def)

lemma normalize_property_idem [simp]:
  "normalize_property index e c (normalize_property index e c p) = normalize_property index e c p"
  by (simp add: normalize_property_def)

lemma normalize_capability_idem [simp]:
  "normalize_capability index e (normalize_capability index e k) = normalize_capability index e k"
  by (simp add: normalize_capability_def o_def)

lemma normalize_endpoint_idem [simp]: "normalize_endpoint index (normalize_endpoint index n) = normalize_endpoint index n"
  by (simp add: normalize_endpoint_def o_def)

definition contract_level :: "string \<Rightarrow> parameter_path \<Rightarrow> parameter_level" where
  "contract_level ty path =
     (case index_get (parameterIndex ty) (path_key path) of Some parameter \<Rightarrow> mp_Level parameter | None \<Rightarrow> ParameterCustom)"

definition levelled :: "string \<Rightarrow> parameter_path \<times> property \<Rightarrow> bool" where
  "levelled ty entry = (case entry of (path, p) \<Rightarrow> pd_ParameterLevel (prop_Definition p) = contract_level ty path)"

lemma normalize_levelled: "list_all (levelled (dev_Type d)) (device_entries (fst (normalizeModelParameters d)))"
  unfolding list_all_iff
  by (auto simp: levelled_def in_device_entries normalizeModelParameters_def Let_def contract_level_def
      normalize_endpoint_def normalize_capability_def normalize_property_def)

lemma normalize_type [simp]: "dev_Type (fst (normalizeModelParameters d)) = dev_Type d"
  by (simp add: normalizeModelParameters_def Let_def)

lemma check_published_levelled:
  "check_published index es found = Inl e \<Longrightarrow> parameterIndex ty = Some index \<Longrightarrow> list_all (levelled ty) es \<Longrightarrow>
     \<exists>path a b. e = PU_Type path a b"
  by (induction index es found rule: check_published.induct)
    (auto simp: Let_def levelled_def contract_level_def index_get_def split: option.splits if_splits)

lemma levelled_publisher_error:
  assumes "validatePublisherModel d = Some e" and "list_all (levelled (dev_Type d)) (device_entries d)"
  shows "(\<exists>path a b. e = PU_Type path a b) \<or> (\<exists>path. e = PU_Missing path)"
proof (cases "parameterIndex (dev_Type d)")
  case (Some index)
  show ?thesis
  proof (cases "check_published index (device_entries d) []")
    case (Inl e')
    with assms(1) Some check_published_levelled [OF Inl Some assms(2)] show ?thesis
      by (auto simp: validatePublisherModel_def)
  next
    case (Inr found)
    with assms(1) Some show ?thesis by (auto simp: validatePublisherModel_def split: option.splits)
  qed
qed (use assms in \<open>simp add: validatePublisherModel_def\<close>)

lemma property_type_matches: "property_validate p = None \<Longrightarrow> pv_Type (prop_Value p) = pd_Type (prop_Definition p)"
  unfolding validate_iff by (auto simp: conforms_def split: value_type.splits)

text \<open>What a device that validates has published for a parameter of its contract.\<close>

lemma published_parameter:
  assumes valid: "device_validate d = None" and c: "gm_get modelContracts (dev_Type d) = Some c"
    and p: "p \<in> set (mc_Parameters c)"
  shows "mp_Level p = ParameterRequired \<Longrightarrow> property_at d (mp_Path p) \<noteq> None"
    and "property_at d (mp_Path p) = Some q \<Longrightarrow> pd_Type (prop_Definition q) = mp_Type p \<and> pv_Type (prop_Value q) = mp_Type p"
proof -
  have ok: "device_ok d" and pub: "validatePublisherModel d = None"
    using valid by (auto simp: device_validate_def validateStructure_iff [symmetric] split: option.splits)
  obtain index where index: "parameterIndex (dev_Type d) = Some index" using c by (simp add: parameterIndex_def)
  have get: "gm_get index (path_key (mp_Path p)) = Some p" using index_complete [OF c p] by (simp add: index_get_def index)
  have entries: "list_all (entry_ok index) (device_entries d)"
    using pub index by (simp add: validatePublisherModel_iff)
  show "pd_Type (prop_Definition q) = mp_Type p \<and> pv_Type (prop_Value q) = mp_Type p" if q: "property_at d (mp_Path p) = Some q"
    using property_at_entry [OF q] entries get device_ok_entry(1) [OF ok property_at_entry [OF q]]
    by (auto simp: list_all_iff entry_ok_def property_type_matches)
  show "property_at d (mp_Path p) \<noteq> None" if "mp_Level p = ParameterRequired"
  proof -
    have "path_key (mp_Path p) \<in> {path_key path | path q. (path, q) \<in> set (device_entries d) \<and> gm_get index (path_key path) \<noteq> None}"
      using pub index that gm_get_in_set [OF get] by (fastforce simp: validatePublisherModel_iff)
    then obtain path q where e: "(path, q) \<in> set (device_entries d)" and key: "path_key (mp_Path p) = path_key path" by blast
    have "mp_Path p = path"
      using contract_path_no_nul [OF c p] device_ok_entry(2,3) [OF ok e] key
      by (intro path_key_inj) (auto dest: stable_id_no_nul)
    with entry_property_at [OF e] show ?thesis by auto
  qed
qed

subsection \<open>Projection\<close>

text \<open>The rule for one mapping, and the projection it gives.\<close>

definition mapping_ok :: "device \<Rightarrow> consumer_mapping \<Rightarrow> bool" where
  "mapping_ok d m \<longleftrightarrow>
     cm_Target m \<noteq> [] \<and> cm_Level m \<in> {ParameterRequired, ParameterOptional, ParameterCustom} \<and>
     (case property_at d (cm_Source m) of
        None \<Rightarrow> cm_Level m \<noteq> ParameterRequired
      | Some _ \<Rightarrow> cm_Level m = ParameterCustom \<longleftrightarrow> index_get (parameterIndex (dev_Type d)) (path_key (consumer_model_path m)) = None)"

definition mapped_of :: "device \<Rightarrow> consumer_mapping \<Rightarrow> mapped_parameter option" where
  "mapped_of d m =
     map_option (\<lambda>p. \<lparr>mapped_Source = cm_Source m, mapped_Target = cm_Target m, mapped_Level = cm_Level m, mapped_Property = p\<rparr>)
       (property_at d (cm_Source m))"

definition projection_of :: "device \<Rightarrow> consumer_contract \<Rightarrow> consumer_projection" where
  "projection_of d c =
     \<lparr>pj_ConsumerID = cc_ConsumerID c, pj_DeviceID = dev_ID d,
      pj_Parameters = List.map_filter (mapped_of d) (cc_Parameters c),
      pj_MissingOptional = map cm_Source (filter (\<lambda>m. property_at d (cm_Source m) = None) (cc_Parameters c))\<rparr>"

lemma project_mappings_Inr:
  "project_mappings consumer d ms ps missing = Inr r \<longleftrightarrow> list_all (mapping_ok d) ms \<and>
     r = (ps @ List.map_filter (mapped_of d) ms, missing @ map cm_Source (filter (\<lambda>m. property_at d (cm_Source m) = None) ms))"
proof (induction ms arbitrary: ps missing)
  case (Cons m ms)
  show ?case
  proof (cases "property_at d (cm_Source m)")
    case None
    then have "mapping_ok d m \<longleftrightarrow> cm_Target m \<noteq> [] \<and> (cm_Level m = ParameterOptional \<or> cm_Level m = ParameterCustom)"
      and "mapped_of d m = None" by (auto simp: mapping_ok_def mapped_of_def)
    with None Cons show ?thesis by (auto simp: List.map_filter_simps)
  next
    case (Some p)
    then have "mapping_ok d m \<longleftrightarrow> cm_Target m \<noteq> [] \<and> cm_Level m \<in> {ParameterRequired, ParameterOptional, ParameterCustom} \<and>
        (cm_Level m = ParameterCustom \<longleftrightarrow> index_get (parameterIndex (dev_Type d)) (path_key (consumer_model_path m)) = None)"
      and "mapped_of d m = Some \<lparr>mapped_Source = cm_Source m, mapped_Target = cm_Target m, mapped_Level = cm_Level m, mapped_Property = p\<rparr>"
      by (auto simp: mapping_ok_def mapped_of_def)
    with Some Cons show ?thesis by (auto simp: List.map_filter_simps Let_def)
  qed
qed (auto simp: List.map_filter_simps)

section \<open>Properties\<close>

text \<open>Every built-in contract is registered under its own device type, no two rows of a contract have the same
  path, every identifier in it is a stable identifier, and every row is consistent: options exactly for enums and
  without repetition, bounds only for numbers, roles that agree with the level.\<close>

theorem contracts_well_formed:
  "gm_ok modelContracts \<and>
   list_all (\<lambda>(ty, c). mc_DeviceType c = ty \<and> distinct (map mp_Path (mc_Parameters c)) \<and>
     list_all (\<lambda>p. parameter_shape p \<and> ValidStableID (path_CapabilityID (mp_Path p)) \<and>
       ValidStableID (path_PropertyID (mp_Path p))) (mc_Parameters c)) modelContracts"
proof -
  have "distinct (map param_ids ps) \<Longrightarrow> distinct (map mp_Path ps)" for ps
    by (induction ps) (auto simp: param_ids_def)
  then show ?thesis
    using contracts_types contracts_distinct contracts_shape contracts_ids
    by (fastforce simp: list_all_iff param_ids_def)
qed

text \<open>C22. After a successful \<open>NormalizeModelParameters\<close> every required parameter of the contract of the device's
  type is published under its path, and every published parameter of the contract carries the contract's level
  and a value of the contract's type.\<close>

theorem published_contract:
  assumes "normalizeModelParameters d = (d', None)" and "modelContractFor (dev_Type d) = Some c"
    and "p \<in> set (mc_Parameters c)"
  shows "(mp_Level p = ParameterRequired \<longrightarrow> property_at d' (mp_Path p) \<noteq> None) \<and>
    (\<forall>q. property_at d' (mp_Path p) = Some q \<longrightarrow> pd_Type (prop_Definition q) = mp_Type p \<and>
       pv_Type (prop_Value q) = mp_Type p \<and> pd_ParameterLevel (prop_Definition q) = mp_Level p)"
proof -
  obtain c0 where c0: "gm_get modelContracts (dev_Type d) = Some c0" and p: "p \<in> set (mc_Parameters c0)"
    using assms(2,3) by (auto simp: modelContractFor_def withCustomPolicy_def split: option.splits)
  have d': "d' = fst (normalizeModelParameters d)" "device_validate d' = None"
    using assms(1) by (auto simp: normalizeModelParameters_def Let_def)
  have ty: "dev_Type d' = dev_Type d" using d'(1) by simp
  note pub = published_parameter [OF d'(2) c0 [folded ty] p]
  have "pd_ParameterLevel (prop_Definition q) = mp_Level p" if "property_at d' (mp_Path p) = Some q" for q
    using normalize_levelled [of d] property_at_entry [OF that] index_complete [OF c0 p]
    unfolding d'(1) list_all_iff levelled_def contract_level_def by auto
  with pub show ?thesis by blast
qed

text \<open>Normalising twice is normalising once; afterwards every property carries the level its contract gives
  its path, or custom, so the validation never complains about a level.\<close>

theorem normalize_stable:
  "normalizeModelParameters (fst (normalizeModelParameters d)) = normalizeModelParameters d \<and>
   list_all (levelled (dev_Type d)) (device_entries (fst (normalizeModelParameters d))) \<and>
   (case snd (normalizeModelParameters d) of
      Some (DV_InvalidModel e) \<Rightarrow> (\<exists>path a b. e = PU_Type path a b) \<or> (\<exists>path. e = PU_Missing path)
    | _ \<Rightarrow> True)"
proof -
  have idem: "normalizeModelParameters (fst (normalizeModelParameters d)) = normalizeModelParameters d"
    by (simp add: normalizeModelParameters_def Let_def o_def)
  have "snd (normalizeModelParameters d) = device_validate (fst (normalizeModelParameters d))"
    by (simp add: normalizeModelParameters_def Let_def)
  then have pub: "validatePublisherModel (fst (normalizeModelParameters d)) = Some e"
    if "snd (normalizeModelParameters d) = Some (DV_InvalidModel e)" for e
    using that by (cases "validatePublisherModel (fst (normalizeModelParameters d))")
      (simp_all add: device_validate_def split: option.splits)
  have "(\<exists>path a b. e = PU_Type path a b) \<or> (\<exists>path. e = PU_Missing path)"
    if "snd (normalizeModelParameters d) = Some (DV_InvalidModel e)" for e
    using levelled_publisher_error [OF pub [OF that]] normalize_levelled [of d] by simp
  with idem normalize_levelled [of d] show ?thesis by (auto split: option.splits validate_error.splits)
qed

text \<open>C34. \<open>ProjectForConsumer\<close> succeeds exactly when the consumer is named and made for the device's type, and every
  mapping has a target and a known level, is present if it is required, and is custom exactly when its model path is
  not in the contract; the result then lists the present properties in the order of the mappings, and the sources of
  the absent ones.\<close>

theorem projection_decides:
  "projectForConsumer d c = Inr r \<longleftrightarrow>
     cc_ConsumerID c \<noteq> [] \<and> cc_DeviceType c = dev_Type d \<and> list_all (mapping_ok d) (cc_Parameters c) \<and> r = projection_of d c"
  using project_mappings_Inr [of "cc_ConsumerID c" d "cc_Parameters c" "[]" "[]"]
  unfolding projectForConsumer_def projection_of_def
  by (cases "project_mappings (cc_ConsumerID c) d (cc_Parameters c) [] []") auto

section \<open>Witnesses\<close>

definition switch_power :: "parameter_level \<Rightarrow> property" where
  "switch_power level =
     \<lparr>prop_Definition = \<lparr>pd_ID = ''power'', pd_Name = ''Power'', pd_Type = ValueTypeBool, pd_ParameterLevel = level,
        pd_Unit = [], pd_Readable = True, pd_Writable = True, pd_Notifiable = True, pd_Min = None, pd_Max = None,
        pd_Step = None, pd_Enum = [], pd_StaleAfterSeconds = 0\<rparr>,
      prop_Value = BoolValue True, prop_StateTransport = StateTransportOther []\<rparr>"

definition switch_device :: "parameter_level \<Rightarrow> device" where
  "switch_device level = sample_device\<lparr>dev_Type := TypeSwitch, dev_Endpoints :=
     [\<lparr>ep_ID = ''main'', ep_Name = ''Main'', ep_Type = ''switch'', ep_Capabilities =
        [\<lparr>cap_ID = ''switch'', cap_Type = ''switch'', cap_Properties = [switch_power level], cap_Commands = [],
          cap_Events = []\<rparr>]\<rparr>]\<rparr>"

lemma switch_contract: "gm_get modelContracts TypeSwitch = Some contractSwitch"
  by (simp add: modelContracts_def)

lemma switch_index: "parameterIndex TypeSwitch = Some
    [(path_key (model_path ''main'' ''switch'' ''power''), required ''switch'' ''power'' ValueTypeBool True),
     (path_key (model_path ''main'' ''switch'' ''in-use''), optional ''switch'' ''in-use'' ValueTypeBool [] False []),
     (path_key (model_path ''main'' ''switch'' ''lock-physical-controls''),
       optional ''switch'' ''lock-physical-controls'' ValueTypeBool [] True []),
     (path_key (model_path ''main'' ''status'' ''fault''), optional ''status'' ''fault'' ValueTypeBool [] False [])]"
  unfolding parameterIndex_def switch_contract
  by (simp add: contractSwitch_def model_of_def required_def optional_def path_key_def model_path_def)

lemma switch_normalized:
  "normalizeModelParameters (switch_device (ParameterLevelOther [])) = (switch_device ParameterRequired, None)"
proof -
  have "fst (normalizeModelParameters (switch_device (ParameterLevelOther []))) = switch_device ParameterRequired"
    by (simp add: normalizeModelParameters_def Let_def switch_device_def switch_index normalize_endpoint_def
        normalize_capability_def normalize_property_def index_get_def switch_power_def)
      (simp add: required_def)
  moreover have "validateStructure (switch_device ParameterRequired) = None" by code_simp
  moreover have "validatePublisherModel (switch_device ParameterRequired) = None"
    unfolding validatePublisherModel_def
    by (simp add: switch_device_def switch_index device_entries_def capability_entries_def switch_power_def)
      (simp add: required_def optional_def)
  ultimately show ?thesis
    by (simp add: normalizeModelParameters_def Let_def device_validate_def)
qed

theorem published_contract_witness:
  "\<exists>q. property_at (switch_device ParameterRequired) (model_path ''main'' ''switch'' ''power'') = Some q \<and>
     pv_Type (prop_Value q) = ValueTypeBool \<and> pd_ParameterLevel (prop_Definition q) = ParameterRequired"
proof -
  let ?p = "required ''switch'' ''power'' ValueTypeBool True"
  obtain c where c: "modelContractFor TypeSwitch = Some c" "mc_Parameters c = mc_Parameters contractSwitch"
    by (simp add: modelContractFor_def switch_contract withCustomPolicy_def)
  have "dev_Type (switch_device l) = TypeSwitch" for l by (simp add: switch_device_def)
  moreover have "?p \<in> set (mc_Parameters c)" by (simp add: c(2) contractSwitch_def model_of_def)
  moreover have "mp_Path ?p = model_path ''main'' ''switch'' ''power''" "mp_Type ?p = ValueTypeBool" "mp_Level ?p = ParameterRequired"
    by (simp_all add: required_def)
  ultimately show ?thesis
    using published_contract [OF switch_normalized, of c ?p] c(1) by auto
qed

end
