(* ===== verification/Mapping_Binding.thy ===== *)
theory Mapping_Binding
  imports Mapping_Engine Model_Contract
begin

text \<open>
  The records around the mapping engine in \<open>internal/mapping\<close>: bindings (\<open>binding.go\<close>), custom
  properties and enum overrides of the unified model (\<open>model_property.go\<close>,
  \<open>model_enum_override.go\<close>), identifiers (\<open>uuid.go\<close>) and the built-in unit profiles
  (\<open>capability_profile.go\<close>).

  The random bytes, the clock and the digest function SHA-256 are arguments; of the digest only
  its length is used.
\<close>

declare map_of_eq_Some_iff [simp del] Some_eq_map_of_iff [simp del]

section \<open>Identifiers\<close>

definition hexDigits :: string where
  "hexDigits = ''0123456789abcdef''"

definition hex_pair :: "u8 \<Rightarrow> string" where
  "hex_pair value = [hexDigits ! unat (drop_bit 4 value), hexDigits ! unat (and value 0x0f)]"

definition formatUUID :: "u8 list \<Rightarrow> string" where
  "formatUUID raw =
     concat (map (\<lambda>(index, value). (if index \<in> {4, 6, 8, 10} then ''-'' else []) @ hex_pair value) (zip [0..<length raw] raw))"

text \<open>The loop over the first six bytes, from the last one down.\<close>

fun put_milliseconds :: "nat \<Rightarrow> u64 \<Rightarrow> u8 list \<Rightarrow> u8 list" where
  "put_milliseconds 0 milliseconds raw = raw[0 := ucast milliseconds]"
| "put_milliseconds (Suc index) milliseconds raw =
     put_milliseconds index (drop_bit 8 milliseconds) (raw[Suc index := ucast milliseconds])"

definition version_byte :: "u8 \<Rightarrow> u8" where
  "version_byte b = or (and b 0x0f) 0x70"

definition variant_byte :: "u8 \<Rightarrow> u8" where
  "variant_byte b = or (and b 0x3f) 0x80"

definition stamp_uuid :: "u64 \<Rightarrow> u8 list \<Rightarrow> u8 list" where
  "stamp_uuid milliseconds raw0 =
     (let raw = put_milliseconds 5 milliseconds raw0; raw = raw[6 := version_byte (raw ! 6)]
      in raw[8 := variant_byte (raw ! 8)])"

definition newUUIDv7 :: "u8 list option \<Rightarrow> u64 \<Rightarrow> string option" where
  "newUUIDv7 random now = (case random of None \<Rightarrow> None | Some raw \<Rightarrow> Some (formatUUID (stamp_uuid now raw)))"

definition builtInProfileID :: "(string \<Rightarrow> u8 list) \<Rightarrow> string \<Rightarrow> string" where
  "builtInProfileID sha256 identifier =
     formatUUID (stamp_uuid 1704067200000 (take 16 (sha256 (''homeloom/builtin-profile/'' @ identifier))))"

definition hex_char :: "char \<Rightarrow> bool" where
  "hex_char c \<longleftrightarrow> in_range (CHR ''0'') (CHR ''9'') c \<or> in_range (CHR ''a'') (CHR ''f'') c"

text \<open>
  The loop ranges over the code points; the first byte of a longer code point is not a hexadecimal
  digit, so it decides the same as a loop over the bytes.
\<close>

definition isUUIDv7 :: "string \<Rightarrow> bool" where
  "isUUIDv7 value =
     (if length value \<noteq> 36 \<or> value ! 8 \<noteq> CHR ''-'' \<or> value ! 13 \<noteq> CHR ''-'' \<or> value ! 18 \<noteq> CHR ''-'' \<or>
         value ! 23 \<noteq> CHR ''-'' \<or> value ! 14 \<noteq> CHR ''7''
      then False
      else if value ! 19 \<noteq> CHR ''8'' \<and> value ! 19 \<noteq> CHR ''9'' \<and> value ! 19 \<noteq> CHR ''a'' \<and> value ! 19 \<noteq> CHR ''b'' then False
      else list_all (\<lambda>(index, c). index \<in> {8, 13, 18, 23} \<or> hex_char c) (zip [0..<length value] value))"

section \<open>Built-in unit profiles\<close>

definition unit_transform :: "string \<Rightarrow> string \<Rightarrow> transform" where
  "unit_transform fromUnit toUnit = blank_transform\<lparr>tf_Type := TransformUnit, tf_FromUnit := fromUnit, tf_ToUnit := toUnit\<rparr>"

definition nearest_transform :: transform where
  "nearest_transform = blank_transform\<lparr>tf_Type := TransformRound, tf_Mode := ''nearest''\<rparr>"

definition capability_identifier :: "value_type \<Rightarrow> value_type \<Rightarrow> string \<Rightarrow> string \<Rightarrow> string" where
  "capability_identifier inputType outputType fromUnit toUnit =
     ''builtin-capability-'' @ fromUnit @ ''-to-'' @ toUnit @ ''-'' @ value_type_name inputType @ ''-to-'' @
     value_type_name outputType"

definition autoCapabilityProfile :: "(string \<Rightarrow> u8 list) \<Rightarrow> value_type \<Rightarrow> value_type \<Rightarrow> string \<Rightarrow> string \<Rightarrow> profile option" where
  "autoCapabilityProfile sha256 inputType outputType fromUnit toUnit =
     (if \<not> numericType inputType \<or> \<not> numericType outputType \<or> fromUnit = [] \<or> toUnit = [] \<or> fromUnit = toUnit \<or>
         \<not> unitConversionSupported fromUnit toUnit
      then None
      else let identifier = capability_identifier inputType outputType fromUnit toUnit;
               p = \<lparr>pf_SchemaVersion = MappingSchemaVersion, pf_ID = builtInProfileID sha256 identifier,
                 pf_Identifier = identifier, pf_Version = 1, pf_Kind = KindCapabilityProfile, pf_InputType = inputType,
                 pf_OutputType = outputType, pf_Default = None,
                 pf_Transforms = unit_transform fromUnit toUnit #
                   (if outputType = ValueTypeInt then [nearest_transform] else [])\<rparr>
           in if validate_profile p \<noteq> [] then None else Some p)"

definition unit_routes :: "(string \<times> string) list" where
  "unit_routes =
     [(''celsius'', ''fahrenheit''), (''fahrenheit'', ''celsius''), (''celsius'', ''kelvin''), (''kelvin'', ''celsius''),
      (''kelvin'', ''mired''), (''mired'', ''kelvin''), (''ratio'', ''percent''), (''percent'', ''ratio'')]"

definition autoCapabilityProfiles :: "(string \<Rightarrow> u8 list) \<Rightarrow> profile list" where
  "autoCapabilityProfiles sha256 =
     List.map_filter (\<lambda>((fromUnit, toUnit), inputType, outputType). autoCapabilityProfile sha256 inputType outputType fromUnit toUnit)
       (List.product unit_routes
         (List.product [ValueTypeInt, ValueTypeNumber] [ValueTypeInt, ValueTypeNumber]))"

section \<open>Bindings\<close>

datatype binding_stage = StageProvider | StageConsumer | StageOther string

record binding =
  bd_ID :: string
  bd_Stage :: binding_stage
  bd_ProfileID :: string
  bd_ProviderID :: string
  bd_DeviceID :: string
  bd_EndpointID :: string
  bd_CapabilityID :: string
  bd_PropertyID :: string
  bd_DeviceType :: string
  bd_ConsumerDeviceType :: string
  bd_ModelEndpointID :: string
  bd_ModelCapabilityID :: string
  bd_ModelPropertyID :: string
  bd_ConsumerID :: string
  bd_TargetID :: string
  bd_ConsumerDeviceID :: string
  bd_ConsumerProperty :: string
  bd_Enabled :: bool
  bd_ReadbackEnabled :: bool
  bd_ReadbackDelaysMS :: "int list"
  bd_PresentationStep :: "float64 option"

definition minimumPresentationStep :: float64 where
  "minimumPresentationStep = f64_lit (1 / 100)"

definition effectiveConsumerDeviceType :: "binding \<Rightarrow> string" where
  "effectiveConsumerDeviceType b = (if bd_ConsumerDeviceType b \<noteq> [] then bd_ConsumerDeviceType b else bd_DeviceType b)"

definition effectiveStage :: "binding \<Rightarrow> binding_stage" where
  "effectiveStage b = (if bd_Stage b = StageOther [] then StageProvider else bd_Stage b)"

definition sourcePath :: "binding \<Rightarrow> parameter_path" where
  "sourcePath b = model_path (bd_EndpointID b) (bd_CapabilityID b) (bd_PropertyID b)"

definition binding_modelPath :: "binding \<Rightarrow> parameter_path" where
  "binding_modelPath b =
     (let path = model_path (bd_ModelEndpointID b) (bd_ModelCapabilityID b) (bd_ModelPropertyID b)
      in if effectiveStage b = StageProvider \<and> path_EndpointID path = [] \<and> path_CapabilityID path = [] \<and> path_PropertyID path = []
         then sourcePath b else path)"

text \<open>\<open>strings.Join(parts, "\x00")\<close>\<close>

fun nul_join :: "string list \<Rightarrow> string" where
  "nul_join [] = []"
| "nul_join [part] = part"
| "nul_join (part # parts) = part @ NUL # nul_join parts"

definition binding_key :: "binding \<Rightarrow> string" where
  "binding_key b =
     (if effectiveStage b = StageConsumer
      then nul_join [''consumer'', bd_ProviderID b, bd_DeviceID b, bd_TargetID b, bd_ConsumerDeviceID b, bd_ConsumerID b,
             bd_ConsumerProperty b]
      else nul_join [''provider'', bd_ProviderID b, bd_DeviceID b, bd_EndpointID b, bd_CapabilityID b, bd_PropertyID b])"

definition binding_modelKey :: "binding \<Rightarrow> string" where
  "binding_modelKey b =
     (let path = binding_modelPath b
      in nul_join [''provider'', bd_ProviderID b, bd_DeviceID b, path_EndpointID path, path_CapabilityID path, path_PropertyID path])"

definition bindingPath :: "binding \<Rightarrow> string" where
  "bindingPath b =
     (if effectiveStage b = StageConsumer
      then bd_ProviderID b @ ''/'' @ bd_DeviceID b @ ''/'' @ path_string (binding_modelPath b) @ '' -> '' @ bd_TargetID b @
        ''/'' @ bd_ConsumerDeviceID b @ ''/'' @ bd_ConsumerID b @ ''/'' @ bd_ConsumerProperty b
      else bd_ProviderID b @ ''/'' @ bd_DeviceID b @ ''/'' @ path_string (sourcePath b) @ '' -> '' @
        path_string (binding_modelPath b))"

definition targetScopeID :: "string \<Rightarrow> bool" where
  "targetScopeID s \<longleftrightarrow> s \<noteq> [] \<and>
     list_all (\<lambda>c. in_range (CHR ''A'') (CHR ''Z'') c \<or> in_range (CHR ''a'') (CHR ''z'') c \<or>
       in_range (CHR ''0'') (CHR ''9'') c \<or> c = CHR ''_'' \<or> c = CHR ''-'') s"

definition stable_or :: "string \<Rightarrow> string \<Rightarrow> assignments" where
  "stable_or key value = assign_if (\<not> ValidStableID value) key ''must be a stable lowercase identifier''"

fun increasing_delays :: "int \<Rightarrow> int list \<Rightarrow> bool" where
  "increasing_delays previous [] = True"
| "increasing_delays previous (delay # delays) =
     (if delay < 100 \<or> delay > 300000 \<or> delay \<le> previous then False else increasing_delays delay delays)"

definition provider_checks :: "binding \<Rightarrow> assignments" where
  "provider_checks b =
     stable_or ''binding.providerId'' (bd_ProviderID b) @ stable_or ''binding.deviceId'' (bd_DeviceID b) @
     stable_or ''binding.endpointId'' (bd_EndpointID b) @ stable_or ''binding.capabilityId'' (bd_CapabilityID b) @
     stable_or ''binding.propertyId'' (bd_PropertyID b) @
     (if bd_DeviceType b \<noteq> [] then stable_or ''binding.deviceType'' (bd_DeviceType b) else []) @
     (if bd_ReadbackEnabled b
      then assign_if (bd_ReadbackDelaysMS b = [] \<or> length (bd_ReadbackDelaysMS b) > 8) ''binding.readbackDelaysMs''
             ''must contain between 1 and 8 delays'' @
           assign_if (\<not> increasing_delays 0 (bd_ReadbackDelaysMS b)) ''binding.readbackDelaysMs''
             ''must be strictly increasing values between 100 and 300000 milliseconds''
      else []) @
     assign_if (case bd_PresentationStep b of None \<Rightarrow> False
         | Some s \<Rightarrow> f64_is_nan s \<or> f64_is_inf s \<or> f64_lt s minimumPresentationStep) ''binding.presentationStep''
       ''must be a finite number greater than or equal to 0.01''"

definition consumer_checks :: "binding \<Rightarrow> assignments" where
  "consumer_checks b =
     assign_if (bd_ReadbackEnabled b \<or> bd_ReadbackDelaysMS b \<noteq> [] \<or> bd_PresentationStep b \<noteq> None)
       ''binding.presentationStep'' ''is supported only for provider bindings'' @
     stable_or ''binding.providerId'' (bd_ProviderID b) @ stable_or ''binding.deviceId'' (bd_DeviceID b) @
     stable_or ''binding.consumerId'' (bd_ConsumerID b) @
     assign_if ((bd_TargetID b = []) \<noteq> (bd_ConsumerDeviceID b = [])) ''binding.targetId''
       ''targetId and consumerDeviceId must be provided together'' @
     assign_if (bd_TargetID b \<noteq> [] \<and> \<not> targetScopeID (bd_TargetID b)) ''binding.targetId''
       ''may contain only letters, numbers, underscores and hyphens'' @
     assign_if (bd_ConsumerDeviceID b \<noteq> [] \<and> \<not> targetScopeID (bd_ConsumerDeviceID b)) ''binding.consumerDeviceId''
       ''may contain only letters, numbers, underscores and hyphens'' @
     stable_or ''binding.deviceType'' (bd_DeviceType b) @
     stable_or ''binding.consumerDeviceType'' (effectiveConsumerDeviceType b) @
     assign_if (trimSpace (bd_ConsumerProperty b) = [] \<or> length (bd_ConsumerProperty b) > 160) ''binding.consumerProperty''
       ''must be between 1 and 160 characters''"

definition binding_assignments :: "binding \<Rightarrow> assignments" where
  "binding_assignments b =
     (let stage = effectiveStage b; model = binding_modelPath b
      in stable_or ''binding.id'' (bd_ID b) @
         assign_if (bd_ProfileID b \<noteq> [] \<and> \<not> ValidStableID (bd_ProfileID b)) ''binding.profileId''
           ''must be empty or a stable lowercase identifier'' @
         assign_if (stage \<noteq> StageProvider \<and> stage \<noteq> StageConsumer) ''binding.stage'' ''must be provider or consumer'' @
         stable_or ''binding.modelEndpointId'' (path_EndpointID model) @
         stable_or ''binding.modelCapabilityId'' (path_CapabilityID model) @
         stable_or ''binding.modelPropertyId'' (path_PropertyID model) @
         (if stage = StageProvider then provider_checks b else if stage = StageConsumer then consumer_checks b else []))"

definition validateBinding :: "binding \<Rightarrow> (string, message) gomap" where
  "validateBinding b = fields_of (binding_assignments b)"

section \<open>Custom properties of the model\<close>

record custom_model_property =
  cmp_ID :: string
  cmp_DeviceType :: string
  cmp_EndpointID :: string
  cmp_EndpointName :: string
  cmp_EndpointType :: string
  cmp_CapabilityID :: string
  cmp_CapabilityType :: string
  cmp_Definition :: property_definition

definition custom_path :: "custom_model_property \<Rightarrow> parameter_path" where
  "custom_path p = model_path (cmp_EndpointID p) (cmp_CapabilityID p) (pd_ID (cmp_Definition p))"

definition custom_key :: "custom_model_property \<Rightarrow> string" where
  "custom_key p = cmp_DeviceType p @ NUL # path_key (custom_path p)"

definition example_value :: "property_definition \<Rightarrow> definition_fault + property_value" where
  "example_value d =
     (case pd_Type d of
        ValueTypeBool \<Rightarrow> Inr (BoolValue False)
      | ValueTypeInt \<Rightarrow> Inr (IntValue (case pd_Min d of None \<Rightarrow> 0 | Some m \<Rightarrow> f64_to_int64 m))
      | ValueTypeNumber \<Rightarrow> Inr (NumberValue (case pd_Min d of None \<Rightarrow> F_Zero False | Some m \<Rightarrow> m))
      | ValueTypeString \<Rightarrow> Inr (StringValue [])
      | ValueTypeEnum \<Rightarrow> (case pd_Enum d of [] \<Rightarrow> Inl DF_EnumRequired | option # _ \<Rightarrow> Inr (EnumValue option))
      | ValueTypeOther t \<Rightarrow> Inl (DF_UnsupportedType (ValueTypeOther t)))"

definition validateCustomDefinition :: "property_definition \<Rightarrow> definition_fault option" where
  "validateCustomDefinition d =
     (if pd_StaleAfterSeconds d < 0 then Some DF_StaleAfter
      else case example_value d of
             Inl e \<Rightarrow> Some e
           | Inr value \<Rightarrow>
               map_option DF_Property (property_validate
                 \<lparr>prop_Definition = d, prop_Value = value, prop_StateTransport = StateTransportOther []\<rparr>))"

definition custom_property_assignments :: "custom_model_property \<Rightarrow> assignments" where
  "custom_property_assignments item =
     stable_or ''id'' (cmp_ID item) @ stable_or ''deviceType'' (cmp_DeviceType item) @
     stable_or ''endpointId'' (cmp_EndpointID item) @ stable_or ''capabilityId'' (cmp_CapabilityID item) @
     stable_or ''definition.id'' (pd_ID (cmp_Definition item)) @
     assign_if (cmp_EndpointName item = []) ''endpointName'' ''is required'' @
     assign_if (cmp_EndpointType item = []) ''endpointType'' ''is required'' @
     assign_if (cmp_CapabilityType item = []) ''capabilityType'' ''is required'' @
     assign_if (pd_Name (cmp_Definition item) = []) ''definition.name'' ''is required'' @
     (case validateCustomDefinition ((cmp_Definition item)\<lparr>pd_ParameterLevel := ParameterCustom\<rparr>) of
        None \<Rightarrow> []
      | Some e \<Rightarrow> [(''definition'', DefinitionMessage e)])"

definition validateCustomModelProperty :: "custom_model_property \<Rightarrow> (string, message) gomap" where
  "validateCustomModelProperty item = fields_of (custom_property_assignments item)"

definition customModelParameter :: "custom_model_property \<Rightarrow> model_parameter" where
  "customModelParameter item =
     (let d = cmp_Definition item
      in \<lparr>mp_Path = custom_path item, mp_Level = ParameterCustom, mp_Type = pd_Type d, mp_Unit = pd_Unit d,
          mp_Readable = pd_Readable d, mp_Writable = pd_Writable d, mp_Notifiable = pd_Notifiable d, mp_Min = pd_Min d,
          mp_Max = pd_Max d, mp_Step = pd_Step d, mp_StaleAfterSeconds = pd_StaleAfterSeconds d, mp_Enum = pd_Enum d,
          mp_Publisher = role ParameterCustom ''preserve-and-mark-custom'',
          mp_Consumer = role ParameterCustom ''explicit-path-mapping-only''\<rparr>)"

section \<open>Enum overrides\<close>

record model_enum_override =
  eo_ID :: string
  eo_DeviceType :: string
  eo_EndpointID :: string
  eo_CapabilityID :: string
  eo_PropertyID :: string
  eo_Enum :: "string list"

definition override_path :: "model_enum_override \<Rightarrow> parameter_path" where
  "override_path item = model_path (eo_EndpointID item) (eo_CapabilityID item) (eo_PropertyID item)"

definition override_key :: "model_enum_override \<Rightarrow> string" where
  "override_key item = eo_DeviceType item @ NUL # path_key (override_path item)"

fun enum_option_checks :: "nat \<Rightarrow> string list \<Rightarrow> string list \<Rightarrow> assignments" where
  "enum_option_checks index seen [] = []"
| "enum_option_checks index seen (option # options) =
     (let trimmed = trimSpace option; path = ''enum.'' @ show_nat index
      in if trimmed = [] then (path, Message ''must not be empty'') # enum_option_checks (index + 1) seen options
         else assign_if (trimmed \<noteq> option) path ''must not include leading or trailing whitespace'' @
              assign_if (trimmed \<in> set seen) path ''must be unique'' @
              enum_option_checks (index + 1) (trimmed # seen) options)"

definition override_assignments :: "model_enum_override \<Rightarrow> assignments" where
  "override_assignments item =
     stable_or ''id'' (eo_ID item) @ stable_or ''deviceType'' (eo_DeviceType item) @
     stable_or ''endpointId'' (eo_EndpointID item) @ stable_or ''capabilityId'' (eo_CapabilityID item) @
     stable_or ''propertyId'' (eo_PropertyID item) @
     assign_if (eo_Enum item = []) ''enum'' ''must not be empty'' @
     enum_option_checks 0 [] (eo_Enum item)"

definition validateModelEnumOverride :: "model_enum_override \<Rightarrow> (string, message) gomap" where
  "validateModelEnumOverride item = fields_of (override_assignments item)"

definition modelEnumOverrideID :: "string \<Rightarrow> parameter_path \<Rightarrow> string" where
  "modelEnumOverrideID deviceType path =
     ''enum-'' @ deviceType @ ''-'' @ path_EndpointID path @ ''-'' @ path_CapabilityID path @ ''-'' @ path_PropertyID path"

section \<open>Lemmas\<close>

subsection \<open>Identifiers\<close>

lemma u8_cases: "list_all (\<lambda>n. P (word_of_nat n :: u8)) [0..<256] \<Longrightarrow> P (b :: u8)"
proof -
  assume all: "list_all (\<lambda>n. P (word_of_nat n :: u8)) [0..<256]"
  have "unat b < 256" using unsigned_less [of b] by simp
  moreover have "\<forall>n \<in> set [0..<256]. P (word_of_nat n :: u8)" using all by (simp only: list_all_iff)
  ultimately have "P (word_of_nat (unat b))" by (metis atLeastLessThan_iff atLeastLessThan_upt zero_le)
  then show ?thesis by simp
qed

lemma high_nibble: "unat (drop_bit 4 (b :: u8)) < 16"
  by (rule u8_cases [of "\<lambda>b. unat (drop_bit 4 (b :: u8)) < 16"]) code_simp

lemma low_nibble: "unat (and b (0x0f :: u8)) < 16"
  by (rule u8_cases [of "\<lambda>b. unat (and b (0x0f :: u8)) < 16"]) code_simp

lemma version_nibble: "drop_bit 4 (version_byte b) = 7"
  unfolding version_byte_def by (rule u8_cases [of "\<lambda>b. drop_bit 4 (or (and b 0x0f) 0x70) = (7 :: u8)"]) code_simp

lemma variant_nibble: "drop_bit 4 (variant_byte b) \<in> {8, 9, 10, 11}"
  unfolding variant_byte_def
  by (rule u8_cases [of "\<lambda>b. drop_bit 4 (or (and b 0x3f) 0x80) \<in> {8, 9, 10, 11 :: u8}"]) code_simp

definition high_digit :: "u8 \<Rightarrow> char" where
  "high_digit b = hexDigits ! unat (drop_bit 4 b)"

definition low_digit :: "u8 \<Rightarrow> char" where
  "low_digit b = hexDigits ! unat (and b 0x0f)"

lemma hexDigits_hex: "n < 16 \<Longrightarrow> hex_char (hexDigits ! n)"
proof -
  have "list_all hex_char hexDigits" "length hexDigits = 16" by code_simp+
  then show "n < 16 \<Longrightarrow> hex_char (hexDigits ! n)" by (simp add: list_all_length)
qed

lemma digits_hex [simp]: "hex_char (high_digit b)" "hex_char (low_digit b)"
  unfolding high_digit_def low_digit_def by (simp_all add: hexDigits_hex high_nibble low_nibble)

lemma version_digit: "high_digit (version_byte b) = CHR ''7''"
  by (simp add: high_digit_def version_nibble hexDigits_def)

lemma variant_digit: "high_digit (variant_byte b) \<in> {CHR ''8'', CHR ''9'', CHR ''a'', CHR ''b''}"
  using variant_nibble [of b] by (auto simp: high_digit_def hexDigits_def)

lemma formatUUID_text:
  "formatUUID [b0, b1, b2, b3, b4, b5, b6, b7, b8, b9, b10, b11, b12, b13, b14, b15] =
     [high_digit b0, low_digit b0, high_digit b1, low_digit b1, high_digit b2, low_digit b2, high_digit b3, low_digit b3,
      CHR ''-'', high_digit b4, low_digit b4, high_digit b5, low_digit b5,
      CHR ''-'', high_digit b6, low_digit b6, high_digit b7, low_digit b7,
      CHR ''-'', high_digit b8, low_digit b8, high_digit b9, low_digit b9,
      CHR ''-'', high_digit b10, low_digit b10, high_digit b11, low_digit b11, high_digit b12, low_digit b12,
      high_digit b13, low_digit b13, high_digit b14, low_digit b14, high_digit b15, low_digit b15]"
  by (simp add: formatUUID_def hex_pair_def high_digit_def low_digit_def upt_rec)

lemma list16:
  assumes "length xs = 16"
  obtains b0 b1 b2 b3 b4 b5 b6 b7 b8 b9 b10 b11 b12 b13 b14 b15
  where "xs = [b0, b1, b2, b3, b4, b5, b6, b7, b8, b9, b10, b11, b12, b13, b14, b15]"
  using assms by (auto simp: eval_nat_numeral length_Suc_conv)

lemma length_put_milliseconds [simp]: "length (put_milliseconds i ms raw) = length raw"
  by (induction i ms raw rule: put_milliseconds.induct) simp_all

lemma formatUUID_v7:
  assumes "length raw = 16" and "raw ! 6 = version_byte x" and "raw ! 8 = variant_byte y"
  shows "isUUIDv7 (formatUUID raw) \<and> ValidStableID (formatUUID raw)"
proof -
  obtain b0 b1 b2 b3 b4 b5 b6 b7 b8 b9 b10 b11 b12 b13 b14 b15
    where raw: "raw = [b0, b1, b2, b3, b4, b5, b6, b7, b8, b9, b10, b11, b12, b13, b14, b15]"
    by (rule list16 [OF assms(1)])
  have 7: "high_digit b6 = CHR ''7''" using assms(2) version_digit [of x] by (simp add: raw)
  have 8: "high_digit b8 \<in> {CHR ''8'', CHR ''9'', CHR ''a'', CHR ''b''}" using assms(3) variant_digit [of y] by (simp add: raw)
  have inner: "hex_char c \<Longrightarrow> id_edge c \<and> id_inner c" for c
    by (auto simp: hex_char_def id_edge_def id_inner_def in_range_def intro: order_trans)
  have dash: "id_inner (CHR ''-'')" by (simp add: id_inner_def)
  have "hex_char (CHR ''7'')" by code_simp
  then have "isUUIDv7 (formatUUID raw)" using 7 8 unfolding raw formatUUID_text isUUIDv7_def by (simp add: upt_rec)
  moreover have "ValidStableID (formatUUID raw)"
    unfolding raw formatUUID_text ValidStableID_def by (simp add: inner dash)
  ultimately show ?thesis ..
qed

lemma stamp_uuid_v7:
  assumes "length raw = 16"
  shows "isUUIDv7 (formatUUID (stamp_uuid ms raw)) \<and> ValidStableID (formatUUID (stamp_uuid ms raw))"
proof (rule formatUUID_v7)
  show "length (stamp_uuid ms raw) = 16" using assms by (simp add: stamp_uuid_def Let_def)
  show "stamp_uuid ms raw ! 6 = version_byte (put_milliseconds 5 ms raw ! 6)"
    "stamp_uuid ms raw ! 8 = variant_byte (put_milliseconds 5 ms raw ! 8)"
    using assms by (simp_all add: stamp_uuid_def Let_def)
qed

subsection \<open>Built-in unit profiles\<close>

lemma builtInProfileID_v7:
  "length (sha256 (''homeloom/builtin-profile/'' @ identifier)) = 32 \<Longrightarrow>
     isUUIDv7 (builtInProfileID sha256 identifier) \<and> ValidStableID (builtInProfileID sha256 identifier)"
  unfolding builtInProfileID_def by (rule stamp_uuid_v7) simp

definition numeric_types :: "(value_type \<times> value_type) list" where
  "numeric_types = List.product [ValueTypeInt, ValueTypeNumber] [ValueTypeInt, ValueTypeNumber]"

lemma route_identifiers:
  "list_all (\<lambda>((fromUnit, toUnit), inputType, outputType). ValidStableID (capability_identifier inputType outputType fromUnit toUnit))
     (List.product unit_routes numeric_types)"
  by code_simp

lemma route_units:
  "list_all (\<lambda>(fromUnit, toUnit). fromUnit \<noteq> [] \<and> toUnit \<noteq> [] \<and> fromUnit \<noteq> toUnit \<and> unitConversionSupported fromUnit toUnit) unit_routes"
  by (simp add: unit_routes_def unitConversionSupported_def unitFormula_def nonlinearUnitConversion_def)

lemma autoCapabilityProfile_some:
  assumes "((fromUnit, toUnit), inputType, outputType) \<in> set (List.product unit_routes numeric_types)"
    and hash: "\<And>s. length (sha256 s) = 32"
  shows "\<exists>p. autoCapabilityProfile sha256 inputType outputType fromUnit toUnit = Some p \<and> validate_profile p = [] \<and>
    isUUIDv7 (pf_ID p) \<and> pf_InputType p = inputType \<and> pf_OutputType p = outputType"
proof -
  have id: "ValidStableID (capability_identifier inputType outputType fromUnit toUnit)"
    using route_identifiers assms(1) unfolding list_all_iff by auto
  have route: "(fromUnit, toUnit) \<in> set unit_routes" and types: "(inputType, outputType) \<in> set numeric_types"
    using assms(1) by auto
  have unit: "fromUnit \<noteq> []" "toUnit \<noteq> []" "fromUnit \<noteq> toUnit" "unitConversionSupported fromUnit toUnit"
    using route_units route unfolding list_all_iff by auto
  have num: "numericType inputType" "numericType outputType"
    using types by (auto simp: numeric_types_def numericType_def)
  have uuid: "isUUIDv7 (builtInProfileID sha256 i) \<and> ValidStableID (builtInProfileID sha256 i)" for i
    by (rule builtInProfileID_v7) (rule hash)
  show ?thesis
    using id unit num uuid types
    by (auto simp: autoCapabilityProfile_def Let_def validate_profile_def profile_assignments_def unit_transform_def
        nearest_transform_def transform_checks_def transform_next_def validValueType_def numericType_def numeric_types_def)
qed

subsection \<open>Keys of bindings\<close>

lemma nul_join_Cons: "parts \<noteq> [] \<Longrightarrow> nul_join (part # parts) = part @ NUL # nul_join parts"
  by (cases parts) simp_all

lemma nul_join_eq:
  "length xs = length ys \<Longrightarrow> list_all (\<lambda>x. NUL \<notin> set x) (butlast xs) \<Longrightarrow> list_all (\<lambda>x. NUL \<notin> set x) (butlast ys) \<Longrightarrow>
     nul_join xs = nul_join ys \<Longrightarrow> xs = ys"
proof (induction xs ys rule: list_induct2)
  case (Cons x xs y ys)
  show ?case
  proof (cases "xs = []")
    case True
    with Cons show ?thesis by simp
  next
    case False
    with Cons.hyps have "ys \<noteq> []" by auto
    with False Cons.prems have "NUL \<notin> set x" "NUL \<notin> set y" "x @ NUL # nul_join xs = y @ NUL # nul_join ys"
      by (simp_all add: nul_join_Cons)
    from nul_join_inj [OF this] have "x = y" "nul_join xs = nul_join ys" by auto
    with Cons False \<open>ys \<noteq> []\<close> show ?thesis by simp
  qed
qed simp

lemma scope_no_nul: "targetScopeID s \<Longrightarrow> NUL \<notin> set s"
  by (auto simp: targetScopeID_def list_all_iff in_range_def less_eq_char_def)

lemma stable_or_nil [simp]: "stable_or k v = [] \<longleftrightarrow> ValidStableID v"
  by (simp add: stable_or_def)

lemma valid_binding_stage: "validateBinding b = [] \<Longrightarrow> effectiveStage b = StageProvider \<or> effectiveStage b = StageConsumer"
  by (auto simp: validateBinding_def binding_assignments_def Let_def)

lemma valid_provider_no_nul:
  assumes "validateBinding b = []" and "effectiveStage b = StageProvider"
  shows "list_all (\<lambda>x. NUL \<notin> set x) [bd_ProviderID b, bd_DeviceID b, bd_EndpointID b, bd_CapabilityID b, bd_PropertyID b]"
  using assms by (auto simp: validateBinding_def binding_assignments_def Let_def provider_checks_def dest: stable_id_no_nul)

lemma valid_consumer_no_nul:
  assumes "validateBinding b = []" and "effectiveStage b = StageConsumer"
  shows "list_all (\<lambda>x. NUL \<notin> set x) [bd_ProviderID b, bd_DeviceID b, bd_TargetID b, bd_ConsumerDeviceID b, bd_ConsumerID b]"
  using assms by (auto simp: validateBinding_def binding_assignments_def Let_def consumer_checks_def dest: stable_id_no_nul scope_no_nul)

lemma stage_prefix: "''consumer'' @ NUL # x \<noteq> ''provider'' @ NUL # y"
  by simp

lemma nul_free_literals: "NUL \<notin> set ''provider''" "NUL \<notin> set ''consumer''"
  by simp_all

subsection \<open>Options of an override\<close>

lemma enum_option_checks_nil:
  "enum_option_checks index seen options = [] \<longleftrightarrow>
     list_all (\<lambda>option. option \<noteq> [] \<and> trimSpace option = option) options \<and> distinct options \<and> set options \<inter> set seen = {}"
  by (induction index seen options rule: enum_option_checks.induct) (auto simp: Let_def)

section \<open>Properties\<close>

text \<open>The key of a valid binding identifies the source side of its route: two valid bindings with the same key
  have the same stage, provider and device, and the same source path, or the same consumer target.\<close>

theorem binding_key_identifies:
  assumes "validateBinding a = []" and "validateBinding b = []" and "binding_key a = binding_key b"
  shows "effectiveStage a = effectiveStage b \<and> bd_ProviderID a = bd_ProviderID b \<and> bd_DeviceID a = bd_DeviceID b \<and>
    (case effectiveStage a of
       StageConsumer \<Rightarrow> bd_TargetID a = bd_TargetID b \<and> bd_ConsumerDeviceID a = bd_ConsumerDeviceID b \<and>
         bd_ConsumerID a = bd_ConsumerID b \<and> bd_ConsumerProperty a = bd_ConsumerProperty b
     | _ \<Rightarrow> sourcePath a = sourcePath b)"
proof -
  have stage: "effectiveStage a = effectiveStage b"
    using valid_binding_stage [OF assms(1)] valid_binding_stage [OF assms(2)] assms(3) by (auto simp: binding_key_def)
  show ?thesis
  proof (cases "effectiveStage a = StageConsumer")
    case True
    note free = valid_consumer_no_nul [OF assms(1) True] valid_consumer_no_nul [OF assms(2) True [unfolded stage]]
    have "[''consumer'', bd_ProviderID a, bd_DeviceID a, bd_TargetID a, bd_ConsumerDeviceID a, bd_ConsumerID a, bd_ConsumerProperty a] =
        [''consumer'', bd_ProviderID b, bd_DeviceID b, bd_TargetID b, bd_ConsumerDeviceID b, bd_ConsumerID b, bd_ConsumerProperty b]"
      by (rule nul_join_eq) (use free True stage assms(3) in \<open>simp_all only: binding_key_def if_True, simp_all\<close>)
    with True stage show ?thesis by simp
  next
    case False
    then have p: "effectiveStage a = StageProvider" using valid_binding_stage [OF assms(1)] by simp
    note free = valid_provider_no_nul [OF assms(1) p] valid_provider_no_nul [OF assms(2) p [unfolded stage]]
    have "[''provider'', bd_ProviderID a, bd_DeviceID a, bd_EndpointID a, bd_CapabilityID a, bd_PropertyID a] =
        [''provider'', bd_ProviderID b, bd_DeviceID b, bd_EndpointID b, bd_CapabilityID b, bd_PropertyID b]"
      by (rule nul_join_eq) (use free p stage assms(3) in \<open>auto simp: binding_key_def\<close>)
    with p stage show ?thesis by (simp add: sourcePath_def)
  qed
qed

text \<open>No unit route is lost: \<open>AutoCapabilityProfiles\<close> returns one profile for each of the eight routes and four pairs
  of numeric types, and each passes the validation of profiles and has a canonical UUIDv7 as its identifier,
  whatever the digest function, as long as its digests have 32 bytes.\<close>

theorem auto_capability_complete:
  assumes "\<And>s. length (sha256 s) = 32"
  shows "length (autoCapabilityProfiles sha256) = 32 \<and>
    list_all (\<lambda>p. validate_profile p = [] \<and> isUUIDv7 (pf_ID p)) (autoCapabilityProfiles sha256)"
proof -
  let ?f = "\<lambda>((fromUnit, toUnit), inputType, outputType). autoCapabilityProfile sha256 inputType outputType fromUnit toUnit"
  let ?xs = "List.product unit_routes numeric_types"
  have some: "x \<in> set ?xs \<Longrightarrow> \<exists>p. ?f x = Some p \<and> validate_profile p = [] \<and> isUUIDv7 (pf_ID p)" for x
    using autoCapabilityProfile_some [OF _ assms] by (cases x) fastforce
  have all: "length (List.map_filter ?f xs) = length xs \<and> list_all (\<lambda>p. validate_profile p = [] \<and> isUUIDv7 (pf_ID p)) (List.map_filter ?f xs)"
    if "set xs \<subseteq> set ?xs" for xs
    using that
  proof (induction xs)
    case (Cons x xs)
    with some [of x] show ?case by (auto simp: List.map_filter_simps)
  qed (simp add: List.map_filter_simps)
  have "length ?xs = 32" by (simp add: unit_routes_def numeric_types_def)
  with all [OF subset_refl] show ?thesis unfolding autoCapabilityProfiles_def numeric_types_def [symmetric] by simp
qed

text \<open>An override of enum options is accepted exactly when its identifiers are stable and its options are not empty,
  trimmed and pairwise different.\<close>

theorem enum_override_decides:
  "validateModelEnumOverride item = [] \<longleftrightarrow>
     list_all ValidStableID [eo_ID item, eo_DeviceType item, eo_EndpointID item, eo_CapabilityID item, eo_PropertyID item] \<and>
     eo_Enum item \<noteq> [] \<and> distinct (eo_Enum item) \<and> list_all (\<lambda>option. option \<noteq> [] \<and> trimSpace option = option) (eo_Enum item)"
  by (auto simp: validateModelEnumOverride_def override_assignments_def enum_option_checks_nil)

section \<open>Witnesses\<close>

definition example_binding :: binding where
  "example_binding =
     \<lparr>bd_ID = ''b'', bd_Stage = StageOther [], bd_ProfileID = [], bd_ProviderID = ''mqtt'', bd_DeviceID = ''lamp'',
      bd_EndpointID = ''main'', bd_CapabilityID = ''switch'', bd_PropertyID = ''power'', bd_DeviceType = [],
      bd_ConsumerDeviceType = [], bd_ModelEndpointID = [], bd_ModelCapabilityID = [], bd_ModelPropertyID = [],
      bd_ConsumerID = [], bd_TargetID = [], bd_ConsumerDeviceID = [], bd_ConsumerProperty = [], bd_Enabled = True,
      bd_ReadbackEnabled = True, bd_ReadbackDelaysMS = [200, 500], bd_PresentationStep = None\<rparr>"

theorem binding_key_identifies_witness:
  "sourcePath example_binding = sourcePath (example_binding\<lparr>bd_ID := ''c'', bd_Stage := StageProvider\<rparr>)"
proof -
  let ?b = "example_binding\<lparr>bd_ID := ''c'', bd_Stage := StageProvider\<rparr>"
  have "validateBinding example_binding = []" "validateBinding ?b = []" "binding_key example_binding = binding_key ?b"
    by code_simp+
  note same = binding_key_identifies [OF this]
  moreover have "effectiveStage example_binding = StageProvider" by code_simp
  ultimately show ?thesis by (simp only: binding_stage.case)
qed

theorem auto_capability_complete_witness:
  "length (autoCapabilityProfiles (\<lambda>s. replicate 32 0)) = 32"
  using auto_capability_complete [of "\<lambda>s. replicate 32 0"] by simp

end
