(* ===== verification/Media_Worker.thy ===== *)
theory Media_Worker
  imports Go_Prelude
begin

text \<open>
  The desired state of the media streams, \<open>internal/mediaruntime/worker\<close>: the manager that applies
  numbered replays and mutations through an adapter, and the adapter that keeps the streams in
  memory; \<open>internal/mediaruntime/contract\<close> for the data, and the decision rule of
  \<open>internal/domain/media\<close> for a mutation.

  The interface \<open>Adapter\<close> is a record of its three methods, functions of the state of the adapter
  that return the new state and an error; the manager is defined for every such record. What a
  client may rely on is the locale \<open>media_adapter\<close>.
\<close>

declare map_of_eq_Some_iff [simp del] Some_eq_map_of_iff [simp del]

section \<open>Contracts\<close>

record stream_spec =
  ss_SchemaVersion :: int
  ss_ID :: string
  ss_DeviceID :: string
  ss_Protocol :: string
  ss_CredentialRef :: string
  ss_Profile :: string
  ss_Mode :: string
  ss_Audio :: bool
  ss_Talkback :: bool
  ss_Options :: string

record replay_params =
  rp_SchemaVersion :: int
  rp_Generation :: u64
  rp_Revision :: u64
  rp_Streams :: "stream_spec list"

record upsert_params =
  up_SchemaVersion :: int
  up_Generation :: u64
  up_Revision :: u64
  up_Stream :: stream_spec

record delete_params =
  dp_SchemaVersion :: int
  dp_Generation :: u64
  dp_Revision :: u64
  dp_StreamID :: string

record media_result =
  mr_Applied :: bool
  mr_Generation :: u64
  mr_Revision :: u64

section \<open>The manager\<close>

datatype stream_fault = SF_Envelope | SF_RequiredFields | SF_TalkbackRequiresAudio | SF_Duplicate string

datatype 'e worker_error = ErrInvalidStream stream_fault | ErrStaleGeneration | ErrReplayRequired | ErrStaleRevision
  | ErrRevisionGap | AdapterError 'e

record ('a, 'e) adapter =
  ad_Replace :: "stream_spec list \<Rightarrow> 'a \<Rightarrow> 'e option \<times> 'a"
  ad_Upsert :: "stream_spec \<Rightarrow> 'a \<Rightarrow> 'e option \<times> 'a"
  ad_Delete :: "string \<Rightarrow> 'a \<Rightarrow> 'e option \<times> 'a"

record 'a manager =
  mg_adapter :: 'a
  mg_generation :: u64
  mg_revision :: u64
  mg_streams :: "(string, stream_spec) gomap"

definition newManager :: "'a \<Rightarrow> 'a manager" where
  "newManager a = \<lparr>mg_adapter = a, mg_generation = 0, mg_revision = 0, mg_streams = []\<rparr>"

definition resultLocked :: "bool \<Rightarrow> 'a manager \<Rightarrow> media_result" where
  "resultLocked applied m = \<lparr>mr_Applied = applied, mr_Generation = mg_generation m, mr_Revision = mg_revision m\<rparr>"

definition validateStream :: "stream_spec \<Rightarrow> stream_fault option" where
  "validateStream stream =
     (if ss_SchemaVersion stream \<noteq> 1 \<or> ss_ID stream = [] \<or> ss_DeviceID stream = [] \<or> ss_Protocol stream = [] \<or>
         ss_Profile stream = [] \<or> ss_Mode stream = []
      then Some SF_RequiredFields
      else if ss_Talkback stream \<and> \<not> ss_Audio stream then Some SF_TalkbackRequiresAudio
      else None)"

fun index_from :: "(string, stream_spec) gomap \<Rightarrow> stream_spec list \<Rightarrow> stream_fault + (string, stream_spec) gomap" where
  "index_from result [] = Inr result"
| "index_from result (stream # streams) =
     (case validateStream stream of
        Some e \<Rightarrow> Inl e
      | None \<Rightarrow>
          if gm_get result (ss_ID stream) \<noteq> None then Inl (SF_Duplicate (ss_ID stream))
          else index_from (gm_put (ss_ID stream) stream result) streams)"

definition indexStreams :: "stream_spec list \<Rightarrow> stream_fault + (string, stream_spec) gomap" where
  "indexStreams streams = index_from [] streams"

type_synonym ('a, 'e) manager_result = "(media_result \<times> 'e worker_error option) \<times> 'a manager"

definition replay :: "('a, 'e) adapter \<Rightarrow> replay_params \<Rightarrow> 'a manager \<Rightarrow> ('a, 'e) manager_result" where
  "replay ops params m =
     (if rp_SchemaVersion params \<noteq> 1 \<or> rp_Generation params = 0 \<or> rp_Revision params = 0
      then ((resultLocked False m, Some (ErrInvalidStream SF_Envelope)), m)
      else case indexStreams (rp_Streams params) of
             Inl e \<Rightarrow> ((resultLocked False m, Some (ErrInvalidStream e)), m)
           | Inr streams \<Rightarrow>
               if rp_Generation params < mg_generation m then ((resultLocked False m, Some ErrStaleGeneration), m)
               else if rp_Generation params = mg_generation m \<and> rp_Revision params < mg_revision m
               then ((resultLocked False m, Some ErrStaleRevision), m)
               else case ad_Replace ops (rp_Streams params) (mg_adapter m) of
                      (Some e, a) \<Rightarrow> ((resultLocked False m, Some (AdapterError e)), m\<lparr>mg_adapter := a\<rparr>)
                    | (None, a) \<Rightarrow>
                        (let m = m\<lparr>mg_adapter := a, mg_streams := streams, mg_generation := rp_Generation params,
                               mg_revision := rp_Revision params\<rparr>
                         in ((resultLocked True m, None), m)))"

text \<open>\<open>validateMutationLocked\<close>: \<open>None\<close> to go on, \<open>Some\<close> of the error to return (\<open>None\<close> for a duplicate).\<close>

definition validateMutationLocked :: "u64 \<Rightarrow> u64 \<Rightarrow> 'a manager \<Rightarrow> 'e worker_error option option" where
  "validateMutationLocked generation revision m =
     (if generation < mg_generation m then Some (Some ErrStaleGeneration)
      else if generation > mg_generation m then Some (Some ErrReplayRequired)
      else if revision < mg_revision m then Some (Some ErrStaleRevision)
      else if revision = mg_revision m then Some None
      else if revision \<noteq> mg_revision m + 1 then Some (Some ErrRevisionGap)
      else None)"

definition upsert :: "('a, 'e) adapter \<Rightarrow> upsert_params \<Rightarrow> 'a manager \<Rightarrow> ('a, 'e) manager_result" where
  "upsert ops params m =
     (if up_SchemaVersion params \<noteq> 1 \<or> up_Generation params = 0 \<or> up_Revision params = 0
      then ((resultLocked False m, Some (ErrInvalidStream SF_Envelope)), m)
      else case validateStream (up_Stream params) of
             Some e \<Rightarrow> ((resultLocked False m, Some (ErrInvalidStream e)), m)
           | None \<Rightarrow>
               (case validateMutationLocked (up_Generation params) (up_Revision params) m of
                  Some e \<Rightarrow> ((resultLocked False m, e), m)
                | None \<Rightarrow>
                    (case ad_Upsert ops (up_Stream params) (mg_adapter m) of
                       (Some e, a) \<Rightarrow> ((resultLocked False m, Some (AdapterError e)), m\<lparr>mg_adapter := a\<rparr>)
                     | (None, a) \<Rightarrow>
                         (let m = m\<lparr>mg_adapter := a,
                                mg_streams := gm_put (ss_ID (up_Stream params)) (up_Stream params) (mg_streams m),
                                mg_revision := up_Revision params\<rparr>
                          in ((resultLocked True m, None), m)))))"

definition delete_stream :: "('a, 'e) adapter \<Rightarrow> delete_params \<Rightarrow> 'a manager \<Rightarrow> ('a, 'e) manager_result" where
  "delete_stream ops params m =
     (if dp_SchemaVersion params \<noteq> 1 \<or> dp_Generation params = 0 \<or> dp_Revision params = 0 \<or> dp_StreamID params = []
      then ((resultLocked False m, Some (ErrInvalidStream SF_Envelope)), m)
      else case validateMutationLocked (dp_Generation params) (dp_Revision params) m of
             Some e \<Rightarrow> ((resultLocked False m, e), m)
           | None \<Rightarrow>
               (case ad_Delete ops (dp_StreamID params) (mg_adapter m) of
                  (Some e, a) \<Rightarrow> ((resultLocked False m, Some (AdapterError e)), m\<lparr>mg_adapter := a\<rparr>)
                | (None, a) \<Rightarrow>
                    (let m = m\<lparr>mg_adapter := a, mg_streams := gm_del (dp_StreamID params) (mg_streams m),
                           mg_revision := dp_Revision params\<rparr>
                     in ((resultLocked True m, None), m))))"

definition manager_snapshot :: "'a manager \<Rightarrow> u64 \<times> u64 \<times> stream_spec list" where
  "manager_snapshot m =
     (mg_generation m, mg_revision m, sort_slice (\<lambda>a b. ss_ID a < ss_ID b) (map snd (mg_streams m)))"

section \<open>The adapter in memory\<close>

type_synonym memory_adapter = "(string, stream_spec) gomap"

definition newMemoryAdapter :: memory_adapter where
  "newMemoryAdapter = []"

definition memory_replace :: "stream_spec list \<Rightarrow> memory_adapter \<Rightarrow> 'e option \<times> memory_adapter" where
  "memory_replace streams a = (None, fold (\<lambda>stream m. gm_put (ss_ID stream) stream m) streams [])"

definition memory_upsert :: "stream_spec \<Rightarrow> memory_adapter \<Rightarrow> 'e option \<times> memory_adapter" where
  "memory_upsert stream a = (None, gm_put (ss_ID stream) stream a)"

definition memory_delete :: "string \<Rightarrow> memory_adapter \<Rightarrow> 'e option \<times> memory_adapter" where
  "memory_delete streamID a = (None, gm_del streamID a)"

definition memory_snapshot :: "memory_adapter \<Rightarrow> stream_spec list" where
  "memory_snapshot a = sort_slice (\<lambda>x y. ss_ID x < ss_ID y) (map snd a)"

definition memory_ops :: "(memory_adapter, 'e) adapter" where
  "memory_ops = \<lparr>ad_Replace = memory_replace, ad_Upsert = memory_upsert, ad_Delete = memory_delete\<rparr>"

section \<open>The decision rule\<close>

datatype media_decision = MutationApply | MutationDuplicate | MutationStale | MutationNeedReplay

definition mutation_decision :: "u64 \<Rightarrow> u64 \<Rightarrow> u64 \<Rightarrow> u64 \<Rightarrow> media_decision" where
  "mutation_decision generation revision currentGeneration currentRevision =
     (if generation < currentGeneration then MutationStale
      else if generation > currentGeneration \<or> currentGeneration = 0 then MutationNeedReplay
      else if revision \<le> currentRevision then MutationDuplicate
      else if revision = currentRevision + 1 then MutationApply
      else MutationNeedReplay)"

section \<open>What an adapter promises\<close>

text \<open>
  \<open>view\<close> is what the adapter runs, \<open>active\<close> which streams it is to run at all. A call without an
  error has carried out the request; a call with an error may have changed anything within the
  invariant.
\<close>

definition stream_map :: "stream_spec list \<Rightarrow> string \<Rightarrow> stream_spec option" where
  "stream_map streams i = find (\<lambda>s. ss_ID s = i) streams"

definition running :: "(stream_spec \<Rightarrow> bool) \<Rightarrow> (string \<Rightarrow> stream_spec option) \<Rightarrow> string \<Rightarrow> stream_spec option" where
  "running active desired i = (case desired i of None \<Rightarrow> None | Some s \<Rightarrow> if active s then Some s else None)"

locale media_adapter =
  fixes ops :: "('a, 'e) adapter"
    and view :: "'a \<Rightarrow> string \<Rightarrow> stream_spec option"
    and active :: "stream_spec \<Rightarrow> bool"
    and invar :: "'a \<Rightarrow> bool"
  assumes invar_replace: "invar a \<Longrightarrow> distinct (map ss_ID ss) \<Longrightarrow> invar (snd (ad_Replace ops ss a))"
    and invar_upsert: "invar a \<Longrightarrow> invar (snd (ad_Upsert ops s a))"
    and invar_delete: "invar a \<Longrightarrow> invar (snd (ad_Delete ops i a))"
    and replace_view: "invar a \<Longrightarrow> distinct (map ss_ID ss) \<Longrightarrow> ad_Replace ops ss a = (None, a') \<Longrightarrow>
      view a' = running active (stream_map ss)"
    and upsert_view: "invar a \<Longrightarrow> ad_Upsert ops s a = (None, a') \<Longrightarrow>
      view a' = (view a)(ss_ID s := if active s then Some s else None)"
    and delete_view: "invar a \<Longrightarrow> ad_Delete ops i a = (None, a') \<Longrightarrow> view a' = (view a)(i := None)"

section \<open>Lemmas\<close>

subsection \<open>The index of a replay\<close>

lemma index_from_Inr:
  "index_from m ss = Inr m' \<Longrightarrow> gm_ok m \<Longrightarrow>
     gm_ok m' \<and> distinct (map ss_ID ss) \<and> list_all (\<lambda>s. validateStream s = None) ss \<and>
     (\<forall>s \<in> set ss. gm_get m (ss_ID s) = None) \<and>
     (\<forall>i. gm_get m' i = (case stream_map ss i of Some s \<Rightarrow> Some s | None \<Rightarrow> gm_get m i))"
proof (induction m ss rule: index_from.induct)
  case (2 result stream streams)
  then have v: "validateStream stream = None" and fresh: "gm_get result (ss_ID stream) = None"
    and rest: "index_from (gm_put (ss_ID stream) stream result) streams = Inr m'"
    by (auto split: option.splits if_splits)
  have ok: "gm_ok (gm_put (ss_ID stream) stream result)" using "2.prems"(2) by simp
  from "2.IH" [OF v _ rest ok] fresh
  have IH: "gm_ok m'" "distinct (map ss_ID streams)" "list_all (\<lambda>s. validateStream s = None) streams"
      "\<forall>s \<in> set streams. gm_get (gm_put (ss_ID stream) stream result) (ss_ID s) = None"
      "\<forall>i. gm_get m' i = (case stream_map streams i of Some s \<Rightarrow> Some s | None \<Rightarrow> gm_get (gm_put (ss_ID stream) stream result) i)"
    by auto
  have notin: "ss_ID s \<noteq> ss_ID stream" "gm_get result (ss_ID s) = None" if "s \<in> set streams" for s
    using IH(4) that by (auto simp: gm_get_put split: if_splits)
  have none: "stream_map streams (ss_ID stream) = None" using notin(1) by (auto simp: stream_map_def find_None_iff)
  have "gm_get m' i = (case stream_map (stream # streams) i of Some s \<Rightarrow> Some s | None \<Rightarrow> gm_get result i)" for i
    using IH(5) none by (cases "i = ss_ID stream"; cases "stream_map streams i") (simp_all add: gm_get_put stream_map_def)
  moreover have "ss_ID stream \<notin> ss_ID ` set streams" using notin(1) by force
  ultimately show ?case using IH v fresh notin(2) by simp
qed (simp add: stream_map_def)

lemma indexStreams_Inr:
  assumes "indexStreams ss = Inr m"
  shows "gm_ok m" "distinct (map ss_ID ss)" "list_all (\<lambda>s. validateStream s = None) ss" "gm_get m = stream_map ss"
  using index_from_Inr [OF assms [unfolded indexStreams_def]] by (auto simp: fun_eq_iff split: option.splits)

subsection \<open>The state of the manager\<close>

text \<open>Streams sit under their own identifier and are valid.\<close>

definition manager_ok :: "'a manager \<Rightarrow> bool" where
  "manager_ok m \<longleftrightarrow> gm_ok (mg_streams m) \<and>
     (\<forall>i s. gm_get (mg_streams m) i = Some s \<longrightarrow> ss_ID s = i \<and> validateStream s = None)"

definition synced :: "('a \<Rightarrow> string \<Rightarrow> stream_spec option) \<Rightarrow> (stream_spec \<Rightarrow> bool) \<Rightarrow> 'a manager \<Rightarrow> bool" where
  "synced view active m \<longleftrightarrow> view (mg_adapter m) = running active (gm_get (mg_streams m))"

lemma replay_cases:
  obtains (refused) e where "replay ops p m = ((resultLocked False m, Some e), m)" "\<nexists>x. e = AdapterError x"
  | (failed) e a streams where "indexStreams (rp_Streams p) = Inr streams" "ad_Replace ops (rp_Streams p) (mg_adapter m) = (Some e, a)"
      "replay ops p m = ((resultLocked False m, Some (AdapterError e)), m\<lparr>mg_adapter := a\<rparr>)"
  | (applied) a streams m' where "indexStreams (rp_Streams p) = Inr streams" "ad_Replace ops (rp_Streams p) (mg_adapter m) = (None, a)"
      "m' = m\<lparr>mg_adapter := a, mg_streams := streams, mg_generation := rp_Generation p, mg_revision := rp_Revision p\<rparr>"
      "replay ops p m = ((resultLocked True m', None), m')"
      "rp_Generation p > mg_generation m \<or> rp_Generation p = mg_generation m \<and> rp_Revision p \<ge> mg_revision m" "rp_Generation p \<noteq> 0"
proof (cases "rp_SchemaVersion p \<noteq> 1 \<or> rp_Generation p = 0 \<or> rp_Revision p = 0")
  case True
  then show ?thesis by (intro refused) (auto simp: replay_def)
next
  case env: False
  show ?thesis
  proof (cases "indexStreams (rp_Streams p)")
    case (Inl e)
    with env show ?thesis by (intro refused) (auto simp: replay_def)
  next
    case (Inr streams)
    show ?thesis
    proof (cases "rp_Generation p < mg_generation m \<or> rp_Generation p = mg_generation m \<and> rp_Revision p < mg_revision m")
      case True
      with env Inr show ?thesis
        by (intro refused [of "if rp_Generation p < mg_generation m then ErrStaleGeneration else ErrStaleRevision"])
          (auto simp: replay_def)
    next
      case newer: False
      obtain r a where ra: "ad_Replace ops (rp_Streams p) (mg_adapter m) = (r, a)" by force
      show ?thesis
      proof (cases r)
        case None
        with env Inr newer ra show ?thesis by (intro applied [OF Inr]) (auto simp: replay_def Let_def)
      next
        case (Some e)
        with env Inr newer ra show ?thesis by (intro failed [OF Inr]) (auto simp: replay_def)
      qed
    qed
  qed
qed

lemma validateMutation_None:
  "validateMutationLocked g r m = (None :: 'e worker_error option option) \<longleftrightarrow>
     g = mg_generation m \<and> r > mg_revision m \<and> r = mg_revision m + 1"
proof -
  have "r > mg_revision m \<longleftrightarrow> \<not> r < mg_revision m \<and> r \<noteq> mg_revision m" by (metis less_irrefl not_less_iff_gr_or_eq)
  moreover have "g = mg_generation m \<longleftrightarrow> \<not> g < mg_generation m \<and> \<not> mg_generation m < g" by (metis less_irrefl not_less_iff_gr_or_eq)
  ultimately show ?thesis by (simp only: validateMutationLocked_def split: if_splits) blast
qed

lemma validateMutation_error: "validateMutationLocked g r m = Some (Some e) \<Longrightarrow> \<nexists>x. e = AdapterError x"
  by (auto simp: validateMutationLocked_def split: if_splits)

lemma upsert_cases:
  fixes ops :: "('a, 'e) adapter"
  obtains (refused) e where "upsert ops p m = ((resultLocked False m, e), m)" "\<nexists>x. e = Some (AdapterError x)"
  | (failed) e a where "validateStream (up_Stream p) = None" "ad_Upsert ops (up_Stream p) (mg_adapter m) = (Some e, a)"
      "upsert ops p m = ((resultLocked False m, Some (AdapterError e)), m\<lparr>mg_adapter := a\<rparr>)"
  | (applied) a m' where "validateStream (up_Stream p) = None" "ad_Upsert ops (up_Stream p) (mg_adapter m) = (None, a)"
      "m' = m\<lparr>mg_adapter := a, mg_streams := gm_put (ss_ID (up_Stream p)) (up_Stream p) (mg_streams m), mg_revision := up_Revision p\<rparr>"
      "upsert ops p m = ((resultLocked True m', None), m')" "up_Generation p = mg_generation m" "up_Revision p > mg_revision m"
      "up_Revision p = mg_revision m + 1" "up_Generation p \<noteq> 0"
proof (cases "up_SchemaVersion p \<noteq> 1 \<or> up_Generation p = 0 \<or> up_Revision p = 0 \<or> validateStream (up_Stream p) \<noteq> None")
  case True
  then show ?thesis
    by (intro refused [of "snd (fst (upsert ops p m))"]) (auto simp: upsert_def split: option.splits)
next
  case env: False
  show ?thesis
  proof (cases "validateMutationLocked (up_Generation p) (up_Revision p) m :: 'e worker_error option option")
    case (Some e)
    with env validateMutation_error [of "up_Generation p" "up_Revision p" m] show ?thesis
      by (intro refused [of e]) (auto simp: upsert_def)
  next
    case None
    obtain r a where ra: "ad_Upsert ops (up_Stream p) (mg_adapter m) = (r, a)" by force
    show ?thesis
    proof (cases r)
      case r: None
      with env None ra validateMutation_None [THEN iffD1, OF None] show ?thesis
        by (intro applied) (auto simp: upsert_def Let_def)
    next
      case (Some e)
      with env None ra show ?thesis by (intro failed) (auto simp: upsert_def)
    qed
  qed
qed

lemma delete_cases:
  fixes ops :: "('a, 'e) adapter"
  obtains (refused) e where "delete_stream ops p m = ((resultLocked False m, e), m)" "\<nexists>x. e = Some (AdapterError x)"
  | (failed) e a where "ad_Delete ops (dp_StreamID p) (mg_adapter m) = (Some e, a)"
      "delete_stream ops p m = ((resultLocked False m, Some (AdapterError e)), m\<lparr>mg_adapter := a\<rparr>)"
  | (applied) a m' where "ad_Delete ops (dp_StreamID p) (mg_adapter m) = (None, a)"
      "m' = m\<lparr>mg_adapter := a, mg_streams := gm_del (dp_StreamID p) (mg_streams m), mg_revision := dp_Revision p\<rparr>"
      "delete_stream ops p m = ((resultLocked True m', None), m')" "dp_Generation p = mg_generation m"
      "dp_Revision p > mg_revision m" "dp_Generation p \<noteq> 0"
proof (cases "dp_SchemaVersion p \<noteq> 1 \<or> dp_Generation p = 0 \<or> dp_Revision p = 0 \<or> dp_StreamID p = []")
  case True
  then show ?thesis by (intro refused [of "Some (ErrInvalidStream SF_Envelope)"]) (auto simp: delete_stream_def)
next
  case env: False
  show ?thesis
  proof (cases "validateMutationLocked (dp_Generation p) (dp_Revision p) m :: 'e worker_error option option")
    case (Some e)
    with env validateMutation_error [of "dp_Generation p" "dp_Revision p" m] show ?thesis
      by (intro refused [of e]) (auto simp: delete_stream_def)
  next
    case None
    obtain r a where ra: "ad_Delete ops (dp_StreamID p) (mg_adapter m) = (r, a)" by force
    show ?thesis
    proof (cases r)
      case r: None
      with env None ra validateMutation_None [THEN iffD1, OF None] show ?thesis
        by (intro applied) (auto simp: delete_stream_def Let_def)
    next
      case (Some e)
      with env None ra show ?thesis by (intro failed) (auto simp: delete_stream_def)
    qed
  qed
qed

subsection \<open>Runs of the manager\<close>

text \<open>
  A run with a ghost flag: it is set when the adapter fails and cleared by a replay that is
  carried out.
\<close>

datatype media_request = Replay replay_params | Upsert upsert_params | Delete delete_params

fun perform :: "('a, 'e) adapter \<Rightarrow> media_request \<Rightarrow> 'a manager \<Rightarrow> ('a, 'e) manager_result" where
  "perform ops (Replay p) m = replay ops p m"
| "perform ops (Upsert p) m = upsert ops p m"
| "perform ops (Delete p) m = delete_stream ops p m"

fun flag_after :: "bool \<Rightarrow> media_request \<Rightarrow> media_result \<times> 'e worker_error option \<Rightarrow> bool" where
  "flag_after failed request (r, Some (AdapterError e)) = True"
| "flag_after failed (Replay p) (r, None) = False"
| "flag_after failed request (r, e) = failed"

inductive manager_run :: "('a, 'e) adapter \<Rightarrow> 'a \<Rightarrow> bool \<Rightarrow> 'a manager \<Rightarrow> bool" for ops and a0 where
  run_init: "manager_run ops a0 False (newManager a0)"
| run_step: "manager_run ops a0 failed m \<Longrightarrow> perform ops request m = (out, m') \<Longrightarrow>
    manager_run ops a0 (flag_after failed request out) m'"

lemma manager_ok_new [simp]: "manager_ok (newManager a)"
  by (simp add: manager_ok_def newManager_def)

lemma manager_ok_adapter [simp]: "manager_ok (m\<lparr>mg_adapter := a\<rparr>) = manager_ok m"
  by (simp add: manager_ok_def)

lemma perform_manager_ok: "manager_ok m \<Longrightarrow> perform ops request m = (out, m') \<Longrightarrow> manager_ok m'"
proof (cases request)
  case (Replay p)
  assume ok: "manager_ok m" and run: "perform ops request m = (out, m')"
  show ?thesis
  proof (cases rule: replay_cases [where ops = ops and p = p and m = m])
    case (applied a streams m'')
    then show ?thesis using run Replay indexStreams_Inr [OF applied(1)]
      by (auto simp: manager_ok_def stream_map_def list_all_iff dest!: find_SomeD)
  qed (use ok run Replay in auto)
next
  case (Upsert p)
  assume ok: "manager_ok m" and run: "perform ops request m = (out, m')"
  show ?thesis
  proof (cases rule: upsert_cases [where ops = ops and p = p and m = m])
    case (applied a m'')
    then show ?thesis using ok run Upsert by (auto simp: manager_ok_def gm_get_put split: if_splits)
  qed (use ok run Upsert in auto)
next
  case (Delete p)
  assume ok: "manager_ok m" and run: "perform ops request m = (out, m')"
  show ?thesis
  proof (cases rule: delete_cases [where ops = ops and p = p and m = m])
    case (applied a m'')
    then show ?thesis using ok run Delete by (auto simp: manager_ok_def gm_get_del split: if_splits)
  qed (use ok run Delete in auto)
qed

lemma perform_adapter_error:
  "perform ops request m = ((r, Some (AdapterError e)), m') \<Longrightarrow>
     (\<exists>ss. fst (ad_Replace ops ss (mg_adapter m)) = Some e) \<or> (\<exists>s. fst (ad_Upsert ops s (mg_adapter m)) = Some e) \<or>
     (\<exists>i. fst (ad_Delete ops i (mg_adapter m)) = Some e)"
proof (cases request)
  case (Replay p)
  assume "perform ops request m = ((r, Some (AdapterError e)), m')"
  with Replay show ?thesis
    by (cases rule: replay_cases [where ops = ops and p = p and m = m]) (simp_all, metis fst_conv)
next
  case (Upsert p)
  assume "perform ops request m = ((r, Some (AdapterError e)), m')"
  with Upsert show ?thesis
    by (cases rule: upsert_cases [where ops = ops and p = p and m = m]) (simp_all, metis fst_conv)
next
  case (Delete p)
  assume "perform ops request m = ((r, Some (AdapterError e)), m')"
  with Delete show ?thesis
    by (cases rule: delete_cases [where ops = ops and p = p and m = m]) (simp_all, metis fst_conv)
qed

text \<open>Versions never go back: the pair of generation and revision grows lexicographically.\<close>

definition version_le :: "'a manager \<Rightarrow> 'a manager \<Rightarrow> bool" where
  "version_le m m' \<longleftrightarrow> mg_generation m < mg_generation m' \<or>
     mg_generation m = mg_generation m' \<and> mg_revision m \<le> mg_revision m'"

lemma perform_version: "perform ops request m = (out, m') \<Longrightarrow> version_le m m'"
proof (cases request)
  case (Replay p)
  assume "perform ops request m = (out, m')"
  with Replay show ?thesis
    by (cases rule: replay_cases [where ops = ops and p = p and m = m]) (auto simp: version_le_def)
next
  case (Upsert p)
  assume "perform ops request m = (out, m')"
  with Upsert show ?thesis
    by (cases rule: upsert_cases [where ops = ops and p = p and m = m]) (auto simp: version_le_def)
next
  case (Delete p)
  assume "perform ops request m = (out, m')"
  with Delete show ?thesis
    by (cases rule: delete_cases [where ops = ops and p = p and m = m]) (auto simp: version_le_def)
qed

lemma running_put: "running active (f(i \<mapsto> s)) = (running active f)(i := if active s then Some s else None)"
  by (auto simp: running_def fun_eq_iff)

lemma running_del: "running active (f(i := None)) = (running active f)(i := None)"
  by (auto simp: running_def fun_eq_iff)

context media_adapter
begin

text \<open>One request: the invariant is kept, and so is the agreement unless the adapter failed.\<close>

lemma perform_synced:
  assumes inv: "invar (mg_adapter m)" and ok: "manager_ok m" and run: "perform ops request m = (out, m')"
    and agree: "\<not> failed \<Longrightarrow> synced view active m"
  shows "invar (mg_adapter m') \<and> (\<not> flag_after failed request out \<longrightarrow> synced view active m')"
proof (cases request)
  case (Replay p)
  show ?thesis
  proof (cases rule: replay_cases [where ops = ops and p = p and m = m])
    case (refused e)
    with run Replay inv agree show ?thesis by (cases e) auto
  next
    case (failed e a streams)
    with run Replay inv invar_replace [of "mg_adapter m" "rp_Streams p"] indexStreams_Inr(2) [OF failed(1)]
    show ?thesis by auto
  next
    case (applied a streams m'')
    with run Replay inv invar_replace [of "mg_adapter m" "rp_Streams p"] indexStreams_Inr [OF applied(1)]
      replace_view [of "mg_adapter m" "rp_Streams p" a]
    show ?thesis by (auto simp: synced_def)
  qed
next
  case (Upsert p)
  show ?thesis
  proof (cases rule: upsert_cases [where ops = ops and p = p and m = m])
    case (refused e)
    with run Upsert inv agree show ?thesis by (cases e rule: option.exhaust; cases "the e") auto
  next
    case (failed e a)
    with run Upsert inv invar_upsert [of "mg_adapter m" "up_Stream p"] show ?thesis by auto
  next
    case (applied a m'')
    with run Upsert inv agree invar_upsert [of "mg_adapter m" "up_Stream p"] upsert_view [of "mg_adapter m" "up_Stream p" a]
    show ?thesis by (auto simp: synced_def running_put update_conv')
  qed
next
  case (Delete p)
  show ?thesis
  proof (cases rule: delete_cases [where ops = ops and p = p and m = m])
    case (refused e)
    with run Delete inv agree show ?thesis by (cases e rule: option.exhaust; cases "the e") auto
  next
    case (failed e a)
    with run Delete inv invar_delete [of "mg_adapter m" "dp_StreamID p"] show ?thesis by auto
  next
    case (applied a m'')
    with run Delete inv agree invar_delete [of "mg_adapter m" "dp_StreamID p"] delete_view [of "mg_adapter m" "dp_StreamID p" a]
    show ?thesis by (auto simp: synced_def running_del delete_conv')
  qed
qed

lemma run_synced:
  assumes "manager_run ops a0 failed m" and "invar a0" and "view a0 = (\<lambda>_. None)"
  shows "manager_ok m \<and> invar (mg_adapter m) \<and> (\<not> failed \<longrightarrow> synced view active m)"
  using assms(1)
proof (induction rule: manager_run.induct)
  case run_init
  show ?case using assms(2,3) by (simp add: synced_def newManager_def running_def manager_ok_def fun_eq_iff)
next
  case (run_step failed m request out m')
  then show ?case using perform_synced [of m request out m' failed] perform_manager_ok [of m ops request out m'] by blast
qed

end

subsection \<open>The adapter in memory keeps the contract\<close>

lemma memory_fold: "distinct (map ss_ID ss) \<Longrightarrow>
    map_of (fold (\<lambda>stream m. gm_put (ss_ID stream) stream m) ss m) i =
      (case stream_map ss i of Some s \<Rightarrow> Some s | None \<Rightarrow> gm_get m i)"
proof (induction ss arbitrary: m)
  case (Cons s ss)
  have "stream_map ss (ss_ID s) = None" using Cons.prems by (simp add: stream_map_def find_None_iff) (metis imageI)
  then show ?case using Cons
    by (cases "i = ss_ID s"; cases "stream_map ss i") (auto simp: stream_map_def gm_get_put)
qed (simp add: stream_map_def)

interpretation memory: media_adapter memory_ops gm_get "\<lambda>_. True" "\<lambda>_. True"
proof unfold_locales
  fix a a' :: memory_adapter and ss :: "stream_spec list"
  assume "distinct (map ss_ID ss)" and "ad_Replace memory_ops ss a = (None, a')"
  then have "gm_get a' i = running (\<lambda>_. True) (stream_map ss) i" for i
    using memory_fold [of ss "[]" i] by (auto simp: memory_ops_def memory_replace_def running_def split: option.splits)
  then show "gm_get a' = running (\<lambda>_. True) (stream_map ss)" by blast
qed (auto simp: memory_ops_def memory_upsert_def memory_delete_def update_conv' delete_conv')

section \<open>Properties\<close>

text \<open>In every run of the manager over the adapter in memory, whatever replays and mutations arrive, the
  desired streams sit under their own identifiers and are valid, and the adapter holds exactly them.\<close>

theorem memory_adapter_mirrors:
  assumes "manager_run (memory_ops :: (memory_adapter, 'e) adapter) newMemoryAdapter failed m"
  shows "\<not> failed \<and> gm_get (mg_adapter m) = gm_get (mg_streams m) \<and>
    (\<forall>i s. gm_get (mg_streams m) i = Some s \<longrightarrow> ss_ID s = i \<and> validateStream s = None)"
proof -
  have unfailed: "manager_run (memory_ops :: (memory_adapter, 'e) adapter) newMemoryAdapter failed m \<Longrightarrow> \<not> failed"
  proof (induction rule: manager_run.induct)
    case (run_step failed m request out m')
    have "out \<noteq> (r, Some (AdapterError e))" for r e
      using run_step(2) perform_adapter_error [of memory_ops request m r e m']
      by (auto simp: memory_ops_def memory_replace_def memory_upsert_def memory_delete_def)
    with run_step(3) show ?case by (cases "(failed, request, out)" rule: flag_after.cases) auto
  qed simp
  have "running (\<lambda>_. True) f = f" for f :: "string \<Rightarrow> stream_spec option"
    by (auto simp: running_def fun_eq_iff split: option.splits)
  moreover have "gm_get newMemoryAdapter = (\<lambda>_. None)" by (simp add: newMemoryAdapter_def fun_eq_iff)
  ultimately show ?thesis
    using memory.run_synced [OF assms TrueI] unfailed [OF assms] by (simp add: synced_def manager_ok_def)
qed

text \<open>C37. The manager follows the decision rule of the domain: an upsert in a valid envelope is carried out exactly
  when the rule says apply, and otherwise leaves the manager alone; a stale generation is an error, a new
  generation or a gap asks for a replay, the current revision is accepted silently and an older one is an error.\<close>

theorem upsert_follows_decision:
  fixes ops :: "('a, 'e) adapter"
  assumes "up_SchemaVersion p = 1" and "up_Generation p \<noteq> 0" and "up_Revision p \<noteq> 0" and "validateStream (up_Stream p) = None"
  shows "case mutation_decision (up_Generation p) (up_Revision p) (mg_generation m) (mg_revision m) of
      MutationApply \<Rightarrow>
        (case ad_Upsert ops (up_Stream p) (mg_adapter m) of
           (Some e, a) \<Rightarrow> upsert ops p m = ((resultLocked False m, Some (AdapterError e)), m\<lparr>mg_adapter := a\<rparr>)
         | (None, a) \<Rightarrow> \<exists>m'. upsert ops p m = ((resultLocked True m', None), m') \<and> mg_revision m' = mg_revision m + 1 \<and>
             gm_get (mg_streams m') = (gm_get (mg_streams m))(ss_ID (up_Stream p) \<mapsto> up_Stream p))
    | MutationDuplicate \<Rightarrow> upsert ops p m =
        ((resultLocked False m, if up_Revision p = mg_revision m then None else Some ErrStaleRevision), m)
    | MutationStale \<Rightarrow> upsert ops p m = ((resultLocked False m, Some ErrStaleGeneration), m)
    | MutationNeedReplay \<Rightarrow> upsert ops p m =
        ((resultLocked False m, Some (if up_Generation p > mg_generation m then ErrReplayRequired else ErrRevisionGap)), m)"
proof (cases "mutation_decision (up_Generation p) (up_Revision p) (mg_generation m) (mg_revision m)")
  case MutationApply
  then have "validateMutationLocked (up_Generation p) (up_Revision p) m = (None :: 'e worker_error option option)"
    unfolding validateMutation_None by (auto simp: mutation_decision_def split: if_splits)
  moreover have "up_Revision p = mg_revision m + 1"
    using MutationApply by (auto simp: mutation_decision_def split: if_splits)
  ultimately show ?thesis using assms MutationApply
    by (cases "ad_Upsert ops (up_Stream p) (mg_adapter m)")
      (auto simp: upsert_def Let_def update_conv' split: option.splits)
next
  case MutationDuplicate
  then have "up_Generation p = mg_generation m" "up_Revision p \<le> mg_revision m"
    by (auto simp: mutation_decision_def split: if_splits)
  with assms MutationDuplicate show ?thesis by (simp add: upsert_def validateMutationLocked_def)
next
  case MutationStale
  then have "up_Generation p < mg_generation m" by (simp add: mutation_decision_def split: if_splits)
  with assms MutationStale show ?thesis by (simp add: upsert_def validateMutationLocked_def)
next
  case MutationNeedReplay
  then consider "up_Generation p > mg_generation m"
    | "up_Generation p = mg_generation m" "up_Revision p > mg_revision m" "up_Revision p \<noteq> mg_revision m + 1"
    using assms(2) by (auto simp: mutation_decision_def word_gt_0 split: if_splits)
  then show ?thesis
  proof cases
    case 1
    with assms MutationNeedReplay show ?thesis by (simp add: upsert_def validateMutationLocked_def)
  next
    case 2
    then have "\<not> up_Revision p < mg_revision m" "up_Revision p \<noteq> mg_revision m" by auto
    with 2 assms MutationNeedReplay show ?thesis by (simp add: upsert_def validateMutationLocked_def)
  qed
qed

text \<open>Versions never go back: whatever request is performed, on whatever adapter, the pair of generation and
  revision of the manager does not decrease.\<close>

theorem media_versions_grow:
  assumes "perform ops request m = (out, m')"
  shows "mg_generation m < mg_generation m' \<or> mg_generation m = mg_generation m' \<and> mg_revision m \<le> mg_revision m'"
  using perform_version [OF assms] by (simp add: version_le_def)

section \<open>Witnesses\<close>

definition door_stream :: stream_spec where
  "door_stream =
     \<lparr>ss_SchemaVersion = 1, ss_ID = ''door'', ss_DeviceID = ''cam'', ss_Protocol = ''rtsp'', ss_CredentialRef = [],
      ss_Profile = ''main'', ss_Mode = ''on_demand'', ss_Audio = False, ss_Talkback = False, ss_Options = []\<rparr>"

definition door_replay :: replay_params where
  "door_replay = \<lparr>rp_SchemaVersion = 1, rp_Generation = 1, rp_Revision = 1, rp_Streams = [door_stream]\<rparr>"

definition door_upsert :: upsert_params where
  "door_upsert = \<lparr>up_SchemaVersion = 1, up_Generation = 1, up_Revision = 2, up_Stream = door_stream\<lparr>ss_Mode := ''disabled''\<rparr>\<rparr>"

definition door_manager :: "memory_adapter manager" where
  "door_manager = \<lparr>mg_adapter = [(''door'', door_stream)], mg_generation = 1, mg_revision = 1, mg_streams = [(''door'', door_stream)]\<rparr>"

lemma door_replayed:
  "replay memory_ops door_replay (newManager newMemoryAdapter) = ((resultLocked True door_manager, None), door_manager)"
  by (simp add: replay_def door_replay_def indexStreams_def validateStream_def door_stream_def newManager_def
      newMemoryAdapter_def memory_ops_def memory_replace_def resultLocked_def door_manager_def)

theorem memory_adapter_mirrors_witness:
  "gm_get (mg_adapter door_manager) = gm_get (mg_streams door_manager)"
proof -
  have "manager_run (memory_ops :: (memory_adapter, unit) adapter) newMemoryAdapter
      (flag_after False (Replay door_replay) (resultLocked True door_manager, None :: unit worker_error option)) door_manager"
    by (rule run_step [OF run_init]) (simp add: door_replayed)
  from memory_adapter_mirrors [OF this] show ?thesis by blast
qed

theorem upsert_follows_decision_witness:
  "\<exists>m'. upsert (memory_ops :: (memory_adapter, unit) adapter) door_upsert door_manager = ((resultLocked True m', None), m') \<and>
     mg_revision m' = 2"
proof -
  have "mutation_decision (up_Generation door_upsert) (up_Revision door_upsert) (mg_generation door_manager) (mg_revision door_manager) = MutationApply"
    by code_simp
  moreover have "validateStream (up_Stream door_upsert) = None" by (simp add: door_upsert_def validateStream_def door_stream_def)
  moreover have "fst (ad_Upsert memory_ops (up_Stream door_upsert) (mg_adapter door_manager)) = (None :: unit option)"
    by (simp add: memory_ops_def memory_upsert_def)
  ultimately show ?thesis
    using upsert_follows_decision [where p = door_upsert and m = door_manager and ops = "memory_ops :: (memory_adapter, unit) adapter"]
    by (auto simp: door_upsert_def door_manager_def split: prod.splits)
qed

theorem media_versions_grow_witness:
  "mg_generation (newManager newMemoryAdapter) < mg_generation door_manager \<or>
   mg_generation (newManager newMemoryAdapter) = mg_generation door_manager \<and> mg_revision (newManager newMemoryAdapter) \<le> mg_revision door_manager"
proof (rule media_versions_grow)
  show "perform (memory_ops :: (memory_adapter, unit) adapter) (Replay door_replay) (newManager newMemoryAdapter) =
      ((resultLocked True door_manager, None), door_manager)" by (simp add: door_replayed)
qed

end
