(* ===== verification/Media_Lifecycle.thy ===== *)
theory Media_Lifecycle
  imports Media_Worker Strconv
begin

text \<open>
  The lifecycle adapter, \<open>internal/mediaruntime/adapter/registry.go\<close>, which turns the desired
  streams into sessions of media producers, and the runtime that embeds the manager over it,
  \<open>internal/mediaruntime/runtime.go\<close>.

  What the producers, the source resolver and the sessions answer is decided by an environment:
  every call of theirs has a number, and the environment gives the outcome of the call with that
  number. The state keeps the number of the next call, the sessions that are open, and the ones
  whose \<open>Close\<close> has returned an error. A session is named by the number of the call that started it.
  The environment also decides the order in which Go ranges over a map: for a loop and a call
  number it gives the keys that come first, the rest follow.

  \<open>strings.ToLower\<close> is modelled on ASCII; the protocols are ASCII names.
\<close>

declare map_of_eq_Some_iff [simp del] Some_eq_map_of_iff [simp del]

section \<open>Producers\<close>

datatype lifecycle_error = ErrProducerNotFound string | ResolutionFailed | StartFailed | NoSession | StopFailed
  | RollbackFailed lifecycle_error | InvalidRegistration | AlreadyRegistered string

type_synonym session = nat
type_synonym producer = nat

datatype start_outcome = ResolveError | StartError | StartNil | Started

record environment =
  env_start :: "nat \<Rightarrow> producer \<Rightarrow> stream_spec \<Rightarrow> start_outcome"
  env_close :: "nat \<Rightarrow> session \<Rightarrow> bool"
  env_range :: "nat \<Rightarrow> nat \<Rightarrow> string list"

definition go_range :: "'k list \<Rightarrow> ('k, 'v) gomap \<Rightarrow> ('k \<times> 'v) list" where
  "go_range order m = List.map_filter (\<lambda>k. map_option (Pair k) (gm_get m k)) (remdups (order @ gm_keys m))"

definition normalizeProtocol :: "string \<Rightarrow> string" where
  "normalizeProtocol protocol = map lower_char (trimSpace protocol)"

definition register :: "string \<Rightarrow> producer option \<Rightarrow> (string, producer) gomap \<Rightarrow> lifecycle_error option \<times> (string, producer) gomap" where
  "register protocol0 producer r =
     (let protocol = normalizeProtocol protocol0
      in if protocol = [] \<or> producer = None then (Some InvalidRegistration, r)
         else if gm_get r protocol \<noteq> None then (Some (AlreadyRegistered protocol), r)
         else (None, gm_put protocol (the producer) r))"

definition registry_producer :: "string \<Rightarrow> (string, producer) gomap \<Rightarrow> lifecycle_error + producer" where
  "registry_producer protocol r =
     (case gm_get r (normalizeProtocol protocol) of None \<Rightarrow> Inl (ErrProducerNotFound protocol) | Some p \<Rightarrow> Inr p)"

section \<open>The adapter\<close>

record active_session =
  as_spec :: stream_spec
  as_session :: session

record lifecycle =
  lc_registry :: "(string, producer) gomap"
  lc_sessions :: "(string, active_session) gomap"
  lc_calls :: nat
  lc_open :: "session list"
  lc_unclosed :: "session list"

definition newLifecycleAdapter :: "(string, producer) gomap \<Rightarrow> lifecycle" where
  "newLifecycleAdapter r = \<lparr>lc_registry = r, lc_sessions = [], lc_calls = 0, lc_open = [], lc_unclosed = []\<rparr>"

definition start_session :: "environment \<Rightarrow> stream_spec \<Rightarrow> lifecycle \<Rightarrow> (lifecycle_error + active_session) \<times> lifecycle" where
  "start_session env spec l =
     (case registry_producer (ss_Protocol spec) (lc_registry l) of
        Inl e \<Rightarrow> (Inl e, l)
      | Inr producer \<Rightarrow>
          (let n = lc_calls l; l = l\<lparr>lc_calls := n + 1\<rparr>
           in case env_start env n producer spec of
                ResolveError \<Rightarrow> (Inl ResolutionFailed, l)
              | StartError \<Rightarrow> (Inl StartFailed, l)
              | StartNil \<Rightarrow> (Inl NoSession, l)
              | Started \<Rightarrow> (Inr \<lparr>as_spec = spec, as_session = n\<rparr>, l\<lparr>lc_open := n # lc_open l\<rparr>)))"

definition close_session :: "environment \<Rightarrow> session \<Rightarrow> lifecycle \<Rightarrow> lifecycle_error option \<times> lifecycle" where
  "close_session env session l =
     (let n = lc_calls l; l = l\<lparr>lc_calls := n + 1\<rparr>
      in if env_close env n session then (None, l\<lparr>lc_open := remove1 session (lc_open l)\<rparr>)
         else (Some StopFailed, l\<lparr>lc_unclosed := session # lc_unclosed l\<rparr>))"

definition closePrepared :: "environment \<Rightarrow> (string, active_session) gomap \<Rightarrow> lifecycle \<Rightarrow> lifecycle" where
  "closePrepared env prepared l =
     fold (\<lambda>(_, candidate) l. snd (close_session env (as_session candidate) l))
       (go_range (env_range env 4 (lc_calls l)) prepared) l"

definition isActive :: "stream_spec \<Rightarrow> bool" where
  "isActive spec \<longleftrightarrow> ss_Mode spec \<noteq> ''disabled''"

definition sameSpec :: "stream_spec \<Rightarrow> stream_spec \<Rightarrow> bool" where
  "sameSpec left right \<longleftrightarrow>
     ss_SchemaVersion left = ss_SchemaVersion right \<and> ss_ID left = ss_ID right \<and> ss_DeviceID left = ss_DeviceID right \<and>
     ss_Protocol left = ss_Protocol right \<and> ss_CredentialRef left = ss_CredentialRef right \<and>
     ss_Profile left = ss_Profile right \<and> ss_Mode left = ss_Mode right \<and> ss_Audio left = ss_Audio right \<and>
     ss_Talkback left = ss_Talkback right \<and> ss_Options left = ss_Options right"

definition put_session :: "string \<Rightarrow> active_session \<Rightarrow> lifecycle \<Rightarrow> lifecycle" where
  "put_session i s l = l\<lparr>lc_sessions := gm_put i s (lc_sessions l)\<rparr>"

definition drop_session :: "string \<Rightarrow> lifecycle \<Rightarrow> lifecycle" where
  "drop_session i l = l\<lparr>lc_sessions := gm_del i (lc_sessions l)\<rparr>"

text \<open>
  The three loops of \<open>Replace\<close>. The second one ranges over the sessions while it deletes and inserts
  the entry it is at; Go may visit such an entry again, and the visit then does nothing, because
  the session has the desired specification. Each entry is visited once here.
\<close>

fun prepare :: "environment \<Rightarrow> (string \<times> stream_spec) list \<Rightarrow> (string, active_session) gomap \<Rightarrow> lifecycle \<Rightarrow>
    (lifecycle_error + (string, active_session) gomap) \<times> lifecycle" where
  "prepare env [] prepared l = (Inr prepared, l)"
| "prepare env ((i, spec) # rest) prepared l =
     (if gm_get (lc_sessions l) i \<noteq> None \<or> \<not> isActive spec then prepare env rest prepared l
      else case start_session env spec l of
             (Inl e, l) \<Rightarrow> (Inl e, closePrepared env prepared l)
           | (Inr candidate, l) \<Rightarrow> prepare env rest (gm_put i candidate prepared) l)"

text \<open>Starting a replacement after its predecessor was closed; the predecessor is started again if that fails.\<close>

definition restart :: "environment \<Rightarrow> string \<Rightarrow> stream_spec \<Rightarrow> active_session \<Rightarrow> lifecycle \<Rightarrow> lifecycle_error option \<times> lifecycle" where
  "restart env i spec current l =
     (case start_session env spec l of
        (Inr candidate, l) \<Rightarrow> (None, put_session i candidate l)
      | (Inl e, l) \<Rightarrow>
          (case start_session env (as_spec current) l of
             (Inr restored, l) \<Rightarrow> (Some e, put_session i restored l)
           | (Inl _, l) \<Rightarrow> (Some (RollbackFailed e), l)))"

fun replace_changed :: "environment \<Rightarrow> (string, stream_spec) gomap \<Rightarrow> (string, active_session) gomap \<Rightarrow>
    (string \<times> active_session) list \<Rightarrow> lifecycle \<Rightarrow> lifecycle_error option \<times> lifecycle" where
  "replace_changed env desired prepared [] l = (None, l)"
| "replace_changed env desired prepared ((i, current) # rest) l =
     (case gm_get desired i of
        None \<Rightarrow> replace_changed env desired prepared rest l
      | Some next \<Rightarrow>
          if \<not> isActive next \<or> sameSpec (as_spec current) next then replace_changed env desired prepared rest l
          else (case close_session env (as_session current) l of
                  (Some e, l) \<Rightarrow> (Some e, closePrepared env prepared l)
                | (None, l) \<Rightarrow>
                    (case restart env i next current (drop_session i l) of
                       (Some e, l) \<Rightarrow> (Some e, closePrepared env prepared l)
                     | (None, l) \<Rightarrow> replace_changed env desired prepared rest l)))"

fun stop_undesired :: "environment \<Rightarrow> (string, stream_spec) gomap \<Rightarrow> (string, active_session) gomap \<Rightarrow>
    (string \<times> active_session) list \<Rightarrow> lifecycle \<Rightarrow> lifecycle_error option \<times> lifecycle" where
  "stop_undesired env desired prepared [] l = (None, l)"
| "stop_undesired env desired prepared ((i, current) # rest) l =
     (if (case gm_get desired i of None \<Rightarrow> True | Some next \<Rightarrow> \<not> isActive next)
      then (case close_session env (as_session current) l of
              (Some e, l) \<Rightarrow> (Some e, closePrepared env prepared l)
            | (None, l) \<Rightarrow> stop_undesired env desired prepared rest (drop_session i l))
      else stop_undesired env desired prepared rest l)"

definition lifecycle_replace :: "environment \<Rightarrow> stream_spec list \<Rightarrow> lifecycle \<Rightarrow> lifecycle_error option \<times> lifecycle" where
  "lifecycle_replace env streams l =
     (let desired = fold (\<lambda>stream m. gm_put (ss_ID stream) stream m) streams []
      in case prepare env (go_range (env_range env 1 (lc_calls l)) desired) [] l of
           (Inl e, l) \<Rightarrow> (Some e, l)
         | (Inr prepared, l) \<Rightarrow>
             (case replace_changed env desired prepared (go_range (env_range env 2 (lc_calls l)) (lc_sessions l)) l of
                (Some e, l) \<Rightarrow> (Some e, l)
              | (None, l) \<Rightarrow>
                  (case stop_undesired env desired prepared (go_range (env_range env 3 (lc_calls l)) (lc_sessions l)) l of
                     (Some e, l) \<Rightarrow> (Some e, l)
                   | (None, l) \<Rightarrow> (None, fold (\<lambda>(i, candidate) l. put_session i candidate l) prepared l))))"

definition lifecycle_upsert :: "environment \<Rightarrow> stream_spec \<Rightarrow> lifecycle \<Rightarrow> lifecycle_error option \<times> lifecycle" where
  "lifecycle_upsert env spec l =
     (case gm_get (lc_sessions l) (ss_ID spec) of
        None \<Rightarrow>
          if \<not> isActive spec then (None, l)
          else (case start_session env spec l of
                  (Inl e, l) \<Rightarrow> (Some e, l)
                | (Inr candidate, l) \<Rightarrow> (None, put_session (ss_ID spec) candidate l))
      | Some current \<Rightarrow>
          if sameSpec (as_spec current) spec then (None, l)
          else (case close_session env (as_session current) l of
                  (Some e, l) \<Rightarrow> (Some e, l)
                | (None, l) \<Rightarrow>
                    (let l = drop_session (ss_ID spec) l
                     in if \<not> isActive spec then (None, l) else restart env (ss_ID spec) spec current l)))"

definition lifecycle_delete :: "environment \<Rightarrow> string \<Rightarrow> lifecycle \<Rightarrow> lifecycle_error option \<times> lifecycle" where
  "lifecycle_delete env streamID l =
     (case gm_get (lc_sessions l) streamID of
        None \<Rightarrow> (None, l)
      | Some current \<Rightarrow>
          (case close_session env (as_session current) l of
             (Some e, l) \<Rightarrow> (Some e, l)
           | (None, l) \<Rightarrow> (None, drop_session streamID l)))"

definition lifecycle_ops :: "environment \<Rightarrow> (lifecycle, lifecycle_error) adapter" where
  "lifecycle_ops env =
     \<lparr>ad_Replace = lifecycle_replace env, ad_Upsert = lifecycle_upsert env, ad_Delete = lifecycle_delete env\<rparr>"

section \<open>The runtime\<close>

record runtime =
  rt_manager :: "lifecycle manager"
  rt_closed :: bool

record runtime_mutation =
  mu_SchemaVersion :: int
  mu_Generation :: u64
  mu_Revision :: u64
  mu_Action :: string
  mu_Spec :: stream_spec

datatype runtime_error = RuntimeClosed | UnsupportedMutation | WorkerError "lifecycle_error worker_error"

definition runtime_replay :: "environment \<Rightarrow> replay_params \<Rightarrow> runtime \<Rightarrow> runtime_error option \<times> runtime" where
  "runtime_replay env value r =
     (if rt_closed r then (Some RuntimeClosed, r)
      else let ((_, e), m) = replay (lifecycle_ops env) value (rt_manager r)
           in (map_option WorkerError e, r\<lparr>rt_manager := m\<rparr>))"

definition runtime_apply :: "environment \<Rightarrow> runtime_mutation \<Rightarrow> runtime \<Rightarrow> runtime_error option \<times> runtime" where
  "runtime_apply env value r =
     (if rt_closed r then (Some RuntimeClosed, r)
      else if mu_Action value = ''upsert''
      then let ((_, e), m) = upsert (lifecycle_ops env)
                 \<lparr>up_SchemaVersion = mu_SchemaVersion value, up_Generation = mu_Generation value,
                  up_Revision = mu_Revision value, up_Stream = mu_Spec value\<rparr> (rt_manager r)
           in (map_option WorkerError e, r\<lparr>rt_manager := m\<rparr>)
      else if mu_Action value = ''delete''
      then let ((_, e), m) = delete_stream (lifecycle_ops env)
                 \<lparr>dp_SchemaVersion = mu_SchemaVersion value, dp_Generation = mu_Generation value,
                  dp_Revision = mu_Revision value, dp_StreamID = ss_ID (mu_Spec value)\<rparr> (rt_manager r)
           in (map_option WorkerError e, r\<lparr>rt_manager := m\<rparr>)
      else (Some UnsupportedMutation, r))"

definition runtime_ready :: "runtime \<Rightarrow> bool" where
  "runtime_ready r \<longleftrightarrow> \<not> rt_closed r"

definition runtime_close :: "environment \<Rightarrow> runtime \<Rightarrow> runtime_error option \<times> runtime" where
  "runtime_close env r =
     (if rt_closed r then (None, r)
      else let r = r\<lparr>rt_closed := True\<rparr>; (generation, revision, _) = manager_snapshot (rt_manager r)
           in if generation = 0 then (None, r)
              else let ((_, e), m) = replay (lifecycle_ops env)
                         \<lparr>rp_SchemaVersion = 1, rp_Generation = generation, rp_Revision = revision, rp_Streams = []\<rparr>
                         (rt_manager r)
                   in (map_option WorkerError e, r\<lparr>rt_manager := m\<rparr>))"

section \<open>Lemmas\<close>

subsection \<open>Ranging over a map\<close>

lemma map_filter_keys: "distinct ks \<Longrightarrow> distinct (map fst (List.map_filter (\<lambda>k. map_option (Pair k) (f k)) ks))"
  by (induction ks) (auto simp: List.map_filter_def split: option.splits)

lemma go_range_ok [simp]: "gm_ok (go_range order m)"
  unfolding go_range_def by (rule map_filter_keys) simp

lemma go_range_set: "gm_ok m \<Longrightarrow> set (go_range order m) = set m"
proof -
  assume ok: "gm_ok m"
  have "(k, v) \<in> set (go_range order m) \<longleftrightarrow> gm_get m k = Some v" for k v
    by (auto simp: go_range_def List.map_filter_def image_iff intro!: exI [of _ k] dest: gm_get_in_set)
      (metis fst_conv gm_get_in_set)
  then show ?thesis using ok by (auto intro: gm_in_set_get dest: gm_get_in_set)
qed

lemma go_range_get [simp]: "gm_ok m \<Longrightarrow> gm_get (go_range order m) = gm_get m"
  by (rule ext) (metis go_range_ok go_range_set gm_get_in_set gm_in_set_get not_None_eq)

lemma sameSpec_eq: "sameSpec a b \<longleftrightarrow> a = (b :: stream_spec)"
  by (auto simp: sameSpec_def)

subsection \<open>The books of sessions\<close>

text \<open>
  \<open>C\<close> says which session is held for which stream: the sessions of the adapter and the ones prepared
  so far. Held sessions are open and belong to one stream; an open session is held, or closing it
  has failed.
\<close>

definition books :: "(string \<Rightarrow> active_session option) \<Rightarrow> lifecycle \<Rightarrow> bool" where
  "books C l \<longleftrightarrow>
     (\<forall>i a. C i = Some a \<longrightarrow> as_session a \<in> set (lc_open l)) \<and>
     (\<forall>i j a b. C i = Some a \<longrightarrow> C j = Some b \<longrightarrow> as_session a = as_session b \<longrightarrow> i = j) \<and>
     distinct (lc_open l) \<and> (\<forall>n \<in> set (lc_open l). n < lc_calls l) \<and>
     (\<forall>n \<in> set (lc_open l). n \<in> set (lc_unclosed l) \<or> (\<exists>i a. C i = Some a \<and> as_session a = n))"

lemma books_start_Inl:
  "books C l \<Longrightarrow> start_session env spec l = (Inl e, l') \<Longrightarrow> books C l' \<and> lc_sessions l' = lc_sessions l"
  by (auto simp: start_session_def books_def Let_def less_Suc_eq split: sum.splits start_outcome.splits)

lemma books_start_Inr:
  assumes "books C l" and "start_session env spec l = (Inr c, l')" and "C i = None"
  shows "books (C(i \<mapsto> c)) l' \<and> lc_sessions l' = lc_sessions l \<and> as_spec c = spec"
proof -
  from assms(2) have c: "c = \<lparr>as_spec = spec, as_session = lc_calls l\<rparr>"
    and l': "l' = l\<lparr>lc_calls := lc_calls l + 1, lc_open := lc_calls l # lc_open l\<rparr>"
    by (auto simp: start_session_def Let_def split: sum.splits start_outcome.splits)
  have fresh: "lc_calls l \<notin> set (lc_open l)" using assms(1) by (auto simp: books_def)
  then have "as_session a \<noteq> lc_calls l" if "C j = Some a" for j a using assms(1) that by (metis books_def less_irrefl)
  then show ?thesis using assms(1,3) fresh unfolding books_def c l'
    by (auto simp: less_Suc_eq split: if_splits) (metis option.distinct(1))
qed

lemma books_close:
  assumes "books C l" and "close_session env (as_session a) l = (r, l')" and "C i = Some a"
  shows "books (C(i := None)) l' \<and> lc_sessions l' = lc_sessions l \<and> (r \<noteq> None \<longrightarrow> books C l')"
proof -
  have other: "j = i" if "C j = Some b" "as_session b = as_session a" for j b
    using assms(1,3) that unfolding books_def by blast
  show ?thesis
  proof (cases "env_close env (lc_calls l) (as_session a)")
    case True
    with assms(1,2) show ?thesis using other
      by (auto simp: close_session_def Let_def books_def less_Suc_eq split: if_splits) (metis assms(3) option.inject)
  next
    case False
    with assms(1,2) show ?thesis using other
      by (auto simp: close_session_def Let_def books_def less_Suc_eq split: if_splits) (metis assms(3) option.inject)+
  qed
qed

subsection \<open>What each step keeps\<close>

definition lifecycle_view :: "lifecycle \<Rightarrow> string \<Rightarrow> stream_spec option" where
  "lifecycle_view l i = map_option as_spec (gm_get (lc_sessions l) i)"

text \<open>The invariant while the sessions \<open>prepared\<close> wait to be adopted.\<close>

definition holding :: "(string, active_session) gomap \<Rightarrow> lifecycle \<Rightarrow> bool" where
  "holding prepared l \<longleftrightarrow> gm_ok (lc_sessions l) \<and>
     (\<forall>i a. gm_get (lc_sessions l) i = Some a \<longrightarrow> ss_ID (as_spec a) = i \<and> isActive (as_spec a)) \<and>
     books (gm_get (lc_sessions l) ++ gm_get prepared) l \<and>
     (\<forall>i. gm_get (lc_sessions l) i = None \<or> gm_get prepared i = None)"

abbreviation lifecycle_ok :: "lifecycle \<Rightarrow> bool" where
  "lifecycle_ok l \<equiv> holding [] l"

lemma holding_disjoint: "holding prepared l \<Longrightarrow> gm_get (lc_sessions l) i = Some a \<Longrightarrow> gm_get prepared i = None"
  unfolding holding_def by (metis option.distinct(1))

lemma holding_disjoint': "holding prepared l \<Longrightarrow> gm_get prepared i = Some a \<Longrightarrow> gm_get (lc_sessions l) i = None"
  unfolding holding_def by (metis option.distinct(1))

lemma holding_books: "holding prepared l \<Longrightarrow> books (gm_get (lc_sessions l) ++ gm_get prepared) l"
  by (simp add: holding_def)

lemma books_fold_close:
  "gm_ok ps \<Longrightarrow> books C l \<Longrightarrow> (\<And>i a. (i, a) \<in> set ps \<Longrightarrow> C i = Some a) \<Longrightarrow>
     books (\<lambda>i. if i \<in> fst ` set ps then None else C i)
       (fold (\<lambda>(_, candidate) l. snd (close_session env (as_session candidate) l)) ps l) \<and>
     lc_sessions (fold (\<lambda>(_, candidate) l. snd (close_session env (as_session candidate) l)) ps l) = lc_sessions l"
proof (induction ps arbitrary: C l)
  case (Cons p ps)
  obtain i a where p: "p = (i, a)" by force
  obtain r l1 where close: "close_session env (as_session a) l = (r, l1)" by force
  have "C i = Some a" using Cons.prems(3) p by simp
  from books_close [OF Cons.prems(2) close this]
  have l1: "books (C(i := None)) l1" "lc_sessions l1 = lc_sessions l" by simp_all
  have rest: "(C(i := None)) j = Some b" if "(j, b) \<in> set ps" for j b
    using Cons.prems that p by force
  have ok: "gm_ok ps" using Cons.prems(1) by simp
  have "(\<lambda>j. if j \<in> fst ` set ps then None else (C(i := None)) j) = (\<lambda>j. if j \<in> fst ` set (p # ps) then None else C j)"
    using p by auto
  with Cons.IH [OF ok l1(1) rest] show ?case using l1(2) close p by simp
qed simp

lemma closePrepared_ok:
  assumes "holding prepared l" and "gm_ok prepared"
  shows "lifecycle_ok (closePrepared env prepared l) \<and> lc_sessions (closePrepared env prepared l) = lc_sessions l"
proof -
  let ?ps = "go_range (env_range env 4 (lc_calls l)) prepared"
  let ?C = "gm_get (lc_sessions l) ++ gm_get prepared"
  have "?C i = Some a" if "(i, a) \<in> set ?ps" for i a
    using that assms(2) by (simp add: go_range_set gm_in_set_get)
  from books_fold_close [OF go_range_ok _ this] assms
  have b: "books (\<lambda>i. if i \<in> fst ` set ?ps then None else ?C i) (closePrepared env prepared l)"
    "lc_sessions (closePrepared env prepared l) = lc_sessions l"
    by (auto simp: holding_def closePrepared_def)
  have "(\<lambda>i. if i \<in> fst ` set ?ps then None else ?C i) = gm_get (lc_sessions l)"
  proof
    fix i
    have "i \<in> fst ` set ?ps \<longleftrightarrow> gm_get prepared i \<noteq> None" using assms(2) by (simp add: go_range_set map_of_eq_None_iff)
    then show "(if i \<in> fst ` set ?ps then None else ?C i) = gm_get (lc_sessions l) i"
      using holding_disjoint' [OF assms(1)] by (cases "gm_get prepared i") (simp_all add: map_add_def)
  qed
  with b assms(1) show ?thesis by (simp add: holding_def)
qed

lemma close_drop_ok:
  assumes "holding prepared l" and "gm_get (lc_sessions l) i = Some a" and "close_session env (as_session a) l = (None, l1)"
  shows "holding prepared (drop_session i l1) \<and> gm_get (lc_sessions (drop_session i l1)) = (gm_get (lc_sessions l))(i := None)"
proof -
  let ?S = "gm_get (lc_sessions l)"
  have p: "gm_get prepared i = None" using holding_disjoint [OF assms(1,2)] .
  have "(?S ++ gm_get prepared) i = Some a" using assms(2) p by (simp add: map_add_def)
  from books_close [OF holding_books [OF assms(1)] assms(3) this] assms(1)
  have b: "books ((?S ++ gm_get prepared)(i := None)) l1" "lc_sessions l1 = lc_sessions l" by (auto simp: holding_def)
  have "(?S ++ gm_get prepared)(i := None) = ?S(i := None) ++ gm_get prepared"
    using p by (auto simp: map_add_def fun_eq_iff split: option.splits)
  with b assms(1) show ?thesis
    by (auto simp: holding_def drop_session_def delete_conv' books_def)
qed

lemma close_failed_ok:
  assumes "holding prepared l" and "gm_get (lc_sessions l) i = Some a" and "close_session env (as_session a) l = (Some e, l1)"
  shows "holding prepared l1 \<and> lc_sessions l1 = lc_sessions l"
proof -
  have "(gm_get (lc_sessions l) ++ gm_get prepared) i = Some a"
    using assms(2) holding_disjoint [OF assms(1,2)] by (simp add: map_add_def)
  from books_close [OF holding_books [OF assms(1)] assms(3) this] assms(1) show ?thesis by (auto simp: holding_def)
qed

lemma start_failed_ok:
  "holding prepared l \<Longrightarrow> start_session env spec l = (Inl e, l1) \<Longrightarrow> holding prepared l1 \<and> lc_sessions l1 = lc_sessions l"
  using books_start_Inl by (fastforce simp: holding_def)

lemma start_put_ok:
  assumes "holding prepared l" and "start_session env spec l = (Inr c, l1)"
    and "gm_get (lc_sessions l) (ss_ID spec) = None" and "gm_get prepared (ss_ID spec) = None" and "isActive spec"
  shows "holding prepared (put_session (ss_ID spec) c l1) \<and>
    gm_get (lc_sessions (put_session (ss_ID spec) c l1)) = (gm_get (lc_sessions l))(ss_ID spec \<mapsto> c) \<and> as_spec c = spec"
proof -
  let ?C = "gm_get (lc_sessions l) ++ gm_get prepared"
  have "?C (ss_ID spec) = None" using assms(3,4) by simp
  from books_start_Inr [OF holding_books [OF assms(1)] assms(2) this] assms(1)
  have b: "books (?C(ss_ID spec \<mapsto> c)) l1" "lc_sessions l1 = lc_sessions l" "as_spec c = spec" by (auto simp: holding_def)
  have "?C(ss_ID spec \<mapsto> c) = (gm_get (lc_sessions l))(ss_ID spec \<mapsto> c) ++ gm_get prepared"
    using assms(4) by (auto simp: map_add_def fun_eq_iff split: option.splits)
  with b assms show ?thesis
    by (auto simp: holding_def put_session_def update_conv' books_def)
qed

lemma start_prepare_ok:
  assumes "holding prepared l" and "start_session env spec l = (Inr c, l1)"
    and "gm_get (lc_sessions l) i = None" and "gm_get prepared i = None"
  shows "holding (gm_put i c prepared) l1 \<and> lc_sessions l1 = lc_sessions l \<and> as_spec c = spec"
proof -
  let ?C = "gm_get (lc_sessions l) ++ gm_get prepared"
  have "?C i = None" using assms(3,4) by simp
  from books_start_Inr [OF holding_books [OF assms(1)] assms(2) this] assms(1)
  have b: "books (?C(i \<mapsto> c)) l1" "lc_sessions l1 = lc_sessions l" "as_spec c = spec" by (auto simp: holding_def)
  have "?C(i \<mapsto> c) = gm_get (lc_sessions l) ++ gm_get (gm_put i c prepared)"
    using assms(3) by (auto simp: map_add_def fun_eq_iff gm_get_put split: option.splits)
  with b assms show ?thesis by (auto simp: holding_def gm_get_put)
qed

lemma restart_ok:
  assumes "holding prepared l" and "restart env (ss_ID spec) spec current l = (r, l1)"
    and "gm_get (lc_sessions l) (ss_ID spec) = None" and "gm_get prepared (ss_ID spec) = None" and "isActive spec"
    and "ss_ID (as_spec current) = ss_ID spec" and "isActive (as_spec current)"
  shows "holding prepared l1 \<and> (r = None \<longrightarrow> lifecycle_view l1 = (lifecycle_view l)(ss_ID spec \<mapsto> spec)) \<and>
    (\<forall>j. j \<noteq> ss_ID spec \<longrightarrow> gm_get (lc_sessions l1) j = gm_get (lc_sessions l) j)"
proof (cases "start_session env spec l")
  case (Pair o1 l2)
  show ?thesis
  proof (cases o1)
    case (Inr c)
    with start_put_ok [OF assms(1) _ assms(3,4,5), of env c l2] Pair assms(2) show ?thesis
      by (auto simp: restart_def lifecycle_view_def fun_eq_iff)
  next
    case (Inl e)
    with Pair start_failed_ok [OF assms(1), of env spec e l2]
    have l2: "holding prepared l2" "lc_sessions l2 = lc_sessions l" by simp_all
    show ?thesis
    proof (cases "start_session env (as_spec current) l2")
      case pair2: (Pair o2 l3)
      show ?thesis
      proof (cases o2)
        case inr2: (Inr c)
        with start_put_ok [OF l2(1), of env "as_spec current" c l3] pair2 Pair Inl assms(2-) l2 show ?thesis
          by (auto simp: restart_def)
      next
        case inl2: (Inl e2)
        with start_failed_ok [OF l2(1), of env "as_spec current" e2 l3] pair2 Pair Inl assms(2) l2 show ?thesis
          by (auto simp: restart_def)
      qed
    qed
  qed
qed

subsection \<open>The loops of a replacement\<close>

text \<open>What the first loop prepares, and what the second one leaves running.\<close>

definition prepared_spec :: "(string \<Rightarrow> active_session option) \<Rightarrow> (string \<Rightarrow> active_session option) \<Rightarrow>
    (string \<Rightarrow> stream_spec option) \<Rightarrow> string \<Rightarrow> stream_spec option" where
  "prepared_spec P S items i =
     (case P i of Some c \<Rightarrow> Some (as_spec c) | None \<Rightarrow> if S i = None then running isActive items i else None)"

lemma prepared_spec_skip: "S i \<noteq> None \<or> \<not> isActive spec \<Longrightarrow> rest i = None \<Longrightarrow>
    prepared_spec P S (rest(i \<mapsto> spec)) = prepared_spec P S rest"
  by (auto simp: prepared_spec_def running_def fun_eq_iff split: option.splits)

lemma prepared_spec_start: "S i = None \<Longrightarrow> isActive (as_spec c) \<Longrightarrow> P i = None \<Longrightarrow>
    prepared_spec P S (rest(i \<mapsto> as_spec c)) = prepared_spec (P(i \<mapsto> c)) S rest"
  by (auto simp: prepared_spec_def running_def fun_eq_iff split: option.splits)

definition changed_spec :: "(string \<Rightarrow> stream_spec option) \<Rightarrow> (string \<Rightarrow> active_session option) \<Rightarrow>
    (string \<Rightarrow> stream_spec option) \<Rightarrow> string \<Rightarrow> stream_spec option" where
  "changed_spec desired items view i =
     (if items i = None then view i else case running isActive desired i of Some s \<Rightarrow> Some s | None \<Rightarrow> view i)"

lemma changed_spec_skip: "running isActive desired i = None \<or> desired i = view i \<Longrightarrow>
    changed_spec desired (items(i \<mapsto> a)) view = changed_spec desired items view"
  by (auto simp: changed_spec_def running_def fun_eq_iff split: option.splits)

lemma changed_spec_restart: "running isActive desired i = Some s \<Longrightarrow> items i = None \<Longrightarrow>
    changed_spec desired (items(i \<mapsto> a)) view = changed_spec desired items (view(i \<mapsto> s))"
  by (auto simp: changed_spec_def running_def fun_eq_iff split: option.splits)

lemma prepare_ok:
  "prepare env items prepared l = (r, l1) \<Longrightarrow> holding prepared l \<Longrightarrow> gm_ok prepared \<Longrightarrow> gm_ok items \<Longrightarrow>
   (\<forall>i \<in> fst ` set items. gm_get prepared i = None) \<Longrightarrow>
   lc_sessions l1 = lc_sessions l \<and>
   (case r of
      Inl e \<Rightarrow> lifecycle_ok l1
    | Inr prepared1 \<Rightarrow> holding prepared1 l1 \<and> gm_ok prepared1 \<and>
        (\<lambda>i. map_option as_spec (gm_get prepared1 i)) = prepared_spec (gm_get prepared) (gm_get (lc_sessions l)) (gm_get items))"
proof (induction env items prepared l rule: prepare.induct)
  case (1 env prepared l)
  then show ?case by (auto simp: running_def prepared_spec_def fun_eq_iff split: option.splits)
next
  case (2 env i spec rest prepared l)
  have fresh: "gm_get rest i = None" "gm_get prepared i = None" using "2.prems"(4,5) by (auto simp: map_of_eq_None_iff)
  have ok: "gm_ok rest" and keys: "\<forall>j \<in> fst ` set rest. gm_get prepared j = None" using "2.prems"(4,5) by simp_all
  show ?case
  proof (cases "gm_get (lc_sessions l) i \<noteq> None \<or> \<not> isActive spec")
    case True
    with "2.prems"(1) have "prepare env rest prepared l = (r, l1)" by simp
    from "2.IH"(1) [OF True this "2.prems"(2,3) ok keys] prepared_spec_skip [of "gm_get (lc_sessions l)" i spec "gm_get rest"] True fresh(1)
    show ?thesis by (simp split: sum.splits)
  next
    case False
    then have idle: "gm_get (lc_sessions l) i = None" and active: "isActive spec" by simp_all
    show ?thesis
    proof (cases "start_session env spec l")
      case (Pair o1 l2)
      show ?thesis
      proof (cases o1)
        case (Inl e)
        with start_failed_ok [OF "2.prems"(2), of env spec e l2] Pair
        have "holding prepared l2" "lc_sessions l2 = lc_sessions l" by simp_all
        with closePrepared_ok [of prepared l2 env] Inl Pair False "2.prems"(1,3) show ?thesis by auto
      next
        case (Inr c)
        with start_prepare_ok [OF "2.prems"(2), of env spec c l2 i] Pair idle fresh
        have l2: "holding (gm_put i c prepared) l2" "lc_sessions l2 = lc_sessions l" "as_spec c = spec" by simp_all
        have run: "prepare env rest (gm_put i c prepared) l2 = (r, l1)" using "2.prems"(1) False Pair Inr by simp
        have keys2: "\<forall>j \<in> fst ` set rest. gm_get (gm_put i c prepared) j = None"
          using keys fresh(1) by (auto simp: gm_get_put map_of_eq_None_iff)
        from "2.IH"(2) [OF False Pair [symmetric] Inr run l2(1) _ ok keys2] "2.prems"(3) l2 prepared_spec_start [of "gm_get (lc_sessions l)" i c "gm_get prepared" "gm_get rest"] fresh(2) idle active
        show ?thesis by (simp add: update_conv' split: sum.splits)
      qed
    qed
  qed
qed

lemma replace_changed_ok:
  "replace_changed env desired prepared items l = (r, l1) \<Longrightarrow> holding prepared l \<Longrightarrow> gm_ok prepared \<Longrightarrow> gm_ok items \<Longrightarrow>
   (\<forall>(i, a) \<in> set items. gm_get (lc_sessions l) i = Some a) \<Longrightarrow>
   (\<forall>i s. gm_get desired i = Some s \<longrightarrow> ss_ID s = i) \<Longrightarrow>
   (case r of
      Some e \<Rightarrow> lifecycle_ok l1
    | None \<Rightarrow> holding prepared l1 \<and>
        lifecycle_view l1 = changed_spec (gm_get desired) (gm_get items) (lifecycle_view l))"
proof (induction env desired prepared items l rule: replace_changed.induct)
  case (1 env desired prepared l)
  then show ?case by (auto simp: changed_spec_def fun_eq_iff)
next
  case (2 env desired prepared i current rest l)
  have cur: "gm_get (lc_sessions l) i = Some current" using "2.prems"(5) by simp
  have ok: "gm_ok rest" and fresh: "gm_get rest i = None" using "2.prems"(4) by (simp_all add: map_of_eq_None_iff)
  have rest: "\<forall>(j, a) \<in> set rest. gm_get (lc_sessions l) j = Some a" using "2.prems"(5) by simp
  have spec: "ss_ID (as_spec current) = i" "isActive (as_spec current)" using "2.prems"(2) cur by (auto simp: holding_def)
  show ?case
  proof (cases "running isActive (gm_get desired) i = None \<or> gm_get desired i = Some (as_spec current)")
    case True
    then have run: "replace_changed env desired prepared rest l = (r, l1)"
      and skip: "gm_get desired i = None \<or> (\<exists>s. gm_get desired i = Some s \<and> (\<not> isActive s \<or> sameSpec (as_spec current) s))"
      using "2.prems"(1) by (auto simp: running_def sameSpec_eq split: option.splits if_splits)
    have same: "changed_spec (gm_get desired) (gm_get ((i, current) # rest)) (lifecycle_view l) =
        changed_spec (gm_get desired) (gm_get rest) (lifecycle_view l)"
      using changed_spec_skip [of "gm_get desired" i "lifecycle_view l" "gm_get rest" current] True cur
      by (simp add: lifecycle_view_def)
    show ?thesis using skip
    proof
      assume "gm_get desired i = None"
      from "2.IH"(1) [OF this run "2.prems"(2,3) ok rest "2.prems"(6)] show ?thesis unfolding same .
    next
      assume "\<exists>s. gm_get desired i = Some s \<and> (\<not> isActive s \<or> sameSpec (as_spec current) s)"
      then obtain s where s: "gm_get desired i = Some s" "\<not> isActive s \<or> sameSpec (as_spec current) s" by blast
      from "2.IH"(2) [OF s run "2.prems"(2,3) ok rest "2.prems"(6)] show ?thesis unfolding same .
    qed
  next
    case False
    then obtain s where s: "gm_get desired i = Some s" "isActive s" "\<not> sameSpec (as_spec current) s"
      by (auto simp: running_def sameSpec_eq split: option.splits if_splits)
    have id: "ss_ID s = i" using "2.prems"(6) s(1) by blast
    have pre: "gm_get prepared i = None" using holding_disjoint [OF "2.prems"(2) cur] .
    obtain o1 l2 where close: "close_session env (as_session current) l = (o1, l2)" by force
    show ?thesis
    proof (cases o1)
      case (Some e)
      with close_failed_ok [OF "2.prems"(2) cur, of env e l2] close
      have "holding prepared l2" by simp
      with closePrepared_ok [of prepared l2 env] close Some s "2.prems"(1,3) show ?thesis by auto
    next
      case None
      with close_drop_ok [OF "2.prems"(2) cur, of env l2] close
      have l3: "holding prepared (drop_session i l2)"
        "gm_get (lc_sessions (drop_session i l2)) = (gm_get (lc_sessions l))(i := None)" by simp_all
      obtain o2 l4 where res: "restart env i s current (drop_session i l2) = (o2, l4)" by force
      from restart_ok [OF l3(1), of env s current o2 l4] res l3(2) id pre s(2) spec
      have l4: "holding prepared l4" "o2 = None \<Longrightarrow> lifecycle_view l4 = (lifecycle_view (drop_session i l2))(i \<mapsto> s)"
        "\<And>j. j \<noteq> i \<Longrightarrow> gm_get (lc_sessions l4) j = gm_get (lc_sessions (drop_session i l2)) j" by auto
      show ?thesis
      proof (cases o2)
        case (Some e)
        with closePrepared_ok [OF l4(1) "2.prems"(3), of env] close None res s "2.prems"(1) show ?thesis by auto
      next
        case o2: None
        have run: "replace_changed env desired prepared rest l4 = (r, l1)"
          using "2.prems"(1) close None res o2 s by auto
        have rest4: "\<forall>(j, a) \<in> set rest. gm_get (lc_sessions l4) j = Some a"
        proof safe
          fix j a assume "(j, a) \<in> set rest"
          then have "j \<noteq> i" "gm_get (lc_sessions l) j = Some a" using rest fresh by (force simp: map_of_eq_None_iff)+
          then show "gm_get (lc_sessions l4) j = Some a" using l4(3) l3(2) by simp
        qed
        have view4: "lifecycle_view l4 = (lifecycle_view l)(i \<mapsto> s)"
          using l4(2) [OF o2] l3(2) by (auto simp: lifecycle_view_def fun_eq_iff)
        have notsame: "\<not> (\<not> isActive s \<or> sameSpec (as_spec current) s)" using s by simp
        from "2.IH"(3) [OF s(1) notsame close [symmetric] None res [symmetric] o2 run l4(1) "2.prems"(3) ok rest4 "2.prems"(6)]
          changed_spec_restart [of "gm_get desired" i s "gm_get rest" current "lifecycle_view l"] view4 s fresh
        show ?thesis by (simp add: running_def fun_upd_def split: option.splits)
      qed
    qed
  qed
qed

definition stopped_spec :: "(string \<Rightarrow> stream_spec option) \<Rightarrow> (string \<Rightarrow> active_session option) \<Rightarrow>
    (string \<Rightarrow> stream_spec option) \<Rightarrow> string \<Rightarrow> stream_spec option" where
  "stopped_spec desired items view i =
     (if items i \<noteq> None \<and> running isActive desired i = None then None else view i)"

lemma stopped_spec_skip: "running isActive desired i \<noteq> None \<Longrightarrow>
    stopped_spec desired (items(i \<mapsto> a)) view = stopped_spec desired items view"
  by (auto simp: stopped_spec_def fun_eq_iff)

lemma stopped_spec_stop: "running isActive desired i = None \<Longrightarrow>
    stopped_spec desired (items(i \<mapsto> a)) view = stopped_spec desired items (view(i := None))"
  by (auto simp: stopped_spec_def fun_eq_iff)

lemma running_None: "running isActive f i = None \<longleftrightarrow> (case f i of None \<Rightarrow> True | Some s \<Rightarrow> \<not> isActive s)"
  by (simp add: running_def split: option.splits)

lemma stop_undesired_ok:
  "stop_undesired env desired prepared items l = (r, l1) \<Longrightarrow> holding prepared l \<Longrightarrow> gm_ok prepared \<Longrightarrow> gm_ok items \<Longrightarrow>
   (\<forall>(i, a) \<in> set items. gm_get (lc_sessions l) i = Some a) \<Longrightarrow>
   (case r of
      Some e \<Rightarrow> lifecycle_ok l1
    | None \<Rightarrow> holding prepared l1 \<and> lifecycle_view l1 = stopped_spec (gm_get desired) (gm_get items) (lifecycle_view l))"
proof (induction env desired prepared items l rule: stop_undesired.induct)
  case (1 env desired prepared l)
  then show ?case by (auto simp: stopped_spec_def fun_eq_iff)
next
  case (2 env desired prepared i current rest l)
  have cur: "gm_get (lc_sessions l) i = Some current" using "2.prems"(5) by simp
  have ok: "gm_ok rest" and fresh: "i \<notin> fst ` set rest" using "2.prems"(4) by simp_all
  have rest: "\<forall>(j, a) \<in> set rest. gm_get (lc_sessions l) j = Some a" using "2.prems"(5) by simp
  show ?case
  proof (cases "running isActive (gm_get desired) i = None")
    case False
    note keep = False [unfolded running_None]
    from keep "2.prems"(1) have run: "stop_undesired env desired prepared rest l = (r, l1)" by simp
    from "2.IH"(2) [OF keep run "2.prems"(2,3) ok rest] stopped_spec_skip [OF False, of "gm_get rest"]
    show ?thesis by (simp add: fun_upd_def split: option.splits)
  next
    case True
    note stop = True [unfolded running_None]
    obtain o1 l2 where close: "close_session env (as_session current) l = (o1, l2)" by force
    show ?thesis
    proof (cases o1)
      case (Some e)
      with close_failed_ok [OF "2.prems"(2) cur, of env e l2] close
      have "holding prepared l2" by simp
      with closePrepared_ok [of prepared l2 env] close Some stop "2.prems"(1,3) show ?thesis by auto
    next
      case None
      with close_drop_ok [OF "2.prems"(2) cur, of env l2] close
      have l3: "holding prepared (drop_session i l2)"
        "gm_get (lc_sessions (drop_session i l2)) = (gm_get (lc_sessions l))(i := None)" by simp_all
      have run: "stop_undesired env desired prepared rest (drop_session i l2) = (r, l1)"
        using "2.prems"(1) close None stop by simp
      have rest3: "\<forall>(j, a) \<in> set rest. gm_get (lc_sessions (drop_session i l2)) j = Some a"
        using rest fresh unfolding l3(2) by force
      have view3: "lifecycle_view (drop_session i l2) = (lifecycle_view l)(i := None)"
        using l3(2) by (auto simp: lifecycle_view_def fun_eq_iff)
      from "2.IH"(1) [OF stop close [symmetric] None run l3(1) "2.prems"(3) ok rest3]
        stopped_spec_stop [OF True, of "gm_get rest"] view3
      show ?thesis by (simp add: fun_upd_def split: option.splits)
    qed
  qed
qed

lemma adopt_sessions:
  "gm_ok p \<Longrightarrow> gm_get (lc_sessions (fold (\<lambda>(i, candidate) l. put_session i candidate l) p l)) = gm_get (lc_sessions l) ++ gm_get p"
proof (induction p arbitrary: l)
  case (Cons q p)
  obtain i a where q: "q = (i, a)" by force
  have "gm_get p i = None" using Cons.prems q by (simp add: map_of_eq_None_iff)
  then have "(gm_get (lc_sessions l))(i \<mapsto> a) ++ gm_get p = gm_get (lc_sessions l) ++ gm_get (q # p)"
    using q by (auto simp: map_add_def fun_eq_iff split: option.splits)
  moreover have "gm_get (lc_sessions (put_session i a l)) = (gm_get (lc_sessions l))(i \<mapsto> a)"
    by (simp add: put_session_def update_conv')
  moreover have "fold (\<lambda>(i, candidate) l. put_session i candidate l) (q # p) l =
      fold (\<lambda>(i, candidate) l. put_session i candidate l) p (put_session i a l)" using q by simp
  ultimately show ?case using Cons.IH [of "put_session i a l"] Cons.prems by (metis distinct.simps(2) list.simps(9))
qed (simp add: map_add_def)

lemma adopt_fields:
  "(gm_ok (lc_sessions l) \<longrightarrow> gm_ok (lc_sessions (fold (\<lambda>(i, candidate) l. put_session i candidate l) p l))) \<and>
   lc_open (fold (\<lambda>(i, candidate) l. put_session i candidate l) p l) = lc_open l \<and>
   lc_unclosed (fold (\<lambda>(i, candidate) l. put_session i candidate l) p l) = lc_unclosed l \<and>
   lc_calls (fold (\<lambda>(i, candidate) l. put_session i candidate l) p l) = lc_calls l"
  by (induction p arbitrary: l) (auto simp: put_session_def)

lemma adopt_ok:
  assumes "holding prepared l" and "gm_ok prepared"
    and "\<forall>i a. gm_get prepared i = Some a \<longrightarrow> ss_ID (as_spec a) = i \<and> isActive (as_spec a)"
  shows "lifecycle_ok (fold (\<lambda>(i, candidate) l. put_session i candidate l) prepared l)"
  using assms(1,3) adopt_fields [of l prepared] unfolding holding_def adopt_sessions [OF assms(2)]
  by (simp add: books_def map_add_Some_iff) blast

subsection \<open>The operations\<close>

text \<open>The three loops together leave exactly the desired active streams.\<close>

lemma replace_composes:
  assumes prepared: "(\<lambda>i. map_option as_spec (P i)) = prepared_spec (\<lambda>_. None) (gm_get (lc_sessions l)) D"
    and changed: "lifecycle_view l3 = changed_spec D (gm_get (lc_sessions l)) (lifecycle_view l)"
    and stopped: "lifecycle_view l4 = stopped_spec D (gm_get (lc_sessions l3)) (lifecycle_view l3)"
    and adopted: "\<And>i. lifecycle_view l1 i = (case P i of Some c \<Rightarrow> Some (as_spec c) | None \<Rightarrow> lifecycle_view l4 i)"
  shows "lifecycle_view l1 = running isActive D"
proof
  fix i
  have p: "map_option as_spec (P i) = (if gm_get (lc_sessions l) i = None then running isActive D i else None)"
    using fun_cong [OF prepared, of i] by (simp add: prepared_spec_def)
  have none: "lifecycle_view k i = None \<longleftrightarrow> gm_get (lc_sessions k) i = None" for k by (simp add: lifecycle_view_def)
  have c: "lifecycle_view l3 i = (if gm_get (lc_sessions l) i = None then None
      else case running isActive D i of Some s \<Rightarrow> Some s | None \<Rightarrow> lifecycle_view l i)"
    using none [of l] by (simp add: changed changed_spec_def)
  have s: "lifecycle_view l4 i = (if running isActive D i = None then None else lifecycle_view l3 i)"
    using none [of l3] by (auto simp: stopped stopped_spec_def)
  show "lifecycle_view l1 i = running isActive D i"
    using p c s by (auto simp: adopted split: option.splits if_splits)
qed

lemma lifecycle_replace_ok:
  assumes ok: "lifecycle_ok l" and ids: "distinct (map ss_ID streams)" and run: "lifecycle_replace env streams l = (r, l1)"
  shows "lifecycle_ok l1 \<and> (r = None \<longrightarrow> lifecycle_view l1 = running isActive (stream_map streams))"
proof -
  let ?desired = "fold (\<lambda>stream m. gm_put (ss_ID stream) stream m) streams []"
  have get: "gm_get ?desired = stream_map streams"
    using memory_fold [OF ids, of "[]"] by (auto split: option.splits)
  have dok: "gm_ok ?desired"
  proof -
    have "gm_ok m \<Longrightarrow> gm_ok (fold (\<lambda>stream m. gm_put (ss_ID stream) stream m) ss m)" for ss and m :: "(string, stream_spec) gomap"
      by (induction ss arbitrary: m) auto
    then show ?thesis by simp
  qed
  have keyed: "\<forall>i s. gm_get ?desired i = Some s \<longrightarrow> ss_ID s = i"
    unfolding get by (auto simp: stream_map_def dest!: find_SomeD)
  obtain o1 l2 where p1: "prepare env (go_range (env_range env 1 (lc_calls l)) ?desired) [] l = (o1, l2)" by force
  note prep = prepare_ok [OF p1 ok _ go_range_ok]
  show ?thesis
  proof (cases o1)
    case (Inl e)
    with prep run p1 show ?thesis by (auto simp: lifecycle_replace_def)
  next
    case (Inr prepared)
    with prep dok have l2: "lc_sessions l2 = lc_sessions l" "holding prepared l2" and pok: "gm_ok prepared"
      and pspec: "(\<lambda>i. map_option as_spec (gm_get prepared i)) = prepared_spec (\<lambda>_. None) (gm_get (lc_sessions l)) (stream_map streams)"
      by (auto simp: get map_of_eq_None_iff)
    obtain o2 l3 where p2: "replace_changed env ?desired prepared (go_range (env_range env 2 (lc_calls l2)) (lc_sessions l2)) l2 = (o2, l3)"
      by force
    have items2: "\<forall>(i, a) \<in> set (go_range (env_range env 2 (lc_calls l2)) (lc_sessions l2)). gm_get (lc_sessions l2) i = Some a"
      using l2(2) by (auto simp: holding_def go_range_set intro: gm_in_set_get)
    note repl = replace_changed_ok [OF p2 l2(2) pok go_range_ok items2 keyed]
    show ?thesis
    proof (cases o2)
      case (Some e)
      with repl run p1 p2 Inr show ?thesis by (auto simp: lifecycle_replace_def)
    next
      case o2: None
      obtain o3 l4 where p3: "stop_undesired env ?desired prepared (go_range (env_range env 3 (lc_calls l3)) (lc_sessions l3)) l3 = (o3, l4)"
        by force
      have l3: "holding prepared l3" using repl o2 by simp
      have items3: "\<forall>(i, a) \<in> set (go_range (env_range env 3 (lc_calls l3)) (lc_sessions l3)). gm_get (lc_sessions l3) i = Some a"
        using l3 by (auto simp: holding_def go_range_set intro: gm_in_set_get)
      note stop = stop_undesired_ok [OF p3 l3 pok go_range_ok items3]
      show ?thesis
      proof (cases o3)
        case (Some e)
        with stop run p1 p2 p3 Inr o2 show ?thesis by (auto simp: lifecycle_replace_def)
      next
        case o3: None
        with run p1 p2 p3 Inr o2 have r: "r = None" and l1: "l1 = fold (\<lambda>(i, candidate) l. put_session i candidate l) prepared l4"
          by (auto simp: lifecycle_replace_def)
        have l4: "holding prepared l4" using stop o3 by simp
        have S2: "gm_get (go_range order (lc_sessions l2)) = gm_get (lc_sessions l)" for order
          using ok l2(1) by (simp add: holding_def)
        have S3: "gm_get (go_range order (lc_sessions l3)) = gm_get (lc_sessions l3)" for order
          using l3 by (simp add: holding_def)
        have v3: "lifecycle_view l3 = changed_spec (stream_map streams) (gm_get (lc_sessions l)) (lifecycle_view l)"
          using repl o2 l2(1) unfolding S2 get by (simp add: lifecycle_view_def [abs_def])
        have v4: "lifecycle_view l4 = stopped_spec (stream_map streams) (gm_get (lc_sessions l3)) (lifecycle_view l3)"
          using stop o3 unfolding S3 get by simp
        have prepared_ok: "ss_ID (as_spec a) = i \<and> isActive (as_spec a)" if "gm_get prepared i = Some a" for i a
          using fun_cong [OF pspec, of i] that keyed
          by (auto simp: prepared_spec_def running_def get split: if_splits option.splits)
        have v1: "lifecycle_view l1 i = (case gm_get prepared i of Some c \<Rightarrow> Some (as_spec c) | None \<Rightarrow> lifecycle_view l4 i)" for i
          unfolding l1 lifecycle_view_def adopt_sessions [OF pok] by (simp add: map_add_def split: option.splits)
        have "lifecycle_view l1 = running isActive (stream_map streams)"
          by (rule replace_composes [OF pspec v3 v4 v1])
        with adopt_ok [OF l4 pok] prepared_ok show ?thesis unfolding l1 by blast
      qed
    qed
  qed
qed

lemma lifecycle_upsert_ok:
  assumes ok: "lifecycle_ok l" and run: "lifecycle_upsert env spec l = (r, l1)"
  shows "lifecycle_ok l1 \<and> (r = None \<longrightarrow> lifecycle_view l1 = (lifecycle_view l)(ss_ID spec := if isActive spec then Some spec else None))"
proof (cases "gm_get (lc_sessions l) (ss_ID spec)")
  case None
  obtain o1 l2 where start: "start_session env spec l = (o1, l2)" by force
  show ?thesis
  proof (cases "isActive spec")
    case False
    with run ok None show ?thesis by (auto simp: lifecycle_upsert_def lifecycle_view_def fun_eq_iff)
  next
    case True
    with run None start start_failed_ok [OF ok, of env spec _ l2] start_put_ok [OF ok, of env spec _ l2]
    show ?thesis by (auto simp: lifecycle_upsert_def lifecycle_view_def fun_eq_iff split: sum.splits)
  qed
next
  case (Some current)
  have cur: "ss_ID (as_spec current) = ss_ID spec" "isActive (as_spec current)" using ok Some by (auto simp: holding_def)
  show ?thesis
  proof (cases "sameSpec (as_spec current) spec")
    case True
    then have "lifecycle_view l (ss_ID spec) = Some spec" "isActive spec" using Some cur by (auto simp: sameSpec_eq lifecycle_view_def)
    with True run ok Some show ?thesis by (auto simp: lifecycle_upsert_def fun_eq_iff)
  next
    case False
    obtain o1 l2 where close: "close_session env (as_session current) l = (o1, l2)" by force
    show ?thesis
    proof (cases o1)
      case o1: (Some e)
      with close_failed_ok [OF ok Some, of env e l2] close False run Some show ?thesis by (auto simp: lifecycle_upsert_def)
    next
      case None
      let ?l3 = "drop_session (ss_ID spec) l2"
      from None close_drop_ok [OF ok Some, of env l2] close
      have l3: "lifecycle_ok ?l3" "gm_get (lc_sessions ?l3) = (gm_get (lc_sessions l))(ss_ID spec := None)" by simp_all
      then have v3: "lifecycle_view ?l3 = (lifecycle_view l)(ss_ID spec := None)" by (auto simp: lifecycle_view_def fun_eq_iff)
      show ?thesis
      proof (cases "isActive spec")
        case inactive: False
        with False None close run Some l3 v3 show ?thesis by (auto simp: lifecycle_upsert_def Let_def)
      next
        case True
        with False None close run Some have "restart env (ss_ID spec) spec current ?l3 = (r, l1)"
          by (auto simp: lifecycle_upsert_def Let_def)
        from restart_ok [OF l3(1) this] l3(2) True cur v3 show ?thesis by auto
      qed
    qed
  qed
qed

lemma lifecycle_delete_ok:
  assumes ok: "lifecycle_ok l" and run: "lifecycle_delete env i l = (r, l1)"
  shows "lifecycle_ok l1 \<and> (r = None \<longrightarrow> lifecycle_view l1 = (lifecycle_view l)(i := None))"
proof (cases "gm_get (lc_sessions l) i")
  case None
  with ok run show ?thesis by (auto simp: lifecycle_delete_def lifecycle_view_def fun_eq_iff)
next
  case (Some current)
  obtain o1 l2 where close: "close_session env (as_session current) l = (o1, l2)" by force
  show ?thesis
  proof (cases o1)
    case o1: (Some e)
    with close_failed_ok [OF ok Some, of env e l2] close run Some show ?thesis by (auto simp: lifecycle_delete_def)
  next
    case None
    with close_drop_ok [OF ok Some, of env l2] close run Some show ?thesis
      by (auto simp: lifecycle_delete_def lifecycle_view_def fun_eq_iff)
  qed
qed

interpretation lifecycle: media_adapter "lifecycle_ops env" lifecycle_view isActive "holding []" for env
proof unfold_locales
  fix l l' :: lifecycle and ss :: "stream_spec list" and s :: stream_spec and i :: string
  assume ok: "lifecycle_ok l"
  show "distinct (map ss_ID ss) \<Longrightarrow> lifecycle_ok (snd (ad_Replace (lifecycle_ops env) ss l))"
    using lifecycle_replace_ok [OF ok] by (metis adapter.select_convs(1) lifecycle_ops_def prod.collapse)
  show "lifecycle_ok (snd (ad_Upsert (lifecycle_ops env) s l))"
    using lifecycle_upsert_ok [OF ok] by (metis adapter.select_convs(2) lifecycle_ops_def prod.collapse)
  show "lifecycle_ok (snd (ad_Delete (lifecycle_ops env) i l))"
    using lifecycle_delete_ok [OF ok] by (metis adapter.select_convs(3) lifecycle_ops_def prod.collapse)
  show "distinct (map ss_ID ss) \<Longrightarrow> ad_Replace (lifecycle_ops env) ss l = (None, l') \<Longrightarrow>
      lifecycle_view l' = running isActive (stream_map ss)"
    using lifecycle_replace_ok [OF ok] by (simp add: lifecycle_ops_def)
  show "ad_Upsert (lifecycle_ops env) s l = (None, l') \<Longrightarrow>
      lifecycle_view l' = (lifecycle_view l)(ss_ID s := if isActive s then Some s else None)"
    using lifecycle_upsert_ok [OF ok] by (simp add: lifecycle_ops_def)
  show "ad_Delete (lifecycle_ops env) i l = (None, l') \<Longrightarrow> lifecycle_view l' = (lifecycle_view l)(i := None)"
    using lifecycle_delete_ok [OF ok] by (simp add: lifecycle_ops_def)
qed

lemma lifecycle_new [simp]: "lifecycle_ok (newLifecycleAdapter registry)" "lifecycle_view (newLifecycleAdapter registry) = (\<lambda>_. None)"
  by (auto simp: newLifecycleAdapter_def holding_def books_def lifecycle_view_def)

subsection \<open>The runtime\<close>

text \<open>The runtimes that calls of \<open>Replay\<close>, \<open>Apply\<close> and \<open>Close\<close> can reach.\<close>

inductive runtime_run :: "environment \<Rightarrow> (string, producer) gomap \<Rightarrow> runtime \<Rightarrow> bool" for env and registry where
  started: "runtime_run env registry \<lparr>rt_manager = newManager (newLifecycleAdapter registry), rt_closed = False\<rparr>"
| replayed: "runtime_run env registry r \<Longrightarrow> runtime_replay env p r = (e, r') \<Longrightarrow> runtime_run env registry r'"
| applied: "runtime_run env registry r \<Longrightarrow> runtime_apply env p r = (e, r') \<Longrightarrow> runtime_run env registry r'"
| closed: "runtime_run env registry r \<Longrightarrow> runtime_close env r = (e, r') \<Longrightarrow> runtime_run env registry r'"

lemma manager_run_perform: "manager_run ops a0 failed m \<Longrightarrow> \<exists>failed'. manager_run ops a0 failed' (snd (perform ops request m))"
  by (metis manager_run.run_step prod.collapse)

lemma runtime_run_manager:
  "runtime_run env registry r \<Longrightarrow> \<exists>failed. manager_run (lifecycle_ops env) (newLifecycleAdapter registry) failed (rt_manager r)"
proof (induction rule: runtime_run.induct)
  case started
  then show ?case by (auto intro: manager_run.run_init)
next
  case (replayed r p e r')
  then show ?case using manager_run_perform [where request = "Replay p"]
    by (fastforce simp: runtime_replay_def split: if_splits prod.splits)
next
  case (applied r p e r')
  then obtain failed where run: "manager_run (lifecycle_ops env) (newLifecycleAdapter registry) failed (rt_manager r)" by blast
  show ?case using applied(2) run manager_run_perform [OF run, of "Upsert u" for u] manager_run_perform [OF run, of "Delete d" for d]
    by (auto simp: runtime_apply_def split: if_splits prod.splits) (metis snd_conv)+
next
  case (closed r e r')
  then obtain failed where run: "manager_run (lifecycle_ops env) (newLifecycleAdapter registry) failed (rt_manager r)" by blast
  show ?case using closed(2) run manager_run_perform [OF run, of "Replay u" for u]
    by (auto simp: runtime_close_def Let_def split: if_splits prod.splits) (metis snd_conv)
qed

text \<open>Before the first replay is carried out there are no sessions.\<close>

lemma go_range_Nil [simp]: "go_range order [] = []"
  by (simp add: go_range_def List.map_filter_def)

lemma replace_failed_empty:
  assumes ok: "lifecycle_ok l" and empty: "lc_sessions l = []" and run: "lifecycle_replace env streams l = (Some e, l1)"
    and ids: "distinct (map ss_ID streams)"
  shows "lc_sessions l1 = []"
proof -
  let ?desired = "fold (\<lambda>stream m. gm_put (ss_ID stream) stream m) streams []"
  obtain o1 l2 where p1: "prepare env (go_range (env_range env 1 (lc_calls l)) ?desired) [] l = (o1, l2)" by force
  from prepare_ok [OF p1 ok _ go_range_ok] empty have "lc_sessions l2 = []" by simp
  with run p1 show ?thesis by (cases o1) (auto simp: lifecycle_replace_def)
qed

lemma unreplayed_empty:
  "manager_run (lifecycle_ops env) (newLifecycleAdapter registry) failed m \<Longrightarrow> mg_generation m = 0 \<Longrightarrow> lc_sessions (mg_adapter m) = []"
proof (induction rule: manager_run.induct)
  case run_init
  then show ?case by (simp add: newManager_def newLifecycleAdapter_def)
next
  case (run_step failed m request out m')
  have inv: "lifecycle_ok (mg_adapter m)" using lifecycle.run_synced [OF run_step(1)] by simp
  show ?case
  proof (cases request)
    case (Replay p)
    show ?thesis
    proof (cases rule: replay_cases [where ops = "lifecycle_ops env" and p = p and m = m])
      case (failed e a streams)
      with run_step Replay replace_failed_empty [OF inv, of env "rp_Streams p" e a] indexStreams_Inr(2) [OF failed(1)]
      show ?thesis by (auto simp: lifecycle_ops_def)
    qed (use run_step Replay in auto)
  next
    case (Upsert p)
    show ?thesis using run_step Upsert
      by (cases "up_Generation p = 0")
        (auto simp: upsert_def validateMutationLocked_def word_gt_0 Let_def split: option.splits if_splits prod.splits)
  next
    case (Delete p)
    show ?thesis using run_step Delete
      by (cases "dp_Generation p = 0")
        (auto simp: delete_stream_def validateMutationLocked_def word_gt_0 Let_def split: option.splits if_splits prod.splits)
  qed
qed

lemma view_empty: "lifecycle_view l = (\<lambda>_. None) \<Longrightarrow> lc_sessions l = []"
  by (auto simp: lifecycle_view_def fun_eq_iff map_of_eq_None_iff)

lemma running_empty: "running isActive (stream_map []) = (\<lambda>_. None)"
  by (simp add: running_def stream_map_def fun_eq_iff)

definition held_sessions :: "lifecycle \<Rightarrow> session list" where
  "held_sessions l = map (\<lambda>(i, a). as_session a) (lc_sessions l)"

lemma held_sessions_ok:
  assumes "lifecycle_ok l"
  shows "set (lc_open l) \<subseteq> set (held_sessions l) \<union> set (lc_unclosed l) \<and>
    set (held_sessions l) \<subseteq> set (lc_open l) \<and> distinct (held_sessions l)"
proof -
  have ok: "gm_ok (lc_sessions l)" and b: "books (gm_get (lc_sessions l)) l" using assms by (simp_all add: holding_def)
  have held: "n \<in> set (held_sessions l) \<longleftrightarrow> (\<exists>i a. gm_get (lc_sessions l) i = Some a \<and> as_session a = n)" for n
    using ok by (force simp: held_sessions_def dest: gm_get_in_set gm_in_set_get)
  have "x = y" if "x \<in> set (lc_sessions l)" "y \<in> set (lc_sessions l)" "as_session (snd x) = as_session (snd y)" for x y
  proof -
    have "gm_get (lc_sessions l) (fst x) = Some (snd x)" "gm_get (lc_sessions l) (fst y) = Some (snd y)"
      using that gm_in_set_get [OF ok] by simp_all
    moreover from this b that(3) have "fst x = fst y" unfolding books_def by blast
    ultimately show ?thesis by (simp add: prod_eq_iff)
  qed
  then have "inj_on (\<lambda>(i, a). as_session a) (set (lc_sessions l))" by (auto simp: inj_on_def)
  moreover have "distinct (lc_sessions l)" using ok by (simp add: distinct_map)
  ultimately have "distinct (held_sessions l)" by (simp add: held_sessions_def distinct_map)
  moreover have "set (lc_open l) \<subseteq> set (held_sessions l) \<union> set (lc_unclosed l)"
    using b unfolding books_def by (auto simp: held)
  moreover have "set (held_sessions l) \<subseteq> set (lc_open l)" using b unfolding books_def by (auto simp: held)
  ultimately show ?thesis by blast
qed

section \<open>Properties\<close>

text \<open>C31. In every run of the manager over the lifecycle adapter, for every behaviour of the producers: when no call of
  the adapter has failed since the last replay that was carried out, the sessions are exactly those of the desired
  streams that are not disabled, each with the desired specification.\<close>

theorem lifecycle_runs_desired:
  assumes "manager_run (lifecycle_ops env) (newLifecycleAdapter registry) False m"
  shows "map_option as_spec (gm_get (lc_sessions (mg_adapter m)) i) =
    (case gm_get (mg_streams m) i of None \<Rightarrow> None | Some s \<Rightarrow> if isActive s then Some s else None)"
  using lifecycle.run_synced [OF assms]
  by (simp add: synced_def running_def fun_eq_iff lifecycle_view_def split: option.splits)

text \<open>No session is lost: whatever the producers answer, in every reachable state of the embedded runtime an open
  session belongs to a stream or has refused to close, the session of a stream is open, and no session belongs to
  two streams.\<close>

theorem no_session_lost:
  assumes "runtime_run env registry r"
  shows "set (lc_open (mg_adapter (rt_manager r))) \<subseteq>
      set (held_sessions (mg_adapter (rt_manager r))) \<union> set (lc_unclosed (mg_adapter (rt_manager r))) \<and>
    set (held_sessions (mg_adapter (rt_manager r))) \<subseteq> set (lc_open (mg_adapter (rt_manager r))) \<and>
    distinct (held_sessions (mg_adapter (rt_manager r)))"
proof -
  from runtime_run_manager [OF assms] obtain failed
    where "manager_run (lifecycle_ops env) (newLifecycleAdapter registry) failed (rt_manager r)" by blast
  then have "lifecycle_ok (mg_adapter (rt_manager r))" by (simp add: lifecycle.run_synced)
  then show ?thesis by (rule held_sessions_ok)
qed

text \<open>Closing the runtime stops everything: after a \<open>Close\<close> without an error no stream has a session, the only
  sessions still open are those that had refused to close, and every later replay or mutation is refused and changes
  nothing.\<close>

theorem close_stops_everything:
  assumes "runtime_run env registry r" and "\<not> rt_closed r" and "runtime_close env r = (None, r')"
  shows "lc_sessions (mg_adapter (rt_manager r')) = [] \<and>
    set (lc_open (mg_adapter (rt_manager r'))) \<subseteq> set (lc_unclosed (mg_adapter (rt_manager r'))) \<and>
    runtime_replay env p r' = (Some RuntimeClosed, r') \<and> runtime_apply env u r' = (Some RuntimeClosed, r') \<and>
    runtime_close env r' = (None, r')"
proof -
  from runtime_run_manager [OF assms(1)] obtain failed
    where run: "manager_run (lifecycle_ops env) (newLifecycleAdapter registry) failed (rt_manager r)" by blast
  note now = lifecycle.run_synced [OF run lifecycle_new]
  have closed: "rt_closed r'" using assms(2,3) by (auto simp: runtime_close_def Let_def manager_snapshot_def split: if_splits prod.splits)
  have "lc_sessions (mg_adapter (rt_manager r')) = [] \<and> lifecycle_ok (mg_adapter (rt_manager r'))"
  proof (cases "mg_generation (rt_manager r) = 0")
    case True
    then have "rt_manager r' = rt_manager r"
      using assms(2,3) by (auto simp: runtime_close_def Let_def manager_snapshot_def)
    with unreplayed_empty [OF run True] now show ?thesis by simp
  next
    case False
    let ?p = "\<lparr>rp_SchemaVersion = 1, rp_Generation = mg_generation (rt_manager r), rp_Revision = mg_revision (rt_manager r), rp_Streams = []\<rparr>"
    from False assms(2,3) obtain out where
      rep: "replay (lifecycle_ops env) ?p (rt_manager r) = ((out, None), rt_manager r')"
      by (auto simp: runtime_close_def Let_def manager_snapshot_def split: prod.splits)
    have "lifecycle_view (mg_adapter (rt_manager r')) = (\<lambda>_. None) \<and> lifecycle_ok (mg_adapter (rt_manager r'))"
    proof (cases rule: replay_cases [where ops = "lifecycle_ops env" and p = ?p and m = "rt_manager r"])
      case (applied a streams m'')
      with rep now lifecycle_replace_ok [of "mg_adapter (rt_manager r)" "[]" env None a] show ?thesis
        by (auto simp: lifecycle_ops_def running_empty)
    qed (use rep in auto)
    then show ?thesis using view_empty by blast
  qed
  with closed show ?thesis
    by (auto simp: runtime_replay_def runtime_apply_def runtime_close_def holding_def books_def)
qed

section \<open>Witnesses\<close>

definition calm :: environment where
  "calm = \<lparr>env_start = \<lambda>_ _ _. Started, env_close = \<lambda>_ _. True, env_range = \<lambda>_ _. []\<rparr>"

definition rtsp_registry :: "(string, producer) gomap" where
  "rtsp_registry = [(''rtsp'', 0)]"

definition door_runtime :: runtime where
  "door_runtime =
     \<lparr>rt_manager = \<lparr>mg_adapter = \<lparr>lc_registry = rtsp_registry, lc_sessions = [(''door'', \<lparr>as_spec = door_stream, as_session = 0\<rparr>)],
        lc_calls = 1, lc_open = [0], lc_unclosed = []\<rparr>, mg_generation = 1, mg_revision = 1, mg_streams = [(''door'', door_stream)]\<rparr>,
      rt_closed = False\<rparr>"

lemma door_protocol: "registry_producer ''rtsp'' rtsp_registry = Inr 0"
  by code_simp

lemma door_lifecycle_replayed:
  "replay (lifecycle_ops calm) door_replay (newManager (newLifecycleAdapter rtsp_registry)) =
     ((resultLocked True (rt_manager door_runtime), None), rt_manager door_runtime)"
  by (simp add: replay_def door_replay_def indexStreams_def validateStream_def door_stream_def newManager_def
      newLifecycleAdapter_def lifecycle_ops_def lifecycle_replace_def go_range_def List.map_filter_def isActive_def
      start_session_def door_protocol calm_def resultLocked_def door_runtime_def put_session_def)

theorem lifecycle_runs_desired_witness:
  "map_option as_spec (gm_get (lc_sessions (mg_adapter (rt_manager door_runtime))) ''door'') =
    (case gm_get (mg_streams (rt_manager door_runtime)) ''door'' of None \<Rightarrow> None | Some s \<Rightarrow> if isActive s then Some s else None)"
proof (rule lifecycle_runs_desired)
  have "manager_run (lifecycle_ops calm) (newLifecycleAdapter rtsp_registry)
      (flag_after False (Replay door_replay) (resultLocked True (rt_manager door_runtime), None :: lifecycle_error worker_error option))
      (rt_manager door_runtime)"
    by (rule run_step [OF run_init]) (simp add: door_lifecycle_replayed)
  then show "manager_run (lifecycle_ops calm) (newLifecycleAdapter rtsp_registry) False (rt_manager door_runtime)" by simp
qed

lemma door_runtime_run: "runtime_run calm rtsp_registry door_runtime"
proof (rule runtime_run.replayed [OF runtime_run.started])
  show "runtime_replay calm door_replay
      \<lparr>rt_manager = newManager (newLifecycleAdapter rtsp_registry), rt_closed = False\<rparr> = (None, door_runtime)"
    by (simp add: runtime_replay_def door_lifecycle_replayed) (simp add: door_runtime_def)
qed

theorem no_session_lost_witness:
  "set (lc_open (mg_adapter (rt_manager door_runtime))) \<subseteq>
     set (held_sessions (mg_adapter (rt_manager door_runtime))) \<union> set (lc_unclosed (mg_adapter (rt_manager door_runtime)))"
  using no_session_lost [OF door_runtime_run] by blast

theorem close_stops_everything_witness:
  "fst (runtime_close calm door_runtime) = None \<and> lc_sessions (mg_adapter (rt_manager (snd (runtime_close calm door_runtime)))) = []"
proof -
  have ok: "runtime_close calm door_runtime = (None, snd (runtime_close calm door_runtime))"
    by (simp add: runtime_close_def manager_snapshot_def door_runtime_def sort_slice_def replay_def indexStreams_def
        lifecycle_ops_def lifecycle_replace_def go_range_def List.map_filter_def close_session_def calm_def Let_def drop_session_def)
  have "\<not> rt_closed door_runtime" by (simp add: door_runtime_def)
  from close_stops_everything [OF door_runtime_run this ok] ok show ?thesis by (metis fst_conv)
qed

end
