(* ===== verification/Command_Coordinator.thy ===== *)
theory Command_Coordinator
  imports Go_Prelude
begin

text \<open>
  The queue of provider mutations per device, \<open>internal/application/command_coordinator.go\<close>, as a
  system of concurrent calls. A gate is a heap object with a channel of capacity one that holds
  the token or not, and a count of references; the map \<open>gates\<close> holds the current gate of a device.

  A call of \<open>acquire\<close> and of the function it returns moves through the phases below. Each step is
  one section under the mutex, one operation on a channel or one atomic operation, so the steps of
  different calls interleave as the scheduler may interleave them. A step that would block has no
  successor. The context of a call may be cancelled at any time while it waits.
\<close>

declare map_of_eq_Some_iff [simp del] Some_eq_map_of_iff [simp del]

section \<open>State\<close>

type_synonym gate_id = nat
type_synonym call_id = nat

record gate =
  gt_token :: bool
  gt_refs :: int

datatype phase =
    Entered
  | Blocked
  | Counting int "int option"
  | Waiting
  | Granted
  | Cancelled
  | Leaving
  | Holding
  | Returned
  | Finished

record call =
  cl_device :: string
  cl_gate :: gate_id
  cl_phase :: phase

record coordinator =
  co_gates :: "(string, gate_id) gomap"
  co_heap :: "gate list"
  co_pending :: int
  co_maxPending :: int
  co_calls :: "(call_id, call) gomap"

definition newCommandCoordinator :: coordinator where
  "newCommandCoordinator = \<lparr>co_gates = [], co_heap = [], co_pending = 0, co_maxPending = 0, co_calls = []\<rparr>"

definition update_gate :: "(gate \<Rightarrow> gate) \<Rightarrow> gate_id \<Rightarrow> coordinator \<Rightarrow> coordinator" where
  "update_gate f g c = c\<lparr>co_heap := (co_heap c)[g := f (co_heap c ! g)]\<rparr>"

definition set_phase :: "call_id \<Rightarrow> phase \<Rightarrow> coordinator \<Rightarrow> coordinator" where
  "set_phase t p c =
     (case gm_get (co_calls c) t of
        None \<Rightarrow> c
      | Some cl \<Rightarrow> c\<lparr>co_calls := gm_put t (cl\<lparr>cl_phase := p\<rparr>) (co_calls c)\<rparr>)"

section \<open>Steps\<close>

text \<open>The section of \<open>acquire\<close> under the mutex: find or make the gate, and take a reference.\<close>

definition enter :: "call_id \<Rightarrow> string \<Rightarrow> coordinator \<Rightarrow> coordinator" where
  "enter t deviceID c0 =
     (let (g, c) = (case gm_get (co_gates c0) deviceID of
            Some g \<Rightarrow> (g, c0)
          | None \<Rightarrow>
              (length (co_heap c0),
               c0\<lparr>co_heap := co_heap c0 @ [\<lparr>gt_token = True, gt_refs = 0\<rparr>],
                  co_gates := gm_put deviceID (length (co_heap c0)) (co_gates c0)\<rparr>));
          c = update_gate (\<lambda>gate. gate\<lparr>gt_refs := gt_refs gate + 1\<rparr>) g c
      in c\<lparr>co_calls := gm_put t \<lparr>cl_device = deviceID, cl_gate = g, cl_phase = Entered\<rparr> (co_calls c)\<rparr>)"

definition token_of :: "call \<Rightarrow> coordinator \<Rightarrow> bool" where
  "token_of cl c = gt_token (co_heap c ! cl_gate cl)"

definition take_token :: "call \<Rightarrow> coordinator \<Rightarrow> coordinator" where
  "take_token cl c = update_gate (\<lambda>gate. gate\<lparr>gt_token := False\<rparr>) (cl_gate cl) c"

definition releaseReference :: "call \<Rightarrow> coordinator \<Rightarrow> coordinator" where
  "releaseReference cl c0 =
     (let c = update_gate (\<lambda>gate. gate\<lparr>gt_refs := gt_refs gate - 1\<rparr>) (cl_gate cl) c0
      in if gt_refs (co_heap c ! cl_gate cl) = 0 \<and> gm_get (co_gates c) (cl_device cl) = Some (cl_gate cl)
         then c\<lparr>co_gates := gm_del (cl_device cl) (co_gates c)\<rparr> else c)"

text \<open>
  The next step of call \<open>t\<close>. The flag says whether the scheduler and the context choose the branch
  of the cancelled context in the second \<open>select\<close>. \<open>None\<close>: the call cannot move.
\<close>

definition advance :: "bool \<Rightarrow> call_id \<Rightarrow> coordinator \<Rightarrow> coordinator option" where
  "advance cancelled t c =
     (case gm_get (co_calls c) t of
        None \<Rightarrow> None
      | Some cl \<Rightarrow>
          (case cl_phase cl of
             Entered \<Rightarrow>
               Some (if token_of cl c then set_phase t Holding (take_token cl c) else set_phase t Blocked c)
           | Blocked \<Rightarrow>
               (let pending = co_pending c + 1
                in Some (set_phase t (Counting pending None) (c\<lparr>co_pending := pending\<rparr>)))
           | Counting pending None \<Rightarrow> Some (set_phase t (Counting pending (Some (co_maxPending c))) c)
           | Counting pending (Some maximum) \<Rightarrow>
               Some (if pending \<le> maximum then set_phase t Waiting c
                     else if co_maxPending c = maximum then set_phase t Waiting (c\<lparr>co_maxPending := pending\<rparr>)
                     else set_phase t (Counting pending None) c)
           | Waiting \<Rightarrow>
               if cancelled then Some (set_phase t Cancelled c)
               else if token_of cl c then Some (set_phase t Granted (take_token cl c))
               else None
           | Granted \<Rightarrow> Some (set_phase t Holding (c\<lparr>co_pending := co_pending c - 1\<rparr>))
           | Cancelled \<Rightarrow> Some (set_phase t Leaving (c\<lparr>co_pending := co_pending c - 1\<rparr>))
           | Leaving \<Rightarrow> Some (set_phase t Finished (releaseReference cl c))
           | Holding \<Rightarrow>
               if token_of cl c then None
               else Some (set_phase t Returned (update_gate (\<lambda>gate. gate\<lparr>gt_token := True\<rparr>) (cl_gate cl) c))
           | Returned \<Rightarrow> Some (set_phase t Finished (releaseReference cl c))
           | Finished \<Rightarrow> None))"

definition coordinator_stats :: "coordinator \<Rightarrow> int \<times> int" where
  "coordinator_stats c = (co_pending c, co_maxPending c)"

inductive coordinator_run :: "coordinator \<Rightarrow> bool" where
  run_new: "coordinator_run newCommandCoordinator"
| run_enter: "coordinator_run c \<Longrightarrow> gm_get (co_calls c) t = None \<Longrightarrow> coordinator_run (enter t deviceID c)"
| run_advance: "coordinator_run c \<Longrightarrow> advance cancelled t c = Some c' \<Longrightarrow> coordinator_run c'"

section \<open>The invariant\<close>

definition live :: "call \<Rightarrow> bool" where
  "live cl \<longleftrightarrow> cl_phase cl \<noteq> Finished"

definition owns :: "call \<Rightarrow> bool" where
  "owns cl \<longleftrightarrow> cl_phase cl = Granted \<or> cl_phase cl = Holding"

fun counted_phase :: "phase \<Rightarrow> bool" where
  "counted_phase (Counting _ _) = True"
| "counted_phase Waiting = True"
| "counted_phase Granted = True"
| "counted_phase Cancelled = True"
| "counted_phase _ = False"

definition gm_count :: "('v \<Rightarrow> bool) \<Rightarrow> ('k, 'v) gomap \<Rightarrow> nat" where
  "gm_count P m = length (filter (\<lambda>(k, v). P v) m)"

lemma gm_count_Nil [simp]: "gm_count P [] = 0"
  by (simp add: gm_count_def)

lemma gm_count_put_new: "gm_get m k = None \<Longrightarrow> gm_count P (gm_put k v m) = gm_count P m + (if P v then 1 else 0)"
  by (induction m) (auto simp: gm_count_def split: if_splits)

lemma gm_count_put_old: "gm_get m k = Some w \<Longrightarrow> gm_ok m \<Longrightarrow>
    gm_count P (gm_put k v m) + (if P w then 1 else 0) = gm_count P m + (if P v then 1 else 0)"
  by (induction m) (auto simp: gm_count_def split: if_splits)

lemma gm_count_zero: "gm_count P m = 0 \<longleftrightarrow> (\<forall>(k, v) \<in> set m. \<not> P v)"
  by (auto simp: gm_count_def filter_empty_conv)

lemma gm_count_pos: "gm_get m k = Some v \<Longrightarrow> P v \<Longrightarrow> gm_count P m > 0"
  using gm_count_zero [of P m] by (fastforce dest: gm_get_in_set)

definition users :: "gate_id \<Rightarrow> coordinator \<Rightarrow> nat" where
  "users g c = gm_count (\<lambda>cl. live cl \<and> cl_gate cl = g) (co_calls c)"

definition owners :: "gate_id \<Rightarrow> coordinator \<Rightarrow> nat" where
  "owners g c = gm_count (\<lambda>cl. owns cl \<and> cl_gate cl = g) (co_calls c)"

definition maximum_ok :: "coordinator \<Rightarrow> bool" where
  "maximum_ok c \<longleftrightarrow> co_pending c \<le> co_maxPending c \<or>
     (\<exists>t cl p m. gm_get (co_calls c) t = Some cl \<and> cl_phase cl = Counting p m \<and> co_pending c \<le> p)"

definition loaded_ok :: "coordinator \<Rightarrow> bool" where
  "loaded_ok c \<longleftrightarrow> (\<forall>t cl n k. gm_get (co_calls c) t = Some cl \<longrightarrow> cl_phase cl = Counting n (Some k) \<longrightarrow> k \<le> co_maxPending c)"

text \<open>
  Every unfinished call uses the current gate of its device; the references count the calls that
  use a gate, the token is away exactly while one call owns it, and a gate in the map is used.
\<close>

definition coord_ok :: "coordinator \<Rightarrow> bool" where
  "coord_ok c \<longleftrightarrow> gm_ok (co_calls c) \<and> gm_ok (co_gates c) \<and>
     (\<forall>t cl. gm_get (co_calls c) t = Some cl \<longrightarrow> live cl \<longrightarrow> gm_get (co_gates c) (cl_device cl) = Some (cl_gate cl)) \<and>
     (\<forall>d g. gm_get (co_gates c) d = Some g \<longrightarrow> g < length (co_heap c) \<and> gt_refs (co_heap c ! g) > 0) \<and>
     (\<forall>d d' g. gm_get (co_gates c) d = Some g \<longrightarrow> gm_get (co_gates c) d' = Some g \<longrightarrow> d = d') \<and>
     (\<forall>t cl. gm_get (co_calls c) t = Some cl \<longrightarrow> cl_gate cl < length (co_heap c)) \<and>
     (\<forall>g < length (co_heap c). gt_refs (co_heap c ! g) = int (users g c) \<and>
        owners g c = (if gt_token (co_heap c ! g) then 0 else 1)) \<and>
     co_pending c = int (gm_count (\<lambda>cl. counted_phase (cl_phase cl)) (co_calls c)) \<and> maximum_ok c \<and> loaded_ok c"

lemma coord_okD:
  assumes "coord_ok c"
  shows "gm_ok (co_calls c)" "gm_ok (co_gates c)"
    "gm_get (co_calls c) t = Some cl \<Longrightarrow> live cl \<Longrightarrow> gm_get (co_gates c) (cl_device cl) = Some (cl_gate cl)"
    "gm_get (co_gates c) d = Some g \<Longrightarrow> g < length (co_heap c)" "gm_get (co_gates c) d = Some g \<Longrightarrow> gt_refs (co_heap c ! g) > 0"
    "gm_get (co_gates c) d = Some g \<Longrightarrow> gm_get (co_gates c) d' = Some g \<Longrightarrow> d = d'"
    "gm_get (co_calls c) t = Some cl \<Longrightarrow> cl_gate cl < length (co_heap c)"
    "g < length (co_heap c) \<Longrightarrow> gt_refs (co_heap c ! g) = int (users g c)"
    "g < length (co_heap c) \<Longrightarrow> owners g c = (if gt_token (co_heap c ! g) then 0 else 1)"
    "co_pending c = int (gm_count (\<lambda>cl. counted_phase (cl_phase cl)) (co_calls c))" "maximum_ok c" "loaded_ok c"
  using assms unfolding coord_ok_def by blast+

lemma coord_ok_new: "coord_ok newCommandCoordinator"
  by (simp add: coord_ok_def newCommandCoordinator_def maximum_ok_def loaded_ok_def)

lemma enter_old:
  assumes ok: "coord_ok c" and fresh: "gm_get (co_calls c) t = None" and g: "gm_get (co_gates c) d = Some g"
  shows "coord_ok (enter t d c)"
proof -
  note okD = coord_okD [OF ok]
  let ?cl = "\<lparr>cl_device = d, cl_gate = g, cl_phase = Entered\<rparr>"
  have e: "enter t d c = c\<lparr>co_heap := (co_heap c)[g := (co_heap c ! g)\<lparr>gt_refs := gt_refs (co_heap c ! g) + 1\<rparr>],
      co_calls := gm_put t ?cl (co_calls c)\<rparr>"
    using g by (simp add: enter_def update_gate_def)
  have u: "users h (enter t d c) = users h c + (if h = g then 1 else 0)" for h
    unfolding e users_def by (simp add: gm_count_put_new [OF fresh] live_def)
  have w: "owners h (enter t d c) = owners h c" for h
    unfolding e owners_def by (simp add: gm_count_put_new [OF fresh] owns_def)
  have p: "gm_count (\<lambda>cl. counted_phase (cl_phase cl)) (co_calls (enter t d c)) = gm_count (\<lambda>cl. counted_phase (cl_phase cl)) (co_calls c)"
    unfolding e by (simp add: gm_count_put_new [OF fresh])
  have m: "maximum_ok (enter t d c)"
    using okD(11) fresh unfolding e maximum_ok_def by (auto simp: gm_get_put) (metis option.distinct(1))
  have ld: "loaded_ok (enter t d c)" using okD(12) unfolding e loaded_ok_def by (auto simp: gm_get_put)
  have heap: "gt_refs (co_heap (enter t d c) ! h) = gt_refs (co_heap c ! h) + (if h = g then 1 else 0)"
    "gt_token (co_heap (enter t d c) ! h) = gt_token (co_heap c ! h)" if "h < length (co_heap c)" for h
    using that okD(4) [OF g] unfolding e by (simp_all add: nth_list_update)
  have len: "length (co_heap (enter t d c)) = length (co_heap c)" unfolding e by simp
  have rest: "gm_ok (co_calls (enter t d c))" "co_gates (enter t d c) = co_gates c" "co_pending (enter t d c) = co_pending c"
    "gm_get (co_calls (enter t d c)) s = (if s = t then Some ?cl else gm_get (co_calls c) s)" for s
    using okD(1) unfolding e by (simp_all add: gm_get_put)
  show ?thesis
    unfolding coord_ok_def using okD(2-11) ld g m p u w heap len rest okD(4) [OF g] by (auto simp: live_def)
qed

lemma enter_new:
  assumes ok: "coord_ok c" and fresh: "gm_get (co_calls c) t = None" and g: "gm_get (co_gates c) d = None"
  shows "coord_ok (enter t d c)"
proof -
  note okD = coord_okD [OF ok]
  let ?n = "length (co_heap c)"
  let ?cl = "\<lparr>cl_device = d, cl_gate = ?n, cl_phase = Entered\<rparr>"
  have e: "enter t d c = c\<lparr>co_heap := co_heap c @ [\<lparr>gt_token = True, gt_refs = 1\<rparr>],
      co_gates := gm_put d ?n (co_gates c), co_calls := gm_put t ?cl (co_calls c)\<rparr>"
    using g by (simp add: enter_def update_gate_def)
  have none: "gm_count (\<lambda>cl. P cl \<and> cl_gate cl = ?n) (co_calls c) = 0" for P
    using okD(7) gm_in_set_get [OF okD(1)] by (fastforce simp: gm_count_zero)
  have u: "users h (enter t d c) = users h c + (if h = ?n then 1 else 0)" for h
    unfolding e users_def by (simp add: gm_count_put_new [OF fresh] live_def)
  have w: "owners h (enter t d c) = owners h c" for h
    unfolding e owners_def by (simp add: gm_count_put_new [OF fresh] owns_def)
  have n: "users ?n c = 0" "owners ?n c = 0" using none by (simp_all add: users_def owners_def)
  have p: "gm_count (\<lambda>cl. counted_phase (cl_phase cl)) (co_calls (enter t d c)) = gm_count (\<lambda>cl. counted_phase (cl_phase cl)) (co_calls c)"
    unfolding e by (simp add: gm_count_put_new [OF fresh])
  have m: "maximum_ok (enter t d c)"
    using okD(11) fresh unfolding e maximum_ok_def by (auto simp: gm_get_put) (metis option.distinct(1))
  have ld: "loaded_ok (enter t d c)" using okD(12) unfolding e loaded_ok_def by (auto simp: gm_get_put)
  have heap: "co_heap (enter t d c) ! h = (if h = ?n then \<lparr>gt_token = True, gt_refs = 1\<rparr> else co_heap c ! h)" if "h < Suc ?n" for h
    using that unfolding e by (simp add: nth_append)
  have len: "length (co_heap (enter t d c)) = Suc ?n" unfolding e by simp
  have rest: "gm_ok (co_calls (enter t d c))" "gm_ok (co_gates (enter t d c))" "co_pending (enter t d c) = co_pending c"
    "gm_get (co_gates (enter t d c)) s' = (if s' = d then Some ?n else gm_get (co_gates c) s')"
    "gm_get (co_calls (enter t d c)) s = (if s = t then Some ?cl else gm_get (co_calls c) s)" for s s'
    using okD(1,2) unfolding e by (simp_all add: gm_get_put)
  have gates: "h < ?n" if "gm_get (co_gates c) s = Some h" for s h using okD(4) that .
  show ?thesis
    unfolding coord_ok_def using okD(3,5,6,7,8,9,10) ld g m p u w n heap rest len gates
    by (auto simp: live_def less_Suc_eq split: if_splits) fastforce+
qed

text \<open>
  One call moves on: its phase changes, its gate may change, and the gate leaves the map when its
  last user does.
\<close>

lemma advance_ok:
  assumes ok: "coord_ok c" and t: "gm_get (co_calls c) t = Some cl" and alive: "live cl"
    and calls: "co_calls c' = gm_put t (cl\<lparr>cl_phase := p\<rparr>) (co_calls c)"
    and heap: "co_heap c' = (co_heap c)[cl_gate cl := gate]"
    and refs: "gt_refs gate = gt_refs (co_heap c ! cl_gate cl) - (if p = Finished then 1 else 0)"
    and token: "owners (cl_gate cl) c + (if p = Granted \<or> p = Holding then 1 else 0) =
      (if gt_token gate then 0 else 1) + (if owns cl then 1 else 0 :: nat)"
    and gates: "co_gates c' = (if gt_refs gate = 0 then gm_del (cl_device cl) (co_gates c) else co_gates c)"
    and pending: "co_pending c' = co_pending c + (if counted_phase p then 1 else 0) - (if counted_phase (cl_phase cl) then 1 else 0)"
    and maximum: "maximum_ok c'" and loaded: "loaded_ok c'"
  shows "coord_ok c'"
proof -
  note okD = coord_okD [OF ok]
  let ?g = "cl_gate cl"
  have g: "?g < length (co_heap c)" using okD(7) [OF t] .
  have mine: "gm_get (co_gates c) (cl_device cl) = Some ?g" using okD(3) [OF t alive] .
  have calls': "gm_get (co_calls c') s = (if s = t then Some (cl\<lparr>cl_phase := p\<rparr>) else gm_get (co_calls c) s)" for s
    unfolding calls by (simp add: gm_get_put)
  have u: "users h c' + (if h = ?g then 1 else 0) = users h c + (if h = ?g \<and> p \<noteq> Finished then 1 else 0)" for h
    using gm_count_put_old [OF t okD(1), of "\<lambda>cl. live cl \<and> cl_gate cl = h" "cl\<lparr>cl_phase := p\<rparr>"] alive
    unfolding users_def calls by (auto simp: live_def)
  have w: "owners h c' + (if h = ?g \<and> owns cl then 1 else 0) = owners h c + (if h = ?g \<and> (p = Granted \<or> p = Holding) then 1 else 0)" for h
    using gm_count_put_old [OF t okD(1), of "\<lambda>cl. owns cl \<and> cl_gate cl = h" "cl\<lparr>cl_phase := p\<rparr>"]
    unfolding owners_def calls by (auto simp: owns_def)
  have heap': "co_heap c' ! h = (if h = ?g then gate else co_heap c ! h)" "length (co_heap c') = length (co_heap c)"
      if "h < length (co_heap c)" for h using that g unfolding heap by (simp_all add: nth_list_update)
  have len: "length (co_heap c') = length (co_heap c)" unfolding heap by simp
  have counts: "gt_refs (co_heap c' ! h) = int (users h c') \<and> owners h c' = (if gt_token (co_heap c' ! h) then 0 else 1)"
    if "h < length (co_heap c)" for h
  proof (cases "h = ?g")
    case False
    then show ?thesis using okD(8,9) [OF that] u [of h] w [of h] heap'(1) [OF that] by simp
  next
    case True
    have "int (users ?g c') = gt_refs gate" using u [of ?g] refs okD(8) [OF g] by (cases "p = Finished") simp_all
    moreover have "owners ?g c' = (if gt_token gate then 0 else 1)"
      using w [of ?g] token by (cases "p = Granted \<or> p = Holding"; cases "owns cl") simp_all
    ultimately show ?thesis using True heap'(1) [OF g] by simp
  qed
  have gates': "gm_get (co_gates c') d = Some h \<Longrightarrow> gm_get (co_gates c) d = Some h \<and> (h = ?g \<longrightarrow> gt_refs gate \<noteq> 0)" for d h
    unfolding gates using mine okD(6) by (auto simp: gm_get_del split: if_splits)
  have livegate: "gm_get (co_gates c') (cl_device cl') = Some (cl_gate cl')" if s: "gm_get (co_calls c') s = Some cl'" and l: "live cl'" for s cl'
  proof -
    have old: "gm_get (co_gates c) (cl_device cl') = Some (cl_gate cl')"
      using s l okD(3) [of s cl'] mine by (auto simp: calls' split: if_splits)
    have "gt_refs gate \<noteq> 0" if "cl_gate cl' = ?g"
    proof -
      have "users ?g c' > 0" unfolding users_def by (rule gm_count_pos [OF s]) (use l that in simp)
      then show ?thesis using counts [OF g] heap'(1) [OF g] by simp
    qed
    then show ?thesis using old mine unfolding gates by (auto simp: gm_get_del)
  qed
  have pend: "co_pending c' = int (gm_count (\<lambda>cl. counted_phase (cl_phase cl)) (co_calls c'))"
    using gm_count_put_old [OF t okD(1), of "\<lambda>cl. counted_phase (cl_phase cl)" "cl\<lparr>cl_phase := p\<rparr>"] okD(10) pending
    unfolding calls by (auto split: if_splits)
  show ?thesis unfolding coord_ok_def
  proof (intro conjI allI impI)
    show "gm_ok (co_calls c')" "gm_ok (co_gates c')" using okD(1,2) unfolding calls gates by simp_all
    show "gm_get (co_gates c') (cl_device cl') = Some (cl_gate cl')" if "gm_get (co_calls c') s = Some cl'" "live cl'" for s cl'
      using livegate that .
    show "h < length (co_heap c')" if "gm_get (co_gates c') d = Some h" for d h
      using gates' [OF that] okD(4) len by metis
    show "0 < gt_refs (co_heap c' ! h)" if "gm_get (co_gates c') d = Some h" for d h
    proof -
      have old: "gm_get (co_gates c) d = Some h" "h = ?g \<longrightarrow> gt_refs gate \<noteq> 0" using gates' [OF that] by auto
      have "h < length (co_heap c)" using okD(4) [OF old(1)] .
      then show ?thesis using heap'(1) [of h] counts [of h] old okD(5) [OF old(1)] by (cases "h = ?g") auto
    qed
    show "d = d'" if "gm_get (co_gates c') d = Some h" "gm_get (co_gates c') d' = Some h" for d d' h
      using gates' that okD(6) by metis
    show "cl_gate cl' < length (co_heap c')" if "gm_get (co_calls c') s = Some cl'" for s cl'
      using that okD(7) [of s cl'] g len by (auto simp: calls' split: if_splits)
    show "gt_refs (co_heap c' ! h) = int (users h c')" "owners h c' = (if gt_token (co_heap c' ! h) then 0 else 1)"
      if "h < length (co_heap c')" for h using counts that len by auto
  qed (use pend maximum loaded in simp_all)
qed

lemma set_phase_calls: "gm_get (co_calls c) t = Some cl \<Longrightarrow> set_phase t p c = c\<lparr>co_calls := gm_put t (cl\<lparr>cl_phase := p\<rparr>) (co_calls c)\<rparr>"
  by (simp add: set_phase_def)

text \<open>A call in the counting loop stays witness of the maximum until the maximum has caught up.\<close>

lemma maximum_ok_move:
  assumes "maximum_ok c" and "gm_get (co_calls c) t = Some cl" and "co_pending c' \<le> co_pending c" and "co_maxPending c' \<ge> co_maxPending c"
    and "co_calls c' = gm_put t (cl\<lparr>cl_phase := p\<rparr>) (co_calls c)"
    and "\<And>n m. cl_phase cl = Counting n m \<Longrightarrow> (\<exists>m'. p = Counting n m') \<or> n \<le> co_maxPending c'"
  shows "maximum_ok c'"
proof (cases "co_pending c \<le> co_maxPending c")
  case True
  with assms(3,4) show ?thesis by (simp add: maximum_ok_def)
next
  case False
  with assms(1) obtain s cs n m where s: "gm_get (co_calls c) s = Some cs" "cl_phase cs = Counting n m" "co_pending c \<le> n"
    by (auto simp: maximum_ok_def)
  show ?thesis
  proof (cases "s = t")
    case False
    with s assms(3,5) show ?thesis unfolding maximum_ok_def by (intro disjI2 exI [of _ s] exI [of _ cs]) (auto simp: gm_get_put)
  next
    case True
    with s assms(2) have "cl_phase cl = Counting n m" by simp
    from assms(6) [OF this] show ?thesis
    proof
      assume "\<exists>m'. p = Counting n m'"
      with s(3) assms(3,5) show ?thesis unfolding maximum_ok_def by (intro disjI2 exI [of _ t]) (auto simp: gm_get_put)
    next
      assume "n \<le> co_maxPending c'"
      with s(3) assms(3) show ?thesis by (simp add: maximum_ok_def)
    qed
  qed
qed

lemma loaded_ok_move:
  assumes "loaded_ok c" and "co_maxPending c' \<ge> co_maxPending c" and "co_calls c' = gm_put t (cl\<lparr>cl_phase := p\<rparr>) (co_calls c)"
    and "\<And>n k. p = Counting n (Some k) \<Longrightarrow> k \<le> co_maxPending c'"
  shows "loaded_ok c'"
  using assms unfolding loaded_ok_def by (auto simp: gm_get_put) (meson order_trans)

lemma maximum_ok_count:
  assumes "gm_get (co_calls c) t = Some cl" and "co_calls c' = gm_put t (cl\<lparr>cl_phase := Counting (co_pending c') m\<rparr>) (co_calls c)"
  shows "maximum_ok c'"
  using assms unfolding maximum_ok_def by (intro disjI2 exI [of _ t]) (auto simp: gm_get_put)

lemma own_gate: "coord_ok c \<Longrightarrow> gm_get (co_calls c) t = Some cl \<Longrightarrow> live cl \<Longrightarrow> gt_refs (co_heap c ! cl_gate cl) \<noteq> 0"
  using coord_okD(3,5) by fastforce

lemma own_owners: "coord_ok c \<Longrightarrow> gm_get (co_calls c) t = Some cl \<Longrightarrow> owners (cl_gate cl) c = (if token_of cl c then 0 else 1)"
  using coord_okD(7,9) by (simp add: token_of_def)

lemma owner_has_token:
  assumes "coord_ok c" and "gm_get (co_calls c) t = Some cl" and "owns cl"
  shows "\<not> token_of cl c"
proof -
  have "owners (cl_gate cl) c > 0" unfolding owners_def by (rule gm_count_pos [OF assms(2)]) (simp add: assms(3))
  with own_owners [OF assms(1,2)] show ?thesis by (auto split: if_splits)
qed

lemma counting_known:
  "cl_phase cl = Counting n m \<Longrightarrow> live cl \<and> \<not> owns cl \<and> counted_phase (cl_phase cl)"
  by (simp add: live_def owns_def)

lemma advance_coord_ok:
  assumes ok: "coord_ok c" and step: "advance cancelled t c = Some c'"
  shows "coord_ok c'"
proof -
  from step obtain cl where t: "gm_get (co_calls c) t = Some cl" by (auto simp: advance_def split: option.splits)
  have alive: "live cl" using step t by (auto simp: advance_def live_def)
  note okD = coord_okD [OF ok]
  have g: "cl_gate cl < length (co_heap c)" using okD(7) [OF t] .
  note refs = own_gate [OF ok t alive] and own = own_owners [OF ok t] and has = owner_has_token [OF ok t]
  note mine = okD(3) [OF t alive]
  have counted: "k \<le> co_maxPending c" if "cl_phase cl = Counting n (Some k)" for n k
    using okD(12) t that unfolding loaded_ok_def by blast
  note move = advance_ok [OF ok t alive] and mx = maximum_ok_move [OF okD(11) t] and ld = loaded_ok_move [OF okD(12)]
  note defs = set_phase_calls [OF t] take_token_def update_gate_def token_of_def set_phase_def t
  show ?thesis
  proof (cases "cl_phase cl")
    case Entered
    show ?thesis
    proof (cases "token_of cl c")
      case True
      show ?thesis
        by (rule move [where p = Holding and gate = "(co_heap c ! cl_gate cl)\<lparr>gt_token := False\<rparr>"])
          (use step t Entered True refs own in \<open>auto simp: advance_def defs owns_def intro!: mx [where p = Holding] ld [where p = Holding]\<close>)
    next
      case False
      show ?thesis
        by (rule move [where p = Blocked and gate = "co_heap c ! cl_gate cl"])
          (use step t Entered False refs own in \<open>auto simp: advance_def defs owns_def intro!: mx [where p = Blocked] ld [where p = Blocked]\<close>)
    qed
  next
    case Blocked
    show ?thesis
      by (rule move [where p = "Counting (co_pending c + 1) None" and gate = "co_heap c ! cl_gate cl"])
        (use step t Blocked refs own in \<open>auto simp: advance_def defs owns_def Let_def intro!: maximum_ok_count [OF t] ld [where p = "Counting (co_pending c + 1) None"]\<close>)
  next
    case (Counting n m)
    show ?thesis
    proof (cases m)
      case None
      show ?thesis
        by (rule move [where p = "Counting n (Some (co_maxPending c))" and gate = "co_heap c ! cl_gate cl"])
          (use step t Counting None refs own in
            \<open>auto simp: advance_def defs owns_def intro!: mx [where p = "Counting n (Some (co_maxPending c))"] ld [where p = "Counting n (Some (co_maxPending c))"]\<close>)
    next
      case (Some k)
      show ?thesis
      proof (cases "n \<le> k \<or> co_maxPending c = k")
        case True
        show ?thesis
          by (rule move [where p = Waiting and gate = "co_heap c ! cl_gate cl"])
            (use step t Counting Some True refs own counted in
              \<open>auto simp: advance_def defs owns_def split: if_splits intro!: mx [where p = Waiting] ld [where p = Waiting]\<close>)
      next
        case False
        show ?thesis
          by (rule move [where p = "Counting n None" and gate = "co_heap c ! cl_gate cl"])
            (use step t Counting Some False refs own in
              \<open>auto simp: advance_def defs owns_def split: if_splits intro!: mx [where p = "Counting n None"] ld [where p = "Counting n None"]\<close>)
      qed
    qed
  next
    case Waiting
    show ?thesis
    proof (cases cancelled)
      case True
      show ?thesis
        by (rule move [where p = Cancelled and gate = "co_heap c ! cl_gate cl"])
          (use step t Waiting True refs own in \<open>auto simp: advance_def defs owns_def intro!: mx [where p = Cancelled] ld [where p = Cancelled]\<close>)
    next
      case False
      show ?thesis
        by (rule move [where p = Granted and gate = "(co_heap c ! cl_gate cl)\<lparr>gt_token := False\<rparr>"])
          (use step t Waiting False refs own in
            \<open>auto simp: advance_def defs owns_def split: if_splits intro!: mx [where p = Granted] ld [where p = Granted]\<close>)
    qed
  next
    case Granted
    show ?thesis
      by (rule move [where p = "Holding" and gate = "co_heap c ! cl_gate cl"])
        (use step t Granted refs own in \<open>auto simp: advance_def defs owns_def intro!: mx [where p = Holding] ld [where p = Holding]\<close>)
  next
    case Cancelled
    show ?thesis
      by (rule move [where p = "Leaving" and gate = "co_heap c ! cl_gate cl"])
        (use step t Cancelled refs own in \<open>auto simp: advance_def defs owns_def intro!: mx [where p = Leaving] ld [where p = Leaving]\<close>)
  next
    case Leaving
    show ?thesis
      by (rule move [where p = "Finished" and gate = "(co_heap c ! cl_gate cl)\<lparr>gt_refs := gt_refs (co_heap c ! cl_gate cl) - 1\<rparr>"])
        (use step t Leaving g mine own in \<open>auto simp: advance_def defs releaseReference_def Let_def owns_def intro!: mx [where p = Finished] ld [where p = Finished]\<close>)
  next
    case Holding
    show ?thesis
      by (rule move [where p = "Returned" and gate = "(co_heap c ! cl_gate cl)\<lparr>gt_token := True\<rparr>"])
        (use step t Holding refs own in \<open>auto simp: advance_def defs owns_def intro!: mx [where p = Returned] ld [where p = Returned] split: if_splits\<close>)
  next
    case Returned
    show ?thesis
      by (rule move [where p = "Finished" and gate = "(co_heap c ! cl_gate cl)\<lparr>gt_refs := gt_refs (co_heap c ! cl_gate cl) - 1\<rparr>"])
        (use step t Returned g mine own in \<open>auto simp: advance_def defs releaseReference_def Let_def owns_def intro!: mx [where p = Finished] ld [where p = Finished]\<close>)
  next
    case Finished
    with alive show ?thesis by (simp add: live_def)
  qed
qed

lemma coordinator_run_ok: "coordinator_run c \<Longrightarrow> coord_ok c"
proof (induction rule: coordinator_run.induct)
  case (run_enter c t deviceID)
  then show ?case using enter_old enter_new by (cases "gm_get (co_gates c) deviceID") auto
qed (auto simp: coord_ok_new intro: advance_coord_ok)

lemma gm_count_two:
  assumes "gm_get m k = Some v" "gm_get m k' = Some v'" "k \<noteq> k'" "P v" "P v'"
  shows "gm_count P m \<ge> 2"
proof -
  have "(k, v) \<in> set (filter (\<lambda>(k, v). P v) m)" "(k', v') \<in> set (filter (\<lambda>(k, v). P v) m)"
    using assms by (auto dest: gm_get_in_set)
  then have "card {(k, v), (k', v')} \<le> card (set (filter (\<lambda>(k, v). P v) m))" by (intro card_mono) auto
  also have "\<dots> \<le> gm_count P m" unfolding gm_count_def by (rule card_length)
  finally show ?thesis using assms(3) by simp
qed

section \<open>Work left\<close>

text \<open>
  An upper bound of the steps the calls can still take. The loop that raises the maximum retries
  only when another call has raised it, so the distance of its count from the value it has read
  shrinks. \<open>n\<close> is the number of calls, \<open>mx\<close> the maximum.
\<close>

fun weight :: "nat \<Rightarrow> int \<Rightarrow> phase \<Rightarrow> nat" where
  "weight n mx Entered = 8 + 2 * n"
| "weight n mx Blocked = 7 + 2 * n"
| "weight n mx (Counting p None) = 6 + 2 * nat (p - mx)"
| "weight n mx (Counting p (Some k)) = 5 + 2 * nat (p - k)"
| "weight n mx Waiting = 4"
| "weight n mx Granted = 3"
| "weight n mx Cancelled = 3"
| "weight n mx Holding = 2"
| "weight n mx Leaving = 1"
| "weight n mx Returned = 1"
| "weight n mx Finished = 0"

definition work :: "coordinator \<Rightarrow> nat" where
  "work c = sum_list (map (\<lambda>(t, cl). weight (length (co_calls c)) (co_maxPending c) (cl_phase cl)) (co_calls c))"

lemma weight_mono: "mx \<le> mx' \<Longrightarrow> weight n mx' p \<le> weight n mx p"
  by (cases p; cases "case p of Counting _ m \<Rightarrow> m | _ \<Rightarrow> None") auto

lemma sum_list_put: "gm_get m k = Some w \<Longrightarrow> gm_ok m \<Longrightarrow>
    sum_list (map (\<lambda>(k, v). f v) (gm_put k v m)) + f w = sum_list (map (\<lambda>(k, v). f v) m) + (f v :: nat)"
  by (induction m) (auto split: if_splits)

lemma max_nonneg: "coordinator_run c \<Longrightarrow> co_maxPending c \<ge> 0"
proof (induction rule: coordinator_run.induct)
  case (run_advance c cancelled t c')
  then show ?case
    by (auto simp: advance_def set_phase_def take_token_def update_gate_def releaseReference_def Let_def
        split: option.splits phase.splits if_splits)
qed (auto simp: newCommandCoordinator_def enter_def update_gate_def Let_def split: option.splits)

text \<open>A step that changes the phase of \<open>t\<close> to a lighter one.\<close>

lemma work_decreases:
  assumes "coord_ok c" and "gm_get (co_calls c) t = Some cl" and "co_calls c' = gm_put t (cl\<lparr>cl_phase := p\<rparr>) (co_calls c)"
    and "co_maxPending c \<le> co_maxPending c'"
    and "weight (length (co_calls c)) (co_maxPending c') p < weight (length (co_calls c)) (co_maxPending c) (cl_phase cl)"
  shows "work c' < work c"
proof -
  let ?f = "\<lambda>mx v. weight (length (co_calls c)) mx (cl_phase v)"
  have len: "length (co_calls c') = length (co_calls c)" using assms(2,3) gm_length_put_old by metis
  have "work c' + ?f (co_maxPending c') cl =
      sum_list (map (\<lambda>(k, v). ?f (co_maxPending c') v) (co_calls c)) + weight (length (co_calls c)) (co_maxPending c') p"
    using sum_list_put [OF assms(2) coord_okD(1) [OF assms(1)], of "?f (co_maxPending c')" "cl\<lparr>cl_phase := p\<rparr>"]
    unfolding work_def assms(3) [symmetric] len by simp
  moreover have "sum_list (map (\<lambda>(k, v). ?f (co_maxPending c') v) m) + ?f (co_maxPending c) cl \<le>
      sum_list (map (\<lambda>(k, v). ?f (co_maxPending c) v) m) + ?f (co_maxPending c') cl" if "(t, cl) \<in> set m" for m :: "(call_id, call) gomap"
    using that
  proof (induction m)
    case (Cons x m)
    have all: "sum_list (map (\<lambda>(k, v). ?f (co_maxPending c') v) m) \<le> sum_list (map (\<lambda>(k, v). ?f (co_maxPending c) v) m)"
      by (rule sum_list_mono) (auto intro: weight_mono [OF assms(4)])
    have hd: "?f (co_maxPending c') v \<le> ?f (co_maxPending c) v" for v by (rule weight_mono [OF assms(4)])
    show ?case
    proof (cases "x = (t, cl)")
      case True
      then show ?thesis using all by simp
    next
      case False
      then show ?thesis using Cons hd [of "snd x"] by (cases x) auto
    qed
  qed simp
  ultimately show ?thesis using assms(5) gm_get_in_set [OF assms(2)] unfolding work_def by fastforce
qed

lemma blocked_bound:
  assumes "coord_ok c" and "gm_get (co_calls c) t = Some cl" and "\<not> counted_phase (cl_phase cl)"
  shows "co_pending c + 1 \<le> int (length (co_calls c))"
proof -
  let ?P = "\<lambda>(k :: call_id, v). counted_phase (cl_phase v)"
  have "length (filter ?P (co_calls c)) + length (filter (\<lambda>x. \<not> ?P x) (co_calls c)) = length (co_calls c)"
    by (rule sum_length_filter_compl)
  moreover have "filter (\<lambda>x. \<not> ?P x) (co_calls c) \<noteq> []"
    using assms(3) gm_get_in_set [OF assms(2)] by (auto simp: filter_empty_conv)
  ultimately have "length (filter ?P (co_calls c)) + 1 \<le> length (co_calls c)"
    by (cases "filter (\<lambda>x. \<not> ?P x) (co_calls c)") simp_all
  then show ?thesis using coord_okD(10) [OF assms(1)] unfolding gm_count_def by simp
qed

lemma set_phase_sel [simp]: "co_maxPending (set_phase t p c) = co_maxPending c" "co_heap (set_phase t p c) = co_heap c"
  "co_gates (set_phase t p c) = co_gates c" "co_pending (set_phase t p c) = co_pending c"
  by (auto simp: set_phase_def split: option.splits)

lemma release_sel [simp]: "co_calls (releaseReference cl c) = co_calls c" "co_maxPending (releaseReference cl c) = co_maxPending c"
  by (auto simp: releaseReference_def update_gate_def Let_def)

lemma update_gate_sel [simp]: "co_calls (update_gate f g c) = co_calls c" "co_maxPending (update_gate f g c) = co_maxPending c"
  by (auto simp: update_gate_def)

lemma advance_work:
  assumes run: "coordinator_run c" and step: "advance cancelled t c = Some c'"
  shows "work c' < work c"
proof -
  note ok = coordinator_run_ok [OF run]
  from step obtain cl where t: "gm_get (co_calls c) t = Some cl" by (auto simp: advance_def split: option.splits)
  let ?n = "length (co_calls c)"
  have counted: "k \<le> co_maxPending c" if "cl_phase cl = Counting n (Some k)" for n k
    using coord_okD(12) [OF ok] t that unfolding loaded_ok_def by blast
  have blocked: "nat (co_pending c + 1 - co_maxPending c) \<le> ?n" if "cl_phase cl = Blocked"
    using blocked_bound [OF ok t] that max_nonneg [OF run] by simp
  have "\<exists>p. co_calls c' = gm_put t (cl\<lparr>cl_phase := p\<rparr>) (co_calls c) \<and> co_maxPending c \<le> co_maxPending c' \<and>
      weight ?n (co_maxPending c') p < weight ?n (co_maxPending c) (cl_phase cl)"
  proof (cases "cl_phase cl")
    case (Counting n m)
    show ?thesis
    proof (cases m)
      case None
      show ?thesis by (rule exI [of _ "Counting n (Some (co_maxPending c))"]) (use step t Counting None in \<open>auto simp: advance_def set_phase_def\<close>)
    next
      case (Some k)
      show ?thesis
        by (rule exI [of _ "if n \<le> k \<or> co_maxPending c = k then Waiting else Counting n None"])
          (use step t Counting Some counted [of n k] in \<open>auto simp: advance_def set_phase_def split: if_splits\<close>)
    qed
  next
    case Entered
    show ?thesis by (rule exI [of _ "if token_of cl c then Holding else Blocked"])
        (use step t Entered in \<open>auto simp: advance_def set_phase_def take_token_def\<close>)
  next
    case Blocked
    show ?thesis by (rule exI [of _ "Counting (co_pending c + 1) None"])
        (use step t Blocked blocked in \<open>auto simp: advance_def set_phase_def Let_def\<close>)
  next
    case Waiting
    show ?thesis by (rule exI [of _ "if cancelled then Cancelled else Granted"])
        (use step t Waiting in \<open>auto simp: advance_def set_phase_def take_token_def split: if_splits\<close>)
  next
    case Granted
    show ?thesis by (rule exI [of _ Holding]) (use step t Granted in \<open>auto simp: advance_def set_phase_def\<close>)
  next
    case Cancelled
    show ?thesis by (rule exI [of _ Leaving]) (use step t Cancelled in \<open>auto simp: advance_def set_phase_def\<close>)
  next
    case Leaving
    show ?thesis by (rule exI [of _ Finished]) (use step t Leaving in \<open>auto simp: advance_def set_phase_def\<close>)
  next
    case Holding
    show ?thesis by (rule exI [of _ Returned]) (use step t Holding in \<open>auto simp: advance_def set_phase_def split: if_splits\<close>)
  next
    case Returned
    show ?thesis by (rule exI [of _ Finished]) (use step t Returned in \<open>auto simp: advance_def set_phase_def\<close>)
  next
    case Finished
    with step t show ?thesis by (simp add: advance_def)
  qed
  then obtain p where "co_calls c' = gm_put t (cl\<lparr>cl_phase := p\<rparr>) (co_calls c)" "co_maxPending c \<le> co_maxPending c'"
    "weight ?n (co_maxPending c') p < weight ?n (co_maxPending c) (cl_phase cl)" by blast
  then show ?thesis by (rule work_decreases [OF ok t])
qed

section \<open>Progress\<close>

lemma advance_cases:
  assumes ok: "coord_ok c" and t: "gm_get (co_calls c) t = Some cl" and alive: "live cl"
  shows "advance False t c \<noteq> None \<or> cl_phase cl = Waiting \<and> \<not> token_of cl c"
  using t alive owner_has_token [OF ok t]
  by (auto simp: advance_def live_def owns_def Let_def split: phase.splits option.splits)

lemma owner_moves:
  assumes ok: "coord_ok c" and s: "gm_get (co_calls c) s = Some cs" and "owns cs"
  shows "advance False s c \<noteq> None"
  using advance_cases [OF ok s] assms(3) by (auto simp: owns_def live_def)

lemma token_away:
  assumes ok: "coord_ok c" and t: "gm_get (co_calls c) t = Some cl" and "\<not> token_of cl c"
  shows "\<exists>s cs. gm_get (co_calls c) s = Some cs \<and> owns cs \<and> cl_gate cs = cl_gate cl"
proof -
  have "gm_count (\<lambda>x. owns x \<and> cl_gate x = cl_gate cl) (co_calls c) \<noteq> 0"
    using own_owners [OF ok t] assms(3) by (simp add: owners_def)
  then obtain s cs where "(s, cs) \<in> set (co_calls c)" "owns cs" "cl_gate cs = cl_gate cl" by (auto simp: gm_count_zero)
  then show ?thesis using gm_in_set_get [OF coord_okD(1) [OF ok]] by blast
qed

lemma same_gate_same_device:
  assumes ok: "coord_ok c" and "gm_get (co_calls c) t = Some a" "gm_get (co_calls c) s = Some b" "live a" "live b" "cl_gate a = cl_gate b"
  shows "cl_device a = cl_device b"
  using coord_okD(3) [OF ok assms(2,4)] coord_okD(3) [OF ok assms(3,5)] coord_okD(6) [OF ok] assms(6) by metis

definition stuck :: "coordinator \<Rightarrow> bool" where
  "stuck c \<longleftrightarrow> list_all (\<lambda>t. advance False t c = None) (gm_keys (co_calls c))"

lemma stuck_finished:
  assumes ok: "coord_ok c" and "stuck c" and t: "gm_get (co_calls c) t = Some cl"
  shows "cl_phase cl = Finished"
proof (rule ccontr)
  assume "cl_phase cl \<noteq> Finished"
  then have alive: "live cl" by (simp add: live_def)
  have none: "advance False s c = None" if "gm_get (co_calls c) s = Some cs" for s cs
    using assms(2) that by (auto simp: stuck_def list_all_iff dest!: gm_get_in_set)
  from advance_cases [OF ok t alive] none [OF t] have "\<not> token_of cl c" by blast
  from token_away [OF ok t this] owner_moves [OF ok] none show False by blast
qed

lemma finished_empty:
  assumes ok: "coord_ok c" and fin: "\<And>t cl. gm_get (co_calls c) t = Some cl \<Longrightarrow> cl_phase cl = Finished"
  shows "co_gates c = [] \<and> co_pending c = 0"
proof -
  have in_set: "cl_phase cl = Finished" if "(t, cl) \<in> set (co_calls c)" for t cl
    using fin gm_in_set_get [OF coord_okD(1) [OF ok] that] .
  have "gm_get (co_gates c) d = None" for d
  proof (rule ccontr)
    assume "gm_get (co_gates c) d \<noteq> None"
    then obtain g where g: "gm_get (co_gates c) d = Some g" by blast
    have "users g c = 0" unfolding users_def gm_count_zero using in_set by (auto simp: live_def)
    with coord_okD(5,8) [OF ok] coord_okD(4) [OF ok] g show False by fastforce
  qed
  then have "co_gates c = []" by (metis map_of_eq_None_iff list.set_intros(1) list.simps(9) neq_Nil_conv image_eqI list.set_map)
  moreover have "gm_count (\<lambda>cl. counted_phase (cl_phase cl)) (co_calls c) = 0"
    unfolding gm_count_zero using in_set by auto
  ultimately show ?thesis using coord_okD(10) [OF ok] by simp
qed

text \<open>A schedule: which call moves, and whether its context counts as cancelled.\<close>

fun advances :: "(bool \<times> call_id) list \<Rightarrow> coordinator \<Rightarrow> coordinator option" where
  "advances [] c = Some c"
| "advances ((cancelled, t) # sched) c = (case advance cancelled t c of None \<Rightarrow> None | Some c' \<Rightarrow> advances sched c')"

lemma advances_run:
  "coordinator_run c \<Longrightarrow> advances sched c = Some c' \<Longrightarrow> coordinator_run c' \<and> length sched + work c' \<le> work c"
proof (induction sched c rule: advances.induct)
  case (2 cancelled t sched c)
  then obtain c1 where c1: "advance cancelled t c = Some c1" "advances sched c1 = Some c'" by (auto split: option.splits)
  have "coordinator_run c1" by (rule run_advance [OF "2.prems"(1) c1(1)])
  with "2.IH" [OF c1(1) _ c1(2)] advance_work [OF "2.prems"(1) c1(1)] show ?case by simp
qed simp

section \<open>Properties\<close>

text \<open>C9. At most one call holds the queue of a device: in every interleaving of any number of calls, two calls that
  both hold the token for the same device are the same call.\<close>

theorem device_mutual_exclusion:
  assumes "coordinator_run c" and "gm_get (co_calls c) t = Some a" and "gm_get (co_calls c) s = Some b"
    and "cl_phase a = Holding" and "cl_phase b = Holding" and "cl_device a = cl_device b"
  shows "t = s"
proof (rule ccontr)
  assume "t \<noteq> s"
  note ok = coordinator_run_ok [OF assms(1)]
  have live: "live a" "live b" and own: "owns a" "owns b" using assms(4,5) by (simp_all add: live_def owns_def)
  have same: "cl_gate a = cl_gate b"
    using coord_okD(3) [OF ok assms(2) live(1)] coord_okD(3) [OF ok assms(3) live(2)] assms(6) by simp
  have "gm_count (\<lambda>x. owns x \<and> cl_gate x = cl_gate a) (co_calls c) \<ge> 2"
    by (rule gm_count_two [OF assms(2,3) \<open>t \<noteq> s\<close>]) (use own same in simp_all)
  then show False using own_owners [OF ok assms(2)] by (simp add: owners_def split: if_splits)
qed

text \<open>The queue never deadlocks: an unfinished call can take its next step, or it waits for the token of its
  device and another call for the same device holds it and can move. In particular giving the token back never blocks.\<close>

theorem queue_progress:
  assumes "coordinator_run c" and "gm_get (co_calls c) t = Some cl" and "cl_phase cl \<noteq> Finished"
  shows "advance False t c \<noteq> None \<or>
    cl_phase cl = Waiting \<and> (\<exists>s cs. s \<noteq> t \<and> gm_get (co_calls c) s = Some cs \<and> cl_device cs = cl_device cl \<and>
      (cl_phase cs = Granted \<or> cl_phase cs = Holding) \<and> advance False s c \<noteq> None)"
proof (cases "advance False t c = None")
  case True
  note ok = coordinator_run_ok [OF assms(1)]
  have alive: "live cl" using assms(3) by (simp add: live_def)
  from advance_cases [OF ok assms(2) alive] True have w: "cl_phase cl = Waiting" "\<not> token_of cl c" by simp_all
  from token_away [OF ok assms(2) w(2)] obtain s cs
    where s: "gm_get (co_calls c) s = Some cs" "owns cs" "cl_gate cs = cl_gate cl" by blast
  have "live cs" using s(2) by (auto simp: live_def owns_def)
  then have "cl_device cs = cl_device cl" using same_gate_same_device [OF ok s(1) assms(2) _ alive s(3)] by blast
  moreover have "s \<noteq> t" using s assms(2) w(1) by (auto simp: owns_def)
  ultimately show ?thesis using w(1) s owner_moves [OF ok s(1,2)] by (auto simp: owns_def)
qed simp

text \<open>C10. Every call ends: whatever the schedule, the calls that have entered take at most \<open>work\<close> steps, the retries of
  the compare-and-swap loop included; and a schedule that cannot be continued has finished every call, with no gate left
  in the map and the pending count at zero.\<close>

theorem every_schedule_ends:
  assumes "coordinator_run c" and "advances sched c = Some c'"
  shows "length sched \<le> work c \<and>
    (if stuck c' then list_all (\<lambda>(t, cl). cl_phase cl = Finished) (co_calls c') \<and> co_gates c' = [] \<and> co_pending c' = 0 else True)"
proof -
  from advances_run [OF assms] have run: "coordinator_run c'" and len: "length sched \<le> work c" by simp_all
  note ok = coordinator_run_ok [OF run]
  show ?thesis
  proof (cases "stuck c'")
    case True
    note fin = stuck_finished [OF ok True]
    have "cl_phase cl = Finished" if "(t, cl) \<in> set (co_calls c')" for t cl
      using fin gm_in_set_get [OF coord_okD(1) [OF ok] that] .
    with finished_empty [OF ok fin] len show ?thesis by (auto simp: list_all_iff)
  qed (simp add: len)
qed

text \<open>The statistics are exact: in every reachable state the pending count is the number of calls that wait or have
  not yet signed off, and once no call is inside the loop that raises it, the maximum is at least the pending count.\<close>

theorem pending_statistics:
  assumes "coordinator_run c"
  shows "fst (coordinator_stats c) = int (length (filter (\<lambda>(t, cl). counted_phase (cl_phase cl)) (co_calls c))) \<and>
    (if list_ex (\<lambda>(t, cl). case cl_phase cl of Counting p m \<Rightarrow> True | _ \<Rightarrow> False) (co_calls c) then True
     else fst (coordinator_stats c) \<le> snd (coordinator_stats c))"
proof -
  note okD = coord_okD [OF coordinator_run_ok [OF assms]]
  have "co_pending c \<le> co_maxPending c"
    if "\<not> list_ex (\<lambda>(t, cl). case cl_phase cl of Counting p m \<Rightarrow> True | _ \<Rightarrow> False) (co_calls c)"
    using okD(11) that unfolding maximum_ok_def by (auto simp: list_ex_iff dest!: gm_get_in_set)
  then show ?thesis using okD(10) by (simp add: coordinator_stats_def gm_count_def)
qed

section \<open>Witnesses\<close>

text \<open>Two calls for one device: the first holds the token, the second waits.\<close>

definition two_calls :: coordinator where
  "two_calls = enter 2 ''lamp'' (enter 1 ''lamp'' newCommandCoordinator)"

definition two_calls_waiting :: coordinator where
  "two_calls_waiting =
     \<lparr>co_gates = [(''lamp'', 0)], co_heap = [\<lparr>gt_token = False, gt_refs = 2\<rparr>], co_pending = 1, co_maxPending = 1,
      co_calls = [(1, \<lparr>cl_device = ''lamp'', cl_gate = 0, cl_phase = Holding\<rparr>),
        (2, \<lparr>cl_device = ''lamp'', cl_gate = 0, cl_phase = Waiting\<rparr>)]\<rparr>"

lemma two_calls_run: "coordinator_run two_calls"
  unfolding two_calls_def
  by (intro run_enter run_new) (simp_all add: enter_def newCommandCoordinator_def update_gate_def)

lemma two_calls_schedule:
  "advances [(False, 1), (False, 2), (False, 2), (False, 2), (False, 2)] two_calls = Some two_calls_waiting"
  by code_simp

lemma two_calls_waiting_run: "coordinator_run two_calls_waiting"
  using advances_run [OF two_calls_run two_calls_schedule] by simp

definition first_call :: call where
  "first_call = \<lparr>cl_device = ''lamp'', cl_gate = 0, cl_phase = Holding\<rparr>"

definition second_call :: call where
  "second_call = \<lparr>cl_device = ''lamp'', cl_gate = 0, cl_phase = Waiting\<rparr>"

lemma two_calls_get: "gm_get (co_calls two_calls_waiting) 1 = Some first_call" "gm_get (co_calls two_calls_waiting) 2 = Some second_call"
  by (simp_all add: two_calls_waiting_def first_call_def second_call_def)

theorem device_mutual_exclusion_witness: "cl_phase first_call = Holding \<and> (1 :: call_id) = 1"
proof -
  have holding: "cl_phase first_call = Holding" by (simp add: first_call_def)
  from device_mutual_exclusion [OF two_calls_waiting_run two_calls_get(1) two_calls_get(1) holding holding refl] holding
  show ?thesis by blast
qed

theorem queue_progress_witness:
  "\<exists>s cs. gm_get (co_calls two_calls_waiting) s = Some cs \<and> advance False s two_calls_waiting \<noteq> None"
proof -
  have "cl_phase second_call \<noteq> Finished" by (simp add: second_call_def)
  from queue_progress [OF two_calls_waiting_run two_calls_get(2) this] two_calls_get(2) show ?thesis by blast
qed

theorem every_schedule_ends_witness:
  "length [(False, 1 :: call_id), (False, 2), (False, 2), (False, 2), (False, 2)] \<le> work two_calls"
  using every_schedule_ends [OF two_calls_run two_calls_schedule] by blast

theorem pending_statistics_witness: "fst (coordinator_stats two_calls_waiting) = 1"
  using pending_statistics [OF two_calls_waiting_run] by (simp add: two_calls_waiting_def)

end
