(* ===== verification/Device_Service.thy ===== *)
theory Device_Service
  imports State_Store Command_Tracker
begin

text \<open>
  The device service, \<open>internal/application/device_service.go\<close>: how a snapshot of a device, a read,
  a change of availability and the stale scanner move the registry, the state store, the command
  tracker, the snapshot sequences, the counters and the queues of the subscribers.

  A handler is a function of the whole service and runs to its end: the shard of the dispatcher
  runs the events of a device one after the other. The projection of a provider snapshot into the
  unified model (\<open>projectLatestSnapshot\<close>, a call of the property mapper and of the provider
  catalog) is an argument: an error text or the projected device. The clock readings of a handler
  are arguments, one for the states and one for the commands. A subscriber is the content of its
  channel, which holds at most 64 items; the goroutine that reads the channel takes from its front.
\<close>

declare map_of_eq_Some_iff [simp del] Some_eq_map_of_iff [simp del]

section \<open>The service\<close>

datatype snapshot_origin = OriginProviderEvent | OriginRefresh | OriginPropertyRead

record service_metrics =
  mt_eventsProcessed :: u64
  mt_targetEventsDropped :: u64
  mt_stateEventsDropped :: u64
  mt_statesMarkedStale :: u64
  mt_commandsStarted :: u64
  mt_commandsConfirmed :: u64
  mt_commandsRejected :: u64
  mt_commandsTimedOut :: u64
  mt_commandsSuperseded :: u64
  mt_commandsCoalesced :: u64
  mt_providerClockSkews :: u64
  mt_providerSnapshotAges :: u64
  mt_providerEventsIgnored :: u64
  mt_maxClockSkewNanos :: u64
  mt_maxSnapshotAgeNanos :: u64
  mt_clockSkewSource :: string
  mt_snapshotAgeSource :: string

record service =
  ds_registry :: device_registry
  ds_states :: state_store
  ds_commands :: tracker
  ds_snapshotSeq :: "(string, u64) gomap"
  ds_disabled :: "(string, unit) gomap"
  ds_metrics :: service_metrics
  ds_listeners :: "(u64, device list) gomap"
  ds_stateListeners :: "(u64, state_value list) gomap"
  ds_nextID :: u64
  ds_nextStateID :: u64

datatype service_error = ErrDeviceNotFound | ErrDeviceDisabled | ErrInvalidAvailability | ErrPreferencesUnavailable
  | ErrPreferences | ErrPropertyUnsupported | ErrPropertyInvalid property_error | ErrCommandSuperseded | ErrCommandInvalid
  | ErrCommandUnsupported | ErrIdempotency | ErrContext | ErrProvider string

definition add_metric :: "((u64 \<Rightarrow> u64) \<Rightarrow> service_metrics \<Rightarrow> service_metrics) \<Rightarrow> nat \<Rightarrow> service \<Rightarrow> service" where
  "add_metric counter n s = s\<lparr>ds_metrics := counter (\<lambda>k. k + of_nat n) (ds_metrics s)\<rparr>"

section \<open>Publishing\<close>

definition subscription_capacity :: nat where
  "subscription_capacity = 64"

text \<open>\<open>select { case queue <- item: default: dropped++ }\<close> for every subscriber.\<close>

definition push :: "'a \<Rightarrow> (u64, 'a list) gomap \<Rightarrow> (u64, 'a list) gomap" where
  "push item listeners =
     map (\<lambda>(i, queue). (i, if length queue < subscription_capacity then queue @ [item] else queue)) listeners"

definition dropped :: "(u64, 'a list) gomap \<Rightarrow> nat" where
  "dropped listeners = length (filter (\<lambda>(i, queue). \<not> length queue < subscription_capacity) listeners)"

definition publishDevice :: "device \<Rightarrow> service \<Rightarrow> service" where
  "publishDevice item s =
     add_metric mt_targetEventsDropped_update (dropped (ds_listeners s)) (s\<lparr>ds_listeners := push item (ds_listeners s)\<rparr>)"

definition publishState :: "state_value \<Rightarrow> service \<Rightarrow> service" where
  "publishState value s =
     add_metric mt_stateEventsDropped_update (dropped (ds_stateListeners s))
       (s\<lparr>ds_stateListeners := push value (ds_stateListeners s)\<rparr>)"

section \<open>Sequences and times\<close>

definition isDeviceDisabled :: "string \<Rightarrow> service \<Rightarrow> bool" where
  "isDeviceDisabled i s \<longleftrightarrow> gm_get (ds_disabled s) i \<noteq> None"

definition acceptSnapshotSequence :: "device \<Rightarrow> service \<Rightarrow> bool \<times> service" where
  "acceptSnapshotSequence item s =
     (if dev_Sequence item = 0 then (True, s)
      else let current = (case gm_get (ds_snapshotSeq s) (dev_ID item) of Some n \<Rightarrow> n | None \<Rightarrow> 0)
           in if current > 0 \<and> dev_Sequence item \<le> current then (False, s)
              else (True, s\<lparr>ds_snapshotSeq := gm_put (dev_ID item) (dev_Sequence item) (ds_snapshotSeq s)\<rparr>))"

definition resetSnapshotSequence :: "string \<Rightarrow> service \<Rightarrow> service" where
  "resetSnapshotSequence deviceID s = s\<lparr>ds_snapshotSeq := gm_del deviceID (ds_snapshotSeq s)\<rparr>"

definition minute :: duration where
  "minute = 60 * 1000000000"

text \<open>\<open>time.Time.Sub\<close> saturates at the bounds of a 64-bit duration; negation wraps.\<close>

definition duration_sub :: "time \<Rightarrow> time \<Rightarrow> duration" where
  "duration_sub t u = max (- (2 ^ 63)) (min (2 ^ 63 - 1) (t - u))"

definition absDuration :: "duration \<Rightarrow> duration" where
  "absDuration value = (if value < 0 then (if value = - (2 ^ 63) then value else - value) else value)"

definition recordTimingOffset :: "device \<Rightarrow> duration \<Rightarrow> snapshot_origin \<Rightarrow> service \<Rightarrow> service" where
  "recordTimingOffset item offset origin s =
     (let source = dev_ProviderID item @ ''/'' @ dev_ID item; nanos = word_of_int offset; m = ds_metrics s
      in if origin = OriginProviderEvent
         then let m = (if nanos > mt_maxClockSkewNanos m then m\<lparr>mt_maxClockSkewNanos := nanos, mt_clockSkewSource := source\<rparr> else m)
              in add_metric mt_providerClockSkews_update 1 (s\<lparr>ds_metrics := m\<rparr>)
         else let m = (if nanos > mt_maxSnapshotAgeNanos m then m\<lparr>mt_maxSnapshotAgeNanos := nanos, mt_snapshotAgeSource := source\<rparr> else m)
              in add_metric mt_providerSnapshotAges_update 1 (s\<lparr>ds_metrics := m\<rparr>))"

definition safeObservedAt :: "device \<Rightarrow> time \<Rightarrow> snapshot_origin \<Rightarrow> service \<Rightarrow> time \<times> service" where
  "safeObservedAt item receivedAt origin s =
     (let observedAt = dev_LastUpdateAt item
      in if observedAt = zero_time then (receivedAt, s)
         else if \<not> observedAt < receivedAt - 5 * minute \<and> \<not> observedAt > receivedAt + 5 * minute then (observedAt, s)
         else if observedAt < receivedAt \<or> origin = OriginRefresh
         then (receivedAt, recordTimingOffset item (absDuration (duration_sub receivedAt observedAt)) OriginRefresh s)
         else (receivedAt, recordTimingOffset item (duration_sub observedAt receivedAt) OriginProviderEvent s))"

section \<open>Applying a snapshot\<close>

text \<open>The three nested loops over endpoints, capabilities and properties, in their order.\<close>

definition snapshot_properties :: "device \<Rightarrow> (string \<times> string \<times> property) list" where
  "snapshot_properties item =
     concat (map (\<lambda>e. concat (map (\<lambda>c. map (\<lambda>p. (ep_ID e, cap_ID c, p)) (cap_Properties c)) (ep_Capabilities e)))
       (dev_Endpoints item))"

text \<open>The switch on the type of a value that \<open>applySnapshot\<close> and \<open>applyOptimisticState\<close> share.\<close>

definition state_payload_of :: "property_value \<Rightarrow> state_payload option" where
  "state_payload_of value =
     (case pv_Type value of
        ValueTypeBool \<Rightarrow> map_option BoolStateValue (pv_Bool value)
      | ValueTypeInt \<Rightarrow> map_option IntStateValue (pv_Int value)
      | ValueTypeNumber \<Rightarrow> map_option NumberStateValue (pv_Number value)
      | ValueTypeString \<Rightarrow> map_option StringStateValue (pv_String value)
      | ValueTypeEnum \<Rightarrow> map_option EnumStateValue (pv_String value)
      | ValueTypeOther _ \<Rightarrow> None)"

definition property_key :: "device \<Rightarrow> string \<Rightarrow> string \<Rightarrow> property \<Rightarrow> state_key" where
  "property_key item endpointID capabilityID p = Key (dev_ID item) endpointID capabilityID (pd_ID (prop_Definition p))"

definition wrap64 :: "int \<Rightarrow> int" where
  "wrap64 n = sint (word_of_int n :: 64 word)"

definition snapshot_value ::
  "device \<Rightarrow> time \<Rightarrow> time \<Rightarrow> snapshot_origin \<Rightarrow> string \<Rightarrow> string \<Rightarrow> string \<Rightarrow> property \<Rightarrow> state_payload \<Rightarrow> state_value" where
  "snapshot_value item observedAt receivedAt origin traceID endpointID capabilityID p payload =
     (let transport = (if prop_StateTransport p = StateTransportOther [] then dev_StateTransport item else prop_StateTransport p);
          polled = (origin = OriginPropertyRead \<or> transport = StateTransportCloudHTTP);
          stale = pd_StaleAfterSeconds (prop_Definition p)
      in zero_state_value\<lparr>sv_Key := property_key item endpointID capabilityID p, sv_ProviderID := dev_ProviderID item,
           sv_Source := (if polled then SourcePolled else SourceReported), sv_ObservedAt := observedAt,
           sv_ReceivedAt := receivedAt, sv_Sequence := dev_Sequence item,
           sv_Quality := (if polled then QualityPolled else QualityReported), sv_TraceID := traceID,
           sv_ExpiresAt := (if stale > 0 then receivedAt + wrap64 (stale * 1000000000) else zero_time),
           sv_Value := payload\<rparr>)"

fun apply_property ::
  "device \<Rightarrow> time \<Rightarrow> time \<Rightarrow> snapshot_origin \<Rightarrow> string \<Rightarrow> string \<times> string \<times> property \<Rightarrow> service \<Rightarrow> service" where
  "apply_property item observedAt receivedAt origin traceID (endpointID, capabilityID, p) s =
     (case state_payload_of (prop_Value p) of
        None \<Rightarrow> s
      | Some payload \<Rightarrow>
          (let ((applied, changed), states) =
             apply_state (snapshot_value item observedAt receivedAt origin traceID endpointID capabilityID p payload) (ds_states s);
               s = s\<lparr>ds_states := states\<rparr>
           in if changed then publishState applied s else s))"

definition applySnapshot :: "time \<Rightarrow> device \<Rightarrow> string \<Rightarrow> snapshot_origin \<Rightarrow> service \<Rightarrow> service" where
  "applySnapshot now item traceID origin s =
     (let (observedAt, s) = safeObservedAt item now origin s
      in fold (apply_property item observedAt now origin traceID) (snapshot_properties item) s)"

definition unknown_value :: "time \<Rightarrow> device \<Rightarrow> unavailable_reason \<Rightarrow> string \<Rightarrow> string \<Rightarrow> string \<Rightarrow> property \<Rightarrow> state_value" where
  "unknown_value now item reason traceID endpointID capabilityID p =
     zero_state_value\<lparr>sv_Key := property_key item endpointID capabilityID p, sv_ProviderID := dev_ProviderID item,
       sv_Source := SourceUnknown, sv_Quality := QualityUnknown, sv_ObservedAt := now, sv_ReceivedAt := now,
       sv_UnavailableReason := reason, sv_TraceID := traceID\<rparr>"

fun ensure_property :: "time \<Rightarrow> device \<Rightarrow> unavailable_reason \<Rightarrow> string \<Rightarrow> string \<times> string \<times> property \<Rightarrow> service \<Rightarrow> service" where
  "ensure_property now item reason traceID (endpointID, capabilityID, p) s =
     (let ((created, changed), states) = ensureUnknown (unknown_value now item reason traceID endpointID capabilityID p) (ds_states s);
          s = s\<lparr>ds_states := states\<rparr>
      in if changed then publishState created s else s)"

definition ensureUnknownStates :: "time \<Rightarrow> device \<Rightarrow> unavailable_reason \<Rightarrow> string \<Rightarrow> service \<Rightarrow> service" where
  "ensureUnknownStates now item reason traceID s = fold (ensure_property now item reason traceID) (snapshot_properties item) s"

definition unavailableReason :: "device \<Rightarrow> unavailable_reason" where
  "unavailableReason item =
     (if dev_Removed item then UnavailableRemoved
      else if dev_Disabled item then UnavailableDisabled
      else if effectiveAvailability item = AvailabilityUnknown then UnavailableAvailabilityUnknown
      else UnavailableDeviceOffline)"

text \<open>\<open>MarkDeviceUnavailable\<close> and the loop that publishes what it changed.\<close>

definition mark_and_publish :: "string \<Rightarrow> unavailable_reason \<Rightarrow> string list \<Rightarrow> service \<Rightarrow> state_value list \<times> service" where
  "mark_and_publish deviceID reason traceIDs s =
     (let (stale, states) = markDeviceUnavailable deviceID reason traceIDs (ds_states s)
      in (stale, fold publishState stale (s\<lparr>ds_states := states\<rparr>)))"

section \<open>Handlers\<close>

definition mapping_error_prefix :: string where
  "mapping_error_prefix = [char_of (229 :: nat), char_of (177 :: nat), char_of (158 :: nat), char_of (230 :: nat), char_of (128 :: nat), char_of (167 :: nat), char_of (230 :: nat), char_of (152 :: nat), char_of (160 :: nat), char_of (229 :: nat), char_of (176 :: nat), char_of (132 :: nat), char_of (229 :: nat), char_of (164 :: nat), char_of (177 :: nat), char_of (232 :: nat), char_of (180 :: nat), char_of (165 :: nat), char_of (239 :: nat), char_of (188 :: nat), char_of (154 :: nat)]"

definition publishMappingError :: "string \<Rightarrow> string \<Rightarrow> service \<Rightarrow> service" where
  "publishMappingError i cause s =
     (case registry_get i (ds_registry s) of
        None \<Rightarrow> s
      | Some item \<Rightarrow>
          (let message = mapping_error_prefix @ cause
           in if dev_MappingError item = message then s
              else let item = item\<lparr>dev_MappingError := message\<rparr>
                   in publishDevice item (s\<lparr>ds_registry := registry_upsert item (ds_registry s)\<rparr>)))"

text \<open>A control-only projection of a camera must not erase what the media runtime has observed.\<close>

definition keep_camera_availability :: "device \<Rightarrow> service \<Rightarrow> device" where
  "keep_camera_availability item s =
     (case registry_get (dev_ID item) (ds_registry s) of
        None \<Rightarrow> item
      | Some current \<Rightarrow>
          if dev_Type item = ''camera'' \<and> dev_ProviderID item = dev_ProviderID current \<and>
             effectiveAvailability item = AvailabilityUnknown \<and> effectiveAvailability current \<noteq> AvailabilityUnknown \<and>
             \<not> dev_Disabled item \<and> \<not> dev_Removed item
          then setAvailability (effectiveAvailability current) item else item)"

definition snapshot_item :: "device \<Rightarrow> service \<Rightarrow> device" where
  "snapshot_item item0 s =
     (let item = normalizeAvailability (keep_camera_availability item0 s);
          item = (if isDeviceDisabled (dev_ID item) s then setOnline False (item\<lparr>dev_Disabled := True\<rparr>) else item)
      in if dev_Removed item then setOnline False item else item)"

fun confirm_property :: "time \<Rightarrow> device \<Rightarrow> string \<times> string \<times> property \<Rightarrow> service \<Rightarrow> service" where
  "confirm_property now item (endpointID, capabilityID, p) s =
     (let (ok, _, commands) = confirm_value now (dev_ID item) endpointID capabilityID (pd_ID (prop_Definition p)) (prop_Value p) (ds_commands s);
          s = s\<lparr>ds_commands := commands\<rparr>
      in if ok then add_metric mt_commandsConfirmed_update 1 s else s)"

text \<open>The part of \<open>handleDeviceSnapshot\<close> after the checks: registry, states, commands, subscribers.\<close>

definition store_item :: "device \<Rightarrow> service \<Rightarrow> service" where
  "store_item item s =
     (if dev_Removed item then s\<lparr>ds_registry := registry_delete (dev_ID item) (ds_registry s)\<rparr>
      else s\<lparr>ds_registry := registry_upsert item (ds_registry s)\<rparr>)"

definition mark_offline :: "time \<Rightarrow> device \<Rightarrow> string \<Rightarrow> service \<Rightarrow> service" where
  "mark_offline now item traceID s =
     (let s = ensureUnknownStates now item (unavailableReason item) traceID s;
          (stale, s) = mark_and_publish (dev_ID item) (unavailableReason item) [traceID] s
      in add_metric mt_statesMarkedStale_update (length stale) s)"

definition handleDeviceSnapshot ::
  "(device \<Rightarrow> string + device) \<Rightarrow> time \<Rightarrow> time \<Rightarrow> device \<Rightarrow> string \<Rightarrow> snapshot_origin \<Rightarrow> service \<Rightarrow> service" where
  "handleDeviceSnapshot project now nowCmd item0 traceID origin s0 =
     (let s = add_metric mt_eventsProcessed_update 1 s0
      in case project item0 of
           Inl cause \<Rightarrow> publishMappingError (dev_ID item0) cause s
         | Inr mapped \<Rightarrow>
             (let item = snapshot_item mapped s
              in if isOnline item
                 then (case acceptSnapshotSequence item s of
                         (False, s) \<Rightarrow> add_metric mt_providerEventsIgnored_update 1 s
                       | (True, s) \<Rightarrow>
                           publishDevice item (fold (confirm_property nowCmd item) (snapshot_properties item)
                             (applySnapshot now item traceID origin (store_item item s))))
                 else publishDevice item (mark_offline now item traceID
                        (store_item item (resetSnapshotSequence (dev_ID item) s)))))"

record capability_availability =
  ca_DeviceID :: string
  ca_ProviderID :: string
  ca_EndpointID :: string
  ca_CapabilityID :: string
  ca_Available :: bool

definition handleCapabilityAvailability :: "capability_availability \<Rightarrow> string \<Rightarrow> service \<Rightarrow> service" where
  "handleCapabilityAvailability a traceID s =
     (if ca_Available a then s
      else case registry_get (ca_DeviceID a) (ds_registry s) of
             None \<Rightarrow> s
           | Some item \<Rightarrow>
               if dev_ProviderID item \<noteq> ca_ProviderID a \<or> dev_Disabled item \<or> dev_Removed item then s
               else let (changed, states) = markCapabilityUnavailable (ca_DeviceID a) (ca_EndpointID a) (ca_CapabilityID a)
                          UnavailableControlProviderOffline [traceID] (ds_states s)
                    in fold publishState changed
                         (add_metric mt_statesMarkedStale_update (length changed) (s\<lparr>ds_states := states\<rparr>)))"

definition removeFromRegistry :: "string \<Rightarrow> service \<Rightarrow> service" where
  "removeFromRegistry i s =
     (case registry_get i (ds_registry s) of
        None \<Rightarrow> s
      | Some item \<Rightarrow>
          (let item = setOnline False (item\<lparr>dev_Removed := True\<rparr>);
               s = resetSnapshotSequence i (s\<lparr>ds_registry := registry_delete i (ds_registry s)\<rparr>);
               (_, s) = mark_and_publish i UnavailableRemoved [] s
           in publishDevice item s))"

definition reportDeviceAvailability ::
  "time \<Rightarrow> time \<Rightarrow> string \<Rightarrow> availability \<Rightarrow> service \<Rightarrow> (service_error option \<times> device option) \<times> service" where
  "reportDeviceAvailability updated now i availability s =
     (if availability \<noteq> AvailabilityOnline \<and> availability \<noteq> AvailabilityOffline \<and> availability \<noteq> AvailabilityUnknown
      then ((Some ErrInvalidAvailability, None), s)
      else case registry_get i (ds_registry s) of
             None \<Rightarrow> ((Some ErrDeviceNotFound, None), s)
           | Some item \<Rightarrow>
               if dev_Disabled item \<or> dev_Removed item then ((Some ErrDeviceDisabled, Some item), s)
               else if effectiveAvailability item = availability then ((None, Some item), s)
               else let item = (setAvailability availability item)\<lparr>dev_LastUpdateAt := updated\<rparr>;
                        s = s\<lparr>ds_registry := registry_upsert item (ds_registry s)\<rparr>;
                        s = (if availability = AvailabilityOnline then applySnapshot now item [] OriginRefresh s
                             else if availability = AvailabilityOffline
                             then let (stale, s) = mark_and_publish i UnavailableDeviceOffline [] s
                                  in add_metric mt_statesMarkedStale_update (length stale) s
                             else s)
                    in ((None, Some item), publishDevice item s))"

text \<open>
  \<open>SetDeviceEnabled\<close>. \<open>saved\<close> is the outcome of the preference store (\<open>None\<close>: there is none),
  \<open>discovered\<close> the answer of the discoverer (\<open>None\<close>: there is none, or it failed).
\<close>

definition rediscovered :: "(device \<Rightarrow> string + device) \<Rightarrow> device list option \<Rightarrow> string \<Rightarrow> device \<Rightarrow> device" where
  "rediscovered project discovered i item =
     (case discovered of
        None \<Rightarrow> item
      | Some snapshots \<Rightarrow>
          (case find (\<lambda>snapshot. dev_ID snapshot = i) snapshots of
             None \<Rightarrow> item
           | Some snapshot \<Rightarrow>
               (let item = (case project snapshot of
                      Inr projected \<Rightarrow> projected
                    | Inl cause \<Rightarrow> snapshot\<lparr>dev_MappingError := mapping_error_prefix @ cause\<rparr>)
                in normalizeAvailability (item\<lparr>dev_Disabled := False, dev_Removed := False\<rparr>))))"

definition enable_device :: "(device \<Rightarrow> string + device) \<Rightarrow> device list option \<Rightarrow> time \<Rightarrow> string \<Rightarrow> device \<Rightarrow> service \<Rightarrow> device \<times> service" where
  "enable_device project discovered now i item0 s0 =
     (let s = resetSnapshotSequence i s0;
          item = rediscovered project discovered i (item0\<lparr>dev_Disabled := False\<rparr>);
          item = (if dev_Removed item then setOnline False item else item);
          s = s\<lparr>ds_registry := registry_upsert item (ds_registry s)\<rparr>;
          s = (if isOnline item then applySnapshot now item [] OriginRefresh (snd (acceptSnapshotSequence item s))
               else snd (mark_and_publish i (unavailableReason item) []
                      (ensureUnknownStates now item (unavailableReason item) [] s)))
      in (item, publishDevice item s))"

definition disable_device :: "string \<Rightarrow> device \<Rightarrow> service \<Rightarrow> device \<times> service" where
  "disable_device i item0 s =
     (let item = setOnline False (item0\<lparr>dev_Disabled := True\<rparr>);
          s = resetSnapshotSequence i s;
          s = s\<lparr>ds_registry := registry_upsert item (ds_registry s)\<rparr>;
          (stale, s) = mark_and_publish i UnavailableDisabled [] s
      in (item, publishDevice item (add_metric mt_statesMarkedStale_update (length stale) s)))"

definition setDeviceEnabled ::
  "(device \<Rightarrow> string + device) \<Rightarrow> bool option \<Rightarrow> device list option \<Rightarrow> time \<Rightarrow> string \<Rightarrow> bool \<Rightarrow> service \<Rightarrow>
     (service_error + device) \<times> service" where
  "setDeviceEnabled project saved discovered now i enabled s =
     (case registry_get i (ds_registry s) of
        None \<Rightarrow> (Inl ErrDeviceNotFound, s)
      | Some item \<Rightarrow>
          (case saved of
             None \<Rightarrow> (Inl ErrPreferencesUnavailable, s)
           | Some ok \<Rightarrow>
               (let wasDisabled = isDeviceDisabled i s;
                    s1 = s\<lparr>ds_disabled := (if enabled then gm_del i (ds_disabled s) else gm_put i () (ds_disabled s))\<rparr>
                in if \<not> ok
                   then (Inl ErrPreferences,
                         s1\<lparr>ds_disabled := (if wasDisabled then gm_put i () (ds_disabled s1) else gm_del i (ds_disabled s1))\<rparr>)
                   else let (item, s2) = (if enabled then enable_device project discovered now i item s1 else disable_device i item s1)
                        in (Inr item, s2))))"

text \<open>A read of a property: confirm, update the registry, and apply a snapshot of that property alone.\<close>

definition partial_snapshot :: "time \<Rightarrow> device \<Rightarrow> string \<Rightarrow> string \<Rightarrow> property \<Rightarrow> device" where
  "partial_snapshot now item endpointID capabilityID observed =
     \<lparr>dev_SchemaVersion = dev_SchemaVersion item, dev_ID = dev_ID item, dev_ProviderID = dev_ProviderID item,
      dev_Name = dev_Name item, dev_SourceName = [], dev_NameOverridden = False, dev_Type = dev_Type item,
      dev_HomeID = [], dev_HomeName = [], dev_RoomID = [], dev_RoomName = [], dev_LocationMode = LocationModeOther [],
      dev_SourceHomeID = [], dev_SourceHomeName = [], dev_SourceRoomID = [], dev_SourceRoomName = [],
      dev_Availability = dev_Availability item, dev_Online = dev_Online item, dev_Sequence = 0,
      dev_Disabled = False, dev_Removed = False, dev_RuntimeMode = RuntimeModeOther [],
      dev_StateTransport = dev_StateTransport item, dev_MappingError = [],
      dev_Endpoints = [\<lparr>ep_ID = endpointID, ep_Name = endpointID, ep_Type = endpointID,
        ep_Capabilities = [\<lparr>cap_ID = capabilityID, cap_Type = capabilityID, cap_Properties = [observed],
          cap_Commands = [], cap_Events = []\<rparr>]\<rparr>],
      dev_LastUpdateAt = now\<rparr>"

definition reconcileReadProperty ::
  "time \<Rightarrow> time \<Rightarrow> time \<Rightarrow> time \<Rightarrow> string \<Rightarrow> string \<Rightarrow> string \<Rightarrow> string \<Rightarrow> property \<Rightarrow> string \<Rightarrow> service \<Rightarrow> service" where
  "reconcileReadProperty nowCmd updated observedAt now deviceID endpointID capabilityID propertyID p traceID s =
     (case registry_get deviceID (ds_registry s) of
        None \<Rightarrow> s
      | Some item \<Rightarrow>
          if dev_Disabled item \<or> dev_Removed item then s
          else (case device_property item endpointID capabilityID propertyID of
                  None \<Rightarrow> s
                | Some previous \<Rightarrow>
                    (let (ok, _, commands) = confirm_value nowCmd deviceID endpointID capabilityID propertyID (prop_Value p) (ds_commands s);
                         s = s\<lparr>ds_commands := commands\<rparr>;
                         s = (if ok then add_metric mt_commandsConfirmed_update 1 s else s);
                         changed = \<not> value_equal (prop_Value previous) (prop_Value p);
                         item = (if changed
                                 then (snd (setProperty endpointID capabilityID propertyID (prop_Value p) item))\<lparr>dev_LastUpdateAt := updated\<rparr>
                                 else item);
                         s = (if changed then s\<lparr>ds_registry := registry_upsert item (ds_registry s)\<rparr> else s);
                         observed = previous\<lparr>prop_Value := prop_Value p, prop_StateTransport := prop_StateTransport p\<rparr>;
                         s = applySnapshot now (partial_snapshot observedAt item endpointID capabilityID observed) traceID OriginPropertyRead s
                     in if changed then publishDevice item s else s)))"

text \<open>One tick of \<open>runStaleScanner\<close>, and \<open>States\<close>.\<close>

definition stale_tick :: "time \<Rightarrow> service \<Rightarrow> service" where
  "stale_tick now s =
     (let (stale, states) = markStale now (ds_states s);
          s = fold publishState stale (add_metric mt_statesMarkedStale_update (length stale) (s\<lparr>ds_states := states\<rparr>));
          (expired, commands) = expire now (ds_commands s)
      in add_metric mt_commandsTimedOut_update (length expired) (s\<lparr>ds_commands := commands\<rparr>))"

definition service_states :: "time \<Rightarrow> string \<Rightarrow> service \<Rightarrow> state_value list \<times> service" where
  "service_states now deviceID s =
     (let s = s\<lparr>ds_states := snd (markStale now (ds_states s))\<rparr> in (device_states deviceID (ds_states s), s))"

text \<open>\<open>subscribe\<close>, the goroutine of a subscriber that takes one item, and \<open>removeSubscription\<close>.\<close>

definition subscribe_device :: "service \<Rightarrow> u64 \<times> service" where
  "subscribe_device s =
     (let i = ds_nextID s + 1 in (i, s\<lparr>ds_nextID := i, ds_listeners := gm_put i [] (ds_listeners s)\<rparr>))"

definition subscribe_state :: "service \<Rightarrow> u64 \<times> service" where
  "subscribe_state s =
     (let i = ds_nextStateID s + 1 in (i, s\<lparr>ds_nextStateID := i, ds_stateListeners := gm_put i [] (ds_stateListeners s)\<rparr>))"

definition take_device :: "u64 \<Rightarrow> service \<Rightarrow> device option \<times> service" where
  "take_device i s =
     (case gm_get (ds_listeners s) i of
        Some (item # queue) \<Rightarrow> (Some item, s\<lparr>ds_listeners := gm_put i queue (ds_listeners s)\<rparr>)
      | _ \<Rightarrow> (None, s))"

definition take_state :: "u64 \<Rightarrow> service \<Rightarrow> state_value option \<times> service" where
  "take_state i s =
     (case gm_get (ds_stateListeners s) i of
        Some (item # queue) \<Rightarrow> (Some item, s\<lparr>ds_stateListeners := gm_put i queue (ds_stateListeners s)\<rparr>)
      | _ \<Rightarrow> (None, s))"

definition unsubscribe_device :: "u64 \<Rightarrow> service \<Rightarrow> service" where
  "unsubscribe_device i s = s\<lparr>ds_listeners := gm_del i (ds_listeners s)\<rparr>"

definition unsubscribe_state :: "u64 \<Rightarrow> service \<Rightarrow> service" where
  "unsubscribe_state i s = s\<lparr>ds_stateListeners := gm_del i (ds_stateListeners s)\<rparr>"

section \<open>Starting and refreshing\<close>

definition new_metrics :: service_metrics where
  "new_metrics =
     \<lparr>mt_eventsProcessed = 0, mt_targetEventsDropped = 0, mt_stateEventsDropped = 0, mt_statesMarkedStale = 0, mt_commandsStarted = 0,
      mt_commandsConfirmed = 0, mt_commandsRejected = 0, mt_commandsTimedOut = 0, mt_commandsSuperseded = 0, mt_commandsCoalesced = 0,
      mt_providerClockSkews = 0, mt_providerSnapshotAges = 0, mt_providerEventsIgnored = 0, mt_maxClockSkewNanos = 0,
      mt_maxSnapshotAgeNanos = 0, mt_clockSkewSource = [], mt_snapshotAgeSource = []\<rparr>"

text \<open>The struct that \<open>NewDeviceService\<close> builds; commands time out after five seconds.\<close>

definition new_service :: "(state_key \<Rightarrow> string \<Rightarrow> int) option \<Rightarrow> service" where
  "new_service priority =
     \<lparr>ds_registry = newDeviceRegistry [], ds_states = newStore [priority], ds_commands = newTracker (5 * 1000000000),
      ds_snapshotSeq = [], ds_disabled = [], ds_metrics = new_metrics, ds_listeners = [], ds_stateListeners = [],
      ds_nextID = 0, ds_nextStateID = 0\<rparr>"

text \<open>
  The loop body of \<open>NewDeviceService\<close> over the discovered devices. \<open>public\<close> is the discovery snapshot
  of the device, if there is one; it is projected when the projection of the source snapshot fails.
\<close>

definition initial_item :: "(device \<Rightarrow> string + device) \<Rightarrow> device option \<Rightarrow> device \<Rightarrow> device option" where
  "initial_item mapSnapshot public source =
     (case mapSnapshot source of
        Inr item \<Rightarrow> Some item
      | Inl mappingErr \<Rightarrow>
          (case public of
             None \<Rightarrow> None
           | Some p \<Rightarrow>
               (case mapSnapshot p of
                  Inl _ \<Rightarrow> None
                | Inr item \<Rightarrow> Some (item\<lparr>dev_MappingError := mapping_error_prefix @ mappingErr\<rparr>))))"

definition load_device :: "(device \<Rightarrow> string + device) \<Rightarrow> time \<Rightarrow> device option \<Rightarrow> device \<Rightarrow> service \<Rightarrow> service" where
  "load_device mapSnapshot now public source s =
     (case initial_item mapSnapshot public source of
        None \<Rightarrow> s
      | Some item0 \<Rightarrow>
          (let item = normalizeAvailability item0;
               s = s\<lparr>ds_registry := registry_upsert item (ds_registry s)\<rparr>
           in if isOnline item then applySnapshot now item [] OriginRefresh (snd (acceptSnapshotSequence item s))
              else ensureUnknownStates now item (unavailableReason item) [] s))"

text \<open>The part of \<open>LoadDevicePreferences\<close> about disabled devices.\<close>

definition load_disabled_item :: "string \<Rightarrow> service \<Rightarrow> service" where
  "load_disabled_item i s =
     (case registry_get i (ds_registry s) of
        None \<Rightarrow> s
      | Some item \<Rightarrow>
          resetSnapshotSequence i
            (s\<lparr>ds_registry := registry_upsert (setOnline False (item\<lparr>dev_Disabled := True\<rparr>)) (ds_registry s),
               ds_states := snd (markDeviceUnavailable i UnavailableDisabled [] (ds_states s))\<rparr>))"

definition load_disabled :: "string list \<Rightarrow> service \<Rightarrow> service" where
  "load_disabled ids s =
     fold load_disabled_item ids (s\<lparr>ds_disabled := fold (\<lambda>i m. gm_put i () m) ids (ds_disabled s)\<rparr>)"

text \<open>\<open>RefreshDevices\<close> over the snapshots that the discoverer and the source catalog answer.\<close>

definition refreshDevices :: "(device \<Rightarrow> string + device) \<Rightarrow> time \<Rightarrow> time \<Rightarrow> device list \<Rightarrow> string \<Rightarrow> service \<Rightarrow> service" where
  "refreshDevices project now nowCmd items traceID s =
     fold (\<lambda>item s. handleDeviceSnapshot project now nowCmd item traceID OriginRefresh (resetSnapshotSequence (dev_ID item) s)) items s"

section \<open>Lemmas\<close>

lemma add_metric_sel [simp]:
  "ds_registry (add_metric u n s) = ds_registry s" "ds_states (add_metric u n s) = ds_states s"
  "ds_commands (add_metric u n s) = ds_commands s" "ds_snapshotSeq (add_metric u n s) = ds_snapshotSeq s"
  "ds_disabled (add_metric u n s) = ds_disabled s" "ds_listeners (add_metric u n s) = ds_listeners s"
  "ds_stateListeners (add_metric u n s) = ds_stateListeners s"
  by (simp_all add: add_metric_def)

lemma publish_sel [simp]:
  "ds_registry (publishState v s) = ds_registry s" "ds_states (publishState v s) = ds_states s"
  "ds_commands (publishState v s) = ds_commands s" "ds_snapshotSeq (publishState v s) = ds_snapshotSeq s"
  "ds_disabled (publishState v s) = ds_disabled s" "ds_listeners (publishState v s) = ds_listeners s"
  "ds_stateListeners (publishState v s) = push v (ds_stateListeners s)"
  "ds_registry (publishDevice d s) = ds_registry s" "ds_states (publishDevice d s) = ds_states s"
  "ds_commands (publishDevice d s) = ds_commands s" "ds_snapshotSeq (publishDevice d s) = ds_snapshotSeq s"
  "ds_disabled (publishDevice d s) = ds_disabled s" "ds_stateListeners (publishDevice d s) = ds_stateListeners s"
  "ds_listeners (publishDevice d s) = push d (ds_listeners s)"
  by (simp_all add: publishState_def publishDevice_def)

lemma publish_all_sel [simp]:
  "ds_registry (fold publishState vs s) = ds_registry s" "ds_states (fold publishState vs s) = ds_states s"
  "ds_commands (fold publishState vs s) = ds_commands s" "ds_snapshotSeq (fold publishState vs s) = ds_snapshotSeq s"
  "ds_disabled (fold publishState vs s) = ds_disabled s" "ds_listeners (fold publishState vs s) = ds_listeners s"
  "ds_stateListeners (fold publishState vs s) = fold push vs (ds_stateListeners s)"
  by (induction vs arbitrary: s) simp_all

lemma recordTimingOffset_sel [simp]:
  "ds_registry (recordTimingOffset i d o1 s) = ds_registry s" "ds_states (recordTimingOffset i d o1 s) = ds_states s"
  "ds_commands (recordTimingOffset i d o1 s) = ds_commands s" "ds_snapshotSeq (recordTimingOffset i d o1 s) = ds_snapshotSeq s"
  "ds_disabled (recordTimingOffset i d o1 s) = ds_disabled s" "ds_listeners (recordTimingOffset i d o1 s) = ds_listeners s"
  "ds_stateListeners (recordTimingOffset i d o1 s) = ds_stateListeners s"
  by (simp_all add: recordTimingOffset_def Let_def)

lemma safeObservedAt_sel [simp]:
  "ds_registry (snd (safeObservedAt i t o1 s)) = ds_registry s" "ds_states (snd (safeObservedAt i t o1 s)) = ds_states s"
  "ds_commands (snd (safeObservedAt i t o1 s)) = ds_commands s" "ds_snapshotSeq (snd (safeObservedAt i t o1 s)) = ds_snapshotSeq s"
  "ds_disabled (snd (safeObservedAt i t o1 s)) = ds_disabled s" "ds_listeners (snd (safeObservedAt i t o1 s)) = ds_listeners s"
  "ds_stateListeners (snd (safeObservedAt i t o1 s)) = ds_stateListeners s"
  by (simp_all add: safeObservedAt_def Let_def)

text \<open>The time a snapshot counts as observed at.\<close>

definition observed_at :: "device \<Rightarrow> time \<Rightarrow> time" where
  "observed_at item now =
     (if dev_LastUpdateAt item \<noteq> zero_time \<and> now - 5 * minute \<le> dev_LastUpdateAt item \<and> dev_LastUpdateAt item \<le> now + 5 * minute
      then dev_LastUpdateAt item else now)"

lemma safeObservedAt_time: "fst (safeObservedAt item now origin s) = observed_at item now"
  by (auto simp: safeObservedAt_def observed_at_def Let_def)

subsection \<open>What the loops do to the store\<close>

fun store_apply_property ::
  "device \<Rightarrow> time \<Rightarrow> time \<Rightarrow> snapshot_origin \<Rightarrow> string \<Rightarrow> string \<times> string \<times> property \<Rightarrow> state_store \<Rightarrow> state_store" where
  "store_apply_property item observedAt receivedAt origin traceID (e, c, p) st =
     (case state_payload_of (prop_Value p) of
        None \<Rightarrow> st
      | Some payload \<Rightarrow> snd (apply_state (snapshot_value item observedAt receivedAt origin traceID e c p payload) st))"

fun store_ensure_property :: "time \<Rightarrow> device \<Rightarrow> unavailable_reason \<Rightarrow> string \<Rightarrow> string \<times> string \<times> property \<Rightarrow> state_store \<Rightarrow> state_store" where
  "store_ensure_property now item reason traceID (e, c, p) st = snd (ensureUnknown (unknown_value now item reason traceID e c p) st)"

lemma apply_property_sel [simp]:
  "ds_states (apply_property item t u o1 tr x s) = store_apply_property item t u o1 tr x (ds_states s)"
  "ds_registry (apply_property item t u o1 tr x s) = ds_registry s" "ds_commands (apply_property item t u o1 tr x s) = ds_commands s"
  "ds_snapshotSeq (apply_property item t u o1 tr x s) = ds_snapshotSeq s" "ds_disabled (apply_property item t u o1 tr x s) = ds_disabled s"
  "ds_listeners (apply_property item t u o1 tr x s) = ds_listeners s"
  by (cases x; simp add: case_prod_beta Let_def split: option.split)+

lemma ensure_property_sel [simp]:
  "ds_states (ensure_property now item r tr x s) = store_ensure_property now item r tr x (ds_states s)"
  "ds_registry (ensure_property now item r tr x s) = ds_registry s" "ds_commands (ensure_property now item r tr x s) = ds_commands s"
  "ds_snapshotSeq (ensure_property now item r tr x s) = ds_snapshotSeq s" "ds_disabled (ensure_property now item r tr x s) = ds_disabled s"
  "ds_listeners (ensure_property now item r tr x s) = ds_listeners s"
  by (cases x; simp add: case_prod_beta Let_def)+

lemma fold_apply_sel [simp]:
  "ds_states (fold (apply_property item t u o1 tr) xs s) = fold (store_apply_property item t u o1 tr) xs (ds_states s)"
  "ds_registry (fold (apply_property item t u o1 tr) xs s) = ds_registry s" "ds_commands (fold (apply_property item t u o1 tr) xs s) = ds_commands s"
  "ds_snapshotSeq (fold (apply_property item t u o1 tr) xs s) = ds_snapshotSeq s" "ds_disabled (fold (apply_property item t u o1 tr) xs s) = ds_disabled s"
  "ds_listeners (fold (apply_property item t u o1 tr) xs s) = ds_listeners s"
  by (induction xs arbitrary: s) simp_all

lemma fold_ensure_sel [simp]:
  "ds_states (fold (ensure_property now item r tr) xs s) = fold (store_ensure_property now item r tr) xs (ds_states s)"
  "ds_registry (fold (ensure_property now item r tr) xs s) = ds_registry s" "ds_commands (fold (ensure_property now item r tr) xs s) = ds_commands s"
  "ds_snapshotSeq (fold (ensure_property now item r tr) xs s) = ds_snapshotSeq s" "ds_disabled (fold (ensure_property now item r tr) xs s) = ds_disabled s"
  "ds_listeners (fold (ensure_property now item r tr) xs s) = ds_listeners s"
  by (induction xs arbitrary: s) simp_all

lemma applySnapshot_sel [simp]:
  "ds_states (applySnapshot now item tr o1 s) =
     fold (store_apply_property item (observed_at item now) now o1 tr) (snapshot_properties item) (ds_states s)"
  "ds_registry (applySnapshot now item tr o1 s) = ds_registry s" "ds_commands (applySnapshot now item tr o1 s) = ds_commands s"
  "ds_snapshotSeq (applySnapshot now item tr o1 s) = ds_snapshotSeq s" "ds_disabled (applySnapshot now item tr o1 s) = ds_disabled s"
  "ds_listeners (applySnapshot now item tr o1 s) = ds_listeners s"
  by (simp_all add: applySnapshot_def case_prod_beta safeObservedAt_time)

lemma ensureUnknownStates_sel [simp]:
  "ds_states (ensureUnknownStates now item r tr s) = fold (store_ensure_property now item r tr) (snapshot_properties item) (ds_states s)"
  "ds_registry (ensureUnknownStates now item r tr s) = ds_registry s" "ds_commands (ensureUnknownStates now item r tr s) = ds_commands s"
  "ds_snapshotSeq (ensureUnknownStates now item r tr s) = ds_snapshotSeq s" "ds_disabled (ensureUnknownStates now item r tr s) = ds_disabled s"
  "ds_listeners (ensureUnknownStates now item r tr s) = ds_listeners s"
  unfolding ensureUnknownStates_def by simp_all

lemma mark_and_publish_sel [simp]:
  "ds_states (snd (mark_and_publish d r ts s)) = snd (markDeviceUnavailable d r ts (ds_states s))"
  "ds_registry (snd (mark_and_publish d r ts s)) = ds_registry s" "ds_commands (snd (mark_and_publish d r ts s)) = ds_commands s"
  "ds_snapshotSeq (snd (mark_and_publish d r ts s)) = ds_snapshotSeq s" "ds_disabled (snd (mark_and_publish d r ts s)) = ds_disabled s"
  "ds_listeners (snd (mark_and_publish d r ts s)) = ds_listeners s"
  by (simp_all add: mark_and_publish_def case_prod_beta)

subsection \<open>The invariant\<close>

definition bounded_queues :: "(u64, 'a list) gomap \<Rightarrow> bool" where
  "bounded_queues ls \<longleftrightarrow> (\<forall>(i, queue) \<in> set ls. length queue \<le> subscription_capacity)"

lemma bounded_push [simp]: "bounded_queues ls \<Longrightarrow> bounded_queues (push v ls)"
  by (fastforce simp: bounded_queues_def push_def)

lemma bounded_fold_push [simp]: "bounded_queues ls \<Longrightarrow> bounded_queues (fold push vs ls)"
  by (induction vs arbitrary: ls) simp_all

lemma bounded_put: "bounded_queues ls \<Longrightarrow> length q \<le> subscription_capacity \<Longrightarrow> bounded_queues (gm_put i q ls)"
  unfolding bounded_queues_def by (induction ls) auto

lemma bounded_del: "bounded_queues ls \<Longrightarrow> bounded_queues (gm_del i ls)"
  unfolding bounded_queues_def by (induction ls) (auto split: if_splits)

lemma bounded_get: "bounded_queues ls \<Longrightarrow> gm_get ls i = Some q \<Longrightarrow> length q \<le> subscription_capacity"
  unfolding bounded_queues_def by (fastforce dest: gm_get_in_set)

text \<open>A disabled device is registered as disabled and is not online.\<close>

definition disabled_offline :: "service \<Rightarrow> bool" where
  "disabled_offline s \<longleftrightarrow> (\<forall>i d. isDeviceDisabled i s \<longrightarrow> registry_get i (ds_registry s) = Some d \<longrightarrow> dev_Disabled d \<and> \<not> isOnline d)"

definition service_ok :: "service \<Rightarrow> bool" where
  "service_ok s \<longleftrightarrow> registry_inv (ds_registry s) \<and> store_inv (ds_states s) \<and> tracker_inv (ds_commands s) \<and>
     gm_ok (ds_snapshotSeq s) \<and> bounded_queues (ds_listeners s) \<and> bounded_queues (ds_stateListeners s) \<and> disabled_offline s"

lemma bounded_apply [simp]:
  "bounded_queues (ds_stateListeners s) \<Longrightarrow> bounded_queues (ds_stateListeners (apply_property item t u o1 tr x s))"
  by (cases x) (simp add: case_prod_beta Let_def split: option.split)

lemma bounded_ensure [simp]:
  "bounded_queues (ds_stateListeners s) \<Longrightarrow> bounded_queues (ds_stateListeners (ensure_property now item r tr x s))"
  by (cases x) (simp add: case_prod_beta Let_def)

lemma bounded_applySnapshot [simp]:
  "bounded_queues (ds_stateListeners s) \<Longrightarrow> bounded_queues (ds_stateListeners (applySnapshot now item tr o1 s))"
proof -
  have "bounded_queues (ds_stateListeners s) \<Longrightarrow> bounded_queues (ds_stateListeners (fold (apply_property item t u o1 tr) xs s))" for s t u xs
    by (induction xs arbitrary: s) simp_all
  then show "bounded_queues (ds_stateListeners s) \<Longrightarrow> ?thesis" by (simp add: applySnapshot_def case_prod_beta)
qed

lemma bounded_ensureUnknown [simp]:
  "bounded_queues (ds_stateListeners s) \<Longrightarrow> bounded_queues (ds_stateListeners (ensureUnknownStates now item r tr s))"
proof -
  have "bounded_queues (ds_stateListeners s) \<Longrightarrow> bounded_queues (ds_stateListeners (fold (ensure_property now item r tr) xs s))" for s xs
    by (induction xs arbitrary: s) simp_all
  then show "bounded_queues (ds_stateListeners s) \<Longrightarrow> ?thesis" by (simp add: ensureUnknownStates_def)
qed

lemma bounded_mark [simp]:
  "bounded_queues (ds_stateListeners s) \<Longrightarrow> bounded_queues (ds_stateListeners (snd (mark_and_publish d r ts s)))"
  by (simp add: mark_and_publish_def case_prod_beta)

lemma store_apply_inv: "store_inv st \<Longrightarrow> store_inv (store_apply_property item t u o1 tr x st)"
  by (cases x) (auto simp: snapshot_value_def Let_def declared_quality_def intro!: apply_inv split: option.split)

lemma store_ensure_inv: "store_inv st \<Longrightarrow> store_inv (store_ensure_property now item r tr x st)"
  by (cases x) (simp add: ensureUnknown_inv)

lemma fold_inv: "(\<And>x st. P st \<Longrightarrow> P (f x st)) \<Longrightarrow> P st \<Longrightarrow> P (fold f xs st)"
  by (induction xs arbitrary: st) simp_all

lemma unavailableReason_known [simp]: "unavailableReason item \<noteq> UnavailableOther []"
  by (simp add: unavailableReason_def)

lemmas store_loops_inv = fold_inv [of store_inv, OF store_apply_inv] fold_inv [of store_inv, OF store_ensure_inv]

text \<open>Putting a device in the registry keeps the rule for disabled devices when the device obeys it.\<close>

lemma disabled_offline_upsert:
  assumes "disabled_offline s" and "isDeviceDisabled (dev_ID item) s \<Longrightarrow> dev_Disabled item \<and> \<not> isOnline item"
    and "ds_registry s' = registry_upsert item (ds_registry s)" and "ds_disabled s' = ds_disabled s"
  shows "disabled_offline s'"
  using assms by (auto simp: disabled_offline_def registry_upsert_get isDeviceDisabled_def isOnline_def
      normalizeAvailability_def setAvailability_def effectiveAvailability_def split: availability.splits if_splits)

lemma disabled_offline_delete:
  "disabled_offline s \<Longrightarrow> ds_registry s' = registry_delete i (ds_registry s) \<Longrightarrow> ds_disabled s' = ds_disabled s \<Longrightarrow> disabled_offline s'"
  by (auto simp: disabled_offline_def registry_delete_def registry_get_def isDeviceDisabled_def gm_get_del split: if_splits)

lemma disabled_offline_same:
  "disabled_offline s \<Longrightarrow> ds_registry s' = ds_registry s \<Longrightarrow> ds_disabled s' = ds_disabled s \<Longrightarrow> disabled_offline s'"
  by (simp add: disabled_offline_def isDeviceDisabled_def)

lemma setOnline_False [simp]: "\<not> isOnline (setOnline False d)" "dev_Disabled (setOnline b d) = dev_Disabled d" "dev_ID (setOnline b d) = dev_ID d"
  "dev_Removed (setOnline b d) = dev_Removed d" "dev_Endpoints (setOnline b d) = dev_Endpoints d"
  by (simp_all add: setOnline_def isOnline_def setAvailability_def effectiveAvailability_def)

lemma isOnline_update [simp]:
  "isOnline (d\<lparr>dev_MappingError := e\<rparr>) = isOnline d" "isOnline (d\<lparr>dev_LastUpdateAt := t\<rparr>) = isOnline d"
  "isOnline (d\<lparr>dev_Disabled := b\<rparr>) = isOnline d" "isOnline (d\<lparr>dev_Endpoints := es\<rparr>) = isOnline d"
  by (simp_all add: isOnline_def effectiveAvailability_def)

lemma registry_delete_inv: "registry_inv r \<Longrightarrow> registry_inv (registry_delete i r)"
  by (auto simp: registry_inv_def registry_delete_def registry_get_def gm_get_del split: if_splits)

subsection \<open>The handlers keep the invariant\<close>

lemma service_okD:
  assumes "service_ok s"
  shows "registry_inv (ds_registry s)" "store_inv (ds_states s)" "tracker_inv (ds_commands s)" "gm_ok (ds_snapshotSeq s)"
    "bounded_queues (ds_listeners s)" "bounded_queues (ds_stateListeners s)" "disabled_offline s"
  using assms by (simp_all add: service_ok_def)

lemma publishMappingError_ok: "service_ok s \<Longrightarrow> service_ok (publishMappingError i cause s)"
proof (cases "registry_get i (ds_registry s)")
  case (Some item)
  assume ok: "service_ok s"
  let ?item = "item\<lparr>dev_MappingError := mapping_error_prefix @ cause\<rparr>"
  have id: "dev_ID item = i" using service_okD(1) [OF ok] Some by (simp add: registry_inv_def)
  have rule: "dev_Disabled ?item \<and> \<not> isOnline ?item" if "isDeviceDisabled (dev_ID ?item) s"
    using service_okD(7) [OF ok] Some that id by (auto simp: disabled_offline_def)
  have "disabled_offline (publishDevice ?item (s\<lparr>ds_registry := registry_upsert ?item (ds_registry s)\<rparr>))"
    by (rule disabled_offline_upsert [OF service_okD(7) [OF ok] rule]) simp_all
  then show ?thesis using ok Some by (simp add: publishMappingError_def Let_def service_ok_def registry_upsert_inv)
qed (simp add: publishMappingError_def)

lemma snapshot_item_rules:
  "isDeviceDisabled (dev_ID (snapshot_item item s)) s \<Longrightarrow> dev_Disabled (snapshot_item item s) \<and> \<not> isOnline (snapshot_item item s)"
  "dev_Removed (snapshot_item item s) \<Longrightarrow> \<not> isOnline (snapshot_item item s)"
  by (auto simp: snapshot_item_def Let_def split: if_splits)

lemma confirm_property_sel [simp]:
  "ds_registry (confirm_property now item x s) = ds_registry s" "ds_states (confirm_property now item x s) = ds_states s"
  "ds_snapshotSeq (confirm_property now item x s) = ds_snapshotSeq s" "ds_disabled (confirm_property now item x s) = ds_disabled s"
  "ds_listeners (confirm_property now item x s) = ds_listeners s" "ds_stateListeners (confirm_property now item x s) = ds_stateListeners s"
  by (cases x; simp add: case_prod_beta Let_def)+

lemma fold_confirm_sel [simp]:
  "ds_registry (fold (confirm_property now item) xs s) = ds_registry s" "ds_states (fold (confirm_property now item) xs s) = ds_states s"
  "ds_snapshotSeq (fold (confirm_property now item) xs s) = ds_snapshotSeq s" "ds_disabled (fold (confirm_property now item) xs s) = ds_disabled s"
  "ds_listeners (fold (confirm_property now item) xs s) = ds_listeners s" "ds_stateListeners (fold (confirm_property now item) xs s) = ds_stateListeners s"
  by (induction xs arbitrary: s) simp_all

lemma fold_confirm_inv: "tracker_inv (ds_commands s) \<Longrightarrow> tracker_inv (ds_commands (fold (confirm_property now item) xs s))"
proof (induction xs arbitrary: s)
  case (Cons x xs)
  have "tracker_inv (ds_commands (confirm_property now item x s))"
    using confirm_value_inv [OF Cons.prems] by (cases x) (simp add: case_prod_beta Let_def)
  then show ?case using Cons.IH by simp
qed simp

lemma store_item_sel [simp]:
  "ds_states (store_item item s) = ds_states s" "ds_commands (store_item item s) = ds_commands s"
  "ds_snapshotSeq (store_item item s) = ds_snapshotSeq s" "ds_disabled (store_item item s) = ds_disabled s"
  "ds_listeners (store_item item s) = ds_listeners s" "ds_stateListeners (store_item item s) = ds_stateListeners s"
  by (simp_all add: store_item_def)

lemma store_item_ok:
  assumes "registry_inv (ds_registry s)" and "disabled_offline s"
    and "isDeviceDisabled (dev_ID item) s \<Longrightarrow> dev_Disabled item \<and> \<not> isOnline item"
  shows "registry_inv (ds_registry (store_item item s)) \<and> disabled_offline (store_item item s)"
  using assms disabled_offline_upsert [OF assms(2,3), of "store_item item s"] disabled_offline_delete [OF assms(2), of "store_item item s" "dev_ID item"]
  by (auto simp: store_item_def registry_upsert_inv registry_delete_inv)

lemma mark_offline_sel [simp]:
  "ds_states (mark_offline now item tr s) = snd (markDeviceUnavailable (dev_ID item) (unavailableReason item) [tr]
     (fold (store_ensure_property now item (unavailableReason item) tr) (snapshot_properties item) (ds_states s)))"
  "ds_registry (mark_offline now item tr s) = ds_registry s" "ds_commands (mark_offline now item tr s) = ds_commands s"
  "ds_snapshotSeq (mark_offline now item tr s) = ds_snapshotSeq s" "ds_disabled (mark_offline now item tr s) = ds_disabled s"
  "ds_listeners (mark_offline now item tr s) = ds_listeners s"
  by (simp_all add: mark_offline_def case_prod_beta Let_def)

lemma mark_offline_bounded [simp]:
  "bounded_queues (ds_stateListeners s) \<Longrightarrow> bounded_queues (ds_stateListeners (mark_offline now item tr s))"
  by (simp add: mark_offline_def case_prod_beta Let_def)

lemma accept_sel [simp]:
  "ds_states (snd (acceptSnapshotSequence item s)) = ds_states s" "ds_commands (snd (acceptSnapshotSequence item s)) = ds_commands s"
  "ds_registry (snd (acceptSnapshotSequence item s)) = ds_registry s" "ds_disabled (snd (acceptSnapshotSequence item s)) = ds_disabled s"
  "ds_listeners (snd (acceptSnapshotSequence item s)) = ds_listeners s" "ds_stateListeners (snd (acceptSnapshotSequence item s)) = ds_stateListeners s"
  "gm_ok (ds_snapshotSeq s) \<Longrightarrow> gm_ok (ds_snapshotSeq (snd (acceptSnapshotSequence item s)))"
  by (simp_all add: acceptSnapshotSequence_def Let_def)

lemma reset_sel [simp]:
  "ds_states (resetSnapshotSequence i s) = ds_states s" "ds_commands (resetSnapshotSequence i s) = ds_commands s"
  "ds_registry (resetSnapshotSequence i s) = ds_registry s" "ds_disabled (resetSnapshotSequence i s) = ds_disabled s"
  "ds_listeners (resetSnapshotSequence i s) = ds_listeners s" "ds_stateListeners (resetSnapshotSequence i s) = ds_stateListeners s"
  "gm_ok (ds_snapshotSeq s) \<Longrightarrow> gm_ok (ds_snapshotSeq (resetSnapshotSequence i s))"
  by (simp_all add: resetSnapshotSequence_def)

lemma isDeviceDisabled_cong: "ds_disabled s' = ds_disabled s \<Longrightarrow> isDeviceDisabled i s' = isDeviceDisabled i s"
  by (simp add: isDeviceDisabled_def)

text \<open>The three outcomes of \<open>handleDeviceSnapshot\<close>.\<close>

lemma handleDeviceSnapshot_cases:
  obtains (unmapped) cause where "project item0 = Inl cause"
      "handleDeviceSnapshot project now nowCmd item0 tr o1 s = publishMappingError (dev_ID item0) cause (add_metric mt_eventsProcessed_update 1 s)"
  | (ignored) mapped item where "project item0 = Inr mapped" "item = snapshot_item mapped (add_metric mt_eventsProcessed_update 1 s)" "isOnline item"
      "fst (acceptSnapshotSequence item (add_metric mt_eventsProcessed_update 1 s)) = False"
      "handleDeviceSnapshot project now nowCmd item0 tr o1 s =
         add_metric mt_providerEventsIgnored_update 1 (snd (acceptSnapshotSequence item (add_metric mt_eventsProcessed_update 1 s)))"
  | (online) mapped item where "project item0 = Inr mapped" "item = snapshot_item mapped (add_metric mt_eventsProcessed_update 1 s)" "isOnline item"
      "fst (acceptSnapshotSequence item (add_metric mt_eventsProcessed_update 1 s)) = True"
      "handleDeviceSnapshot project now nowCmd item0 tr o1 s =
         publishDevice item (fold (confirm_property nowCmd item) (snapshot_properties item)
           (applySnapshot now item tr o1 (store_item item (snd (acceptSnapshotSequence item (add_metric mt_eventsProcessed_update 1 s))))))"
  | (offline) mapped item where "project item0 = Inr mapped" "item = snapshot_item mapped (add_metric mt_eventsProcessed_update 1 s)" "\<not> isOnline item"
      "handleDeviceSnapshot project now nowCmd item0 tr o1 s =
         publishDevice item (mark_offline now item tr (store_item item (resetSnapshotSequence (dev_ID item) (add_metric mt_eventsProcessed_update 1 s))))"
proof (cases "project item0")
  case (Inl cause)
  then show ?thesis by (intro unmapped) (simp_all add: handleDeviceSnapshot_def Let_def)
next
  case (Inr mapped)
  let ?s = "add_metric mt_eventsProcessed_update 1 s"
  let ?item = "snapshot_item mapped ?s"
  show ?thesis
  proof (cases "isOnline ?item")
    case False
    with Inr show ?thesis by (intro offline [of mapped ?item]) (simp_all add: handleDeviceSnapshot_def Let_def)
  next
    case True
    show ?thesis
    proof (cases "fst (acceptSnapshotSequence ?item ?s)")
      case acc: True
      with Inr True show ?thesis
        by (intro online [of mapped ?item]) (auto simp: handleDeviceSnapshot_def Let_def split: prod.splits bool.splits)
    next
      case rej: False
      with Inr True show ?thesis
        by (intro ignored [of mapped ?item]) (auto simp: handleDeviceSnapshot_def Let_def split: prod.splits bool.splits)
    qed
  qed
qed

lemma add_metric_ok [simp]: "service_ok (add_metric u n s) = service_ok s"
  by (simp add: service_ok_def disabled_offline_def isDeviceDisabled_def)

lemma handleDeviceSnapshot_ok:
  assumes ok: "service_ok s"
  shows "service_ok (handleDeviceSnapshot project now nowCmd item0 tr o1 s)"
proof (cases rule: handleDeviceSnapshot_cases [where project = project and ?item0.0 = item0 and now = now and nowCmd = nowCmd and tr = tr and ?o1.0 = o1 and s = s])
  case (unmapped cause)
  then show ?thesis using publishMappingError_ok ok by simp
next
  case (ignored mapped item)
  then show ?thesis using service_okD [OF ok] by (simp add: service_ok_def disabled_offline_def isDeviceDisabled_def)
next
  case (online mapped item)
  let ?s = "snd (acceptSnapshotSequence item (add_metric mt_eventsProcessed_update 1 s))"
  have rule: "dev_Disabled item \<and> \<not> isOnline item" if "isDeviceDisabled (dev_ID item) ?s"
    using snapshot_item_rules(1) [of mapped] that unfolding online(2) by (simp add: isDeviceDisabled_def)
  have "registry_inv (ds_registry (store_item item ?s)) \<and> disabled_offline (store_item item ?s)"
    using service_okD [OF ok] by (intro store_item_ok rule) (auto simp: disabled_offline_def isDeviceDisabled_def)
  then show ?thesis unfolding online(5) service_ok_def using service_okD [OF ok]
    by (auto intro!: store_loops_inv fold_confirm_inv intro: disabled_offline_same)
next
  case (offline mapped item)
  let ?s = "resetSnapshotSequence (dev_ID item) (add_metric mt_eventsProcessed_update 1 s)"
  have rule: "dev_Disabled item \<and> \<not> isOnline item" if "isDeviceDisabled (dev_ID item) ?s"
    using snapshot_item_rules(1) [of mapped] that unfolding offline(2) by (simp add: isDeviceDisabled_def)
  have "registry_inv (ds_registry (store_item item ?s)) \<and> disabled_offline (store_item item ?s)"
    using service_okD [OF ok] by (intro store_item_ok rule) (auto simp: disabled_offline_def isDeviceDisabled_def)
  then show ?thesis unfolding offline(4) service_ok_def using service_okD [OF ok]
    by (auto intro!: store_loops_inv mark_inv intro: disabled_offline_same)
qed

lemma handleCapabilityAvailability_ok: "service_ok s \<Longrightarrow> service_ok (handleCapabilityAvailability a tr s)"
  by (auto simp: handleCapabilityAvailability_def case_prod_beta Let_def service_ok_def intro: mark_inv disabled_offline_same split: option.split)

lemma removeFromRegistry_ok: "service_ok s \<Longrightarrow> service_ok (removeFromRegistry i s)"
  by (auto simp: removeFromRegistry_def case_prod_beta Let_def service_ok_def registry_delete_inv intro: mark_inv disabled_offline_delete split: option.split)

lemma reportDeviceAvailability_ok:
  assumes ok: "service_ok s"
  shows "service_ok (snd (reportDeviceAvailability updated now i av s))"
proof (cases "registry_get i (ds_registry s)")
  case (Some item)
  let ?item = "(setAvailability av item)\<lparr>dev_LastUpdateAt := updated\<rparr>"
  have id: "dev_ID item = i" using service_okD(1) [OF ok] Some by (simp add: registry_inv_def)
  have enabled: "\<not> isDeviceDisabled i s" if "\<not> dev_Disabled item" using service_okD(7) [OF ok] Some that by (auto simp: disabled_offline_def)
  have "disabled_offline s'" if "\<not> dev_Disabled item" "ds_registry s' = registry_upsert ?item (ds_registry s)" "ds_disabled s' = ds_disabled s" for s'
    using disabled_offline_upsert [OF service_okD(7) [OF ok], of ?item s'] enabled id that by (auto simp: setAvailability_def)
  then show ?thesis using Some service_okD [OF ok]
    by (auto simp: reportDeviceAvailability_def case_prod_beta Let_def service_ok_def registry_upsert_inv intro!: store_loops_inv mark_inv)
qed (use ok in \<open>simp add: reportDeviceAvailability_def\<close>)

lemma reconcileReadProperty_ok:
  assumes ok: "service_ok s"
  shows "service_ok (reconcileReadProperty nowCmd updated observed now d e c p prop tr s)"
proof (cases "\<exists>item previous. registry_get d (ds_registry s) = Some item \<and> \<not> (dev_Disabled item \<or> dev_Removed item) \<and> device_property item e c p = Some previous")
  case False
  with ok show ?thesis by (auto simp: reconcileReadProperty_def split: option.split)
next
  case True
  then obtain item previous where it: "registry_get d (ds_registry s) = Some item" "\<not> (dev_Disabled item \<or> dev_Removed item)"
    "device_property item e c p = Some previous" by blast
  let ?item = "(snd (setProperty e c p (prop_Value prop) item))\<lparr>dev_LastUpdateAt := updated\<rparr>"
  have id: "dev_ID item = d" using service_okD(1) [OF ok] it(1) by (simp add: registry_inv_def)
  have "\<not> isDeviceDisabled d s" using service_okD(7) [OF ok] it(1,2) by (auto simp: disabled_offline_def)
  then have upd: "disabled_offline s'" if "ds_registry s' = registry_upsert ?item (ds_registry s)" "ds_disabled s' = ds_disabled s" for s'
    using disabled_offline_upsert [OF service_okD(7) [OF ok], of ?item s'] id that by (auto simp: setProperty_def split: option.splits)
  show ?thesis
  proof (cases "value_equal (prop_Value previous) (prop_Value prop)")
    case True
    then show ?thesis using it service_okD [OF ok]
      by (auto simp: reconcileReadProperty_def case_prod_beta Let_def service_ok_def
          intro!: store_loops_inv confirm_value_inv intro: disabled_offline_same)
  next
    case False
    then show ?thesis using it service_okD [OF ok]
      by (auto simp: reconcileReadProperty_def case_prod_beta Let_def service_ok_def registry_upsert_inv
          intro!: store_loops_inv confirm_value_inv upd)
  qed
qed

lemma stale_tick_ok: "service_ok s \<Longrightarrow> service_ok (stale_tick now s)"
  by (auto simp: stale_tick_def case_prod_beta Let_def service_ok_def mark_inv expire_inv intro: disabled_offline_same)

lemma service_states_ok: "service_ok s \<Longrightarrow> service_ok (snd (service_states now d s))"
  by (auto simp: service_states_def Let_def service_ok_def mark_inv intro: disabled_offline_same)

lemma subscriptions_ok:
  assumes "service_ok s"
  shows "service_ok (snd (subscribe_device s))" "service_ok (snd (subscribe_state s))" "service_ok (snd (take_device i s))"
    "service_ok (snd (take_state i s))" "service_ok (unsubscribe_device i s)" "service_ok (unsubscribe_state i s)"
  using assms
  by (auto simp: subscribe_device_def subscribe_state_def take_device_def take_state_def unsubscribe_device_def unsubscribe_state_def
      Let_def service_ok_def bounded_del intro!: bounded_put intro: disabled_offline_same dest: bounded_get split: option.splits list.splits)

lemma enable_device_ok:
  assumes ok: "service_ok s" and "\<not> isDeviceDisabled i s" and id: "dev_ID item = i"
    and project: "\<And>x y. project x = Inr y \<Longrightarrow> dev_ID y = dev_ID x"
  shows "service_ok (snd (enable_device project discovered now i item s))"
proof -
  let ?it = "rediscovered project discovered i (item\<lparr>dev_Disabled := False\<rparr>)"
  let ?item = "if dev_Removed ?it then setOnline False ?it else ?it"
  have "dev_ID ?it = i" using id project
    by (auto simp: rediscovered_def Let_def normalizeAvailability_def setAvailability_def dest!: find_SomeD split: option.split sum.split)
  then have "dev_ID ?item = i" by simp
  then have upd: "disabled_offline s'" if "ds_registry s' = registry_upsert ?item (ds_registry s)" "ds_disabled s' = ds_disabled s" for s'
    using disabled_offline_upsert [OF service_okD(7) [OF ok], of ?item s'] assms(2) that by simp
  show ?thesis using service_okD [OF ok]
    by (auto simp: enable_device_def Let_def service_ok_def registry_upsert_inv intro!: store_loops_inv mark_inv upd)
qed

lemma disable_device_ok:
  assumes ok: "service_ok s" and id: "dev_ID item = i"
  shows "service_ok (snd (disable_device i item (s\<lparr>ds_disabled := gm_put i () (ds_disabled s)\<rparr>)))"
proof -
  let ?item = "setOnline False (item\<lparr>dev_Disabled := True\<rparr>)"
  have "disabled_offline s'" if "ds_registry s' = registry_upsert ?item (ds_registry s)" "ds_disabled s' = gm_put i () (ds_disabled s)" for s'
    using service_okD(7) [OF ok] that id setOnline_False(1) [of "item\<lparr>dev_Disabled := True\<rparr>"]
    by (auto simp: disabled_offline_def registry_upsert_get isDeviceDisabled_def gm_get_put isOnline_def normalizeAvailability_def
        setOnline_def setAvailability_def effectiveAvailability_def split: if_splits)
  then show ?thesis using service_okD [OF ok]
    by (auto simp: disable_device_def Let_def case_prod_beta service_ok_def registry_upsert_inv intro!: mark_inv)
qed

definition project_ok :: "(device \<Rightarrow> string + device) \<Rightarrow> bool" where
  "project_ok project \<longleftrightarrow> (\<forall>x y. project x = Inr y \<longrightarrow> dev_ID y = dev_ID x)"

lemma setDeviceEnabled_ok:
  assumes ok: "service_ok s" and project: "project_ok project"
  shows "service_ok (snd (setDeviceEnabled project saved discovered now i enabled s))"
proof (cases "registry_get i (ds_registry s)")
  case (Some item)
  have id: "dev_ID item = i" using service_okD(1) [OF ok] Some by (simp add: registry_inv_def)
  show ?thesis
  proof (cases saved)
    case saved: (Some accepted)
    show ?thesis
    proof (cases accepted)
      case False
      have "disabled_offline s'" if "ds_registry s' = ds_registry s"
        "ds_disabled s' = (if isDeviceDisabled i s then gm_put i () m else gm_del i m)"
        "m = (if enabled then gm_del i (ds_disabled s) else gm_put i () (ds_disabled s))" for s' m
        using service_okD(7) [OF ok] that
        by (auto simp: disabled_offline_def isDeviceDisabled_def gm_get_put gm_get_del split: if_splits)
      with Some saved False show ?thesis using service_okD [OF ok]
        by (auto simp: setDeviceEnabled_def Let_def service_ok_def)
    next
      case True
      have less: "service_ok (s\<lparr>ds_disabled := gm_del i (ds_disabled s)\<rparr>)"
        using ok by (auto simp: service_ok_def disabled_offline_def isDeviceDisabled_def gm_get_del split: if_splits)
      have "\<not> isDeviceDisabled i (s\<lparr>ds_disabled := gm_del i (ds_disabled s)\<rparr>)" by (simp add: isDeviceDisabled_def gm_get_del)
      from enable_device_ok [OF less this id] project disable_device_ok [OF ok id] Some saved True show ?thesis
        by (auto simp: setDeviceEnabled_def Let_def case_prod_beta project_ok_def)
    qed
  qed (use ok Some in \<open>simp add: setDeviceEnabled_def\<close>)
qed (use ok in \<open>simp add: setDeviceEnabled_def\<close>)

lemma load_device_ok:
  assumes ok: "service_ok s" and none: "ds_disabled s = []"
  shows "service_ok (load_device m now public source s)"
proof (cases "initial_item m public source")
  case (Some item0)
  have "disabled_offline s'" if "ds_disabled s' = []" for s' using that by (simp add: disabled_offline_def isDeviceDisabled_def)
  then show ?thesis using Some service_okD [OF ok] none
    by (auto simp: load_device_def Let_def service_ok_def registry_upsert_inv intro!: store_loops_inv)
qed (use ok in \<open>simp add: load_device_def\<close>)

text \<open>While the disabled devices are loaded, the rule holds for those that have been handled.\<close>

lemma load_disabled_ok:
  assumes ok: "service_ok s"
  shows "service_ok (load_disabled ids s)"
proof -
  have dis: "gm_get (fold (\<lambda>i m. gm_put i () m) xs m) k = (if k \<in> set xs then Some () else gm_get m k)" for xs k and m :: "(string, unit) gomap"
    by (induction xs arbitrary: m) (auto simp: gm_get_put)
  let ?rest = "\<lambda>xs s. \<forall>i d. isDeviceDisabled i s \<longrightarrow> i \<notin> set xs \<longrightarrow> registry_get i (ds_registry s) = Some d \<longrightarrow> dev_Disabled d \<and> \<not> isOnline d"
  let ?ok = "\<lambda>s. registry_inv (ds_registry s) \<and> store_inv (ds_states s) \<and> tracker_inv (ds_commands s) \<and>
     gm_ok (ds_snapshotSeq s) \<and> bounded_queues (ds_listeners s) \<and> bounded_queues (ds_stateListeners s)"
  have step: "?ok (load_disabled_item x t) \<and> ?rest xs (load_disabled_item x t)" if "?ok t" "?rest (x # xs) t" for x xs t
  proof (cases "registry_get x (ds_registry t)")
    case None
    with that show ?thesis by (auto simp: load_disabled_item_def)
  next
    case (Some item)
    have id: "dev_ID item = x" using that(1) Some by (simp add: registry_inv_def)
    let ?item = "setOnline False (item\<lparr>dev_Disabled := True\<rparr>)"
    have off: "dev_Disabled (normalizeAvailability ?item) \<and> \<not> isOnline (normalizeAvailability ?item)"
      by (simp add: isOnline_def normalizeAvailability_def setOnline_def setAvailability_def effectiveAvailability_def)
    from Some that id off show ?thesis
      by (auto simp: load_disabled_item_def registry_upsert_get registry_upsert_inv isDeviceDisabled_def mark_inv split: if_splits)
  qed
  have "?ok t \<Longrightarrow> ?rest xs t \<Longrightarrow> ?ok (fold load_disabled_item xs t) \<and> ?rest [] (fold load_disabled_item xs t)" for xs t
  proof (induction xs arbitrary: t)
    case (Cons x xs)
    from step [OF Cons.prems] Cons.IH [of "load_disabled_item x t"] show ?case by simp
  qed simp
  note all = this
  let ?s = "s\<lparr>ds_disabled := fold (\<lambda>i m. gm_put i () m) ids (ds_disabled s)\<rparr>"
  have a: "?ok ?s" using service_okD [OF ok] by simp
  have b: "?rest ids ?s"
    using service_okD(7) [OF ok] by (simp add: disabled_offline_def isDeviceDisabled_def dis)
  from all [OF a b] have "?ok (load_disabled ids s)" and r: "?rest [] (load_disabled ids s)"
    unfolding load_disabled_def by blast+
  moreover have "disabled_offline (load_disabled ids s)"
    unfolding disabled_offline_def using r by (metis list.set(1) empty_iff)
  ultimately show ?thesis unfolding service_ok_def by blast
qed

lemma reset_ok: "service_ok s \<Longrightarrow> service_ok (resetSnapshotSequence i s)"
  by (simp add: service_ok_def disabled_offline_def isDeviceDisabled_def)

lemma refreshDevices_ok: "service_ok s \<Longrightarrow> service_ok (refreshDevices project now nowCmd items tr s)"
  unfolding refreshDevices_def
  by (rule fold_inv [of service_ok]) (rule handleDeviceSnapshot_ok, rule reset_ok)

subsection \<open>Effects of a snapshot\<close>

text \<open>A pending command waits for this very value.\<close>

definition awaited :: "tracker \<Rightarrow> string \<Rightarrow> property_value \<Rightarrow> bool" where
  "awaited t k v \<longleftrightarrow> (\<exists>i x. gm_get (tk_pending t) k = Some i \<and> gm_get (tk_commands t) i = Some x \<and> value_equal (cmd_Expected x) v)"

lemma confirm_awaited:
  assumes ok: "tracker_ok t"
  shows "\<not> awaited (snd (snd (confirm_value now d e c p v t))) (pendingKey d e c p) v"
    and "awaited (snd (snd (confirm_value now d e c p v t))) k w \<Longrightarrow> awaited t k w"
proof (atomize (full), cases rule: confirm_cases [OF ok, where now = now and d = d and e = e and c = c and p = p and v = v])
  case 1
  then show "\<not> awaited (snd (snd (confirm_value now d e c p v t))) (pendingKey d e c p) v \<and>
    (awaited (snd (snd (confirm_value now d e c p v t))) k w \<longrightarrow> awaited t k w)" by (auto simp: awaited_def)
next
  case (2 i x y s)
  have pend: "tk_pending (trim_history s) = gm_del (pendingKey d e c p) (tk_pending t)"
    using trim_history_facts(1) [OF 2(7)] 2(6) by simp
  have "awaited t k w" if "awaited (trim_history s) k w"
  proof -
    from that obtain j z where j: "gm_get (tk_pending (trim_history s)) k = Some j" "commands_of (trim_history s) j = Some z" "value_equal (cmd_Expected z) w"
      by (auto simp: awaited_def)
    have z: "commands_of s j = Some z" using trim_history_facts(3) [OF 2(7) j(2)] .
    have "gm_get (tk_pending t) k = Some j" using j(1) by (simp add: pend gm_get_del split: if_splits)
    moreover have "\<exists>x'. commands_of t j = Some x' \<and> cmd_Expected x' = cmd_Expected z"
      using z 2(2,5,6) by (auto simp: get_gm_put split: if_splits)
    ultimately show ?thesis using j(3) by (auto simp: awaited_def)
  qed
  then show "\<not> awaited (snd (snd (confirm_value now d e c p v t))) (pendingKey d e c p) v \<and>
    (awaited (snd (snd (confirm_value now d e c p v t))) k w \<longrightarrow> awaited t k w)"
    using 2(8) pend by (auto simp: awaited_def gm_get_del)
qed

lemma fold_confirm_keeps:
  "tracker_inv (ds_commands s) \<Longrightarrow> awaited (ds_commands (fold (confirm_property now item) xs s)) k w \<Longrightarrow> awaited (ds_commands s) k w"
proof (induction xs arbitrary: s)
  case (Cons x xs)
  obtain e c p where x: "x = (e, c, p)" by (cases x)
  let ?s = "confirm_property now item x s"
  have cmds: "ds_commands ?s = snd (snd (confirm_value now (dev_ID item) e c (pd_ID (prop_Definition p)) (prop_Value p) (ds_commands s)))"
    by (simp add: x case_prod_beta Let_def)
  have "tracker_inv (ds_commands ?s)" using fold_confirm_inv [OF Cons.prems(1), of now item "[x]"] by simp
  then have "awaited (ds_commands ?s) k w" using Cons.IH [of ?s] Cons.prems(2) by simp
  then show ?case unfolding cmds by (rule confirm_awaited(2) [OF tracker_invD [OF Cons.prems(1)]])
qed simp

lemma fold_confirm_done:
  "tracker_inv (ds_commands s) \<Longrightarrow> (e, c, p) \<in> set xs \<Longrightarrow> \<not> awaited (ds_commands (fold (confirm_property now item) xs s))
     (pendingKey (dev_ID item) e c (pd_ID (prop_Definition p))) (prop_Value p)"
proof (induction xs arbitrary: s)
  case (Cons x xs)
  let ?s = "confirm_property now item x s"
  have inv: "tracker_inv (ds_commands ?s)" using fold_confirm_inv [OF Cons.prems(1), of now item "[x]"] by simp
  from Cons.prems(2) consider "x = (e, c, p)" | "(e, c, p) \<in> set xs" by auto
  then show ?case
  proof cases
    case 1
    have "ds_commands ?s = snd (snd (confirm_value now (dev_ID item) e c (pd_ID (prop_Definition p)) (prop_Value p) (ds_commands s)))"
      by (simp add: 1 case_prod_beta Let_def)
    then have "\<not> awaited (ds_commands ?s) (pendingKey (dev_ID item) e c (pd_ID (prop_Definition p))) (prop_Value p)"
      using confirm_awaited(1) [OF tracker_invD [OF Cons.prems(1)]] by simp
    then show ?thesis using fold_confirm_keeps [OF inv] by (metis fold_simps(2))
  next
    case 2
    then show ?thesis using Cons.IH [OF inv] by simp
  qed
qed simp

lemma store_apply_get:
  "get_state k (store_apply_property item t u o1 tr (e, c, p) st) = get_state k st \<or> k = property_key item e c p \<and>
     get_state k (store_apply_property item t u o1 tr (e, c, p) st) \<noteq> None"
proof (cases "state_payload_of (prop_Value p)")
  case (Some payload)
  have key: "sv_Key (snapshot_value item t u o1 tr e c p payload) = property_key item e c p"
    by (simp add: snapshot_value_def Let_def)
  show ?thesis
    by (rule apply_state_cases [of "snapshot_value item t u o1 tr e c p payload" st]) (auto simp: Some Let_def key)
qed simp

lemma store_apply_known:
  "state_payload_of (prop_Value p) \<noteq> None \<Longrightarrow> get_state (property_key item e c p) (store_apply_property item t u o1 tr (e, c, p) st) \<noteq> None"
proof -
  assume "state_payload_of (prop_Value p) \<noteq> None"
  then obtain payload where Some: "state_payload_of (prop_Value p) = Some payload" by blast
  have key: "sv_Key (snapshot_value item t u o1 tr e c p payload) = property_key item e c p"
    by (simp add: snapshot_value_def Let_def)
  show ?thesis
    by (rule apply_state_cases [of "snapshot_value item t u o1 tr e c p payload" st]) (auto simp: Some Let_def key)
qed

lemma store_ensure_get:
  "get_state k (store_ensure_property now item r tr (e, c, p) st) = get_state k st \<or> k = property_key item e c p"
  "get_state (property_key item e c p) (store_ensure_property now item r tr (e, c, p) st) \<noteq> None"
  by (auto simp: ensureUnknown_def unknown_value_def Let_def get_state_def [symmetric] split: option.splits)

text \<open>A loop over properties keeps what is there and only touches its own device.\<close>

lemma fold_apply_get:
  "key_DeviceID k \<noteq> dev_ID item \<Longrightarrow> get_state k (fold (store_apply_property item t u o1 tr) xs st) = get_state k st"
  "get_state k st \<noteq> None \<Longrightarrow> get_state k (fold (store_apply_property item t u o1 tr) xs st) \<noteq> None"
  "(e, c, p) \<in> set xs \<Longrightarrow> state_payload_of (prop_Value p) \<noteq> None \<Longrightarrow>
     get_state (property_key item e c p) (fold (store_apply_property item t u o1 tr) xs st) \<noteq> None"
proof -
  have dev: "key_DeviceID k \<noteq> dev_ID item \<Longrightarrow> get_state k (store_apply_property item t u o1 tr x st) = get_state k st" for x st
    using store_apply_get [of k item t u o1 tr "fst x" "fst (snd x)" "snd (snd x)" st] by (auto simp: property_key_def)
  show "key_DeviceID k \<noteq> dev_ID item \<Longrightarrow> get_state k (fold (store_apply_property item t u o1 tr) xs st) = get_state k st"
    by (induction xs arbitrary: st) (simp_all add: dev)
  have keep1: "get_state k st \<noteq> None \<Longrightarrow> get_state k (store_apply_property item t u o1 tr x st) \<noteq> None" for k x st
    using store_apply_get [of k item t u o1 tr "fst x" "fst (snd x)" "snd (snd x)" st] by auto
  show keep: "get_state k st \<noteq> None \<Longrightarrow> get_state k (fold (store_apply_property item t u o1 tr) xs st) \<noteq> None" for k xs st
    by (rule fold_inv [of "\<lambda>st. get_state k st \<noteq> None"]) (rule keep1)
  show "(e, c, p) \<in> set xs \<Longrightarrow> state_payload_of (prop_Value p) \<noteq> None \<Longrightarrow>
      get_state (property_key item e c p) (fold (store_apply_property item t u o1 tr) xs st) \<noteq> None"
  proof (induction xs arbitrary: st)
    case (Cons x xs)
    then show ?case using keep [OF store_apply_known [OF Cons.prems(2)]] by auto
  qed simp
qed

lemma fold_ensure_get:
  "key_DeviceID k \<noteq> dev_ID item \<Longrightarrow> get_state k (fold (store_ensure_property now item r tr) xs st) = get_state k st"
  "(e, c, p) \<in> set xs \<Longrightarrow> get_state (property_key item e c p) (fold (store_ensure_property now item r tr) xs st) \<noteq> None"
proof -
  have step: "get_state k (store_ensure_property now item r tr x st) = get_state k st \<or>
      k = property_key item (fst x) (fst (snd x)) (snd (snd x))" for k x st
    using store_ensure_get(1) [of k now item r tr "fst x" "fst (snd x)" "snd (snd x)" st] by simp
  have dev: "key_DeviceID k \<noteq> dev_ID item \<Longrightarrow> get_state k (store_ensure_property now item r tr x st) = get_state k st" for x st
    using step [of k x st] by (auto simp: property_key_def)
  show "key_DeviceID k \<noteq> dev_ID item \<Longrightarrow> get_state k (fold (store_ensure_property now item r tr) xs st) = get_state k st"
    by (induction xs arbitrary: st) (simp_all add: dev)
  have keep1: "get_state k st \<noteq> None \<Longrightarrow> get_state k (store_ensure_property now item r tr x st) \<noteq> None" for k x st
    using step [of k x st] store_ensure_get(2) [of item "fst x" "fst (snd x)" "snd (snd x)" now r tr st] by (cases x) auto
  have keep: "get_state k st \<noteq> None \<Longrightarrow> get_state k (fold (store_ensure_property now item r tr) xs st) \<noteq> None" for k xs st
    by (rule fold_inv [of "\<lambda>st. get_state k st \<noteq> None"]) (rule keep1)
  show "(e, c, p) \<in> set xs \<Longrightarrow> get_state (property_key item e c p) (fold (store_ensure_property now item r tr) xs st) \<noteq> None"
  proof (induction xs arbitrary: st)
    case (Cons x xs)
    then show ?case using keep [OF store_ensure_get(2)] by auto
  qed simp
qed

lemma snapshot_item_metric [simp]: "snapshot_item item (add_metric u n s) = snapshot_item item s"
  by (simp add: snapshot_item_def keep_camera_availability_def isDeviceDisabled_def)

lemma marked_unavailable:
  "get_state k (snd (markDeviceUnavailable d reason ts st)) = Some v \<Longrightarrow> key_DeviceID k = d \<Longrightarrow>
     \<not> sv_Available v \<and> sv_UnavailableReason v = reason \<and> sv_PendingCommandID v = [] \<or>
     \<not> sv_Available v \<and> sv_UnavailableReason v = reason \<and> get_state k st = Some v"
  unfolding markDeviceUnavailable_get by (auto simp: unavailable_value_def Let_def split: option.splits if_splits)

section \<open>Properties\<close>

text \<open>C21. A snapshot that is not newer is ignored: an online snapshot whose sequence number is at most the last
  accepted one of its device changes neither registry, states, commands nor sequences, and nothing is published.\<close>

theorem stale_snapshot_ignored:
  assumes "project item0 = Inr mapped" and "item = snapshot_item mapped s" and "isOnline item"
    and "gm_get (ds_snapshotSeq s) (dev_ID item) = Some n" and "0 < dev_Sequence item" and "dev_Sequence item \<le> n"
  shows "ds_registry (handleDeviceSnapshot project now nowCmd item0 traceID origin s) = ds_registry s \<and>
    ds_states (handleDeviceSnapshot project now nowCmd item0 traceID origin s) = ds_states s \<and>
    ds_commands (handleDeviceSnapshot project now nowCmd item0 traceID origin s) = ds_commands s \<and>
    ds_snapshotSeq (handleDeviceSnapshot project now nowCmd item0 traceID origin s) = ds_snapshotSeq s \<and>
    ds_listeners (handleDeviceSnapshot project now nowCmd item0 traceID origin s) = ds_listeners s \<and>
    ds_stateListeners (handleDeviceSnapshot project now nowCmd item0 traceID origin s) = ds_stateListeners s"
proof -
  have "0 < n" using assms(5,6) by (rule less_le_trans)
  then have acc: "acceptSnapshotSequence item (add_metric mt_eventsProcessed_update 1 s) = (False, add_metric mt_eventsProcessed_update 1 s)"
    using assms(4,5,6) by (simp add: acceptSnapshotSequence_def word_gt_0)
  show ?thesis using assms(1,3) acc by (simp add: handleDeviceSnapshot_def Let_def assms(2) [symmetric])
qed


text \<open>C20. An accepted online snapshot reaches the store and the commands: every property with a payload has a state, no
  other device is touched, the registry holds the projected device, and no pending command of the device still waits for
  a value that the snapshot reports.\<close>

theorem online_snapshot_applied:
  assumes "service_ok s" and "project item0 = Inr mapped" and "item = snapshot_item mapped s" and "isOnline item"
    and "fst (acceptSnapshotSequence item s)" and "s' = handleDeviceSnapshot project now nowCmd item0 traceID origin s"
  shows "list_all (\<lambda>(e, c, p).
      (state_payload_of (prop_Value p) = None \<or> get_state (Key (dev_ID item) e c (pd_ID (prop_Definition p))) (ds_states s') \<noteq> None) \<and>
      \<not> awaited (ds_commands s') (pendingKey (dev_ID item) e c (pd_ID (prop_Definition p))) (prop_Value p)) (snapshot_properties item) \<and>
    (\<forall>k. key_DeviceID k \<noteq> dev_ID item \<longrightarrow> get_state k (ds_states s') = get_state k (ds_states s)) \<and>
    registry_get (dev_ID item) (ds_registry s') = Some (normalizeAvailability item)"
proof -
  have acc: "fst (acceptSnapshotSequence item (add_metric mt_eventsProcessed_update 1 s))"
    using assms(5) by (simp add: acceptSnapshotSequence_def Let_def split: if_splits)
  have s': "s' = publishDevice item (fold (confirm_property nowCmd item) (snapshot_properties item)
      (applySnapshot now item traceID origin (store_item item (snd (acceptSnapshotSequence item (add_metric mt_eventsProcessed_update 1 s))))))"
    using assms acc by (auto simp: handleDeviceSnapshot_def Let_def split: prod.splits bool.splits)
  have kept: "\<not> dev_Removed item" using assms(3,4) snapshot_item_rules(2) by blast
  have inv: "tracker_inv (ds_commands (applySnapshot now item traceID origin
      (store_item item (snd (acceptSnapshotSequence item (add_metric mt_eventsProcessed_update 1 s))))))"
    using service_okD(3) [OF assms(1)] by simp
  have "\<not> awaited (ds_commands s') (pendingKey (dev_ID item) e c (pd_ID (prop_Definition p))) (prop_Value p)"
    if "(e, c, p) \<in> set (snapshot_properties item)" for e c p
    using fold_confirm_done [OF inv that] by (simp add: s')
  moreover have "get_state (Key (dev_ID item) e c (pd_ID (prop_Definition p))) (ds_states s') \<noteq> None"
    if "(e, c, p) \<in> set (snapshot_properties item)" "state_payload_of (prop_Value p) \<noteq> None" for e c p
    using fold_apply_get(3) [OF that] by (simp add: s' property_key_def)
  moreover have "get_state k (ds_states s') = get_state k (ds_states s)" if "key_DeviceID k \<noteq> dev_ID item" for k
    using fold_apply_get(1) [OF that] by (simp add: s')
  moreover have "registry_get (dev_ID item) (ds_registry s') = Some (normalizeAvailability item)"
    using kept by (simp add: s' store_item_def registry_upsert_get)
  ultimately show ?thesis unfolding list_all_iff by blast
qed

text \<open>C40. Observation times are sane: whatever time a provider claims, the time a snapshot counts as observed at is at
  most five minutes away from the time it was received.\<close>

theorem observed_time_bounded:
  "\<bar>fst (safeObservedAt item receivedAt origin s) - receivedAt\<bar> \<le> 5 * minute"
  by (auto simp: safeObservedAt_time observed_at_def minute_def)

section \<open>Witnesses\<close>

definition lamp_power :: "bool \<Rightarrow> property" where
  "lamp_power b = sample_property\<lparr>prop_Definition := (prop_Definition sample_property)\<lparr>pd_ID := ''power'', pd_Type := ValueTypeBool\<rparr>,
     prop_Value := BoolValue b\<rparr>"

definition lamp :: "bool \<Rightarrow> availability \<Rightarrow> u64 \<Rightarrow> device" where
  "lamp b av n = sample_device\<lparr>dev_ID := ''lamp'', dev_ProviderID := ''hue'', dev_Availability := av, dev_Online := (av = AvailabilityOnline),
     dev_Sequence := n, dev_Disabled := False, dev_Removed := False, dev_Endpoints := [\<lparr>ep_ID = ''main'', ep_Name = [], ep_Type = [],
       ep_Capabilities = [\<lparr>cap_ID = ''switch'', cap_Type = [], cap_Properties = [lamp_power b], cap_Commands = [], cap_Events = []\<rparr>]\<rparr>]\<rparr>"

lemma lamp_sel [simp]: "dev_ID (lamp b av n) = ''lamp''" "dev_Sequence (lamp b av n) = n" "dev_Availability (lamp b av n) = av"
  "dev_Disabled (lamp b av n) = False" "dev_Removed (lamp b av n) = False" "dev_Online (lamp b av n) = (av = AvailabilityOnline)"
  "snapshot_properties (lamp b av n) = [(''main'', ''switch'', lamp_power b)]"
  by (simp_all add: lamp_def snapshot_properties_def)

lemma lamp_power_sel [simp]: "prop_Value (lamp_power b) = BoolValue b" "pd_ID (prop_Definition (lamp_power b)) = ''power''"
  "state_payload_of (BoolValue b) = Some (BoolStateValue b)"
  by (simp_all add: lamp_power_def state_payload_of_def BoolValue_def)

lemma service_ok_new: "service_ok (new_service priority)"
proof -
  have "tracker_inv (newTracker timeout)" for timeout
    by (simp add: newTracker_def tracker_inv_def tracker_ok_def pend_rel_def idem_rel_def finished_def)
  then show ?thesis
    by (simp add: service_ok_def new_service_def registry_new_inv bounded_queues_def disabled_offline_def isDeviceDisabled_def
        newStore_def store_inv_def get_state_def)
qed

lemma lamp_item: "snapshot_item (lamp b av n) (new_service None) = lamp b av n" if "\<And>x. av \<noteq> AvailabilityOther x"
  using that by (cases av) (auto simp: snapshot_item_def keep_camera_availability_def new_service_def newDeviceRegistry_def registry_get_def
      isDeviceDisabled_def normalizeAvailability_def setAvailability_def effectiveAvailability_def intro!: device.equality)

definition lamp_seen :: service where
  "lamp_seen = (new_service None)\<lparr>ds_snapshotSeq := [(''lamp'', 5)]\<rparr>"

lemma lamp_seen_item: "snapshot_item (lamp True AvailabilityOnline 3) lamp_seen = lamp True AvailabilityOnline 3"
  using lamp_item [of AvailabilityOnline True 3]
  by (simp add: lamp_seen_def snapshot_item_def keep_camera_availability_def isDeviceDisabled_def)

theorem stale_snapshot_ignored_witness:
  "ds_states (handleDeviceSnapshot Inr 7 7 (lamp True AvailabilityOnline 3) [] OriginProviderEvent lamp_seen) = ds_states lamp_seen"
proof -
  have "isOnline (lamp True AvailabilityOnline 3)" by (simp add: isOnline_def effectiveAvailability_def)
  moreover have "gm_get (ds_snapshotSeq lamp_seen) (dev_ID (lamp True AvailabilityOnline 3)) = Some 5" by (simp add: lamp_seen_def)
  moreover have "0 < dev_Sequence (lamp True AvailabilityOnline 3)" "dev_Sequence (lamp True AvailabilityOnline 3) \<le> 5" by simp_all
  ultimately show ?thesis
    using stale_snapshot_ignored [where project = Inr, OF refl lamp_seen_item [symmetric]] by blast
qed


theorem online_snapshot_applied_witness:
  "get_state (Key ''lamp'' ''main'' ''switch'' ''power'')
     (ds_states (handleDeviceSnapshot Inr 7 7 (lamp True AvailabilityOnline 3) [] OriginProviderEvent (new_service None))) \<noteq> None"
proof -
  have on: "isOnline (lamp True AvailabilityOnline 3)" by (simp add: isOnline_def effectiveAvailability_def)
  have item: "lamp True AvailabilityOnline 3 = snapshot_item (lamp True AvailabilityOnline 3) (new_service None)" by (simp add: lamp_item)
  have acc: "fst (acceptSnapshotSequence (lamp True AvailabilityOnline 3) (new_service None))"
    by (simp add: acceptSnapshotSequence_def new_service_def)
  from online_snapshot_applied [where project = Inr, OF service_ok_new refl item on acc refl] show ?thesis by simp
qed

end
