(* ===== verification/Device_Commands.thy ===== *)
theory Device_Commands
  imports Device_Service
begin

text \<open>
  Writing properties and executing commands, \<open>ExecuteProperty\<close> and \<open>ExecuteCommand\<close> of
  \<open>internal/application/device_service.go\<close>, over the service of \<open>Device_Service\<close>.

  A call is cut where it waits: it validates and opens or joins an operation, waits for the queue
  of the device (\<open>Command_Coordinator\<close>), prepares the write, waits for the provider, completes, and
  closes the operation. Between the pieces any other handler and any other call may run. An
  operation is a heap object named by its position; \<open>propertyOps\<close> holds the current one of a key.

  Arguments: the clock readings, the identifier that the tracker draws for a new command, the
  route to the provider property (\<open>mapProperty\<close>, \<open>resolvePropertyPath\<close> and \<open>alignProviderEnumValue\<close>:
  an error, or the provider path and value), whether there is a writer, what it answers, whether
  it acknowledges writes, the text of an error, and the projection of a snapshot. Scheduling
  readbacks starts goroutines whose reads are steps of their own (\<open>reconcileReadProperty\<close>).
\<close>

declare map_of_eq_Some_iff [simp del] Some_eq_map_of_iff [simp del]

section \<open>Operations on properties\<close>

record property_operation =
  op_expected :: property_value
  op_cancelled :: bool
  op_done :: bool
  op_command :: command
  op_item :: "device option"
  op_err :: "service_error option"
  op_coalesced :: u64

record command_service =
  cs_service :: service
  cs_propertyOps :: "(state_key, nat) gomap"
  cs_ops :: "property_operation list"

type_synonym write_result = "device option \<times> command \<times> service_error option"

definition on_service :: "(service \<Rightarrow> service) \<Rightarrow> command_service \<Rightarrow> command_service" where
  "on_service f cs = cs\<lparr>cs_service := f (cs_service cs)\<rparr>"

definition update_op :: "nat \<Rightarrow> (property_operation \<Rightarrow> property_operation) \<Rightarrow> command_service \<Rightarrow> command_service" where
  "update_op i f cs = cs\<lparr>cs_ops := (cs_ops cs)[i := f (cs_ops cs ! i)]\<rparr>"

definition set_commands :: "tracker \<Rightarrow> service \<Rightarrow> service" where
  "set_commands t s = s\<lparr>ds_commands := t\<rparr>"

definition validatePropertyWrite :: "string \<Rightarrow> string \<Rightarrow> string \<Rightarrow> string \<Rightarrow> property_value \<Rightarrow> service \<Rightarrow> service_error option" where
  "validatePropertyWrite deviceID endpointID capabilityID propertyID value s =
     (case registry_get deviceID (ds_registry s) of
        None \<Rightarrow> Some ErrDeviceNotFound
      | Some item \<Rightarrow>
          if dev_Disabled item \<or> dev_Removed item then Some ErrDeviceDisabled
          else (case device_property item endpointID capabilityID propertyID of
                  None \<Rightarrow> Some ErrPropertyUnsupported
                | Some p \<Rightarrow>
                    if \<not> pd_Writable (prop_Definition p) then Some ErrPropertyUnsupported
                    else map_option ErrPropertyInvalid (property_validate (p\<lparr>prop_Value := value\<rparr>))))"

text \<open>\<open>ResolveOptimistic\<close> and the publication of what it changed.\<close>

definition resolve_and_publish :: "string \<Rightarrow> state_value option \<Rightarrow> service \<Rightarrow> service" where
  "resolve_and_publish commandID fallback s =
     (let ((restored, changed), states) = resolveOptimistic commandID fallback (ds_states s);
          s = s\<lparr>ds_states := states\<rparr>
      in if changed then publishState restored s else s)"

definition rollbackOptimistic :: "string \<Rightarrow> state_value option \<Rightarrow> service \<Rightarrow> service" where
  "rollbackOptimistic commandID previous s = resolve_and_publish commandID previous s"

definition new_operation :: "property_value \<Rightarrow> property_operation" where
  "new_operation value =
     \<lparr>op_expected = value, op_cancelled = False, op_done = False, op_command = zero_command, op_item = None, op_err = None, op_coalesced = 0\<rparr>"

definition open_operation :: "state_key \<Rightarrow> property_value \<Rightarrow> command_service \<Rightarrow> nat \<times> command_service" where
  "open_operation key value cs =
     (length (cs_ops cs),
      cs\<lparr>cs_ops := cs_ops cs @ [new_operation value], cs_propertyOps := gm_put key (length (cs_ops cs)) (cs_propertyOps cs)\<rparr>)"

definition beginPropertyOperation ::
  "time \<Rightarrow> state_key \<Rightarrow> property_value \<Rightarrow> command_service \<Rightarrow> (nat \<times> bool) \<times> command_service" where
  "beginPropertyOperation now key value cs =
     (case gm_get (cs_propertyOps cs) key of
        None \<Rightarrow> (let (i, cs) = open_operation key value cs in ((i, False), cs))
      | Some o0 \<Rightarrow>
          (let existing = cs_ops cs ! o0; commandID = cmd_ID (op_command existing)
           in if value_equal (op_expected existing) value
              then let cs = update_op o0 (\<lambda>operation. operation\<lparr>op_coalesced := op_coalesced operation + 1\<rparr>) cs;
                       cs = on_service (add_metric mt_commandsCoalesced_update 1) cs;
                       cs = (if commandID \<noteq> []
                             then on_service (\<lambda>s. set_commands (snd (snd (addCoalesced now commandID 1 (ds_commands s)))) s) cs
                             else cs)
                   in ((o0, True), cs)
              else let ((current, changed), _, commands) =
                         (if commandID \<noteq> []
                          then supersede now commandID ''replaced by a newer property write'' (ds_commands (cs_service cs))
                          else ((zero_command, False), [], ds_commands (cs_service cs)));
                       cs = on_service (set_commands commands) cs;
                       cs = update_op o0 (\<lambda>operation. operation\<lparr>op_cancelled := True\<rparr>) cs;
                       (i, cs) = open_operation key value cs;
                       cs = (if changed
                             then on_service (\<lambda>s. resolve_and_publish (cmd_ID current) None (add_metric mt_commandsSuperseded_update 1 s)) cs
                             else cs)
                   in ((i, False), cs)))"

definition setPropertyOperationCommand :: "time \<Rightarrow> state_key \<Rightarrow> nat \<Rightarrow> command \<Rightarrow> command_service \<Rightarrow> bool \<times> command_service" where
  "setPropertyOperationCommand now key i command cs =
     (let cs = update_op i (\<lambda>operation. operation\<lparr>op_command := command\<rparr>) cs;
          active = (gm_get (cs_propertyOps cs) key = Some i);
          coalesced = op_coalesced (cs_ops cs ! i)
      in if coalesced > 0
         then let ((updated, ok), _, commands) = addCoalesced now (cmd_ID command) coalesced (ds_commands (cs_service cs));
                  cs = on_service (set_commands commands) cs
              in (active, if ok then update_op i (\<lambda>operation. operation\<lparr>op_command := updated\<rparr>) cs else cs)
         else (active, cs))"

definition finishPropertyOperation :: "time \<Rightarrow> state_key \<Rightarrow> nat \<Rightarrow> write_result \<Rightarrow> command_service \<Rightarrow> write_result \<times> command_service" where
  "finishPropertyOperation now key i result cs =
     (let (item, command, err) = result;
          (found, commands) = (if cmd_ID command \<noteq> [] then get_command now (cmd_ID command) (ds_commands (cs_service cs))
                               else (None, ds_commands (cs_service cs)));
          cs = on_service (set_commands commands) cs;
          (command, err) = (case found of
             None \<Rightarrow> (command, err)
           | Some current \<Rightarrow> (current, if cmd_Status current = StatusSuperseded then Some ErrCommandSuperseded else err));
          cs = update_op i (\<lambda>operation. operation\<lparr>op_item := item, op_command := command, op_err := err, op_cancelled := True, op_done := True\<rparr>) cs;
          cs = (if gm_get (cs_propertyOps cs) key = Some i then cs\<lparr>cs_propertyOps := gm_del key (cs_propertyOps cs)\<rparr> else cs)
      in ((item, command, err), cs))"

section \<open>Writing a property\<close>

definition applyOptimisticState :: "state_key \<Rightarrow> property_value \<Rightarrow> command \<Rightarrow> state_value option \<Rightarrow> service \<Rightarrow> service" where
  "applyOptimisticState key value command previous s =
     (case state_payload_of value of
        None \<Rightarrow> s
      | Some payload \<Rightarrow>
          (let traceID = (if cmd_CorrelationID command = [] then cmd_ID command else cmd_CorrelationID command);
               optimistic = zero_state_value\<lparr>sv_Key := key,
                 sv_ProviderID := (case previous of None \<Rightarrow> ''command'' | Some p \<Rightarrow> sv_ProviderID p),
                 sv_Source := SourceOptimistic, sv_Quality := QualityOptimistic, sv_ObservedAt := cmd_CreatedAt command,
                 sv_ReceivedAt := cmd_CreatedAt command, sv_ExpiresAt := cmd_Deadline command, sv_TraceID := traceID,
                 sv_PendingCommandID := cmd_ID command, sv_Value := payload\<rparr>;
               (applied, states) = applyOptimistic optimistic (ds_states s)
           in publishState applied (s\<lparr>ds_states := states\<rparr>)))"

definition current_command :: "time \<Rightarrow> string \<Rightarrow> service \<Rightarrow> command option \<times> service" where
  "current_command now i s = (let (found, commands) = get_command now i (ds_commands s) in (found, set_commands commands s))"

definition rejectPropertyWrite ::
  "time \<Rightarrow> (service_error \<Rightarrow> string) \<Rightarrow> command \<Rightarrow> state_value option \<Rightarrow> service_error \<Rightarrow> service \<Rightarrow> write_result \<times> service" where
  "rejectPropertyWrite now text command previous err s =
     (let s = set_commands (snd (snd (rejected now (cmd_ID command) (text err) (ds_commands s)))) s;
          s = rollbackOptimistic (cmd_ID command) previous s;
          s = add_metric mt_commandsRejected_update 1 s;
          (found, s) = current_command now (cmd_ID command) s
      in ((None, case found of None \<Rightarrow> zero_command | Some c \<Rightarrow> c, Some err), s))"

text \<open>What the preparation of a write leads to: a result, or a write of the provider to wait for.\<close>

datatype prepared = Finished write_result
  | Write (wr_command: command) (wr_previous: "state_value option") (wr_path: "string \<times> string \<times> string") (wr_value: property_value)

text \<open>The part from the optimistic state to the call of the provider.\<close>

definition start_write ::
  "time \<Rightarrow> (service_error \<Rightarrow> string) \<Rightarrow> bool \<Rightarrow> (device \<Rightarrow> service_error + (string \<times> string \<times> string) \<times> property_value) \<Rightarrow>
     state_key \<Rightarrow> property_value \<Rightarrow> command \<Rightarrow> state_value option \<Rightarrow> service \<Rightarrow> prepared \<times> service" where
  "start_write now text writer route key value command previous s =
     (let s = add_metric mt_commandsStarted_update 1 s;
          s = applyOptimisticState key value command previous s;
          s = set_commands (snd (snd (sent now (cmd_ID command) (ds_commands s)))) s;
          reject = (\<lambda>err. let (result, s) = rejectPropertyWrite now text command previous err s in (Finished result, s))
      in if \<not> writer then reject ErrPropertyUnsupported
         else case registry_get (key_DeviceID key) (ds_registry s) of
                None \<Rightarrow> reject ErrDeviceNotFound
              | Some registered \<Rightarrow>
                  (case route registered of
                     Inl err \<Rightarrow> reject err
                   | Inr (path, providerValue) \<Rightarrow> (Write command previous path providerValue, s)))"

definition prepare_property ::
  "time \<Rightarrow> time \<Rightarrow> string \<Rightarrow> string \<Rightarrow> (service_error \<Rightarrow> string) \<Rightarrow> bool \<Rightarrow>
     (device \<Rightarrow> service_error + (string \<times> string \<times> string) \<times> property_value) \<Rightarrow>
     state_key \<Rightarrow> property_value \<Rightarrow> nat \<Rightarrow> command_service \<Rightarrow> prepared \<times> command_service" where
  "prepare_property begun now newID correlationID text writer route key value i cs0 =
     (let previous = get_state key (ds_states (cs_service cs0));
          ((command, superseded, replayed), _, commands) =
            beginPropertyCorrelated begun newID (key_DeviceID key) (key_EndpointID key) (key_CapabilityID key) (key_PropertyID key)
              value correlationID (ds_commands (cs_service cs0));
          (active, cs) = setPropertyOperationCommand now key i command (on_service (set_commands commands) cs0)
      in if \<not> active
         then let cs = on_service (add_metric mt_commandsStarted_update 1) cs;
                  ((current, changed), _, commands) =
                    supersede now (cmd_ID command) ''replaced before provider execution'' (ds_commands (cs_service cs));
                  cs = on_service (set_commands commands) cs;
                  cs = (if changed then on_service (add_metric mt_commandsSuperseded_update 1) cs else cs)
              in (Finished (None, current, Some ErrCommandSuperseded), cs)
         else if replayed
         then let cs = on_service (add_metric mt_commandsCoalesced_update 1) cs
              in (case registry_get (key_DeviceID key) (ds_registry (cs_service cs)) of
                    None \<Rightarrow> (Finished (None, command, Some ErrDeviceNotFound), cs)
                  | Some item \<Rightarrow> (Finished (Some item, command, None), cs))
         else let (previous, cs) =
                    (case superseded of
                       None \<Rightarrow> (previous, cs)
                     | Some old \<Rightarrow>
                         (let cs = on_service (\<lambda>s. resolve_and_publish (cmd_ID old) None (add_metric mt_commandsSuperseded_update 1 s)) cs
                          in (get_state key (ds_states (cs_service cs)), cs)));
                  (result, s) = start_write now text writer route key value command previous (cs_service cs)
              in (result, cs\<lparr>cs_service := s\<rparr>))"

text \<open>
  After the provider has answered: \<open>Inl\<close> the error, \<open>Inr\<close> the snapshot it returns. \<open>confirms\<close>: the
  writer acknowledges this write.
\<close>

definition accept_write ::
  "time \<Rightarrow> time \<Rightarrow> (device \<Rightarrow> string + device) \<Rightarrow> bool \<Rightarrow> device \<Rightarrow> command \<Rightarrow> service \<Rightarrow> write_result \<times> service" where
  "accept_write now nowState project confirms item0 command s =
     (let s = set_commands (snd (snd (accepted now (cmd_ID command) (ds_commands s)))) s;
          item = (case project item0 of Inr mapped \<Rightarrow> mapped | Inl _ \<Rightarrow> item0);
          s = (if confirms
               then let s = handleDeviceSnapshot project nowState now item (cmd_CorrelationID command) OriginProviderEvent s;
                        (ok, _, commands) = confirmed now (cmd_ID command) (ds_commands s);
                        s = set_commands commands s
                    in if ok then add_metric mt_commandsConfirmed_update 1 s else s
               else s);
          (found, s) = current_command now (cmd_ID command) s
      in ((Some item, case found of None \<Rightarrow> zero_command | Some c \<Rightarrow> c, None), s))"

definition complete_write ::
  "time \<Rightarrow> time \<Rightarrow> (service_error \<Rightarrow> string) \<Rightarrow> (device \<Rightarrow> string + device) \<Rightarrow> bool \<Rightarrow> service_error + device \<Rightarrow>
     command \<Rightarrow> state_value option \<Rightarrow> service \<Rightarrow> write_result \<times> service" where
  "complete_write now nowState text project confirms outcome command previous s0 =
     (let (found, s) = current_command now (cmd_ID command) s0;
          current = (case found of None \<Rightarrow> zero_command | Some c \<Rightarrow> c)
      in if found \<noteq> None \<and> cmd_Status current = StatusSuperseded
         then ((None, current, Some ErrCommandSuperseded), rollbackOptimistic (cmd_ID command) previous s)
         else case outcome of
                Inl err \<Rightarrow> rejectPropertyWrite now text command previous err s
              | Inr item0 \<Rightarrow> accept_write now nowState project confirms item0 command s)"

section \<open>Executing a command\<close>

record command_request =
  rq_DeviceID :: string
  rq_EndpointID :: string
  rq_CapabilityID :: string
  rq_CommandID :: string
  rq_Parameters :: "(string, property_value) gomap"
  rq_IdempotencyKey :: string

definition valueMatchesType :: "property_value \<Rightarrow> value_type \<Rightarrow> bool" where
  "valueMatchesType value expected =
     (if pv_Type value \<noteq> expected \<or> \<not> hasSinglePayload value then False
      else (expected = ValueTypeBool \<and> pv_Bool value \<noteq> None) \<or> (expected = ValueTypeInt \<and> pv_Int value \<noteq> None) \<or>
        (expected = ValueTypeNumber \<and> pv_Number value \<noteq> None) \<or>
        ((expected = ValueTypeString \<or> expected = ValueTypeEnum) \<and> pv_String value \<noteq> None))"

text \<open>The three nested loops that look for the definition of the command.\<close>

definition find_command :: "device \<Rightarrow> string \<Rightarrow> string \<Rightarrow> string \<Rightarrow> command_definition option" where
  "find_command item endpointID capabilityID commandID =
     find (\<lambda>d. cd_ID d = commandID)
       (concat (map cap_Commands (filter (\<lambda>c. cap_ID c = capabilityID)
         (concat (map ep_Capabilities (filter (\<lambda>e. ep_ID e = endpointID) (dev_Endpoints item)))))))"

definition parameters_ok :: "command_parameter list \<Rightarrow> (string, property_value) gomap \<Rightarrow> bool" where
  "parameters_ok declared parameters \<longleftrightarrow>
     list_all (\<lambda>p. \<not> par_Required p \<or> gm_get parameters (par_ID p) \<noteq> None) declared \<and>
     list_all (\<lambda>(i, value). case find (\<lambda>p. par_ID p = i) (rev declared) of None \<Rightarrow> False | Some p \<Rightarrow> valueMatchesType value (par_Type p)) parameters"

definition validateCommand :: "command_request \<Rightarrow> service \<Rightarrow> service_error option" where
  "validateCommand request s =
     (case registry_get (rq_DeviceID request) (ds_registry s) of
        None \<Rightarrow> Some ErrDeviceNotFound
      | Some item \<Rightarrow>
          if dev_Disabled item \<or> dev_Removed item then Some ErrDeviceDisabled
          else (case find_command item (rq_EndpointID request) (rq_CapabilityID request) (rq_CommandID request) of
                  None \<Rightarrow> Some ErrCommandUnsupported
                | Some d \<Rightarrow> if parameters_ok (cd_Parameters d) (rq_Parameters request) then None else Some ErrCommandInvalid))"

definition check_command :: "command_request \<Rightarrow> service \<Rightarrow> service_error option" where
  "check_command request s = (if length (rq_IdempotencyKey request) > 128 then Some ErrCommandInvalid else validateCommand request s)"

definition rejectCommand :: "time \<Rightarrow> (service_error \<Rightarrow> string) \<Rightarrow> command \<Rightarrow> service_error \<Rightarrow> service \<Rightarrow> write_result \<times> service" where
  "rejectCommand now text command err s =
     (let s = set_commands (snd (snd (rejected now (cmd_ID command) (text err) (ds_commands s)))) s;
          s = add_metric mt_commandsRejected_update 1 s;
          (found, s) = current_command now (cmd_ID command) s
      in ((None, case found of None \<Rightarrow> zero_command | Some c \<Rightarrow> c, Some err), s))"

datatype started_action = ActionFinished write_result | ActionSent command

text \<open>After the queue was acquired; \<open>executor\<close>: the provider executes commands at all.\<close>

definition start_action ::
  "time \<Rightarrow> time \<Rightarrow> string \<Rightarrow> string \<Rightarrow> (service_error \<Rightarrow> string) \<Rightarrow> bool \<Rightarrow> command_request \<Rightarrow> service \<Rightarrow> started_action \<times> service" where
  "start_action begun now newID correlationID text executor request s =
     (case beginActionIdempotentCorrelated begun newID (rq_DeviceID request) (rq_EndpointID request) (rq_CapabilityID request)
             (rq_CommandID request) (rq_Parameters request) (rq_IdempotencyKey request) correlationID (ds_commands s) of
        (Inl _, _, commands) \<Rightarrow> (ActionFinished (None, zero_command, Some ErrIdempotency), set_commands commands s)
      | (Inr (command, replayed), _, commands) \<Rightarrow>
          (let s = set_commands commands s
           in if replayed
              then (case registry_get (rq_DeviceID request) (ds_registry s) of
                      None \<Rightarrow> (ActionFinished (None, command, Some ErrDeviceNotFound), s)
                    | Some item \<Rightarrow> (ActionFinished (Some item, command, None), s))
              else let s = add_metric mt_commandsStarted_update 1 s;
                       s = set_commands (snd (snd (sent now (cmd_ID command) (ds_commands s)))) s
                   in if \<not> executor
                      then let (result, s) = rejectCommand now text command ErrCommandUnsupported s in (ActionFinished result, s)
                      else (ActionSent command, s)))"

definition complete_action ::
  "time \<Rightarrow> (service_error \<Rightarrow> string) \<Rightarrow> (device \<Rightarrow> string + device) \<Rightarrow> service_error + device \<Rightarrow> command \<Rightarrow> service \<Rightarrow> write_result \<times> service" where
  "complete_action now text project outcome command s =
     (case outcome of
        Inl err \<Rightarrow> rejectCommand now text command err s
      | Inr item0 \<Rightarrow>
          (let item = (case project item0 of Inr mapped \<Rightarrow> mapped | Inl _ \<Rightarrow> item0);
               s = s\<lparr>ds_registry := registry_upsert item (ds_registry s)\<rparr>;
               (ok, _, commands) = confirmed now (cmd_ID command) (ds_commands s);
               s = set_commands commands s;
               s = (if ok then add_metric mt_commandsConfirmed_update 1 s else s);
               (found, s) = current_command now (cmd_ID command) s
           in ((Some item, case found of None \<Rightarrow> zero_command | Some c \<Rightarrow> c, None), s)))"

section \<open>Who owns an optimistic value\<close>

text \<open>The command that the value at a key waits for, \<open>[]\<close> when there is none.\<close>

definition owner :: "state_store \<Rightarrow> state_key \<Rightarrow> string" where
  "owner st k = (case get_state k st of None \<Rightarrow> [] | Some v \<Rightarrow> sv_PendingCommandID v)"

definition owners_kept :: "state_store \<Rightarrow> state_store \<Rightarrow> bool" where
  "owners_kept st st' \<longleftrightarrow> (\<forall>k. owner st' k = [] \<or> owner st' k = owner st k)"

lemma owners_kept_refl [simp]: "owners_kept st st"
  by (simp add: owners_kept_def)

lemma owners_kept_trans: "owners_kept st st1 \<Longrightarrow> owners_kept st1 st2 \<Longrightarrow> owners_kept st st2"
  unfolding owners_kept_def by metis

lemma owners_kept_put: "sv_PendingCommandID v = [] \<Longrightarrow> owners_kept st (store_put v st)"
  by (simp add: owners_kept_def owner_def)

lemma owners_kept_fold: "(\<And>x st. owners_kept st (f x st)) \<Longrightarrow> owners_kept st (fold f xs st)"
  by (induction xs arbitrary: st) (auto intro: owners_kept_trans)

lemma owners_kept_apply: "owners_kept st (store_apply_property item t u o1 tr x st)"
proof (cases x)
  case (fields e c p)
  have "owners_kept st (snd (apply_state (snapshot_value item t u o1 tr e c p payload) st))" for payload
    by (rule apply_state_cases [of "snapshot_value item t u o1 tr e c p payload" st])
      (simp_all add: Let_def owners_kept_put snapshot_value_def zero_state_value_def)
  then show ?thesis by (simp add: fields split: option.split)
qed

lemma owners_kept_ensure: "owners_kept st (store_ensure_property now item r tr x st)"
  by (cases x) (simp add: ensureUnknown_def Let_def owners_kept_put unknown_value_def zero_state_value_def split: option.split)

lemma owners_kept_sweep:
  assumes "\<And>k v v'. f k v = Some v' \<Longrightarrow> sv_PendingCommandID v' = []"
  shows "owners_kept st (st\<lparr>st_values := fst (gm_sweep f (st_values st))\<rparr>)"
  using assms by (fastforce simp: owners_kept_def owner_def get_state_def gm_sweep_get split: option.split)

lemma owners_kept_marks:
  "owners_kept st (snd (markStale now st))" "owners_kept st (snd (markDeviceUnavailable d r ts st))"
  "owners_kept st (snd (markCapabilityUnavailable d e c r ts st))"
  unfolding markStale_def markDeviceUnavailable_def markCapabilityUnavailable_def case_prod_beta Let_def snd_conv
  by (rule owners_kept_sweep; force simp: unavailable_value_def Let_def split: if_splits)+

lemmas owners_kept_loops = owners_kept_fold [OF owners_kept_apply] owners_kept_fold [OF owners_kept_ensure]

lemmas owners_kept_offline = owners_kept_trans [OF owners_kept_loops(2) owners_kept_marks(2)]

lemma owners_kept_resolve: "owners_kept st (snd (resolveOptimistic i fb st))"
  by (cases rule: resolveOptimistic_cases [of st i fb])
    (auto simp: resolveOptimistic_def Let_def owners_kept_def owner_def get_state_def gm_get_put split: option.split)

section \<open>Everything that can happen to the service\<close>

text \<open>The handlers of \<open>Device_Service\<close>; the projection keeps the identifier of a device.\<close>

inductive handler_step :: "service \<Rightarrow> service \<Rightarrow> bool" where
  on_snapshot: "handler_step s (handleDeviceSnapshot project now nowCmd item tr origin s)"
| on_capability: "handler_step s (handleCapabilityAvailability a tr s)"
| on_removed: "handler_step s (removeFromRegistry i s)"
| on_availability: "handler_step s (snd (reportDeviceAvailability updated now i av s))"
| on_enabled: "project_ok project \<Longrightarrow> handler_step s (snd (setDeviceEnabled project saved discovered now i enabled s))"
| on_read: "handler_step s (reconcileReadProperty nowCmd updated observed now d e c p property tr s)"
| on_tick: "handler_step s (stale_tick now s)"
| on_states: "handler_step s (snd (service_states now d s))"
| on_subscribe: "handler_step s (snd (subscribe_device s))"
| on_subscribe_state: "handler_step s (snd (subscribe_state s))"
| on_take: "handler_step s (snd (take_device n s))"
| on_take_state: "handler_step s (snd (take_state n s))"
| on_unsubscribe: "handler_step s (unsubscribe_device n s)"
| on_unsubscribe_state: "handler_step s (unsubscribe_state n s)"
| on_refresh: "handler_step s (refreshDevices project now nowCmd items tr s)"
| on_load: "ds_disabled s = [] \<Longrightarrow> handler_step s (load_device mapSnapshot now public source s)"
| on_preferences: "handler_step s (load_disabled ids s)"

lemma handler_ok: "handler_step s s' \<Longrightarrow> service_ok s \<Longrightarrow> service_ok s'"
  by (induction rule: handler_step.induct)
    (simp_all add: handleDeviceSnapshot_ok handleCapabilityAvailability_ok removeFromRegistry_ok reportDeviceAvailability_ok
      setDeviceEnabled_ok reconcileReadProperty_ok stale_tick_ok service_states_ok subscriptions_ok refreshDevices_ok load_device_ok load_disabled_ok)

lemma publishMappingError_states [simp]: "ds_states (publishMappingError i cause s) = ds_states s"
  by (simp add: publishMappingError_def Let_def split: option.split)

lemma snapshot_owners: "owners_kept (ds_states s) (ds_states (handleDeviceSnapshot project now nowCmd item0 tr o1 s))"
  by (cases rule: handleDeviceSnapshot_cases [where project = project and ?item0.0 = item0 and now = now and nowCmd = nowCmd and tr = tr and ?o1.0 = o1 and s = s])
    (simp_all add: owners_kept_loops owners_kept_offline)

lemma refresh_owners: "owners_kept (ds_states s) (ds_states (refreshDevices project now nowCmd items tr s))"
  unfolding refreshDevices_def
proof (induction items arbitrary: s)
  case (Cons item items)
  let ?s = "handleDeviceSnapshot project now nowCmd item tr OriginRefresh (resetSnapshotSequence (dev_ID item) s)"
  have "owners_kept (ds_states s) (ds_states ?s)"
    using snapshot_owners [of "resetSnapshotSequence (dev_ID item) s"] by simp
  with Cons.IH [of ?s] show ?case by (auto intro: owners_kept_trans)
qed simp

lemma load_disabled_owners: "owners_kept (ds_states s) (ds_states (load_disabled ids s))"
proof -
  have one: "owners_kept (ds_states s) (ds_states (load_disabled_item i s))" for i s
    by (simp add: load_disabled_item_def owners_kept_marks split: option.split)
  have "owners_kept (ds_states s) (ds_states (fold load_disabled_item ids s))" for s
    by (induction ids arbitrary: s) (auto intro: owners_kept_trans one)
  from this [of "s\<lparr>ds_disabled := fold (\<lambda>i m. gm_put i () m) ids (ds_disabled s)\<rparr>"] show ?thesis by (simp add: load_disabled_def)
qed

lemma enabled_owners: "owners_kept (ds_states s) (ds_states (snd (setDeviceEnabled project saved discovered now i enabled s)))"
  by (auto simp: setDeviceEnabled_def enable_device_def disable_device_def Let_def case_prod_beta
      intro: owners_kept_loops owners_kept_marks owners_kept_offline split: option.split)

lemma handler_owners: "handler_step s s' \<Longrightarrow> owners_kept (ds_states s) (ds_states s')"
proof (induction rule: handler_step.induct)
  case (on_read s nowCmd updated observed now d e c p property tr)
  show ?case by (simp add: reconcileReadProperty_def case_prod_beta Let_def owners_kept_loops split: option.split)
qed (auto simp: snapshot_owners refresh_owners load_disabled_owners enabled_owners handleCapabilityAvailability_def removeFromRegistry_def
    reportDeviceAvailability_def stale_tick_def service_states_def subscribe_device_def subscribe_state_def take_device_def take_state_def
    unsubscribe_device_def unsubscribe_state_def load_device_def case_prod_beta Let_def owners_kept_marks owners_kept_loops split: option.split list.split)

section \<open>The pieces of a call keep the invariant\<close>

lemma set_commands_sel [simp]:
  "ds_registry (set_commands t s) = ds_registry s" "ds_states (set_commands t s) = ds_states s" "ds_commands (set_commands t s) = t"
  "ds_snapshotSeq (set_commands t s) = ds_snapshotSeq s" "ds_disabled (set_commands t s) = ds_disabled s"
  "ds_listeners (set_commands t s) = ds_listeners s" "ds_stateListeners (set_commands t s) = ds_stateListeners s"
  by (simp_all add: set_commands_def)

lemma resolve_sel [simp]:
  "ds_states (resolve_and_publish i fb s) = snd (resolveOptimistic i fb (ds_states s))"
  "ds_registry (resolve_and_publish i fb s) = ds_registry s" "ds_commands (resolve_and_publish i fb s) = ds_commands s"
  "ds_snapshotSeq (resolve_and_publish i fb s) = ds_snapshotSeq s" "ds_disabled (resolve_and_publish i fb s) = ds_disabled s"
  "ds_listeners (resolve_and_publish i fb s) = ds_listeners s"
  by (simp_all add: resolve_and_publish_def case_prod_beta Let_def)

lemma on_service_sel [simp]:
  "cs_service (on_service f cs) = f (cs_service cs)" "cs_ops (on_service f cs) = cs_ops cs"
  "cs_propertyOps (on_service f cs) = cs_propertyOps cs"
  by (simp_all add: on_service_def)

lemma update_op_sel [simp]:
  "cs_service (update_op i f cs) = cs_service cs" "cs_propertyOps (update_op i f cs) = cs_propertyOps cs"
  "length (cs_ops (update_op i f cs)) = length (cs_ops cs)"
  by (simp_all add: update_op_def)

lemma open_operation_sel [simp]:
  "cs_service (snd (open_operation k v cs)) = cs_service cs"
  "cs_ops (snd (open_operation k v cs)) = cs_ops cs @ [new_operation v]" "fst (open_operation k v cs) = length (cs_ops cs)"
  "cs_propertyOps (snd (open_operation k v cs)) = gm_put k (length (cs_ops cs)) (cs_propertyOps cs)"
  by (simp_all add: open_operation_def)

lemma set_commands_ok: "service_ok s \<Longrightarrow> tracker_inv t \<Longrightarrow> service_ok (set_commands t s)"
  by (auto simp: service_ok_def intro: disabled_offline_same)

text \<open>A fallback fits a command: it is a value for the only key that the command can own.\<close>

definition fallback_fits :: "string \<Rightarrow> state_value option \<Rightarrow> state_store \<Rightarrow> bool" where
  "fallback_fits i fb st \<longleftrightarrow> (\<forall>v. fb = Some v \<longrightarrow> i \<noteq> [] \<and> avail_ok v \<and> (\<forall>k. owner st k = i \<longrightarrow> k = sv_Key v))"

lemma fallback_none [simp]: "fallback_fits i None st"
  by (simp add: fallback_fits_def)

lemma fallback_kept: "fallback_fits i fb st \<Longrightarrow> owners_kept st st' \<Longrightarrow> fallback_fits i fb st'"
  unfolding fallback_fits_def owners_kept_def by metis

lemma resolve_store_inv: "store_inv st \<Longrightarrow> fallback_fits i fb st \<Longrightarrow> store_inv (snd (resolveOptimistic i fb st))"
proof (rule resolveOptimistic_inv)
  fix v k x
  assume "fallback_fits i fb st" "fb = Some v" "get_state k st = Some x" "sv_PendingCommandID x = i"
  moreover from this have "owner st k = i" by (simp add: owner_def)
  ultimately show "sv_Key v = k \<and> avail_ok v" by (auto simp: fallback_fits_def)
qed

lemma resolve_ok:
  assumes "service_ok s" and "fallback_fits i fb (ds_states s)"
  shows "service_ok (resolve_and_publish i fb s)"
proof -
  have "bounded_queues (ds_stateListeners (resolve_and_publish i fb s))"
    using service_okD(6) [OF assms(1)] by (simp add: resolve_and_publish_def case_prod_beta Let_def)
  then show ?thesis using service_okD [OF assms(1)] resolve_store_inv [OF _ assms(2)]
    by (auto simp: service_ok_def intro: disabled_offline_same)
qed

lemma current_command_ok: "service_ok s \<Longrightarrow> service_ok (snd (current_command now i s))"
  by (simp add: current_command_def get_command_def Let_def set_commands_ok service_okD(3) expire_inv)

lemma current_command_sel [simp]: "ds_states (snd (current_command now i s)) = ds_states s" "ds_registry (snd (current_command now i s)) = ds_registry s"
  "ds_disabled (snd (current_command now i s)) = ds_disabled s"
  by (simp_all add: current_command_def get_command_def Let_def)

lemma tracker_transitions_inv:
  assumes "tracker_inv t"
  shows "tracker_inv (snd (snd (sent now i t)))" "tracker_inv (snd (snd (accepted now i t)))" "tracker_inv (snd (snd (confirmed now i t)))"
    "tracker_inv (snd (snd (rejected now i err t)))"
  using transition_inv [OF assms] by (simp_all add: sent_def accepted_def confirmed_def rejected_def)

lemmas tracker_steps_inv = tracker_transitions_inv addCoalesced_inv supersede_inv expire_inv

lemma reject_write_states [simp]:
  "ds_states (snd (rejectPropertyWrite now text command previous err s)) = snd (resolveOptimistic (cmd_ID command) previous (ds_states s))"
  by (simp add: rejectPropertyWrite_def rollbackOptimistic_def Let_def case_prod_beta)

lemma reject_write_ok:
  assumes "service_ok s" and "fallback_fits (cmd_ID command) previous (ds_states s)"
  shows "service_ok (snd (rejectPropertyWrite now text command previous err s))"
  using assms
  by (simp add: rejectPropertyWrite_def rollbackOptimistic_def Let_def case_prod_beta current_command_ok resolve_ok set_commands_ok
      tracker_steps_inv service_okD(3))

lemma accept_write_ok: "service_ok s \<Longrightarrow> service_ok (snd (accept_write now nowState project confirms item command s))"
  by (simp add: accept_write_def Let_def case_prod_beta current_command_ok set_commands_ok handleDeviceSnapshot_ok tracker_steps_inv service_okD(3))

lemma accept_write_owners: "owners_kept (ds_states s) (ds_states (snd (accept_write now nowState project confirms item command s)))"
proof -
  let ?s = "set_commands (snd (snd (accepted now (cmd_ID command) (ds_commands s)))) s"
  have "owners_kept (ds_states s) (ds_states (handleDeviceSnapshot project nowState now i tr o1 ?s))" for i tr o1
    using snapshot_owners [of ?s] by simp
  then show ?thesis by (simp add: accept_write_def Let_def case_prod_beta)
qed

lemma complete_write_ok:
  assumes "service_ok s" and "fallback_fits (cmd_ID command) previous (ds_states s)"
  shows "service_ok (snd (complete_write now nowState text project confirms outcome command previous s))"
  using assms
  by (simp add: complete_write_def Let_def case_prod_beta rollbackOptimistic_def resolve_ok current_command_ok reject_write_ok accept_write_ok split: sum.split)

lemma complete_write_owners:
  "owners_kept (ds_states s) (ds_states (snd (complete_write now nowState text project confirms outcome command previous s)))"
proof -
  let ?s = "snd (current_command now (cmd_ID command) s)"
  have "owners_kept (ds_states s) (ds_states (snd (accept_write now nowState project confirms item command ?s)))" for item
    using accept_write_owners [of ?s] by simp
  then show ?thesis
    by (simp add: complete_write_def Let_def case_prod_beta rollbackOptimistic_def owners_kept_resolve split: sum.split)
qed

text \<open>At most the value at one key changes its owner, to one command.\<close>

definition owners_grow :: "state_key \<Rightarrow> string \<Rightarrow> state_store \<Rightarrow> state_store \<Rightarrow> bool" where
  "owners_grow key i st st' \<longleftrightarrow> (\<forall>k. owner st' k = [] \<or> owner st' k = owner st k \<or> k = key \<and> owner st' k = i)"

lemma owners_grow_kept: "owners_grow key i st st1 \<Longrightarrow> owners_kept st1 st2 \<Longrightarrow> owners_grow key i st st2"
  unfolding owners_grow_def owners_kept_def by metis

lemma owners_kept_grow: "owners_kept st st1 \<Longrightarrow> owners_grow key i st1 st2 \<Longrightarrow> owners_grow key i st st2"
  unfolding owners_grow_def owners_kept_def by metis

lemma owners_kept_is_growth: "owners_kept st st' \<Longrightarrow> owners_grow key i st st'"
  unfolding owners_grow_def owners_kept_def by blast

lemma applyOptimisticState_sel [simp]:
  "ds_registry (applyOptimisticState key v c pr s) = ds_registry s" "ds_commands (applyOptimisticState key v c pr s) = ds_commands s"
  "ds_snapshotSeq (applyOptimisticState key v c pr s) = ds_snapshotSeq s" "ds_disabled (applyOptimisticState key v c pr s) = ds_disabled s"
  "ds_listeners (applyOptimisticState key v c pr s) = ds_listeners s"
  by (simp_all add: applyOptimisticState_def Let_def case_prod_beta split: option.split)

lemma optimistic_ok: "service_ok s \<Longrightarrow> service_ok (applyOptimisticState key v c pr s)"
proof -
  assume ok: "service_ok s"
  have "store_inv (ds_states (applyOptimisticState key v c pr s))"
    using service_okD(2) [OF ok] by (auto simp: applyOptimisticState_def Let_def case_prod_beta declared_quality_def intro!: applyOptimistic_inv split: option.split)
  moreover have "bounded_queues (ds_stateListeners (applyOptimisticState key v c pr s))"
    using service_okD(6) [OF ok] by (simp add: applyOptimisticState_def Let_def case_prod_beta split: option.split)
  ultimately show ?thesis using service_okD [OF ok] by (auto simp: service_ok_def intro: disabled_offline_same)
qed

lemma optimistic_owners: "owners_grow key (cmd_ID c) (ds_states s) (ds_states (applyOptimisticState key v c pr s))"
  by (auto simp: applyOptimisticState_def applyOptimistic_def Let_def owners_grow_def owner_def split: option.split)

text \<open>What a fallback for a command at a key has to be before the command owns anything.\<close>

definition previous_fits :: "state_key \<Rightarrow> state_value option \<Rightarrow> bool" where
  "previous_fits key previous \<longleftrightarrow> (\<forall>v. previous = Some v \<longrightarrow> sv_Key v = key \<and> avail_ok v)"

lemma previous_fallback:
  assumes "previous_fits key previous" and "i \<noteq> []" and "\<And>k. owner st k = i \<Longrightarrow> k = key" and "owners_grow key i st st'"
  shows "fallback_fits i previous st'"
  using assms unfolding previous_fits_def fallback_fits_def owners_grow_def by metis

lemma start_write_facts:
  assumes ok: "service_ok s" and prev: "previous_fits key previous" and new: "cmd_ID command \<noteq> []"
    and own: "\<And>k. owner (ds_states s) k = cmd_ID command \<Longrightarrow> k = key"
    and result: "start_write now text writer route key value command previous s = (result, s')"
  shows "service_ok s' \<and> owners_grow key (cmd_ID command) (ds_states s) (ds_states s') \<and>
    (\<forall>c pr path v. result = Write c pr path v \<longrightarrow> c = command \<and> pr = previous)"
proof -
  let ?a = "applyOptimisticState key value command previous (add_metric mt_commandsStarted_update 1 s)"
  let ?s = "set_commands (snd (snd (sent now (cmd_ID command) (ds_commands ?a)))) ?a"
  have aok: "service_ok ?a" using ok by (intro optimistic_ok) simp
  then have sok: "service_ok ?s" by (intro set_commands_ok tracker_steps_inv(1) service_okD(3))
  have grow: "owners_grow key (cmd_ID command) (ds_states s) (ds_states ?s)"
    using optimistic_owners [of key command "add_metric mt_commandsStarted_update 1 s"] by simp
  have fits: "fallback_fits (cmd_ID command) previous (ds_states ?s)" by (rule previous_fallback [OF prev new own grow])
  have rok: "service_ok (snd (rejectPropertyWrite now text command previous err ?s))" for err
    by (rule reject_write_ok [OF sok fits])
  have rgrow: "owners_grow key (cmd_ID command) (ds_states s) (ds_states (snd (rejectPropertyWrite now text command previous err ?s)))" for err
    using owners_grow_kept [OF grow owners_kept_resolve] by simp
  show ?thesis using result sok grow rok rgrow
    by (auto simp: start_write_def Let_def case_prod_beta split: if_splits option.splits sum.splits)
qed

lemma begin_operation_ok:
  assumes ok: "service_ok (cs_service cs)"
  shows "service_ok (cs_service (snd (beginPropertyOperation now key v cs)))"
  using ok
  by (auto simp: beginPropertyOperation_def Let_def case_prod_beta intro!: set_commands_ok resolve_ok tracker_steps_inv dest: service_okD(3)
      split: option.split)

lemma begin_operation_owners:
  "owners_kept (ds_states (cs_service cs)) (ds_states (cs_service (snd (beginPropertyOperation now key v cs))))"
  by (auto simp: beginPropertyOperation_def Let_def case_prod_beta owners_kept_resolve split: option.split)

lemma set_operation_sel [simp]:
  "ds_states (cs_service (snd (setPropertyOperationCommand now key i c cs))) = ds_states (cs_service cs)"
  "ds_registry (cs_service (snd (setPropertyOperationCommand now key i c cs))) = ds_registry (cs_service cs)"
  "cs_propertyOps (snd (setPropertyOperationCommand now key i c cs)) = cs_propertyOps cs"
  "length (cs_ops (snd (setPropertyOperationCommand now key i c cs))) = length (cs_ops cs)"
  "fst (setPropertyOperationCommand now key i c cs) \<longleftrightarrow> gm_get (cs_propertyOps cs) key = Some i"
  by (simp_all add: setPropertyOperationCommand_def Let_def case_prod_beta)

lemma set_operation_ok: "service_ok (cs_service cs) \<Longrightarrow> service_ok (cs_service (snd (setPropertyOperationCommand now key i c cs)))"
  by (simp add: setPropertyOperationCommand_def Let_def case_prod_beta set_commands_ok tracker_steps_inv service_okD(3))

lemma finish_ok: "service_ok (cs_service cs) \<Longrightarrow> service_ok (cs_service (snd (finishPropertyOperation now key i result cs)))"
  by (cases result)
    (simp add: finishPropertyOperation_def Let_def case_prod_beta get_command_def set_commands_ok tracker_steps_inv service_okD(3))

lemma finish_sel [simp]:
  "ds_states (cs_service (snd (finishPropertyOperation now key i result cs))) = ds_states (cs_service cs)"
  "cs_propertyOps (snd (finishPropertyOperation now key i result cs)) =
     (if gm_get (cs_propertyOps cs) key = Some i then gm_del key (cs_propertyOps cs) else cs_propertyOps cs)"
  "length (cs_ops (snd (finishPropertyOperation now key i result cs))) = length (cs_ops cs)"
  by (cases result; simp add: finishPropertyOperation_def Let_def case_prod_beta)+

text \<open>Which operations have ended: only \<open>finishPropertyOperation\<close> ends one, and only the opening adds one.\<close>

abbreviation ended :: "command_service \<Rightarrow> bool list" where
  "ended cs \<equiv> map op_done (cs_ops cs)"

lemma ended_update [simp]: "(\<And>operation. op_done (f operation) = op_done operation) \<Longrightarrow> ended (update_op i f cs) = ended cs"
  by (cases "i < length (cs_ops cs)") (simp_all add: update_op_def map_update list_update_same_conv list_update_beyond)

lemma begin_operation_cases:
  obtains (join) o0 where "gm_get (cs_propertyOps cs) key = Some o0" "value_equal (op_expected (cs_ops cs ! o0)) v"
      "fst (beginPropertyOperation now key v cs) = (o0, True)" "ended (snd (beginPropertyOperation now key v cs)) = ended cs"
      "cs_propertyOps (snd (beginPropertyOperation now key v cs)) = cs_propertyOps cs"
  | (fresh) "fst (beginPropertyOperation now key v cs) = (length (cs_ops cs), False)"
      "ended (snd (beginPropertyOperation now key v cs)) = ended cs @ [False]"
      "cs_propertyOps (snd (beginPropertyOperation now key v cs)) = gm_put key (length (cs_ops cs)) (cs_propertyOps cs)"
proof (cases "gm_get (cs_propertyOps cs) key")
  case None
  then show ?thesis by (intro fresh) (simp_all add: beginPropertyOperation_def Let_def case_prod_beta new_operation_def)
next
  case (Some o0)
  show ?thesis
  proof (cases "value_equal (op_expected (cs_ops cs ! o0)) v")
    case True
    with Some show ?thesis by (intro join [of o0]) (simp_all add: beginPropertyOperation_def Let_def case_prod_beta)
  next
    case False
    with Some show ?thesis by (intro fresh) (simp_all add: beginPropertyOperation_def Let_def case_prod_beta new_operation_def)
  qed
qed

lemma set_operation_ended [simp]: "ended (snd (setPropertyOperationCommand now key i c cs)) = ended cs"
  by (simp add: setPropertyOperationCommand_def Let_def case_prod_beta)

lemma finish_ended:
  "i < length (cs_ops cs) \<Longrightarrow> ended (snd (finishPropertyOperation now key i result cs)) = (ended cs)[i := True]"
  by (cases result) (simp add: finishPropertyOperation_def Let_def case_prod_beta update_op_def map_update)

lemma store_previous_fits: "store_inv st \<Longrightarrow> previous_fits key (get_state key st)"
  by (auto simp: previous_fits_def store_inv_def)

lemma prepare_facts:
  assumes ok: "service_ok (cs_service cs)" and new: "newID \<noteq> []" "commands_of (ds_commands (cs_service cs)) newID = None"
    and pid: "key_PropertyID key \<noteq> []" "last (key_PropertyID key) \<noteq> NUL"
    and free: "\<And>k. owner (ds_states (cs_service cs)) k \<noteq> newID"
    and result: "prepare_property begun now newID corr text writer route key value i cs = (result, cs')"
  shows "service_ok (cs_service cs') \<and> owners_grow key newID (ds_states (cs_service cs)) (ds_states (cs_service cs')) \<and>
    cs_propertyOps cs' = cs_propertyOps cs \<and> ended cs' = ended cs \<and>
    (\<forall>c pr path v. result = Write c pr path v \<longrightarrow> cmd_ID c = newID \<and> previous_fits key pr)"
proof -
  let ?st = "ds_states (cs_service cs)"
  obtain command superseded replayed notified commands where b: "beginPropertyCorrelated begun newID (key_DeviceID key) (key_EndpointID key)
      (key_CapabilityID key) (key_PropertyID key) value corr (ds_commands (cs_service cs)) = ((command, superseded, replayed), notified, commands)"
    by (metis prod.exhaust)
  let ?c = "snd (setPropertyOperationCommand now key i command (on_service (set_commands commands) cs))"
  have inv: "tracker_inv commands"
    using beginProperty_inv [OF service_okD(3) [OF ok] new pid, of begun "key_DeviceID key" "key_EndpointID key" "key_CapabilityID key" "value" corr]
    by (simp add: b)
  then have cok: "service_ok (cs_service ?c)" using ok by (intro set_operation_ok) (simp add: set_commands_ok)
  have id: "cmd_ID command = newID" if "\<not> replayed"
    by (rule beginProperty_cases [OF tracker_invD [OF service_okD(3) [OF ok]], of "key_DeviceID key" "key_EndpointID key" "key_CapabilityID key" "key_PropertyID key" begun newID "value" corr])
      (use b that in \<open>auto simp: Let_def\<close>)
  define sup where "sup = (\<lambda>old :: command. on_service (\<lambda>s. resolve_and_publish (cmd_ID old) None (add_metric mt_commandsSuperseded_update 1 s)) ?c)"
  have supok: "service_ok (cs_service (sup old))" "owners_kept ?st (ds_states (cs_service (sup old)))"
    "cs_propertyOps (sup old) = cs_propertyOps cs" "ended (sup old) = ended cs" for old
    using cok by (simp_all add: sup_def resolve_ok owners_kept_resolve)
  have start: "service_ok s' \<and> owners_grow key newID ?st (ds_states s') \<and> (\<forall>c pr path v. r = Write c pr path v \<longrightarrow> cmd_ID c = newID \<and> previous_fits key pr)"
    if st: "start_write now text writer route key value command (get_state key (ds_states s0)) s0 = (r, s')" and "\<not> replayed"
      and s0: "service_ok s0" "owners_kept ?st (ds_states s0)" for r s0 s'
  proof -
    have "owner (ds_states s0) k \<noteq> newID" for k using s0(2) free [of k] new(1) unfolding owners_kept_def by metis
    then show ?thesis
      using start_write_facts [OF s0(1) store_previous_fits [OF service_okD(2) [OF s0(1)]] _ _ st] id [OF that(2)] new(1)
        owners_kept_grow [OF s0(2)] store_previous_fits [OF service_okD(2) [OF s0(1)], of key] by (auto simp del: not_None_eq)
  qed
  have plain: "get_state key ?st = get_state key (ds_states (cs_service ?c))" "owners_kept ?st (ds_states (cs_service ?c))" by simp_all
  show ?thesis
  proof (cases "gm_get (cs_propertyOps cs) key = Some i")
    case False
    have "service_ok (set_commands (snd (snd (supersede now j m (ds_commands (cs_service ?c))))) (add_metric mt_commandsStarted_update n (cs_service ?c)))" for j m n
      using cok by (intro set_commands_ok supersede_inv service_okD(3)) simp_all
    with False result show ?thesis
      by (auto simp: prepare_property_def b Let_def case_prod_beta owners_kept_is_growth)
  next
    case True
    show ?thesis
    proof (cases replayed)
      case rep: True
      with True result show ?thesis using cok
        by (auto simp: prepare_property_def b Let_def case_prod_beta owners_kept_is_growth split: option.splits)
    next
      case rep: False
      show ?thesis
      proof (cases superseded)
        case None
        let ?w = "start_write now text writer route key value command (get_state key ?st) (cs_service ?c)"
        have "result = fst ?w" "cs' = ?c\<lparr>cs_service := snd ?w\<rparr>"
          using result True rep None by (auto simp: prepare_property_def b Let_def case_prod_beta)
        with start [of "cs_service ?c" "fst ?w" "snd ?w"] rep cok show ?thesis by simp
      next
        case (Some old)
        let ?w = "start_write now text writer route key value command (get_state key (ds_states (cs_service (sup old)))) (cs_service (sup old))"
        have "result = fst ?w" "cs' = (sup old)\<lparr>cs_service := snd ?w\<rparr>"
          using result True rep Some by (auto simp: prepare_property_def b Let_def case_prod_beta sup_def)
        with start [of "cs_service (sup old)" "fst ?w" "snd ?w"] rep supok [of old] show ?thesis by simp
      qed
    qed
  qed
qed

lemma reject_command_ok: "service_ok s \<Longrightarrow> service_ok (snd (rejectCommand now text c err s))"
  by (simp add: rejectCommand_def Let_def case_prod_beta current_command_ok set_commands_ok tracker_steps_inv service_okD(3))

lemma start_action_ok:
  assumes ok: "service_ok s" and new: "newID \<noteq> []" "commands_of (ds_commands s) newID = None"
  shows "service_ok (snd (start_action begun now newID corr text executor request s))"
proof -
  note inv = beginAction_inv [OF service_okD(3) [OF ok] new, of begun "rq_DeviceID request" "rq_EndpointID request" "rq_CapabilityID request"
      "rq_CommandID request" "rq_Parameters request" "rq_IdempotencyKey request" corr]
  show ?thesis
    using inv ok by (auto simp: start_action_def Let_def case_prod_beta split: sum.split prod.split option.split
        intro!: set_commands_ok reject_command_ok tracker_steps_inv)
qed

lemma start_action_states: "ds_states (snd (start_action begun now newID corr text executor request s)) = ds_states s"
  by (auto simp: start_action_def rejectCommand_def Let_def case_prod_beta split: sum.split prod.split option.split)

lemma complete_action_states: "ds_states (snd (complete_action now text project outcome c s)) = ds_states s"
  by (auto simp: complete_action_def rejectCommand_def Let_def case_prod_beta split: sum.split)

lemma complete_action_ok:
  assumes ok: "service_ok s" and project: "project_ok project"
    and enabled: "\<And>item. outcome = Inr item \<Longrightarrow> \<not> isDeviceDisabled (dev_ID item) s"
  shows "service_ok (snd (complete_action now text project outcome c s))"
proof (cases outcome)
  case (Inl err)
  with ok show ?thesis by (simp add: complete_action_def reject_command_ok)
next
  case (Inr item0)
  let ?item = "case project item0 of Inr mapped \<Rightarrow> mapped | Inl _ \<Rightarrow> item0"
  have "dev_ID ?item = dev_ID item0" using project by (auto simp: project_ok_def split: sum.split)
  then have rule: "dev_Disabled ?item \<and> \<not> isOnline ?item" if "isDeviceDisabled (dev_ID ?item) s" using enabled [OF Inr] that by simp
  have "disabled_offline (s\<lparr>ds_registry := registry_upsert ?item (ds_registry s)\<rparr>)"
    by (rule disabled_offline_upsert [OF service_okD(7) [OF ok] rule]) simp_all
  then have "service_ok (s\<lparr>ds_registry := registry_upsert ?item (ds_registry s)\<rparr>)"
    using service_okD [OF ok] by (simp add: service_ok_def registry_upsert_inv)
  then show ?thesis
    by (simp add: Inr complete_action_def Let_def case_prod_beta current_command_ok set_commands_ok tracker_steps_inv service_okD(3) [OF ok])
qed

end
