(* ===== verification/Service_System.thy ===== *)
theory Service_System
  imports Device_Commands
begin

text \<open>
  The device service with any number of calls at once: a transition system whose steps are the
  handlers of \<open>Device_Service\<close> and the pieces of \<open>ExecuteProperty\<close> and \<open>ExecuteCommand\<close> of
  \<open>Device_Commands\<close>, in any order. A piece runs to its end without another step in between; between
  the pieces of a call everything else may happen.
\<close>

declare map_of_eq_Some_iff [simp del] Some_eq_map_of_iff [simp del]

section \<open>The system\<close>

text \<open>A call that has opened an operation waits for the queue of its device, or for the provider.\<close>

datatype call_phase = Waiting | Writing (ph_command: command) (ph_previous: "state_value option")

record system =
  sy_service :: command_service
  sy_calls :: "nat \<Rightarrow> (state_key \<times> call_phase) option"
  sy_issued :: "string \<Rightarrow> state_key option"

definition with_service :: "command_service \<Rightarrow> system \<Rightarrow> system" where
  "with_service cs y = y\<lparr>sy_service := cs\<rparr>"

definition end_call :: "time \<Rightarrow> state_key \<Rightarrow> nat \<Rightarrow> write_result \<Rightarrow> command_service \<Rightarrow> system \<Rightarrow> system" where
  "end_call now key i result cs y =
     y\<lparr>sy_service := snd (finishPropertyOperation now key i result cs), sy_calls := (sy_calls y)(i := None)\<rparr>"

text \<open>\<open>BeginPropertyCorrelated\<close> draws a random identifier: it is new, among the commands kept and among those issued.\<close>

definition fresh_id :: "string \<Rightarrow> system \<Rightarrow> bool" where
  "fresh_id i y \<longleftrightarrow> i \<noteq> [] \<and> commands_of (ds_commands (cs_service (sy_service y))) i = None \<and> sy_issued y i = None"

definition stable_key :: "state_key \<Rightarrow> bool" where
  "stable_key key \<longleftrightarrow> key_PropertyID key \<noteq> [] \<and> last (key_PropertyID key) \<noteq> NUL"

inductive system_step :: "system \<Rightarrow> system \<Rightarrow> bool" where
  sy_handler: "handler_step (cs_service (sy_service y)) s' \<Longrightarrow> system_step y (with_service (on_service (\<lambda>_. s') (sy_service y)) y)"
| sy_join: "beginPropertyOperation now key v (sy_service y) = ((i, True), cs) \<Longrightarrow> system_step y (with_service cs y)"
| sy_open: "validatePropertyWrite (key_DeviceID key) (key_EndpointID key) (key_CapabilityID key) (key_PropertyID key) v (cs_service (sy_service y)) = None \<Longrightarrow>
    stable_key key \<Longrightarrow> beginPropertyOperation now key v (sy_service y) = ((i, False), cs) \<Longrightarrow>
    system_step y (y\<lparr>sy_service := cs, sy_calls := (sy_calls y)(i \<mapsto> (key, Waiting))\<rparr>)"
| sy_give_up: "sy_calls y i = Some (key, Waiting) \<Longrightarrow>
    system_step y (end_call now key i (None, zero_command, Some ErrContext) (sy_service y) y)"
| sy_finished: "sy_calls y i = Some (key, Waiting) \<Longrightarrow> fresh_id newID y \<Longrightarrow>
    prepare_property begun now newID corr err_text writer route key v i (sy_service y) = (Finished result, cs) \<Longrightarrow>
    system_step y (end_call later key i result cs (y\<lparr>sy_issued := (sy_issued y)(newID \<mapsto> key)\<rparr>))"
| sy_write: "sy_calls y i = Some (key, Waiting) \<Longrightarrow> fresh_id newID y \<Longrightarrow>
    prepare_property begun now newID corr err_text writer route key v i (sy_service y) = (Write command previous path pv, cs) \<Longrightarrow>
    system_step y (y\<lparr>sy_service := cs, sy_calls := (sy_calls y)(i \<mapsto> (key, Writing command previous)),
      sy_issued := (sy_issued y)(newID \<mapsto> key)\<rparr>)"
| sy_answer: "sy_calls y i = Some (key, Writing command previous) \<Longrightarrow>
    complete_write now nowState err_text project confirms outcome command previous (cs_service (sy_service y)) = (result, s') \<Longrightarrow>
    system_step y (end_call later key i result (on_service (\<lambda>_. s') (sy_service y)) y)"
| sy_action: "fresh_id newID y \<Longrightarrow> check_command request (cs_service (sy_service y)) = None \<Longrightarrow>
    start_action begun now newID corr err_text executor request (cs_service (sy_service y)) = (result, s') \<Longrightarrow>
    system_step y (with_service (on_service (\<lambda>_. s') (sy_service y)) y)"
| sy_acted: "project_ok project \<Longrightarrow> (\<And>item. outcome = Inr item \<Longrightarrow> \<not> isDeviceDisabled (dev_ID item) (cs_service (sy_service y))) \<Longrightarrow>
    complete_action now err_text project outcome command (cs_service (sy_service y)) = (result, s') \<Longrightarrow>
    system_step y (with_service (on_service (\<lambda>_. s') (sy_service y)) y)"

definition system_init :: "system \<Rightarrow> bool" where
  "system_init y \<longleftrightarrow> (\<exists>priority. sy_service y = \<lparr>cs_service = new_service priority, cs_propertyOps = [], cs_ops = []\<rparr>) \<and>
     sy_calls y = Map.empty \<and> sy_issued y = Map.empty"

section \<open>The invariant\<close>

definition calls_ok :: "system \<Rightarrow> bool" where
  "calls_ok y \<longleftrightarrow> dom (sy_calls y) = {i. i < length (cs_ops (sy_service y)) \<and> \<not> op_done (cs_ops (sy_service y) ! i)} \<and>
     (\<forall>k i. gm_get (cs_propertyOps (sy_service y)) k = Some i \<longrightarrow> (\<exists>ph. sy_calls y i = Some (k, ph))) \<and>
     (\<forall>i k ph. sy_calls y i = Some (k, ph) \<longrightarrow> stable_key k)"

definition owners_ok :: "system \<Rightarrow> bool" where
  "owners_ok y \<longleftrightarrow> sy_issued y [] = None \<and>
     (\<forall>k. owner (ds_states (cs_service (sy_service y))) k \<noteq> [] \<longrightarrow> sy_issued y (owner (ds_states (cs_service (sy_service y))) k) = Some k) \<and>
     (\<forall>i k c previous. sy_calls y i = Some (k, Writing c previous) \<longrightarrow> sy_issued y (cmd_ID c) = Some k \<and> previous_fits k previous)"

definition system_ok :: "system \<Rightarrow> bool" where
  "system_ok y \<longleftrightarrow> service_ok (cs_service (sy_service y)) \<and> calls_ok y \<and> owners_ok y"

lemma system_okD:
  assumes "system_ok y"
  shows "service_ok (cs_service (sy_service y))" "calls_ok y" "owners_ok y"
  using assms by (simp_all add: system_ok_def)

lemma calls_okD:
  assumes "calls_ok y"
  shows "gm_get (cs_propertyOps (sy_service y)) k = Some i \<Longrightarrow> \<exists>ph. sy_calls y i = Some (k, ph)"
    and "sy_calls y i = Some (k, ph) \<Longrightarrow> stable_key k"
    and "dom (sy_calls y) = {i. i < length (cs_ops (sy_service y)) \<and> \<not> op_done (cs_ops (sy_service y) ! i)}"
  using assms unfolding calls_ok_def by blast+

lemma owners_okD:
  assumes "owners_ok y" and "sy_calls y i = Some (k, Writing c previous)"
  shows "sy_issued y (cmd_ID c) = Some k" "previous_fits k previous" "cmd_ID c \<noteq> []"
  using assms unfolding owners_ok_def by (blast, blast, metis option.distinct(1))

lemma with_service_sel [simp]:
  "sy_service (with_service cs y) = cs" "sy_calls (with_service cs y) = sy_calls y" "sy_issued (with_service cs y) = sy_issued y"
  by (simp_all add: with_service_def)

lemma end_call_sel [simp]:
  "sy_service (end_call now key i r cs y) = snd (finishPropertyOperation now key i r cs)"
  "sy_calls (end_call now key i r cs y) = (sy_calls y)(i := None)" "sy_issued (end_call now key i r cs y) = sy_issued y"
  by (simp_all add: end_call_def)

text \<open>A step that changes the service only, and keeps operations and owners, keeps the invariant.\<close>

lemma same_calls_ok:
  assumes "calls_ok y" and "sy_calls y' = sy_calls y" and "ended (sy_service y') = ended (sy_service y)"
    and "cs_propertyOps (sy_service y') = cs_propertyOps (sy_service y)"
  shows "calls_ok y'"
proof -
  have "length (cs_ops (sy_service y')) = length (cs_ops (sy_service y))" using assms(3) by (metis length_map)
  moreover have "op_done (cs_ops (sy_service y') ! i) = op_done (cs_ops (sy_service y) ! i)" if "i < length (cs_ops (sy_service y))" for i
    using assms(3) that calculation by (metis nth_map)
  ultimately have "{i. i < length (cs_ops (sy_service y')) \<and> \<not> op_done (cs_ops (sy_service y') ! i)} =
      {i. i < length (cs_ops (sy_service y)) \<and> \<not> op_done (cs_ops (sy_service y) ! i)}" by auto
  with assms show ?thesis by (simp add: calls_ok_def)
qed

lemma kept_owners_ok:
  assumes "owners_ok y" and "sy_issued y' = sy_issued y"
    and "\<And>i k c previous. sy_calls y' i = Some (k, Writing c previous) \<Longrightarrow> sy_calls y i = Some (k, Writing c previous)"
    and "owners_kept (ds_states (cs_service (sy_service y))) (ds_states (cs_service (sy_service y')))"
  shows "owners_ok y'"
  using assms unfolding owners_ok_def owners_kept_def by metis

lemma ended_service [simp]: "ended (on_service f cs) = ended cs"
  by simp

lemma end_calls_ok:
  assumes ok: "calls_ok y" and call: "sy_calls y i = Some (key, ph)" and same: "ended cs = ended (sy_service y)"
    and ops: "cs_propertyOps cs = cs_propertyOps (sy_service y)" and y': "sy_calls y' = sy_calls y"
  shows "calls_ok (end_call now key i r cs y')"
proof -
  have len: "length (cs_ops cs) = length (cs_ops (sy_service y))" using same by (metis length_map)
  have i: "i < length (cs_ops cs)" using ok call len by (auto simp: calls_ok_def)
  have fin: "op_done (cs_ops (snd (finishPropertyOperation now key i r cs)) ! j) \<longleftrightarrow> j = i \<or> op_done (cs_ops (sy_service y) ! j)"
    if "j < length (cs_ops cs)" for j
  proof -
    have "op_done (cs_ops (snd (finishPropertyOperation now key i r cs)) ! j) = ended (snd (finishPropertyOperation now key i r cs)) ! j"
      using that by simp
    also have "\<dots> = (j = i \<or> ended (sy_service y) ! j)" using finish_ended [OF i, of now key r] that same len by (auto simp: nth_list_update i [unfolded len])
    finally show ?thesis using that len by simp
  qed
  have "dom ((sy_calls y)(i := None)) = {j. j < length (cs_ops cs) \<and> \<not> op_done (cs_ops (snd (finishPropertyOperation now key i r cs)) ! j)}"
    using ok fin len by (auto simp: calls_ok_def)
  moreover have "\<exists>ph. ((sy_calls y)(i := None)) j = Some (k, ph)"
    if "gm_get (cs_propertyOps (snd (finishPropertyOperation now key i r cs))) k = Some j" for k j
  proof -
    have old: "gm_get (cs_propertyOps (sy_service y)) k = Some j" and "\<not> (k = key \<and> j = i)"
      using that ops by (auto simp: gm_get_del split: if_splits)
    from calls_okD(1) [OF ok old] obtain ph where ph: "sy_calls y j = Some (k, ph)" by blast
    with call \<open>\<not> (k = key \<and> j = i)\<close> show ?thesis by auto
  qed
  moreover have "stable_key k" if "((sy_calls y)(i := None)) j = Some (k, ph)" for j k ph
    using calls_okD(2) [OF ok] that by (auto split: if_splits)
  ultimately show ?thesis by (simp add: calls_ok_def y')
qed

lemma open_calls_ok:
  assumes ok: "calls_ok y" and key: "stable_key key" and b: "beginPropertyOperation now key v (sy_service y) = ((i, False), cs)"
  shows "calls_ok (y\<lparr>sy_service := cs, sy_calls := (sy_calls y)(i \<mapsto> (key, Waiting))\<rparr>)"
proof (cases rule: begin_operation_cases [of "sy_service y" key v now])
  case (join o0)
  with b show ?thesis by simp
next
  case fresh
  let ?n = "length (cs_ops (sy_service y))"
  from fresh b have i: "i = ?n" and e: "ended cs = ended (sy_service y) @ [False]"
    and ops: "cs_propertyOps cs = gm_put key ?n (cs_propertyOps (sy_service y))" by simp_all
  have len: "length (cs_ops cs) = Suc ?n" using e by (metis length_append_singleton length_map)
  have fin: "op_done (cs_ops cs ! j) \<longleftrightarrow> j < ?n \<and> op_done (cs_ops (sy_service y) ! j)" if "j < Suc ?n" for j
  proof -
    have "op_done (cs_ops cs ! j) = ended cs ! j" using that len by simp
    with e that show ?thesis by (auto simp: nth_append less_Suc_eq)
  qed
  have new: "sy_calls y ?n = None" using ok by (auto simp: calls_ok_def)
  have d: "dom (sy_calls y) = {j. j < ?n \<and> \<not> op_done (cs_ops (sy_service y) ! j)}" using ok by (simp add: calls_ok_def)
  have "{j. j < length (cs_ops cs) \<and> \<not> op_done (cs_ops cs ! j)} = insert ?n (dom (sy_calls y))"
    unfolding d len using fin by (auto simp: less_Suc_eq)
  then have doms: "dom ((sy_calls y)(i \<mapsto> (key, Waiting))) = {j. j < length (cs_ops cs) \<and> \<not> op_done (cs_ops cs ! j)}"
    by (simp add: i)
  have cur: "\<exists>ph. ((sy_calls y)(i \<mapsto> (key, Waiting))) j = Some (k, ph)" if "gm_get (cs_propertyOps cs) k = Some j" for k j
  proof (cases "k = key")
    case True
    with that show ?thesis by (simp add: ops gm_get_put i)
  next
    case False
    with that have "gm_get (cs_propertyOps (sy_service y)) k = Some j" by (simp add: ops gm_get_put)
    then obtain ph where "sy_calls y j = Some (k, ph)" using calls_okD(1) [OF ok] by blast
    with new show ?thesis by (auto simp: i)
  qed
  show ?thesis using ok key doms cur by (auto simp: calls_ok_def split: if_splits)
qed

text \<open>The part of the invariant that a fresh command extends.\<close>

lemma grow_owners_ok:
  assumes ok: "owners_ok y" and fresh: "fresh_id newID y" and issued: "sy_issued y' = (sy_issued y)(newID \<mapsto> key)"
    and grow: "owners_grow key newID (ds_states (cs_service (sy_service y))) (ds_states (cs_service (sy_service y')))"
    and calls: "\<And>i k c previous. sy_calls y' i = Some (k, Writing c previous) \<Longrightarrow>
      sy_calls y i = Some (k, Writing c previous) \<or> k = key \<and> cmd_ID c = newID \<and> previous_fits key previous"
  shows "owners_ok y'"
  unfolding owners_ok_def
proof (intro conjI allI impI)
  let ?st = "ds_states (cs_service (sy_service y))" and ?st' = "ds_states (cs_service (sy_service y'))"
  show "sy_issued y' [] = None" using ok fresh by (auto simp: issued owners_ok_def fresh_id_def)
  fix k
  assume own: "owner ?st' k \<noteq> []"
  show "sy_issued y' (owner ?st' k) = Some k"
  proof (cases "k = key \<and> owner ?st' k = newID")
    case False
    with grow own have same: "owner ?st' k = owner ?st k" unfolding owners_grow_def by metis
    with own ok have "sy_issued y (owner ?st' k) = Some k" by (auto simp: owners_ok_def)
    with fresh show ?thesis by (auto simp: issued fresh_id_def)
  qed (auto simp: issued)
next
  fix i k c previous
  assume "sy_calls y' i = Some (k, Writing c previous)"
  then consider "sy_calls y i = Some (k, Writing c previous)" | "k = key" "cmd_ID c = newID" "previous_fits key previous" using calls by blast
  then have "sy_issued y' (cmd_ID c) = Some k \<and> previous_fits k previous"
  proof cases
    case 1
    note owners_okD(1,2) [OF ok 1]
    with fresh show ?thesis by (auto simp: issued fresh_id_def)
  qed (simp add: issued)
  then show "sy_issued y' (cmd_ID c) = Some k" "previous_fits k previous" by simp_all
qed

lemma writing_fallback:
  assumes "owners_ok y" and "sy_calls y i = Some (k, Writing c previous)"
  shows "fallback_fits (cmd_ID c) previous (ds_states (cs_service (sy_service y)))"
proof -
  note issued = owners_okD [OF assms]
  have "k' = k" if "owner (ds_states (cs_service (sy_service y))) k' = cmd_ID c" for k'
    using assms(1) issued(1,3) that unfolding owners_ok_def by (metis option.inject)
  then show ?thesis using issued(2,3) by (auto simp: fallback_fits_def previous_fits_def)
qed

lemma fresh_prepare:
  assumes "system_ok y" and "fresh_id newID y" and "sy_calls y i = Some (key, ph)"
    and "prepare_property begun now newID corr err_text writer route key v j (sy_service y) = (result, cs)"
  shows "service_ok (cs_service cs) \<and> owners_grow key newID (ds_states (cs_service (sy_service y))) (ds_states (cs_service cs)) \<and>
    cs_propertyOps cs = cs_propertyOps (sy_service y) \<and> ended cs = ended (sy_service y) \<and>
    (\<forall>c pr path pv. result = Write c pr path pv \<longrightarrow> cmd_ID c = newID \<and> previous_fits key pr)"
proof (rule prepare_facts [OF system_okD(1) [OF assms(1)] _ _ _ _ _ assms(4)])
  show "newID \<noteq> []" "commands_of (ds_commands (cs_service (sy_service y))) newID = None" using assms(2) by (simp_all add: fresh_id_def)
  show "key_PropertyID key \<noteq> []" "last (key_PropertyID key) \<noteq> NUL"
    using calls_okD(2) [OF system_okD(2) [OF assms(1)] assms(3)] by (simp_all add: stable_key_def)
  show "owner (ds_states (cs_service (sy_service y))) k \<noteq> newID" for k
    using system_okD(3) [OF assms(1)] assms(2) unfolding owners_ok_def fresh_id_def by (metis option.distinct(1))
qed

lemma prepared_end_ok:
  assumes ok: "system_ok y" and call: "sy_calls y i = Some (key, Waiting)" and fresh: "fresh_id newID y"
    and p: "prepare_property begun now newID corr err_text writer route key v i (sy_service y) = (Finished result, cs)"
  shows "system_ok (end_call later key i result cs (y\<lparr>sy_issued := (sy_issued y)(newID \<mapsto> key)\<rparr>))"
proof -
  note f = fresh_prepare [OF ok fresh call p]
  have "calls_ok (end_call later key i result cs (y\<lparr>sy_issued := (sy_issued y)(newID \<mapsto> key)\<rparr>))"
    using f by (intro end_calls_ok [OF system_okD(2) [OF ok] call]) simp_all
  moreover have "owners_ok (end_call later key i result cs (y\<lparr>sy_issued := (sy_issued y)(newID \<mapsto> key)\<rparr>))"
    by (rule grow_owners_ok [OF system_okD(3) [OF ok] fresh, where key = key]) (use f in \<open>auto split: if_splits\<close>)
  ultimately show ?thesis using f by (simp add: system_ok_def finish_ok)
qed

lemma prepared_write_ok:
  assumes ok: "system_ok y" and call: "sy_calls y i = Some (key, Waiting)" and fresh: "fresh_id newID y"
    and p: "prepare_property begun now newID corr err_text writer route key v i (sy_service y) = (Write command previous path pv, cs)"
  shows "system_ok (y\<lparr>sy_service := cs, sy_calls := (sy_calls y)(i \<mapsto> (key, Writing command previous)), sy_issued := (sy_issued y)(newID \<mapsto> key)\<rparr>)"
    (is "system_ok ?y")
proof -
  note f = fresh_prepare [OF ok fresh call p]
  have "calls_ok (y\<lparr>sy_service := cs\<rparr>)" using f by (intro same_calls_ok [OF system_okD(2) [OF ok]]) simp_all
  then have "calls_ok ?y" using call unfolding calls_ok_def by (auto simp: dom_fun_upd split: if_splits) (metis option.inject prod.inject)+
  have w: "cmd_ID command = newID" "previous_fits key previous" using f by blast+
  have "owners_ok ?y"
    by (rule grow_owners_ok [OF system_okD(3) [OF ok] fresh, where key = key]) (use f w in \<open>auto split: if_splits\<close>)
  with \<open>calls_ok ?y\<close> show ?thesis using f by (simp add: system_ok_def)
qed

lemma answered_ok:
  assumes ok: "system_ok y" and call: "sy_calls y i = Some (key, Writing command previous)"
    and c: "complete_write now nowState err_text project confirms outcome command previous (cs_service (sy_service y)) = (result, s')"
  shows "system_ok (end_call later key i result (on_service (\<lambda>_. s') (sy_service y)) y)"
proof -
  have s': "s' = snd (complete_write now nowState err_text project confirms outcome command previous (cs_service (sy_service y)))" by (simp add: c)
  have "service_ok s'" unfolding s' by (rule complete_write_ok [OF system_okD(1) [OF ok] writing_fallback [OF system_okD(3) [OF ok] call]])
  moreover have "owners_kept (ds_states (cs_service (sy_service y))) (ds_states s')" unfolding s' by (rule complete_write_owners)
  moreover have "calls_ok (end_call later key i result (on_service (\<lambda>_. s') (sy_service y)) y)"
    by (rule end_calls_ok [OF system_okD(2) [OF ok] call]) simp_all
  ultimately show ?thesis
    by (auto simp: system_ok_def intro!: finish_ok kept_owners_ok [OF system_okD(3) [OF ok]] split: if_splits)
qed

lemma given_up_ok:
  assumes ok: "system_ok y" and call: "sy_calls y i = Some (key, ph)"
  shows "system_ok (end_call now key i result (sy_service y) y)"
proof -
  have "calls_ok (end_call now key i result (sy_service y) y)" by (rule end_calls_ok [OF system_okD(2) [OF ok] call]) simp_all
  then show ?thesis using system_okD(1) [OF ok]
    by (auto simp: system_ok_def intro!: finish_ok kept_owners_ok [OF system_okD(3) [OF ok]] split: if_splits)
qed

lemma service_change_ok:
  assumes ok: "system_ok y" and s': "service_ok s'" "owners_kept (ds_states (cs_service (sy_service y))) (ds_states s')"
  shows "system_ok (with_service (on_service (\<lambda>_. s') (sy_service y)) y)"
proof -
  let ?y = "with_service (on_service (\<lambda>_. s') (sy_service y)) y"
  have "calls_ok ?y" by (rule same_calls_ok [OF system_okD(2) [OF ok]]) simp_all
  moreover have "owners_ok ?y" using s'(2) by (intro kept_owners_ok [OF system_okD(3) [OF ok]]) simp_all
  ultimately show ?thesis using s'(1) by (simp add: system_ok_def)
qed

lemma begun_service:
  assumes "system_ok y" and "beginPropertyOperation now key v (sy_service y) = (r, cs)"
  shows "service_ok (cs_service cs)" "owners_kept (ds_states (cs_service (sy_service y))) (ds_states (cs_service cs))"
  using begin_operation_ok [OF system_okD(1) [OF assms(1)], of now key v] begin_operation_owners [of "sy_service y" now key v] assms(2) by simp_all

lemma joined_ok:
  assumes ok: "system_ok y" and b: "beginPropertyOperation now key v (sy_service y) = ((i, True), cs)"
  shows "system_ok (with_service cs y)"
proof (cases rule: begin_operation_cases [of "sy_service y" key v now])
  case (join o0)
  have "calls_ok (with_service cs y)" using join b by (intro same_calls_ok [OF system_okD(2) [OF ok]]) simp_all
  moreover have "owners_ok (with_service cs y)" using begun_service [OF ok b] by (intro kept_owners_ok [OF system_okD(3) [OF ok]]) simp_all
  ultimately show ?thesis using begun_service [OF ok b] by (simp add: system_ok_def)
qed (use b in simp)

lemma opened_ok:
  assumes ok: "system_ok y" and key: "stable_key key" and b: "beginPropertyOperation now key v (sy_service y) = ((i, False), cs)"
  shows "system_ok (y\<lparr>sy_service := cs, sy_calls := (sy_calls y)(i \<mapsto> (key, Waiting))\<rparr>)" (is "system_ok ?y")
proof -
  have "owners_ok ?y" using begun_service [OF ok b] by (intro kept_owners_ok [OF system_okD(3) [OF ok]]) (auto split: if_splits)
  then show ?thesis using open_calls_ok [OF system_okD(2) [OF ok] key b] begun_service [OF ok b] by (simp add: system_ok_def)
qed

lemma system_step_ok: "system_step y y' \<Longrightarrow> system_ok y \<Longrightarrow> system_ok y'"
proof (induction rule: system_step.induct)
  case (sy_handler y s')
  show ?case
    by (rule service_change_ok [OF sy_handler.prems handler_ok [OF sy_handler.hyps system_okD(1) [OF sy_handler.prems]] handler_owners [OF sy_handler.hyps]])
next
  case (sy_action newID y request begun now corr err_text executor result s')
  then have "service_ok s'" "ds_states s' = ds_states (cs_service (sy_service y))"
    using start_action_ok [OF system_okD(1), of y newID begun now corr err_text executor request]
      start_action_states [of begun now newID corr err_text executor request "cs_service (sy_service y)"] by (simp_all add: fresh_id_def)
  with sy_action.prems show ?case by (intro service_change_ok) simp_all
next
  case (sy_acted project outcome y now err_text command result s')
  have "service_ok (snd (complete_action now err_text project outcome command (cs_service (sy_service y))))"
    by (rule complete_action_ok [OF system_okD(1) [OF sy_acted.prems] sy_acted.hyps(1,2)])
  then have "service_ok s'" "ds_states s' = ds_states (cs_service (sy_service y))"
    using complete_action_states [of now err_text project outcome command "cs_service (sy_service y)"] sy_acted.hyps(3) by simp_all
  with sy_acted.prems show ?case by (intro service_change_ok) simp_all
qed (blast intro: joined_ok opened_ok given_up_ok prepared_end_ok prepared_write_ok answered_ok)+

lemma system_init_ok: "system_init y \<Longrightarrow> system_ok y"
proof -
  assume "system_init y"
  then obtain priority where y: "sy_service y = \<lparr>cs_service = new_service priority, cs_propertyOps = [], cs_ops = []\<rparr>"
    "sy_calls y = Map.empty" "sy_issued y = Map.empty" by (auto simp: system_init_def)
  moreover have "owner (ds_states (new_service priority)) k = []" for k by (simp add: owner_def new_service_def newStore_def get_state_def)
  ultimately show ?thesis by (simp add: system_ok_def calls_ok_def owners_ok_def service_ok_new)
qed

interpretation service_sys: invariant_system system_init system_step system_ok
  by unfold_locales (auto intro: system_init_ok system_step_ok)

section \<open>Rolling back and replacing\<close>

text \<open>What a resolved value becomes: the value before the command, or the optimistic one as unconfirmed.\<close>

definition resolved :: "state_value option \<Rightarrow> state_value \<Rightarrow> state_value" where
  "resolved fallback current =
     (case fallback of
        Some fb \<Rightarrow> fb\<lparr>sv_Version := sv_Version current + 1, sv_PendingCommandID := []\<rparr>
      | None \<Rightarrow> current\<lparr>sv_Quality := QualityStale, sv_PendingCommandID := [], sv_Version := sv_Version current + 1,
          sv_Available := False, sv_UnavailableReason := UnavailableCommandUnconfirmed\<rparr>)"

lemma owner_some: "owner st k = i \<Longrightarrow> i \<noteq> [] \<Longrightarrow> \<exists>v. get_state k st = Some v \<and> sv_PendingCommandID v = i"
  by (auto simp: owner_def split: option.splits)

lemma resolve_get:
  assumes inv: "store_inv st" and i: "i \<noteq> []" and unique: "\<And>k'. owner st k' = i \<Longrightarrow> k' = key"
  shows "get_state k (snd (resolveOptimistic i fb st)) =
    (if owner st k = i then map_option (resolved fb) (get_state k st) else get_state k st)"
proof (cases rule: resolveOptimistic_cases [of st i fb])
  case none
  have "owner st k \<noteq> i"
  proof
    assume "owner st k = i"
    with owner_some [OF this i] obtain v where "get_state k st = Some v" "sv_PendingCommandID v = i" by blast
    with none(1) [of k v] show False by (simp add: get_state_def gm_get_in_set)
  qed
  with none show ?thesis by simp
next
  case (some k0 c)
  have g: "get_state k0 st = Some c" using inv some(1) by (simp add: store_inv_def get_state_def gm_in_set_get)
  then have "owner st k0 = i" using some(2) by (simp add: owner_def)
  with unique have "owner st k = i \<longleftrightarrow> k = k0" by metis
  with some(3) g show ?thesis by (auto simp: resolveOptimistic_def resolved_def Let_def get_state_def gm_get_put split: option.split)
qed

lemma unique_owner:
  assumes "owners_ok y" and "owner (ds_states (cs_service (sy_service y))) k = i" "owner (ds_states (cs_service (sy_service y))) k' = i" and "i \<noteq> []"
  shows "k = k'"
  using assms unfolding owners_ok_def by (metis option.inject)

lemma failed_write_states:
  "ds_states (snd (complete_write now nowState err_text project confirms (Inl err) command previous s)) =
     snd (resolveOptimistic (cmd_ID command) previous (ds_states s))"
  by (simp add: complete_write_def Let_def case_prod_beta rollbackOptimistic_def)

lemma failed_write_registry:
  "ds_registry (snd (complete_write now nowState err_text project confirms (Inl err) command previous s)) = ds_registry s"
  by (simp add: complete_write_def rejectPropertyWrite_def Let_def case_prod_beta rollbackOptimistic_def)

lemma transition_terminal:
  assumes "terminal status" and "tracker_inv t" and "commands_of (snd (snd (transition_command now i status message t))) i = Some c"
  shows "terminal (cmd_Status c)"
proof (cases "commands_of t i")
  case None
  with assms(3) show ?thesis by (simp add: transition_command_def)
next
  case (Some d)
  show ?thesis
  proof (cases "terminal (cmd_Status d)")
    case True
    with Some assms(3) show ?thesis by (simp add: transition_command_def)
  next
    case False
    let ?d = "d\<lparr>cmd_Status := status, cmd_Error := message, cmd_UpdatedAt := now, cmd_Outcome := outcomeForStatus status\<rparr>"
    let ?t = "(put_command i ?d t)\<lparr>tk_pending := gm_del (command_key ?d) (tk_pending t)\<rparr>"
    have "same_identity d ?d" by (simp add: same_identity_def)
    then have "tracker_ok ((put_command i ?d t)\<lparr>tk_pending := gm_del (command_key d) (tk_pending t)\<rparr>)"
      using assms(1) by (intro terminate_ok [OF tracker_invD [OF assms(2)] Some False]) simp_all
    then have "tracker_ok ?t" by (simp add: command_key_def)
    moreover have "commands_of (trim_history ?t) i = Some c"
      using assms(1,3) Some False by (simp add: transition_command_def Let_def)
    ultimately have "commands_of ?t i = Some c" by (rule trim_history_sub)
    then show ?thesis using assms(1) by (auto simp: put_command_def gm_get_put)
  qed
qed

lemma expire_terminal:
  assumes "tracker_inv t" and "\<And>c. commands_of t i = Some c \<Longrightarrow> terminal (cmd_Status c)"
    and "commands_of (snd (expire now t)) i = Some d"
  shows "terminal (cmd_Status d)"
  by (rule expire_sub [OF tracker_invD [OF assms(1)] assms(3)]) (use assms(2) in \<open>auto simp: expire_body_def split: if_splits\<close>)

lemma failed_write_terminal:
  assumes ok: "service_ok s"
    and c: "commands_of (ds_commands (snd (complete_write now nowState err_text project confirms (Inl err) command previous s))) (cmd_ID command) = Some c"
  shows "terminal (cmd_Status c)"
proof -
  let ?i = "cmd_ID command"
  let ?t = "snd (expire now (ds_commands s))"
  have inv: "tracker_inv ?t" using service_okD(3) [OF ok] by (rule expire_inv)
  show ?thesis
  proof (cases "\<exists>x. commands_of ?t ?i = Some x \<and> cmd_Status x = StatusSuperseded")
    case True
    with c show ?thesis
      by (auto simp: complete_write_def current_command_def get_command_def Let_def rollbackOptimistic_def terminal_def)
  next
    case False
    let ?r = "snd (snd (rejected now ?i (err_text err) ?t))"
    have "commands_of (snd (expire now ?r)) ?i = Some c"
      using c False by (auto simp: complete_write_def rejectPropertyWrite_def current_command_def get_command_def Let_def rollbackOptimistic_def
          case_prod_beta split: option.splits if_splits)
    moreover have "tracker_inv ?r" using inv by (rule tracker_steps_inv(4))
    ultimately show ?thesis
      using transition_terminal [OF _ inv, of StatusRejected now ?i "err_text err"] expire_terminal [of ?r ?i now c]
      by (simp add: rejected_def terminal_def)
  qed
qed

section \<open>Properties\<close>


text \<open>C7. Nobody waits for an operation that nobody ends: in every reachable state the current operation of a key is open and
  belongs to a call in flight on that key, every open operation belongs to a call in flight, and a call in flight has a
  next step that ends its operation, after which the operation is no longer the current one of its key.\<close>

theorem operations_end:
  assumes "reachable system_init system_step y"
  shows "(\<forall>k i. gm_get (cs_propertyOps (sy_service y)) k = Some i \<longrightarrow>
      i < length (cs_ops (sy_service y)) \<and> \<not> op_done (cs_ops (sy_service y) ! i) \<and> (\<exists>ph. sy_calls y i = Some (k, ph))) \<and>
    (\<forall>i < length (cs_ops (sy_service y)). op_done (cs_ops (sy_service y) ! i) \<or> sy_calls y i \<noteq> None) \<and>
    (\<forall>i k ph. sy_calls y i = Some (k, ph) \<longrightarrow> (\<exists>y'. system_step y y' \<and> sy_calls y' i = None \<and>
      op_done (cs_ops (sy_service y') ! i) \<and> gm_get (cs_propertyOps (sy_service y')) k \<noteq> Some i))"
proof -
  have ok: "system_ok y" by (rule service_sys.reachable_inv [OF assms])
  note d = calls_okD(3) [OF system_okD(2) [OF ok]]
  have "\<exists>y'. system_step y y' \<and> sy_calls y' i = None \<and> op_done (cs_ops (sy_service y') ! i) \<and> gm_get (cs_propertyOps (sy_service y')) k \<noteq> Some i"
    if call: "sy_calls y i = Some (k, ph)" for i k ph
  proof -
    have i: "i < length (cs_ops (sy_service y))" using d call by blast
    have last: "op_done (cs_ops (snd (finishPropertyOperation now k i r cs)) ! i) \<and>
        gm_get (cs_propertyOps (snd (finishPropertyOperation now k i r cs))) k \<noteq> Some i" if len: "length (cs_ops cs) = length (cs_ops (sy_service y))" for now r cs
    proof -
      have "ended (snd (finishPropertyOperation now k i r cs)) ! i" using finish_ended [of i cs now k r] i len by simp
      then show ?thesis using i len by (simp add: gm_get_del)
    qed
    show ?thesis
    proof (cases ph)
      case Waiting
      let ?y = "end_call 0 k i (None, zero_command, Some ErrContext) (sy_service y) y"
      have "system_step y ?y" using call unfolding Waiting by (rule sy_give_up)
      then show ?thesis using last [of "sy_service y"] by (intro exI [of _ ?y]) (simp del: finish_sel)
    next
      case (Writing command previous)
      obtain r s' where c: "complete_write 0 0 (\<lambda>_. []) Inr False (Inl ErrContext) command previous (cs_service (sy_service y)) = (r, s')" by fastforce
      let ?y = "end_call 0 k i r (on_service (\<lambda>_. s') (sy_service y)) y"
      have "system_step y ?y" using call c unfolding Writing by (rule sy_answer)
      then show ?thesis using last [of "on_service (\<lambda>_. s') (sy_service y)"] by (intro exI [of _ ?y]) (simp del: finish_sel)
    qed
  qed
  moreover have "sy_calls y i \<noteq> None" if "i < length (cs_ops (sy_service y))" "\<not> op_done (cs_ops (sy_service y) ! i)" for i
    using d that by blast
  moreover have "i < length (cs_ops (sy_service y)) \<and> \<not> op_done (cs_ops (sy_service y) ! i) \<and> (\<exists>ph. sy_calls y i = Some (k, ph))"
    if "gm_get (cs_propertyOps (sy_service y)) k = Some i" for k i
    using calls_okD(1) [OF system_okD(2) [OF ok] that] d by blast
  ultimately show ?thesis by blast
qed

text \<open>C6. A failed write is rolled back: when the provider rejects a write in flight, in any reachable state, no device is
  returned, the value at the key of the write is put back to what it was before the write if the command still owns it
  (to an unavailable value if there was none) and is left alone if a report or a newer write has taken its place, no
  other key and no device is touched, and the command no longer waits.\<close>

theorem failed_write_rolls_back:
  assumes "reachable system_init system_step y" and "sy_calls y i = Some (key, Writing command previous)"
    and "s = cs_service (sy_service y)"
    and "complete_write now nowState err_text project confirms (Inl err) command previous s = ((item, c, e), s')"
  shows "item = None \<and> e \<noteq> None \<and> ds_registry s' = ds_registry s \<and>
    get_state key (ds_states s') =
      (case get_state key (ds_states s) of
         None \<Rightarrow> None
       | Some v \<Rightarrow> if sv_PendingCommandID v = cmd_ID command then Some (resolved previous v) else Some v) \<and>
    (\<forall>k. k \<noteq> key \<longrightarrow> get_state k (ds_states s') = get_state k (ds_states s)) \<and>
    (\<forall>x. commands_of (ds_commands s') (cmd_ID command) = Some x \<longrightarrow> terminal (cmd_Status x))"
proof -
  have ok: "system_ok y" by (rule service_sys.reachable_inv [OF assms(1)])
  have sok: "service_ok s" using system_okD(1) [OF ok] by (simp add: assms(3))
  note o = owners_okD [OF system_okD(3) [OF ok] assms(2)]
  have s': "s' = snd (complete_write now nowState err_text project confirms (Inl err) command previous s)" by (simp add: assms(4))
  have own: "owner (ds_states s) k = cmd_ID command \<Longrightarrow> k = key" for k
    using system_okD(3) [OF ok] o(1,3) unfolding assms(3) owners_ok_def by (metis option.inject)
  have get: "get_state k (ds_states s') = (if owner (ds_states s) k = cmd_ID command then map_option (resolved previous) (get_state k (ds_states s)) else get_state k (ds_states s))" for k
    unfolding s' failed_write_states by (rule resolve_get [OF service_okD(2) [OF sok] o(3) own])
  have "get_state key (ds_states s') = (case get_state key (ds_states s) of None \<Rightarrow> None
       | Some v \<Rightarrow> if sv_PendingCommandID v = cmd_ID command then Some (resolved previous v) else Some v)"
    unfolding get by (simp add: owner_def split: option.split)
  moreover have "get_state k (ds_states s') = get_state k (ds_states s)" if "k \<noteq> key" for k using get [of k] own [of k] that by auto
  moreover have "terminal (cmd_Status x)" if "commands_of (ds_commands s') (cmd_ID command) = Some x" for x
    using failed_write_terminal [OF sok] that unfolding s' by blast
  moreover have "item = None \<and> e \<noteq> None" using assms(4)
    by (auto simp: complete_write_def rejectPropertyWrite_def Let_def case_prod_beta split: if_splits)
  ultimately show ?thesis unfolding s' failed_write_registry by blast
qed

lemma supersede_terminal:
  assumes inv: "tracker_inv t" and c: "commands_of t i = Some c" "\<not> terminal (cmd_Status c)"
    and d: "commands_of (snd (snd (supersede now i message t))) i = Some d"
  shows "terminal (cmd_Status d)"
proof (rule supersede_eq [OF tracker_invD [OF inv] c, of now message])
  fix m
  let ?s = "(put_command i (superseded_command now m c) t)\<lparr>tk_pending := gm_del (command_key c) (tk_pending t)\<rparr>"
  assume "tracker_ok ?s" "snd (snd (supersede now i message t)) = trim_history ?s"
  with trim_history_sub [of ?s i d] d have "commands_of ?s i = Some d" by simp
  then show ?thesis by (auto simp: gm_get_put superseded_command_def terminal_def)
qed

text \<open>C14. A newer write replaces an older one: when a write of a different value starts while an operation on the same key is
  open and its command outstanding, a new operation becomes the current one of the key, the old operation is cancelled,
  its command no longer waits, and no value of the store is owned by that command any more.\<close>

theorem newer_write_replaces:
  assumes "reachable system_init system_step y" and "cs = sy_service y" and "gm_get (cs_propertyOps cs) key = Some o0"
    and "\<not> value_equal (op_expected (cs_ops cs ! o0)) v" and "j = cmd_ID (op_command (cs_ops cs ! o0))"
    and "commands_of (ds_commands (cs_service cs)) j = Some x" and "\<not> terminal (cmd_Status x)"
    and "beginPropertyOperation now key v cs = ((i, joined), cs')"
  shows "\<not> joined \<and> i = length (cs_ops cs) \<and> gm_get (cs_propertyOps cs') key = Some i \<and> op_expected (cs_ops cs' ! i) = v \<and>
    \<not> op_done (cs_ops cs' ! i) \<and> op_cancelled (cs_ops cs' ! o0) \<and>
    (\<forall>c. commands_of (ds_commands (cs_service cs')) j = Some c \<longrightarrow> terminal (cmd_Status c)) \<and>
    (\<forall>k value. get_state k (ds_states (cs_service cs')) = Some value \<longrightarrow> sv_PendingCommandID value \<noteq> j)"
proof -
  have ok: "system_ok y" by (rule service_sys.reachable_inv [OF assms(1)])
  have sok: "service_ok (cs_service cs)" using system_okD(1) [OF ok] by (simp add: assms(2))
  note inv = service_okD(3) [OF sok]
  have "\<exists>ph. sy_calls y o0 = Some (key, ph)" using calls_okD(1) [OF system_okD(2) [OF ok]] assms(3) by (simp add: assms(2))
  then have o0: "o0 < length (cs_ops cs)" using calls_okD(3) [OF system_okD(2) [OF ok]] unfolding assms(2) by blast
  have id: "cmd_ID x = j" "j \<noteq> []" using tracker_okD(3) [OF tracker_invD [OF inv] assms(6)] by (auto simp: command_ok_def)
  let ?m = "''replaced by a newer property write''"
  let ?t = "snd (snd (supersede now j ?m (ds_commands (cs_service cs))))"
  have sup: "fst (supersede now j ?m (ds_commands (cs_service cs))) = (superseded_command now ?m x, True)"
    using assms(6,7) by (simp add: supersede_def Let_def)
  have cs': "cs_service cs' = resolve_and_publish j None (add_metric mt_commandsSuperseded_update 1 (set_commands ?t (cs_service cs)))"
    "cs_ops cs' = (cs_ops cs)[o0 := (cs_ops cs ! o0)\<lparr>op_cancelled := True\<rparr>] @ [new_operation v]"
    "cs_propertyOps cs' = gm_put key (length (cs_ops cs)) (cs_propertyOps cs)" "i = length (cs_ops cs)" "\<not> joined"
    using assms(3,4,8) id sup by (auto simp: beginPropertyOperation_def Let_def case_prod_beta assms(5) [symmetric] update_op_def superseded_command_def)
  have gone: "sv_PendingCommandID u \<noteq> j" if "get_state k (ds_states (cs_service cs')) = Some u" for k u
  proof -
    have unique: "owner (ds_states (cs_service cs)) k' = j \<Longrightarrow> k' = k" if "owner (ds_states (cs_service cs)) k = j" for k'
      using unique_owner [OF system_okD(3) [OF ok] _ _ id(2), of k' k] that by (simp add: assms(2))
    show ?thesis
    proof (cases "owner (ds_states (cs_service cs)) k = j")
      case True
      then show ?thesis using resolve_get [OF service_okD(2) [OF sok] id(2) unique [OF True], of k None] \<open>get_state k _ = Some u\<close> id(2)
        by (auto simp: cs'(1) resolved_def)
    next
      case False
      with owners_kept_resolve [of "ds_states (cs_service cs)" j None] \<open>get_state k _ = Some u\<close> id(2) show ?thesis
        unfolding owners_kept_def cs'(1) by (auto simp: owner_def dest: spec [of _ k])
    qed
  qed
  have "terminal (cmd_Status c)" if "commands_of (ds_commands (cs_service cs')) j = Some c" for c
    using supersede_terminal [OF inv assms(6,7)] that by (simp add: cs'(1))
  with gone o0 show ?thesis by (simp add: cs'(2-5) nth_append new_operation_def gm_get_put)
qed

text \<open>The same write is not sent twice: a write whose value a pending command of its key already waits for ends without a
  call of the provider and without a change of states and devices; it returns the registered device and that command,
  which counts one coalesced request more.\<close>

theorem duplicate_write_not_sent:
  assumes "service_ok (cs_service cs)" and "gm_get (cs_propertyOps cs) key = Some i"
    and "gm_get (tk_pending (ds_commands (cs_service cs)))
      (pendingKey (key_DeviceID key) (key_EndpointID key) (key_CapabilityID key) (key_PropertyID key)) = Some j"
    and "commands_of (ds_commands (cs_service cs)) j = Some x" and "value_equal (cmd_Expected x) v"
    and "prepare_property begun now newID corr err_text writer route key v i cs = (result, cs')"
  shows "ds_states (cs_service cs') = ds_states (cs_service cs) \<and> ds_registry (cs_service cs') = ds_registry (cs_service cs) \<and>
    (\<exists>c. cmd_ID c = j \<and> cmd_Coalesced c = cmd_Coalesced x + 1 \<and>
      result = Finished (case registry_get (key_DeviceID key) (ds_registry (cs_service cs)) of
        None \<Rightarrow> (None, c, Some ErrDeviceNotFound) | Some item \<Rightarrow> (Some item, c, None)))"
proof -
  let ?t = "ds_commands (cs_service cs)"
  note ok = tracker_invD [OF service_okD(3) [OF assms(1)]]
  have id: "cmd_ID x = j" using tracker_okD(3) [OF ok assms(4)] by (simp add: command_ok_def)
  let ?y = "x\<lparr>cmd_Coalesced := cmd_Coalesced x + 1, cmd_UpdatedAt := begun\<rparr>"
  have b: "beginPropertyCorrelated begun newID (key_DeviceID key) (key_EndpointID key) (key_CapabilityID key) (key_PropertyID key) v corr ?t =
      ((?y, None, True), [?y], put_command j ?y (pruneLocked ?t))"
    by (rule beginProperty_cases [OF ok, of "key_DeviceID key" "key_EndpointID key" "key_CapabilityID key" "key_PropertyID key" begun newID v corr])
      (use assms(3-5) in \<open>auto simp: Let_def\<close>)
  show ?thesis using assms(2,6) id
    by (auto simp: prepare_property_def b Let_def case_prod_beta split: option.splits intro!: exI [of _ ?y])
qed

text \<open>C38. The exception to the rule for disabled devices: \<open>ExecuteCommand\<close> registers the device that the provider returns as it
  is. A device that was disabled while the provider executed the command is registered as enabled and online again
  although the preference still says disabled; \<open>sy_acted\<close> excludes this case.\<close>

theorem action_reenables_device:
  assumes "isDeviceDisabled (dev_ID item) s" and "\<not> dev_Disabled item" and "dev_Availability item = AvailabilityOnline"
    and "complete_action now err_text Inr (Inr item) command s = (result, s')"
  shows "isDeviceDisabled (dev_ID item) s' \<and>
    (\<exists>d. registry_get (dev_ID item) (ds_registry s') = Some d \<and> \<not> dev_Disabled d \<and> isOnline d)"
proof -
  have "registry_get (dev_ID item) (ds_registry s') = Some (normalizeAvailability item)" "ds_disabled s' = ds_disabled s"
    using assms(4) by (auto simp: complete_action_def Let_def case_prod_beta registry_upsert_get)
  with assms(1-3) show ?thesis
    by (simp add: isDeviceDisabled_def normalizeAvailability_def setAvailability_def effectiveAvailability_def isOnline_def)
qed

lemma set_operation_command:
  assumes "commands_of (ds_commands (cs_service cs)) (cmd_ID c) = Some x"
  shows "\<exists>y. commands_of (ds_commands (cs_service (snd (setPropertyOperationCommand now key i c cs)))) (cmd_ID c) = Some y \<and> cmd_Status y = cmd_Status x"
  using assms by (auto simp: setPropertyOperationCommand_def addCoalesced_def Let_def case_prod_beta gm_get_put)

lemma sent_command:
  assumes "commands_of t i = Some x" and "\<not> terminal (cmd_Status x)"
  shows "\<exists>y. commands_of (snd (snd (sent now i t))) i = Some y \<and> cmd_Status y = StatusSent"
  using assms by (simp add: sent_def transition_command_def Let_def gm_get_put terminal_def)

lemma optimistic_value:
  assumes "state_payload_of v = Some payload"
  shows "\<exists>x. ds_states (applyOptimisticState key v c previous s) = snd (applyOptimistic x (ds_states s)) \<and> sv_Key x = key \<and>
    sv_Value x = payload \<and> sv_Quality x = QualityOptimistic \<and> sv_PendingCommandID x = cmd_ID c"
  using assms by (auto simp: applyOptimisticState_def Let_def case_prod_beta)

lemma write_prepared:
  assumes "service_ok (cs_service cs)" and "gm_get (cs_propertyOps cs) key = Some i"
    and "gm_get (tk_pending (ds_commands (cs_service cs)))
      (pendingKey (key_DeviceID key) (key_EndpointID key) (key_CapabilityID key) (key_PropertyID key)) = None"
    and "registry_get (key_DeviceID key) (ds_registry (cs_service cs)) = Some d" and "route d = Inr (path, pv)"
    and "state_payload_of v = Some payload" and "val_Kind payload \<noteq> KindOther []"
    and "prepare_property begun now newID corr err_text True route key v i cs = (result, cs')"
  shows "(\<exists>c. result = Write c (get_state key (ds_states (cs_service cs))) path pv \<and> cmd_ID c = newID) \<and>
    (\<exists>x. commands_of (ds_commands (cs_service cs')) newID = Some x \<and> cmd_Status x = StatusSent) \<and>
    (\<exists>value. get_state key (ds_states (cs_service cs')) = Some value \<and> sv_Value value = payload \<and> sv_Available value \<and>
       sv_Quality value = QualityOptimistic \<and> sv_PendingCommandID value = newID) \<and>
    (\<forall>k. k \<noteq> key \<longrightarrow> get_state k (ds_states (cs_service cs')) = get_state k (ds_states (cs_service cs)))"
proof -
  let ?t = "ds_commands (cs_service cs)"
  let ?c = "new_property_command begun newID ?t (key_DeviceID key) (key_EndpointID key) (key_CapabilityID key) (key_PropertyID key) v corr"
  let ?k = "pendingKey (key_DeviceID key) (key_EndpointID key) (key_CapabilityID key) (key_PropertyID key)"
  note ok = tracker_invD [OF service_okD(3) [OF assms(1)]]
  let ?b = "insert_pending ?k ?c (pruneLocked ?t)"
  have b: "beginPropertyCorrelated begun newID (key_DeviceID key) (key_EndpointID key) (key_CapabilityID key) (key_PropertyID key) v corr ?t =
      ((?c, None, False), [?c], ?b)"
    by (rule beginProperty_cases [OF ok, of "key_DeviceID key" "key_EndpointID key" "key_CapabilityID key" "key_PropertyID key" begun newID v corr])
      (use assms(3) in auto)
  define cs1 where "cs1 = snd (setPropertyOperationCommand now key i ?c (on_service (set_commands ?b) cs))"
  define s1 where "s1 = applyOptimisticState key v ?c (get_state key (ds_states (cs_service cs))) (add_metric mt_commandsStarted_update 1 (cs_service cs1))"
  have cs': "result = Write ?c (get_state key (ds_states (cs_service cs))) path pv"
    "cs_service cs' = set_commands (snd (snd (sent now newID (ds_commands s1)))) s1"
    using assms(2,4,5,8) by (auto simp: prepare_property_def b Let_def case_prod_beta start_write_def s1_def cs1_def)
  have "commands_of ?b newID = Some ?c" "cmd_ID ?c = newID" "cmd_Status ?c = StatusQueued"
    by (simp_all add: insert_pending_def gm_get_put)
  then obtain y where y: "commands_of (ds_commands s1) newID = Some y" "cmd_Status y = StatusQueued"
    using set_operation_command [of "on_service (set_commands ?b) cs" ?c ?c now key i] by (auto simp: s1_def cs1_def)
  obtain o1 where st: "ds_states s1 = snd (applyOptimistic o1 (ds_states (cs_service cs)))" "sv_Key o1 = key" "sv_Value o1 = payload"
      "sv_Quality o1 = QualityOptimistic" "sv_PendingCommandID o1 = newID"
    using optimistic_value [OF assms(6), of key ?c "get_state key (ds_states (cs_service cs))" "add_metric mt_commandsStarted_update 1 (cs_service cs1)"]
    by (auto simp: s1_def cs1_def)
  have "\<exists>value. get_state key (ds_states s1) = Some value \<and> sv_Value value = payload \<and> sv_Available value \<and>
       sv_Quality value = QualityOptimistic \<and> sv_PendingCommandID value = newID"
    using assms(7) st(2-) by (simp add: st(1) applyOptimistic_def Let_def) (simp add: normalize_state_def Let_def)
  moreover have "get_state k (ds_states s1) = get_state k (ds_states (cs_service cs))" if "k \<noteq> key" for k
    using that st(2) by (simp add: st(1) applyOptimistic_def Let_def)
  ultimately show ?thesis using sent_command [OF y(1), of now] y(2) cs'(1) by (simp add: cs'(2) terminal_def)
qed

text \<open>C13. A new write goes out: when no command of the key is pending and the property has a route to the provider, the
  prepared call leads to a write of the routed value, the store at once shows the requested value as optimistic, owned
  by the new command, no other key changes, and the tracker holds the command as sent.\<close>

theorem write_goes_out:
  assumes "service_ok (cs_service cs)" and "gm_get (cs_propertyOps cs) key = Some i"
    and "gm_get (tk_pending (ds_commands (cs_service cs)))
      (pendingKey (key_DeviceID key) (key_EndpointID key) (key_CapabilityID key) (key_PropertyID key)) = None"
    and "registry_get (key_DeviceID key) (ds_registry (cs_service cs)) = Some d" and "route d = Inr (path, pv)"
    and "state_payload_of v = Some payload" and "val_Kind payload \<noteq> KindOther []"
    and "prepare_property begun now newID corr err_text True route key v i cs = (result, cs')"
  shows "(\<exists>c. result = Write c (get_state key (ds_states (cs_service cs))) path pv \<and> cmd_ID c = newID) \<and>
    (\<exists>x. commands_of (ds_commands (cs_service cs')) newID = Some x \<and> cmd_Status x = StatusSent) \<and>
    (\<exists>value. get_state key (ds_states (cs_service cs')) = Some value \<and> sv_Value value = payload \<and> sv_Available value \<and>
       sv_Quality value = QualityOptimistic \<and> sv_PendingCommandID value = newID) \<and>
    (\<forall>k. k \<noteq> key \<longrightarrow> get_state k (ds_states (cs_service cs')) = get_state k (ds_states (cs_service cs)))"
  by (rule write_prepared [OF assms])

section \<open>A concrete run\<close>

text \<open>A lamp is loaded, a write that switches it off is opened, and the write goes out.\<close>

definition switch_key :: state_key where
  "switch_key = Key ''lamp'' ''main'' ''switch'' ''power''"

definition lamp_service :: service where
  "lamp_service = load_device Inr 7 None (lamp True AvailabilityOnline 3) (new_service None)"

definition run0 :: system where
  "run0 = \<lparr>sy_service = \<lparr>cs_service = new_service None, cs_propertyOps = [], cs_ops = []\<rparr>, sy_calls = Map.empty, sy_issued = Map.empty\<rparr>"

definition run1 :: system where
  "run1 = with_service \<lparr>cs_service = lamp_service, cs_propertyOps = [], cs_ops = []\<rparr> run0"

definition run2 :: system where
  "run2 = run1\<lparr>sy_service := \<lparr>cs_service = lamp_service, cs_propertyOps = [(switch_key, 0)], cs_ops = [new_operation (BoolValue False)]\<rparr>,
     sy_calls := [0 \<mapsto> (switch_key, Waiting)]\<rparr>"

definition lamp_write :: "prepared \<times> command_service" where
  "lamp_write = prepare_property 10 10 ''c1'' [] (\<lambda>_. []) True (\<lambda>_. Inr ((''main'', ''switch'', ''power''), BoolValue False)) switch_key (BoolValue False) 0
     (sy_service run2)"

definition run3 :: system where
  "run3 = run2\<lparr>sy_service := snd lamp_write,
     sy_calls := [0 \<mapsto> (switch_key, Writing (wr_command (fst lamp_write)) (wr_previous (fst lamp_write)))], sy_issued := [''c1'' \<mapsto> switch_key]\<rparr>"

lemma switch_key_sel [simp]:
  "key_DeviceID switch_key = ''lamp''" "key_EndpointID switch_key = ''main''" "key_CapabilityID switch_key = ''switch''" "key_PropertyID switch_key = ''power''"
  by (simp_all add: switch_key_def)

lemma lamp_service_sel [simp]:
  "ds_commands lamp_service = newTracker 5000000000" "ds_disabled lamp_service = []"
  "registry_get ''lamp'' (ds_registry lamp_service) = Some (normalizeAvailability (lamp True AvailabilityOnline 3))"
  by (simp_all add: lamp_service_def load_device_def initial_item_def new_service_def Let_def registry_upsert_get newDeviceRegistry_def)
    (simp_all add: normalizeAvailability_def setAvailability_def registry_upsert_get effectiveAvailability_def)

lemma lamp_service_ok: "service_ok lamp_service"
  unfolding lamp_service_def by (rule load_device_ok [OF service_ok_new]) (simp add: new_service_def)

lemma lamp_writable: "validatePropertyWrite ''lamp'' ''main'' ''switch'' ''power'' (BoolValue False) lamp_service = None"
  by code_simp

lemma run1_reachable: "reachable system_init system_step run1"
proof -
  have "reachable system_init system_step run0" by (rule reach_init) (auto simp: system_init_def run0_def)
  moreover have "system_step run0 run1"
    using sy_handler [OF on_load, of run0 Inr 7 None "lamp True AvailabilityOnline 3"]
    by (simp add: run1_def run0_def lamp_service_def on_service_def new_service_def)
  ultimately show ?thesis by (rule reach_step)
qed

lemma run2_reachable: "reachable system_init system_step run2"
proof -
  have b: "beginPropertyOperation 9 switch_key (BoolValue False) (sy_service run1) = ((0, False), sy_service run2)"
    by (simp add: run1_def run2_def beginPropertyOperation_def open_operation_def)
  have "stable_key switch_key" by (simp add: stable_key_def)
  from sy_open [OF _ this b] have "system_step run1 run2"
    using lamp_writable by (simp add: run1_def run2_def run0_def)
  with run1_reachable show ?thesis by (rule reach_step)
qed

lemma lamp_write_facts:
  "(\<exists>c. fst lamp_write = Write c (get_state switch_key (ds_states lamp_service)) (''main'', ''switch'', ''power'') (BoolValue False) \<and> cmd_ID c = ''c1'')"
  "(\<exists>x. commands_of (ds_commands (cs_service (snd lamp_write))) ''c1'' = Some x \<and> cmd_Status x = StatusSent)"
  "(\<exists>value. get_state switch_key (ds_states (cs_service (snd lamp_write))) = Some value \<and> sv_Value value = BoolStateValue False \<and> sv_Available value \<and>
       sv_Quality value = QualityOptimistic \<and> sv_PendingCommandID value = ''c1'')"
proof -
  have "prepare_property 10 10 ''c1'' [] (\<lambda>_. []) True (\<lambda>_. Inr ((''main'', ''switch'', ''power''), BoolValue False)) switch_key (BoolValue False) 0
     (sy_service run2) = (fst lamp_write, snd lamp_write)" by (simp add: lamp_write_def)
  note w = write_prepared [OF _ _ _ _ refl _ _ this]
  have "service_ok (cs_service (sy_service run2))" "gm_get (cs_propertyOps (sy_service run2)) switch_key = Some 0"
    "gm_get (tk_pending (ds_commands (cs_service (sy_service run2)))) (pendingKey (key_DeviceID switch_key) (key_EndpointID switch_key) (key_CapabilityID switch_key) (key_PropertyID switch_key)) = None"
    "registry_get (key_DeviceID switch_key) (ds_registry (cs_service (sy_service run2))) = Some (normalizeAvailability (lamp True AvailabilityOnline 3))"
    "val_Kind (BoolStateValue False) \<noteq> KindOther []"
    by (simp_all add: run2_def lamp_service_ok newTracker_def BoolStateValue_def)
  from w [OF this(1-4) lamp_power_sel(3) this(5)]
  show "(\<exists>c. fst lamp_write = Write c (get_state switch_key (ds_states lamp_service)) (''main'', ''switch'', ''power'') (BoolValue False) \<and> cmd_ID c = ''c1'')"
    "(\<exists>x. commands_of (ds_commands (cs_service (snd lamp_write))) ''c1'' = Some x \<and> cmd_Status x = StatusSent)"
    "(\<exists>value. get_state switch_key (ds_states (cs_service (snd lamp_write))) = Some value \<and> sv_Value value = BoolStateValue False \<and> sv_Available value \<and>
       sv_Quality value = QualityOptimistic \<and> sv_PendingCommandID value = ''c1'')"
    by (simp_all add: run2_def)
qed

lemma run3_reachable: "reachable system_init system_step run3"
proof -
  obtain c where c: "fst lamp_write = Write c (get_state switch_key (ds_states lamp_service)) (''main'', ''switch'', ''power'') (BoolValue False)"
    using lamp_write_facts(1) by blast
  have p: "prepare_property 10 10 ''c1'' [] (\<lambda>_. []) True (\<lambda>_. Inr ((''main'', ''switch'', ''power''), BoolValue False)) switch_key (BoolValue False) 0
     (sy_service run2) = (Write c (get_state switch_key (ds_states lamp_service)) (''main'', ''switch'', ''power'') (BoolValue False), snd lamp_write)"
    by (simp add: c [symmetric] lamp_write_def)
  have "fresh_id ''c1'' run2" by (simp add: fresh_id_def run2_def run1_def run0_def newTracker_def)
  moreover have "sy_calls run2 0 = Some (switch_key, Waiting)" by (simp add: run2_def)
  ultimately have "system_step run2 run3"
    using sy_write [OF _ _ p] by (simp add: run3_def c) (simp add: run2_def run1_def run0_def)
  with run2_reachable show ?thesis by (rule reach_step)
qed

section \<open>Witnesses\<close>


theorem operations_end_witness: "\<exists>y'. system_step run3 y' \<and> sy_calls y' 0 = None \<and> op_done (cs_ops (sy_service y') ! 0)"
proof -
  have "sy_calls run3 0 = Some (switch_key, Writing (wr_command (fst lamp_write)) (wr_previous (fst lamp_write)))" by (simp add: run3_def)
  with operations_end [OF run3_reachable] show ?thesis by blast
qed

theorem failed_write_rolls_back_witness:
  "\<exists>c v. fst lamp_write = Write c (get_state switch_key (ds_states lamp_service)) (''main'', ''switch'', ''power'') (BoolValue False) \<and>
     get_state switch_key (ds_states (snd (complete_write 11 11 (\<lambda>_. []) Inr False (Inl ErrContext) c (get_state switch_key (ds_states lamp_service))
       (cs_service (sy_service run3))))) = Some (resolved (get_state switch_key (ds_states lamp_service)) v)"
proof -
  obtain c where c: "fst lamp_write = Write c (get_state switch_key (ds_states lamp_service)) (''main'', ''switch'', ''power'') (BoolValue False)" "cmd_ID c = ''c1''"
    using lamp_write_facts(1) by blast
  have call: "sy_calls run3 0 = Some (switch_key, Writing c (get_state switch_key (ds_states lamp_service)))" by (simp add: run3_def c(1))
  obtain v where v: "get_state switch_key (ds_states (cs_service (sy_service run3))) = Some v" "sv_PendingCommandID v = ''c1''"
    using lamp_write_facts(3) by (auto simp: run3_def)
  obtain item x e s' where w: "complete_write 11 11 (\<lambda>_. []) Inr False (Inl ErrContext) c (get_state switch_key (ds_states lamp_service))
       (cs_service (sy_service run3)) = ((item, x, e), s')" by (metis prod.exhaust)
  from failed_write_rolls_back [OF run3_reachable call refl w] v c show ?thesis by (auto simp: w)
qed

lemma lamp_operation:
  "cs_propertyOps (snd lamp_write) = [(switch_key, 0)]" "op_expected (cs_ops (snd lamp_write) ! 0) = BoolValue False"
  "cmd_ID (op_command (cs_ops (snd lamp_write) ! 0)) = ''c1''"
  "gm_get (tk_pending (ds_commands (cs_service (snd lamp_write)))) (pendingKey ''lamp'' ''main'' ''switch'' ''power'') = Some ''c1''"
  "length (cs_ops (snd lamp_write)) = 1" "\<exists>x. commands_of (ds_commands (cs_service (snd lamp_write))) ''c1'' = Some x \<and> cmd_Expected x = BoolValue False"
  by (simp_all add: lamp_write_def prepare_property_def run2_def newTracker_def beginPropertyCorrelated_def pruneLocked_def trim_small Let_def case_prod_beta
      insert_pending_def put_command_def setPropertyOperationCommand_def update_op_def new_operation_def start_write_def sent_def transition_command_def
      new_property_command_def zero_command_def terminal_def gm_get_put)

theorem newer_write_replaces_witness:
  "gm_get (cs_propertyOps (snd (beginPropertyOperation 12 switch_key (BoolValue True) (sy_service run3)))) switch_key = Some 1"
proof -
  obtain i joined cs' where b: "beginPropertyOperation 12 switch_key (BoolValue True) (sy_service run3) = ((i, joined), cs')" by (metis prod.exhaust)
  obtain x where x: "commands_of (ds_commands (cs_service (sy_service run3))) ''c1'' = Some x" "cmd_Status x = StatusSent"
    using lamp_write_facts(2) by (auto simp: run3_def)
  have len: "length (cs_ops (sy_service run3)) = 1" by (simp add: run3_def lamp_operation)
  have "gm_get (cs_propertyOps (sy_service run3)) switch_key = Some 0" "\<not> value_equal (op_expected (cs_ops (sy_service run3) ! 0)) (BoolValue True)"
    "''c1'' = cmd_ID (op_command (cs_ops (sy_service run3) ! 0))" "\<not> terminal (cmd_Status x)"
    using x(2) by (simp_all add: run3_def lamp_operation terminal_def) code_simp
  from newer_write_replaces [OF run3_reachable refl this(1,2,3) x(1) this(4) b] len show ?thesis by (simp add: b)
qed

theorem duplicate_write_not_sent_witness:
  "\<exists>r. fst (prepare_property 12 12 ''c2'' [] (\<lambda>_. []) True (\<lambda>_. Inr ((''main'', ''switch'', ''power''), BoolValue False)) switch_key (BoolValue False) 0
     (sy_service run3)) = Finished r"
proof -
  obtain x where x: "commands_of (ds_commands (cs_service (sy_service run3))) ''c1'' = Some x" "cmd_Expected x = BoolValue False"
    using lamp_operation(6) by (auto simp: run3_def)
  have ok: "service_ok (cs_service (sy_service run3))" by (rule system_okD(1) [OF service_sys.reachable_inv [OF run3_reachable]])
  have "gm_get (cs_propertyOps (sy_service run3)) switch_key = Some 0"
    "gm_get (tk_pending (ds_commands (cs_service (sy_service run3)))) (pendingKey (key_DeviceID switch_key) (key_EndpointID switch_key)
      (key_CapabilityID switch_key) (key_PropertyID switch_key)) = Some ''c1''"
    by (simp_all add: run3_def lamp_operation)
  moreover have "value_equal (cmd_Expected x) (BoolValue False)" unfolding x(2) by code_simp
  moreover obtain r cs' where p: "prepare_property 12 12 ''c2'' [] (\<lambda>_. []) True (\<lambda>_. Inr ((''main'', ''switch'', ''power''), BoolValue False)) switch_key
      (BoolValue False) 0 (sy_service run3) = (r, cs')" by fastforce
  ultimately show ?thesis using duplicate_write_not_sent [OF ok _ _ x(1) _ p] unfolding p fst_conv by blast
qed

theorem write_goes_out_witness: "\<exists>c. cmd_ID c = ''c1'' \<and> fst lamp_write = Write c (get_state switch_key (ds_states lamp_service)) (''main'', ''switch'', ''power'') (BoolValue False)"
proof -
  have p: "prepare_property 10 10 ''c1'' [] (\<lambda>_. []) True (\<lambda>_. Inr ((''main'', ''switch'', ''power''), BoolValue False)) switch_key (BoolValue False) 0
     (sy_service run2) = (fst lamp_write, snd lamp_write)" by (simp add: lamp_write_def)
  have "service_ok (cs_service (sy_service run2))" "gm_get (cs_propertyOps (sy_service run2)) switch_key = Some 0"
    "gm_get (tk_pending (ds_commands (cs_service (sy_service run2)))) (pendingKey (key_DeviceID switch_key) (key_EndpointID switch_key) (key_CapabilityID switch_key) (key_PropertyID switch_key)) = None"
    "registry_get (key_DeviceID switch_key) (ds_registry (cs_service (sy_service run2))) = Some (normalizeAvailability (lamp True AvailabilityOnline 3))"
    "val_Kind (BoolStateValue False) \<noteq> KindOther []"
    by (simp_all add: run2_def lamp_service_ok newTracker_def BoolStateValue_def)
  from write_goes_out [OF this(1-4) refl lamp_power_sel(3) this(5) p] show ?thesis by (auto simp: run2_def)
qed

theorem action_reenables_device_witness:
  "\<exists>d. registry_get ''lamp'' (ds_registry (snd (complete_action 9 (\<lambda>_. []) Inr (Inr (lamp True AvailabilityOnline 4)) zero_command
     (lamp_service\<lparr>ds_disabled := [(''lamp'', ())]\<rparr>)))) = Some d \<and> \<not> dev_Disabled d \<and> isOnline d"
proof -
  let ?r = "complete_action 9 (\<lambda>_. []) Inr (Inr (lamp True AvailabilityOnline 4)) zero_command (lamp_service\<lparr>ds_disabled := [(''lamp'', ())]\<rparr>)"
  have "isDeviceDisabled (dev_ID (lamp True AvailabilityOnline 4)) (lamp_service\<lparr>ds_disabled := [(''lamp'', ())]\<rparr>)"
    by (simp add: isDeviceDisabled_def)
  from action_reenables_device [OF this _ _ surjective_pairing [of ?r]] show ?thesis by simp
qed

end
