(* ===== verification/Device_Preferences.thy ===== *)
theory Device_Preferences
  imports Device_Service Strconv
begin

text \<open>
  Names and locations that HomeLoom owns, \<open>internal/application/device_service.go\<close> and
  \<open>internal/domain/device/location.go\<close>: a device keeps the name and the place its provider reports
  (the source) beside the ones it shows; preferences and the directory of homes and rooms replace
  what is shown and never the source.

  The answers of the preference stores are arguments: \<open>None\<close> when there is no store, \<open>Some\<close> of the
  outcome otherwise. So are \<open>strings.ToLower\<close> (\<open>lower\<close>, Unicode tables) and the identifier that
  \<open>customLocationID\<close> hashes. White space and runes are those of UTF-8.
\<close>

declare map_of_eq_Some_iff [simp del] Some_eq_map_of_iff [simp del]

section \<open>Text\<close>

text \<open>\<open>strings.Fields\<close>: the runs of bytes that are not white space.\<close>

function fields_from :: "string \<Rightarrow> string \<Rightarrow> string list" where
  "fields_from current s =
     (case leading_space s of
        Some sp \<Rightarrow> (if current = [] then [] else [current]) @ fields_from [] (drop (length sp) s)
      | None \<Rightarrow> (case s of [] \<Rightarrow> (if current = [] then [] else [current]) | c # cs \<Rightarrow> fields_from (current @ [c]) cs))"
  by pat_completeness auto
termination by (relation "measure (\<lambda>(current, s). length s)") (auto dest: leading_space_shorter)

declare fields_from.simps [simp del]

fun join_with :: "string \<Rightarrow> string list \<Rightarrow> string" where
  "join_with sep [] = []"
| "join_with sep [x] = x"
| "join_with sep (x # y # ys) = x @ sep @ join_with sep (y # ys)"

text \<open>The width of the first rune as \<open>utf8.DecodeRuneInString\<close> has it: an invalid byte is a rune of width one.\<close>

definition byte_in :: "nat \<Rightarrow> nat \<Rightarrow> char \<Rightarrow> bool" where
  "byte_in lo hi c \<longleftrightarrow> lo \<le> of_char c \<and> of_char c \<le> hi"

definition second_range :: "char \<Rightarrow> nat \<times> nat" where
  "second_range c = (if c = CHR 0xE0 then (160, 191) else if c = CHR 0xED then (128, 159)
     else if c = CHR 0xF0 then (144, 191) else if c = CHR 0xF4 then (128, 143) else (128, 191))"

fun rune_width :: "string \<Rightarrow> nat" where
  "rune_width (a # b # c # d # rest) =
     (let ok = byte_in (fst (second_range a)) (snd (second_range a)) b; cont = byte_in 128 191
      in if byte_in 194 223 a \<and> ok then 2
         else if byte_in 224 239 a \<and> ok \<and> cont c then 3
         else if byte_in 240 244 a \<and> ok \<and> cont c \<and> cont d then 4 else 1)"
| "rune_width [a, b, c] =
     (let ok = byte_in (fst (second_range a)) (snd (second_range a)) b
      in if byte_in 194 223 a \<and> ok then 2 else if byte_in 224 239 a \<and> ok \<and> byte_in 128 191 c then 3 else 1)"
| "rune_width [a, b] = (if byte_in 194 223 a \<and> byte_in (fst (second_range a)) (snd (second_range a)) b then 2 else 1)"
| "rune_width [a] = 1"
| "rune_width [] = 0"

lemma rune_width_pos: "s \<noteq> [] \<Longrightarrow> 0 < rune_width s"
  by (cases s rule: rune_width.cases) (simp_all add: Let_def)

function rune_count :: "string \<Rightarrow> nat" where
  "rune_count s = (if s = [] then 0 else Suc (rune_count (drop (rune_width s) s)))"
  by pat_completeness auto
termination by (relation "measure length") (auto simp: rune_width_pos)

declare rune_count.simps [simp del]

text \<open>\<open>unicode.IsControl\<close>: the C0 and C1 controls and DEL, bytewise.\<close>

fun contains_control :: "string \<Rightarrow> bool" where
  "contains_control [] = False"
| "contains_control [c] = (byte_in 0 31 c \<or> c = CHR 0x7F)"
| "contains_control (c # d # rest) = (byte_in 0 31 c \<or> c = CHR 0x7F \<or> c = CHR 0xC2 \<and> byte_in 128 159 d \<or> contains_control (d # rest))"

definition validLocationName :: "string \<Rightarrow> bool" where
  "validLocationName value \<longleftrightarrow> rune_count value \<le> 80 \<and> set value \<inter> {CHR 0x00, CHR 0x0D, CHR 0x0A} = {}"

definition validDeviceName :: "string \<Rightarrow> bool" where
  "validDeviceName value \<longleftrightarrow> rune_count value \<le> 128 \<and> \<not> contains_control value"

definition normalizeLocationName :: "(string \<Rightarrow> string) \<Rightarrow> string \<Rightarrow> string" where
  "normalizeLocationName lower value = lower (join_with '' '' (fields_from [] (trimSpace value)))"

definition sameLocationIdentity :: "(string \<Rightarrow> string) \<Rightarrow> string \<Rightarrow> string \<Rightarrow> string \<Rightarrow> string \<Rightarrow> bool" where
  "sameLocationIdentity lower leftID leftName rightID rightName \<longleftrightarrow>
     (leftID \<noteq> [] \<and> rightID \<noteq> [] \<and> leftID = rightID) \<or>
     (let left = normalizeLocationName lower leftName; right = normalizeLocationName lower rightName
      in left \<noteq> [] \<and> left = right)"

section \<open>Preferences\<close>

record location_preference =
  lp_DeviceID :: string
  lp_HomeID :: string
  lp_HomeName :: string
  lp_RoomID :: string
  lp_RoomName :: string

record location_room =
  lr_ID :: string
  lr_HomeID :: string
  lr_Name :: string

record location_home =
  lh_ID :: string
  lh_Name :: string
  lh_Rooms :: "location_room list"

record preferences =
  up_names :: "(string, string) gomap"
  up_locations :: "(string, location_preference) gomap"
  up_homes :: "location_home list"

definition canonicalSourceHome :: "(string \<Rightarrow> string) \<Rightarrow> preferences \<Rightarrow> string \<Rightarrow> string \<Rightarrow> location_home option" where
  "canonicalSourceHome lower u sourceID sourceName =
     find (\<lambda>home. sameLocationIdentity lower (lh_ID home) (lh_Name home) sourceID sourceName) (up_homes u)"

definition canonicalSourceRoom :: "(string \<Rightarrow> string) \<Rightarrow> location_room list \<Rightarrow> string \<Rightarrow> string \<Rightarrow> location_room option" where
  "canonicalSourceRoom lower rooms sourceID sourceName =
     find (\<lambda>room. sameLocationIdentity lower (lr_ID room) (lr_Name room) sourceID sourceName) rooms"

definition source_location :: "device \<Rightarrow> device" where
  "source_location item =
     (let item = (if dev_LocationMode item \<noteq> LocationModeOther [] then item
            else item\<lparr>dev_SourceHomeID := dev_HomeID item, dev_SourceHomeName := dev_HomeName item,
              dev_SourceRoomID := dev_RoomID item, dev_SourceRoomName := dev_RoomName item\<rparr>)
      in item\<lparr>dev_HomeID := dev_SourceHomeID item, dev_HomeName := dev_SourceHomeName item,
           dev_RoomID := dev_SourceRoomID item, dev_RoomName := dev_SourceRoomName item, dev_LocationMode := LocationModeSource\<rparr>)"

definition applyDeviceLocation :: "(string \<Rightarrow> string) \<Rightarrow> preferences \<Rightarrow> device \<Rightarrow> device" where
  "applyDeviceLocation lower u item0 =
     (let item = source_location item0
      in case gm_get (up_locations u) (dev_ID item) of
           Some preference \<Rightarrow>
             item\<lparr>dev_LocationMode := LocationModeCustom, dev_HomeID := lp_HomeID preference, dev_HomeName := lp_HomeName preference,
               dev_RoomID := lp_RoomID preference, dev_RoomName := lp_RoomName preference\<rparr>
         | None \<Rightarrow>
             (case canonicalSourceHome lower u (dev_SourceHomeID item) (dev_SourceHomeName item) of
                None \<Rightarrow> item
              | Some home \<Rightarrow>
                  (let item = item\<lparr>dev_HomeID := lh_ID home, dev_HomeName := lh_Name home\<rparr>
                   in case canonicalSourceRoom lower (lh_Rooms home) (dev_SourceRoomID item) (dev_SourceRoomName item) of
                        None \<Rightarrow> item
                      | Some room \<Rightarrow> item\<lparr>dev_RoomID := lr_ID room, dev_RoomName := lr_Name room\<rparr>)))"

definition applyDeviceName :: "preferences \<Rightarrow> device \<Rightarrow> device" where
  "applyDeviceName u item =
     (let sourceName = (if dev_SourceName item \<noteq> [] then dev_SourceName item else dev_Name item);
          item = item\<lparr>dev_SourceName := sourceName, dev_Name := sourceName, dev_NameOverridden := False\<rparr>
      in case gm_get (up_names u) (dev_ID item) of
           None \<Rightarrow> item
         | Some name \<Rightarrow> item\<lparr>dev_Name := name, dev_NameOverridden := True\<rparr>)"

section \<open>The service with its preferences\<close>

record preferred_service =
  ps_service :: service
  ps_prefs :: preferences

datatype preference_error = PrefNotFound | PrefUnavailable | PrefInvalid "string list" | PrefStore
  | PrefLocationNotFound | PrefLocationConflict

text \<open>The loop over all registered devices that the three reloads share; \<open>changed\<close> decides what is published.\<close>

definition reapply_item :: "(device \<Rightarrow> device) \<Rightarrow> (device \<Rightarrow> device \<Rightarrow> bool) \<Rightarrow> bool \<Rightarrow> device \<Rightarrow> service \<Rightarrow> service" where
  "reapply_item f changed publish item s =
     (let updated = f item; s = s\<lparr>ds_registry := registry_upsert updated (ds_registry s)\<rparr>
      in if publish \<and> changed item updated then publishDevice updated s else s)"

definition reapply :: "(device \<Rightarrow> device) \<Rightarrow> (device \<Rightarrow> device \<Rightarrow> bool) \<Rightarrow> bool \<Rightarrow> service \<Rightarrow> service" where
  "reapply f changed publish s = fold (reapply_item f changed publish) (registry_list (ds_registry s)) s"

definition loaded_names :: "(string \<times> string) list \<Rightarrow> (string, string) gomap" where
  "loaded_names listed = fold (\<lambda>(deviceID, name) names. if trimSpace name \<noteq> [] then gm_put deviceID (trimSpace name) names else names) listed []"

definition reloadDeviceNamePreferences ::
  "(string \<times> string) list option option \<Rightarrow> bool \<Rightarrow> preferred_service \<Rightarrow> preference_error option \<times> preferred_service" where
  "reloadDeviceNamePreferences listed publish ps =
     (case listed of
        None \<Rightarrow> (None, ps)
      | Some None \<Rightarrow> (Some PrefStore, ps)
      | Some (Some entries) \<Rightarrow>
          (let u = (ps_prefs ps)\<lparr>up_names := loaded_names entries\<rparr>
           in (None, \<lparr>ps_service = reapply (applyDeviceName u)
                 (\<lambda>item updated. dev_Name updated \<noteq> dev_Name item \<or> dev_NameOverridden updated \<noteq> dev_NameOverridden item) publish (ps_service ps),
               ps_prefs = u\<rparr>)))"

definition reloadDeviceLocationPreferences ::
  "(string \<Rightarrow> string) \<Rightarrow> location_preference list option option \<Rightarrow> bool \<Rightarrow> preferred_service \<Rightarrow> preference_error option \<times> preferred_service" where
  "reloadDeviceLocationPreferences lower listed publish ps =
     (case listed of
        None \<Rightarrow> (None, ps)
      | Some None \<Rightarrow> (Some PrefStore, ps)
      | Some (Some entries) \<Rightarrow>
          (let u = (ps_prefs ps)\<lparr>up_locations := fold (\<lambda>preference m. gm_put (lp_DeviceID preference) preference m) entries []\<rparr>
           in (None, \<lparr>ps_service = reapply (applyDeviceLocation lower u)
                 (\<lambda>item updated. dev_HomeName updated \<noteq> dev_HomeName item \<or> dev_RoomName updated \<noteq> dev_RoomName item) publish (ps_service ps),
               ps_prefs = u\<rparr>)))"

definition reloadDeviceLocationCatalog ::
  "(string \<Rightarrow> string) \<Rightarrow> location_home list option option \<Rightarrow> bool \<Rightarrow> preferred_service \<Rightarrow> preference_error option \<times> preferred_service" where
  "reloadDeviceLocationCatalog lower listed publish ps =
     (case listed of
        None \<Rightarrow> (None, ps)
      | Some None \<Rightarrow> (Some PrefStore, ps)
      | Some (Some homes) \<Rightarrow>
          (let u = (ps_prefs ps)\<lparr>up_homes := homes\<rparr>
           in (None, \<lparr>ps_service = reapply (applyDeviceLocation lower u)
                 (\<lambda>item updated. dev_HomeID updated \<noteq> dev_HomeID item \<or> dev_HomeName updated \<noteq> dev_HomeName item \<or>
                    dev_RoomID updated \<noteq> dev_RoomID item \<or> dev_RoomName updated \<noteq> dev_RoomName item) publish (ps_service ps),
               ps_prefs = u\<rparr>)))"

text \<open>The end that the operations on one device share: register, publish, return.\<close>

definition store_and_publish :: "device \<Rightarrow> service \<Rightarrow> service" where
  "store_and_publish item s = publishDevice item (s\<lparr>ds_registry := registry_upsert item (ds_registry s)\<rparr>)"

definition setDeviceName ::
  "bool option \<Rightarrow> string \<Rightarrow> string \<Rightarrow> preferred_service \<Rightarrow> (preference_error + device) \<times> preferred_service" where
  "setDeviceName saved i name0 ps =
     (case registry_get i (ds_registry (ps_service ps)) of
        None \<Rightarrow> (Inl PrefNotFound, ps)
      | Some item \<Rightarrow>
          (case saved of
             None \<Rightarrow> (Inl PrefUnavailable, ps)
           | Some ok \<Rightarrow>
               (let name = trimSpace name0
                in if name = [] \<or> \<not> validDeviceName name then (Inl (PrefInvalid [''name'']), ps)
                   else if \<not> ok then (Inl PrefStore, ps)
                   else let u = (ps_prefs ps)\<lparr>up_names := gm_put i name (up_names (ps_prefs ps))\<rparr>; item = applyDeviceName u item
                        in (Inr item, \<lparr>ps_service = store_and_publish item (ps_service ps), ps_prefs = u\<rparr>))))"

definition resetDeviceName :: "bool option \<Rightarrow> string \<Rightarrow> preferred_service \<Rightarrow> (preference_error + device) \<times> preferred_service" where
  "resetDeviceName cleared i ps =
     (case registry_get i (ds_registry (ps_service ps)) of
        None \<Rightarrow> (Inl PrefNotFound, ps)
      | Some item \<Rightarrow>
          (case cleared of
             None \<Rightarrow> (Inl PrefUnavailable, ps)
           | Some ok \<Rightarrow>
               if \<not> ok then (Inl PrefStore, ps)
               else let u = (ps_prefs ps)\<lparr>up_names := gm_del i (up_names (ps_prefs ps))\<rparr>; item = applyDeviceName u item
                    in (Inr item, \<lparr>ps_service = store_and_publish item (ps_service ps), ps_prefs = u\<rparr>)))"

text \<open>\<open>ListDeviceLocationHomes\<close> also refreshes the directory that the service keeps.\<close>

definition listDeviceLocationHomes ::
  "location_home list option option \<Rightarrow> preferred_service \<Rightarrow> (preference_error + location_home list) \<times> preferred_service" where
  "listDeviceLocationHomes listed ps =
     (case listed of
        None \<Rightarrow> (Inl PrefUnavailable, ps)
      | Some None \<Rightarrow> (Inl PrefStore, ps)
      | Some (Some homes) \<Rightarrow> (Inr homes, ps\<lparr>ps_prefs := (ps_prefs ps)\<lparr>up_homes := homes\<rparr>\<rparr>))"

text \<open>The preference that \<open>SetDeviceLocation\<close> builds from the chosen home and room.\<close>

definition chosen_location :: "string \<Rightarrow> string \<Rightarrow> location_home list \<Rightarrow> string \<Rightarrow> preference_error + location_preference" where
  "chosen_location i homeID homes roomID =
     (case find (\<lambda>home. lh_ID home = homeID) homes of
        None \<Rightarrow> Inl (PrefInvalid [''homeId''])
      | Some home \<Rightarrow>
          (let preference = \<lparr>lp_DeviceID = i, lp_HomeID = lh_ID home, lp_HomeName = lh_Name home, lp_RoomID = [], lp_RoomName = []\<rparr>
           in if roomID = [] then Inr preference
              else case find (\<lambda>room. lr_ID room = roomID) (lh_Rooms home) of
                     None \<Rightarrow> Inl (PrefInvalid [''roomId''])
                   | Some room \<Rightarrow> Inr (preference\<lparr>lp_RoomID := lr_ID room, lp_RoomName := lr_Name room\<rparr>)))"

definition setDeviceLocation ::
  "(string \<Rightarrow> string) \<Rightarrow> bool option \<Rightarrow> location_home list option option \<Rightarrow> string \<Rightarrow> location_mode \<Rightarrow> string \<Rightarrow> string \<Rightarrow> preferred_service \<Rightarrow>
     (preference_error + device) \<times> preferred_service" where
  "setDeviceLocation lower saved listed i mode homeID roomID ps =
     (case registry_get i (ds_registry (ps_service ps)) of
        None \<Rightarrow> (Inl PrefNotFound, ps)
      | Some item \<Rightarrow>
          (case saved of
             None \<Rightarrow> (Inl PrefUnavailable, ps)
           | Some ok \<Rightarrow>
               (let finish = (\<lambda>u ps. let item = applyDeviceLocation lower u item
                      in (Inr item, \<lparr>ps_service = store_and_publish item (ps_service ps), ps_prefs = u\<rparr>))
                in case mode of
                     LocationModeSource \<Rightarrow>
                       if \<not> ok then (Inl PrefStore, ps)
                       else finish ((ps_prefs ps)\<lparr>up_locations := gm_del i (up_locations (ps_prefs ps))\<rparr>) ps
                   | LocationModeCustom \<Rightarrow>
                       if homeID = [] then (Inl (PrefInvalid [''homeId'']), ps)
                       else (case listDeviceLocationHomes listed ps of
                               (Inl e, ps) \<Rightarrow> (Inl e, ps)
                             | (Inr homes, ps) \<Rightarrow>
                                 (case chosen_location i homeID homes roomID of
                                    Inl e \<Rightarrow> (Inl e, ps)
                                  | Inr preference \<Rightarrow>
                                      if \<not> ok then (Inl PrefStore, ps)
                                      else finish ((ps_prefs ps)\<lparr>up_locations := gm_put i preference (up_locations (ps_prefs ps))\<rparr>) ps))
                   | LocationModeOther _ \<Rightarrow> (Inl (PrefInvalid [''mode'']), ps))))"

section \<open>The directory of homes and rooms\<close>

text \<open>
  The catalog may change between two calls, so each call of it has an answer of its own: \<open>listed\<close> before, \<open>saved\<close> the
  outcome of the write, \<open>relisted\<close> and \<open>preferred\<close> the answers to the two reloads, \<open>final\<close> the list at the end.
\<close>

definition reload_location ::
  "(string \<Rightarrow> string) \<Rightarrow> location_home list option option \<Rightarrow> location_preference list option option \<Rightarrow> preferred_service \<Rightarrow>
     preference_error option \<times> preferred_service" where
  "reload_location lower relisted preferred ps =
     (case reloadDeviceLocationCatalog lower relisted True ps of
        (Some e, ps) \<Rightarrow> (Some e, ps)
      | (None, ps) \<Rightarrow> reloadDeviceLocationPreferences lower preferred True ps)"

definition check_home :: "(string \<Rightarrow> string) \<Rightarrow> string \<Rightarrow> string \<Rightarrow> string \<Rightarrow> location_home list \<Rightarrow> preference_error + location_home" where
  "check_home lower newID i0 name homes =
     (let i = (if i0 = [] then newID else i0)
      in if i0 \<noteq> [] \<and> i \<notin> set (map lh_ID homes) then Inl PrefLocationNotFound
         else if list_ex (\<lambda>home. lh_ID home \<noteq> i \<and> normalizeLocationName lower (lh_Name home) = normalizeLocationName lower name) homes
         then Inl PrefLocationConflict
         else Inr \<lparr>lh_ID = i, lh_Name = name, lh_Rooms = []\<rparr>)"

definition saveDeviceLocationHome ::
  "(string \<Rightarrow> string) \<Rightarrow> string \<Rightarrow> location_home list option option \<Rightarrow> (location_home \<Rightarrow> bool) \<Rightarrow> location_home list option option \<Rightarrow>
     location_preference list option option \<Rightarrow> location_home list option \<Rightarrow> string \<Rightarrow> string \<Rightarrow> preferred_service \<Rightarrow>
     (preference_error + location_home) \<times> preferred_service" where
  "saveDeviceLocationHome lower newID listed saved relisted preferred final i name0 ps =
     (case listed of
        None \<Rightarrow> (Inl PrefUnavailable, ps)
      | Some answer \<Rightarrow>
          (let name = trimSpace name0
           in if name = [] \<or> \<not> validLocationName name then (Inl (PrefInvalid [''name'']), ps)
              else case answer of
                     None \<Rightarrow> (Inl PrefStore, ps)
                   | Some homes \<Rightarrow>
                       (case check_home lower newID i name homes of
                          Inl e \<Rightarrow> (Inl e, ps)
                        | Inr home \<Rightarrow>
                            if \<not> saved home then (Inl PrefStore, ps)
                            else (case reload_location lower relisted preferred ps of
                                    (Some e, ps) \<Rightarrow> (Inl e, ps)
                                  | (None, ps) \<Rightarrow>
                                      (case final of
                                         None \<Rightarrow> (Inl PrefStore, ps)
                                       | Some homes \<Rightarrow>
                                           (case find (\<lambda>h. lh_ID h = lh_ID home) homes of
                                              None \<Rightarrow> (Inl PrefLocationNotFound, ps)
                                            | Some h \<Rightarrow> (Inr h, ps)))))))"

definition deleteDeviceLocationHome ::
  "(string \<Rightarrow> string) \<Rightarrow> bool option \<Rightarrow> location_home list option option \<Rightarrow> preferred_service \<Rightarrow> preference_error option \<times> preferred_service" where
  "deleteDeviceLocationHome lower deleted relisted ps =
     (case deleted of
        None \<Rightarrow> (Some PrefUnavailable, ps)
      | Some ok \<Rightarrow> if \<not> ok then (Some PrefStore, ps) else reloadDeviceLocationCatalog lower relisted True ps)"

definition check_room ::
  "(string \<Rightarrow> string) \<Rightarrow> string \<Rightarrow> string \<Rightarrow> string \<Rightarrow> string \<Rightarrow> location_home list \<Rightarrow> preference_error + location_room" where
  "check_room lower newID i0 homeID name homes =
     (case find (\<lambda>home. lh_ID home = homeID) homes of
        None \<Rightarrow> Inl PrefLocationNotFound
      | Some home \<Rightarrow>
          (let i = (if i0 = [] then newID else i0)
           in if i0 \<noteq> [] \<and> i \<notin> set (map lr_ID (lh_Rooms home)) then Inl PrefLocationNotFound
              else if list_ex (\<lambda>room. lr_ID room \<noteq> i \<and> normalizeLocationName lower (lr_Name room) = normalizeLocationName lower name) (lh_Rooms home)
              then Inl PrefLocationConflict
              else Inr \<lparr>lr_ID = i, lr_HomeID = homeID, lr_Name = name\<rparr>))"

definition saveDeviceLocationRoom ::
  "(string \<Rightarrow> string) \<Rightarrow> string \<Rightarrow> location_home list option option \<Rightarrow> (location_room \<Rightarrow> bool) \<Rightarrow> location_home list option option \<Rightarrow>
     location_preference list option option \<Rightarrow> string \<Rightarrow> string \<Rightarrow> string \<Rightarrow> preferred_service \<Rightarrow>
     (preference_error + location_room) \<times> preferred_service" where
  "saveDeviceLocationRoom lower newID listed saved relisted preferred i homeID name0 ps =
     (case listed of
        None \<Rightarrow> (Inl PrefUnavailable, ps)
      | Some answer \<Rightarrow>
          (let name = trimSpace name0;
               fields = (if homeID = [] then [''homeId''] else []) @ (if name = [] \<or> \<not> validLocationName name then [''name''] else [])
           in if fields \<noteq> [] then (Inl (PrefInvalid fields), ps)
              else case answer of
                     None \<Rightarrow> (Inl PrefStore, ps)
                   | Some homes \<Rightarrow>
                       (case check_room lower newID i homeID name homes of
                          Inl e \<Rightarrow> (Inl e, ps)
                        | Inr room \<Rightarrow>
                            if \<not> saved room then (Inl PrefStore, ps)
                            else (case reload_location lower relisted preferred ps of
                                    (Some e, ps) \<Rightarrow> (Inl e, ps)
                                  | (None, ps) \<Rightarrow> (Inr room, ps)))))"

definition deleteDeviceLocationRoom ::
  "(string \<Rightarrow> string) \<Rightarrow> location_home list option option \<Rightarrow> bool \<Rightarrow> location_home list option option \<Rightarrow> string \<Rightarrow> string \<Rightarrow> preferred_service \<Rightarrow>
     preference_error option \<times> preferred_service" where
  "deleteDeviceLocationRoom lower listed deleted relisted homeID i ps =
     (case listed of
        None \<Rightarrow> (Some PrefUnavailable, ps)
      | Some None \<Rightarrow> (Some PrefStore, ps)
      | Some (Some homes) \<Rightarrow>
          if \<not> list_ex (\<lambda>home. lh_ID home = homeID \<and> i \<in> set (map lr_ID (lh_Rooms home))) homes then (Some PrefLocationNotFound, ps)
          else if \<not> deleted then (Some PrefStore, ps)
          else reloadDeviceLocationCatalog lower relisted True ps)"

text \<open>\<open>LoadDevicePreferences\<close>: the disabled devices, then locations, names and the directory; an error stops it.\<close>

definition loadDevicePreferences ::
  "(string \<Rightarrow> string) \<Rightarrow> string list option option \<Rightarrow> location_preference list option option \<Rightarrow> (string \<times> string) list option option \<Rightarrow>
     location_home list option option \<Rightarrow> preferred_service \<Rightarrow> preference_error option \<times> preferred_service" where
  "loadDevicePreferences lower disabled locations names homes ps =
     (let (e, ps) = (case disabled of None \<Rightarrow> (None, ps) | Some None \<Rightarrow> (Some PrefStore, ps)
          | Some (Some ids) \<Rightarrow> (None, ps\<lparr>ps_service := load_disabled ids (ps_service ps)\<rparr>));
          step = (\<lambda>reload (e, ps). case e of Some x \<Rightarrow> (Some x, ps) | None \<Rightarrow> reload ps);
          (e, ps) = step (reloadDeviceLocationPreferences lower locations False) (e, ps);
          (e, ps) = step (reloadDeviceNamePreferences names False) (e, ps)
      in step (reloadDeviceLocationCatalog lower homes False) (e, ps))"

section \<open>What a device shows\<close>

text \<open>The five fields of the shown place.\<close>

definition show_place :: "location_mode \<Rightarrow> string \<Rightarrow> string \<Rightarrow> string \<Rightarrow> string \<Rightarrow> device \<Rightarrow> device" where
  "show_place mode h hn r rn d =
     d\<lparr>dev_HomeID := h, dev_HomeName := hn, dev_RoomID := r, dev_RoomName := rn, dev_LocationMode := mode\<rparr>"

lemma show_place_sel [simp]:
  "dev_HomeID (show_place m h hn r rn d) = h" "dev_HomeName (show_place m h hn r rn d) = hn" "dev_RoomID (show_place m h hn r rn d) = r"
  "dev_RoomName (show_place m h hn r rn d) = rn" "dev_LocationMode (show_place m h hn r rn d) = m"
  "dev_SourceHomeID (show_place m h hn r rn d) = dev_SourceHomeID d" "dev_SourceHomeName (show_place m h hn r rn d) = dev_SourceHomeName d"
  "dev_SourceRoomID (show_place m h hn r rn d) = dev_SourceRoomID d" "dev_SourceRoomName (show_place m h hn r rn d) = dev_SourceRoomName d"
  "dev_ID (show_place m h hn r rn d) = dev_ID d"
  by (simp_all add: show_place_def)

lemma show_place_twice [simp]: "show_place m h hn r rn (show_place m' h' hn' r' rn' d) = show_place m h hn r rn d"
  by (simp add: show_place_def)

lemma source_known: "dev_LocationMode d \<noteq> LocationModeOther [] \<Longrightarrow>
    source_location d = show_place LocationModeSource (dev_SourceHomeID d) (dev_SourceHomeName d) (dev_SourceRoomID d) (dev_SourceRoomName d) d"
  by (simp add: source_location_def show_place_def Let_def)

lemma source_fields [simp]:
  "dev_LocationMode (source_location d) = LocationModeSource" "dev_HomeID (source_location d) = dev_SourceHomeID (source_location d)"
  "dev_HomeName (source_location d) = dev_SourceHomeName (source_location d)" "dev_RoomID (source_location d) = dev_SourceRoomID (source_location d)"
  "dev_RoomName (source_location d) = dev_SourceRoomName (source_location d)" "dev_ID (source_location d) = dev_ID d"
  by (simp_all add: source_location_def Let_def)

lemma source_fixed: "show_place LocationModeSource (dev_SourceHomeID (source_location d)) (dev_SourceHomeName (source_location d))
    (dev_SourceRoomID (source_location d)) (dev_SourceRoomName (source_location d)) (source_location d) = source_location d"
  by (rule device.equality) (simp_all add: show_place_def)

text \<open>The place that is shown, from the identifier and the source of the device.\<close>

definition chosen_place :: "(string \<Rightarrow> string) \<Rightarrow> preferences \<Rightarrow> string \<Rightarrow> string \<Rightarrow> string \<Rightarrow> string \<Rightarrow> string \<Rightarrow>
    location_mode \<times> string \<times> string \<times> string \<times> string" where
  "chosen_place lower u i h hn r rn =
     (case gm_get (up_locations u) i of
        Some p \<Rightarrow> (LocationModeCustom, lp_HomeID p, lp_HomeName p, lp_RoomID p, lp_RoomName p)
      | None \<Rightarrow>
          (case canonicalSourceHome lower u h hn of
             None \<Rightarrow> (LocationModeSource, h, hn, r, rn)
           | Some home \<Rightarrow>
               (case canonicalSourceRoom lower (lh_Rooms home) r rn of
                  None \<Rightarrow> (LocationModeSource, lh_ID home, lh_Name home, r, rn)
                | Some room \<Rightarrow> (LocationModeSource, lh_ID home, lh_Name home, lr_ID room, lr_Name room))))"

lemma applyDeviceLocation_eq:
  "applyDeviceLocation lower u d =
     (let x = source_location d;
          (m, h, hn, r, rn) = chosen_place lower u (dev_ID d) (dev_SourceHomeID x) (dev_SourceHomeName x) (dev_SourceRoomID x) (dev_SourceRoomName x)
      in show_place m h hn r rn x)"
  by (rule device.equality)
    (simp_all add: applyDeviceLocation_def chosen_place_def Let_def show_place_def split: option.split)

lemma chosen_place_mode: "fst (chosen_place lower u i h hn r rn) \<noteq> LocationModeOther []"
  by (simp add: chosen_place_def split: option.split)

lemma applyDeviceLocation_shape:
  obtains m h hn r rn where "applyDeviceLocation lower u d = show_place m h hn r rn (source_location d)" "m \<noteq> LocationModeOther []"
proof -
  let ?x = "source_location d"
  obtain m h hn r rn where c: "chosen_place lower u (dev_ID d) (dev_SourceHomeID ?x) (dev_SourceHomeName ?x) (dev_SourceRoomID ?x) (dev_SourceRoomName ?x) =
      (m, h, hn, r, rn)" by (metis prod.exhaust)
  with chosen_place_mode [of lower u "dev_ID d" "dev_SourceHomeID ?x" "dev_SourceHomeName ?x" "dev_SourceRoomID ?x" "dev_SourceRoomName ?x"]
  show thesis by (intro that [of m h hn r rn]) (simp_all add: applyDeviceLocation_eq Let_def)
qed

lemma applyDeviceLocation_source: "source_location (applyDeviceLocation lower u item) = source_location item"
  by (rule applyDeviceLocation_shape [of lower u item]) (simp add: source_known source_fixed)

lemma applyDeviceLocation_id [simp]: "dev_ID (applyDeviceLocation lower u item) = dev_ID item"
  by (rule applyDeviceLocation_shape [of lower u item]) simp

lemma applyDeviceName_id [simp]: "dev_ID (applyDeviceName u item) = dev_ID item"
  by (simp add: applyDeviceName_def Let_def split: option.split)

lemma location_twice: "applyDeviceLocation lower u (applyDeviceLocation lower u' item) = applyDeviceLocation lower u item"
  unfolding applyDeviceLocation_def [of lower u] applyDeviceLocation_source by (simp add: Let_def)

lemma name_twice:
  "dev_SourceName item \<noteq> [] \<or> dev_Name item \<noteq> [] \<Longrightarrow> applyDeviceName u (applyDeviceName u' item) = applyDeviceName u item"
  by (auto simp: applyDeviceName_def Let_def split: option.split)

text \<open>The fields that preferences may change.\<close>

definition same_but_shown :: "device \<Rightarrow> device \<Rightarrow> bool" where
  "same_but_shown d e \<longleftrightarrow> dev_ID d = dev_ID e \<and> dev_ProviderID d = dev_ProviderID e \<and> dev_Type d = dev_Type e \<and>
     dev_Endpoints d = dev_Endpoints e \<and> dev_Availability d = dev_Availability e \<and> dev_Online d = dev_Online e \<and>
     dev_Disabled d = dev_Disabled e \<and> dev_Removed d = dev_Removed e \<and> dev_Sequence d = dev_Sequence e"

lemma name_only_shown: "same_but_shown (applyDeviceName u d) d"
  by (simp add: same_but_shown_def applyDeviceName_def Let_def split: option.split)

lemma location_only_shown: "same_but_shown (applyDeviceLocation lower u d) d"
proof -
  have "same_but_shown (show_place m h hn r rn (source_location d)) d" for m h hn r rn
    by (simp add: same_but_shown_def show_place_def source_location_def Let_def)
  then show ?thesis by (metis applyDeviceLocation_shape)
qed

section \<open>Reloading\<close>

lemma reapply_item_sel [simp]:
  "ds_registry (reapply_item f c b item s) = registry_upsert (f item) (ds_registry s)" "ds_states (reapply_item f c b item s) = ds_states s"
  "ds_commands (reapply_item f c b item s) = ds_commands s" "ds_snapshotSeq (reapply_item f c b item s) = ds_snapshotSeq s"
  "ds_disabled (reapply_item f c b item s) = ds_disabled s" "ds_stateListeners (reapply_item f c b item s) = ds_stateListeners s"
  by (simp_all add: reapply_item_def Let_def)

lemma reapply_items_sel [simp]:
  "ds_states (fold (reapply_item f c b) items s) = ds_states s" "ds_commands (fold (reapply_item f c b) items s) = ds_commands s"
  "ds_snapshotSeq (fold (reapply_item f c b) items s) = ds_snapshotSeq s" "ds_disabled (fold (reapply_item f c b) items s) = ds_disabled s"
  "ds_stateListeners (fold (reapply_item f c b) items s) = ds_stateListeners s"
  by (induction items arbitrary: s) simp_all

lemma reapply_items_get:
  assumes "\<And>d. dev_ID (f d) = dev_ID d" and "distinct (map dev_ID items)"
  shows "registry_get i (ds_registry (fold (reapply_item f c b) items s)) =
    (case find (\<lambda>d. dev_ID d = i) items of Some d \<Rightarrow> Some (normalizeAvailability (f d)) | None \<Rightarrow> registry_get i (ds_registry s))"
  using assms(2)
proof (induction items arbitrary: s)
  case (Cons d items)
  have "find (\<lambda>e. dev_ID e = i) items = None" if "dev_ID d = i" using Cons.prems that by (auto simp: find_None_iff) (metis image_eqI)
  with Cons show ?case by (auto simp: registry_upsert_get assms(1) split: option.split)
qed simp

text \<open>Every registered device is put back as \<open>f\<close> of what it was; nothing else changes.\<close>

lemma reapply_get:
  assumes inv: "registry_inv (ds_registry s)" and f: "\<And>d. dev_ID (f d) = dev_ID d"
  shows "registry_get i (ds_registry (reapply f c b s)) = map_option (\<lambda>d. normalizeAvailability (f d)) (registry_get i (ds_registry s))"
proof -
  let ?l = "registry_list (ds_registry s)"
  have d: "distinct (map dev_ID ?l)" using registry_list_facts(1) [OF inv] by (simp add: strict_sorted_iff)
  show ?thesis
  proof (cases "find (\<lambda>d. dev_ID d = i) ?l")
    case None
    have "registry_get i (ds_registry s) = None"
    proof (rule ccontr)
      assume "registry_get i (ds_registry s) \<noteq> None"
      then obtain x where x: "registry_get i (ds_registry s) = Some x" by blast
      then have "dev_ID x = i" using inv by (simp add: registry_inv_def)
      with x registry_list_facts(2) [OF inv, of x] None show False by (auto simp: find_None_iff)
    qed
    with None show ?thesis by (simp add: reapply_def reapply_items_get [OF f d])
  next
    case (Some x)
    then have "x \<in> set ?l" "dev_ID x = i" by (auto dest: find_SomeD)
    then have "registry_get i (ds_registry s) = Some x" using registry_list_facts(2) [OF inv, of x] by simp
    with Some show ?thesis by (simp add: reapply_def reapply_items_get [OF f d])
  qed
qed

lemma reapply_item_bounded: "bounded_queues (ds_listeners s) \<Longrightarrow> bounded_queues (ds_listeners (reapply_item f c b item s))"
  by (simp add: reapply_item_def Let_def)

lemma same_shown_rules: "same_but_shown d e \<Longrightarrow> dev_Disabled d = dev_Disabled e \<and> isOnline d = isOnline e"
  by (simp add: same_but_shown_def isOnline_def effectiveAvailability_def)

lemma normalize_rules [simp]: "dev_Disabled (normalizeAvailability d) = dev_Disabled d" "isOnline (normalizeAvailability d) = isOnline d"
  by (simp_all add: normalizeAvailability_def setAvailability_def isOnline_def effectiveAvailability_def split: availability.split)

lemma reapply_ok:
  assumes ok: "service_ok s" and f: "\<And>d. same_but_shown (f d) d"
  shows "service_ok (reapply f c b s)"
proof -
  have id: "dev_ID (f d) = dev_ID d" for d using f by (simp add: same_but_shown_def)
  have "registry_inv (ds_registry (fold (reapply_item f c b) items s'))" if "registry_inv (ds_registry s')" for items s'
    by (rule fold_inv [of "\<lambda>s. registry_inv (ds_registry s)"]) (simp_all add: registry_upsert_inv that)
  moreover have "bounded_queues (ds_listeners (fold (reapply_item f c b) items s'))" if "bounded_queues (ds_listeners s')" for items s'
    by (rule fold_inv [of "\<lambda>s. bounded_queues (ds_listeners s)"]) (simp_all add: reapply_item_bounded that)
  moreover have "disabled_offline (reapply f c b s)"
    unfolding disabled_offline_def reapply_get [OF service_okD(1) [OF ok] id]
    using service_okD(7) [OF ok] same_shown_rules [OF f] by (auto simp: disabled_offline_def reapply_def isDeviceDisabled_def)
  ultimately show ?thesis using service_okD [OF ok] by (simp add: service_ok_def reapply_def)
qed

section \<open>Every operation keeps the service consistent\<close>

lemma store_and_publish_ok:
  assumes ok: "service_ok s" and d: "registry_get i (ds_registry s) = Some d" and f: "same_but_shown e d"
  shows "service_ok (store_and_publish e s)"
proof -
  have id: "dev_ID e = i" using service_okD(1) [OF ok] d f by (simp add: registry_inv_def same_but_shown_def)
  have rule: "dev_Disabled e \<and> \<not> isOnline e" if "isDeviceDisabled (dev_ID e) s"
    using service_okD(7) [OF ok] d that same_shown_rules [OF f] by (auto simp: disabled_offline_def id)
  have "disabled_offline (store_and_publish e s)"
    by (rule disabled_offline_upsert [OF service_okD(7) [OF ok] rule]) (simp_all add: store_and_publish_def)
  then show ?thesis using service_okD [OF ok] by (simp add: store_and_publish_def service_ok_def registry_upsert_inv)
qed

lemma reload_ok:
  assumes "service_ok (ps_service ps)"
  shows "service_ok (ps_service (snd (reloadDeviceNamePreferences names b ps)))"
    "service_ok (ps_service (snd (reloadDeviceLocationPreferences lower locations b ps)))"
    "service_ok (ps_service (snd (reloadDeviceLocationCatalog lower homes b ps)))"
  using assms
  by (simp_all add: reloadDeviceNamePreferences_def reloadDeviceLocationPreferences_def reloadDeviceLocationCatalog_def Let_def
      reapply_ok name_only_shown location_only_shown split: option.split)

lemma naming_ok:
  assumes "service_ok (ps_service ps)"
  shows "service_ok (ps_service (snd (setDeviceName saved i name ps)))" "service_ok (ps_service (snd (resetDeviceName saved i ps)))"
  using assms by (auto simp: setDeviceName_def resetDeviceName_def Let_def name_only_shown intro!: store_and_publish_ok split: option.split)

lemma list_homes_service [simp]: "ps_service (snd (listDeviceLocationHomes listed ps)) = ps_service ps"
  by (simp add: listDeviceLocationHomes_def split: option.split)

lemma placing_ok:
  assumes ok: "service_ok (ps_service ps)"
  shows "service_ok (ps_service (snd (setDeviceLocation lower saved listed i mode homeID roomID ps)))"
proof (cases "registry_get i (ds_registry (ps_service ps))")
  case (Some item)
  obtain r ps' where l: "listDeviceLocationHomes listed ps = (r, ps')" by fastforce
  then have ps': "ps_service ps' = ps_service ps" using list_homes_service [of listed ps] by simp
  have "service_ok (store_and_publish (applyDeviceLocation lower u item) (ps_service ps))" for u
    by (rule store_and_publish_ok [OF ok Some location_only_shown])
  then show ?thesis
    by (simp add: setDeviceLocation_def Let_def Some l ps' ok split: option.split location_mode.split sum.split)
qed (simp add: setDeviceLocation_def ok)

lemma reload_location_ok: "service_ok (ps_service ps) \<Longrightarrow> service_ok (ps_service (snd (reload_location lower homes prefs ps)))"
  using reload_ok(3) [of ps lower homes True] by (auto simp: reload_location_def reload_ok(2) split: prod.split option.split)

lemma after_reload:
  assumes "service_ok (ps_service (snd r))" and "\<And>p. service_ok (ps_service p) \<Longrightarrow> service_ok (ps_service (snd (k p)))"
  shows "service_ok (ps_service (snd (case r of (Some e, p) \<Rightarrow> (Inl e, p) | (None, p) \<Rightarrow> k p)))"
  using assms by (cases r; cases "fst r") auto

lemma directory_ok:
  assumes ok: "service_ok (ps_service ps)"
  shows "service_ok (ps_service (snd (saveDeviceLocationHome lower newID listed saved relisted preferred final i name ps)))"
    "service_ok (ps_service (snd (deleteDeviceLocationHome lower deleted relisted ps)))"
    "service_ok (ps_service (snd (saveDeviceLocationRoom lower newID listed savedRoom relisted preferred i homeID name ps)))"
    "service_ok (ps_service (snd (deleteDeviceLocationRoom lower listed gone relisted homeID i ps)))"
proof -
  note r = reload_location_ok [OF ok]
  show "service_ok (ps_service (snd (saveDeviceLocationHome lower newID listed saved relisted preferred final i name ps)))"
    by (simp add: saveDeviceLocationHome_def Let_def ok after_reload [OF r] split: option.split sum.split)
  show "service_ok (ps_service (snd (saveDeviceLocationRoom lower newID listed savedRoom relisted preferred i homeID name ps)))"
    by (simp add: saveDeviceLocationRoom_def Let_def ok after_reload [OF r] split: option.split sum.split)
  show "service_ok (ps_service (snd (deleteDeviceLocationHome lower deleted relisted ps)))"
    by (simp add: deleteDeviceLocationHome_def ok reload_ok(3) split: option.split)
  show "service_ok (ps_service (snd (deleteDeviceLocationRoom lower listed gone relisted homeID i ps)))"
    by (simp add: deleteDeviceLocationRoom_def ok reload_ok(3) split: option.split)
qed

lemma load_preferences_ok:
  assumes ok: "service_ok (ps_service ps)"
  shows "service_ok (ps_service (snd (loadDevicePreferences lower disabled locations names homes ps)))"
proof -
  have "service_ok (ps_service ps) \<Longrightarrow> service_ok (ps_service (ps\<lparr>ps_service := load_disabled ids (ps_service ps)\<rparr>))" for ids
    by (simp add: load_disabled_ok)
  moreover have "service_ok (ps_service (snd (e, p))) \<Longrightarrow> (\<And>q. service_ok (ps_service q) \<Longrightarrow> service_ok (ps_service (snd (reload q)))) \<Longrightarrow>
      service_ok (ps_service (snd (case e of Some x \<Rightarrow> (Some x, p) | None \<Rightarrow> reload p)))" for e p reload
    by (simp split: option.split)
  ultimately show ?thesis using ok reload_ok
    by (auto simp: loadDevicePreferences_def Let_def case_prod_beta split: option.split)
qed

section \<open>Properties\<close>

lemma name_location_commute: "applyDeviceLocation lower u (applyDeviceName u' d) = applyDeviceName u' (applyDeviceLocation lower u d)"
proof -
  have src: "source_location (applyDeviceName u' d) = applyDeviceName u' (source_location d)"
    by (rule device.equality) (simp_all add: source_location_def applyDeviceName_def Let_def split: option.split)
  have fields: "dev_SourceHomeID (applyDeviceName u' x) = dev_SourceHomeID x" "dev_SourceHomeName (applyDeviceName u' x) = dev_SourceHomeName x"
    "dev_SourceRoomID (applyDeviceName u' x) = dev_SourceRoomID x" "dev_SourceRoomName (applyDeviceName u' x) = dev_SourceRoomName x" for x
    by (simp_all add: applyDeviceName_def Let_def split: option.split)
  have place: "show_place m h hn r rn (applyDeviceName u' x) = applyDeviceName u' (show_place m h hn r rn x)" for m h hn r rn x
    by (rule device.equality) (simp_all add: show_place_def applyDeviceName_def Let_def split: option.split)
  have id: "dev_ID (applyDeviceName u' x) = dev_ID x" for x by simp
  show ?thesis unfolding applyDeviceLocation_eq src fields id Let_def by (simp add: place split: prod.split)
qed

lemma registered_normal:
  "registry_inv r \<Longrightarrow> registry_get i r = Some d \<Longrightarrow> normalizeAvailability d = d"
  by (rule device.equality)
    (auto simp: registry_inv_def normalizeAvailability_def setAvailability_def isOnline_def split: availability.split)

lemma normalize_name: "normalizeAvailability (applyDeviceName u d) = applyDeviceName u (normalizeAvailability d)"
  by (rule device.equality)
    (simp_all add: applyDeviceName_def normalizeAvailability_def setAvailability_def effectiveAvailability_def Let_def split: option.split)

lemma applyDeviceName_cong: "gm_get (up_names u) (dev_ID d) = gm_get (up_names u') (dev_ID d) \<Longrightarrow> applyDeviceName u d = applyDeviceName u' d"
  by (simp add: applyDeviceName_def Let_def)

text \<open>C24. Preferences leave no residue: whatever names, places and directory were in force when a device was last projected,
  projecting it again shows exactly what the current preferences give for the device as its provider reported it.\<close>

theorem preferences_leave_no_residue:
  assumes "dev_SourceName d \<noteq> [] \<or> dev_Name d \<noteq> []"
  shows "applyDeviceName u (applyDeviceLocation lower u (applyDeviceName u' (applyDeviceLocation lower u' d))) =
    applyDeviceName u (applyDeviceLocation lower u d)"
proof -
  have "dev_SourceName (applyDeviceLocation lower u d) \<noteq> [] \<or> dev_Name (applyDeviceLocation lower u d) \<noteq> []"
    using assms by (auto simp: applyDeviceLocation_eq Let_def show_place_def source_location_def split: prod.split)
  then show ?thesis by (simp add: name_location_commute location_twice name_twice)
qed

text \<open>C35. Renaming and resetting is a round trip: a registered device whose name is the one its provider reports shows the new
  name after \<open>SetDeviceName\<close> and keeps the reported one as its source, and \<open>ResetDeviceName\<close> puts the registry back to
  what it was; no state, command or other device changes.\<close>

theorem rename_and_reset:
  assumes "service_ok (ps_service ps)" and "registry_get i (ds_registry (ps_service ps)) = Some d"
    and "gm_get (up_names (ps_prefs ps)) i = None" and "applyDeviceName (ps_prefs ps) d = d" and "dev_SourceName d \<noteq> []"
    and "trimSpace name \<noteq> []" and "validDeviceName (trimSpace name)"
    and "setDeviceName (Some True) i name ps = (r, ps1)" and "resetDeviceName (Some True) i ps1 = (r2, ps2)"
  shows "(\<exists>x. r = Inr x \<and> dev_Name x = trimSpace name \<and> dev_NameOverridden x \<and> dev_SourceName x = dev_SourceName d \<and>
      registry_get i (ds_registry (ps_service ps1)) = Some x) \<and>
    (\<forall>j. registry_get j (ds_registry (ps_service ps2)) = registry_get j (ds_registry (ps_service ps))) \<and>
    (\<forall>j. gm_get (up_names (ps_prefs ps2)) j = gm_get (up_names (ps_prefs ps)) j) \<and>
    ds_states (ps_service ps2) = ds_states (ps_service ps) \<and> ds_commands (ps_service ps2) = ds_commands (ps_service ps)"
proof -
  note inv = service_okD(1) [OF assms(1)]
  have id: "dev_ID d = i" using inv assms(2) by (simp add: registry_inv_def)
  note normal = registered_normal [OF inv assms(2)]
  let ?u1 = "(ps_prefs ps)\<lparr>up_names := gm_put i (trimSpace name) (up_names (ps_prefs ps))\<rparr>"
  let ?x = "applyDeviceName ?u1 d"
  have set: "r = Inr ?x" "ps1 = \<lparr>ps_service = store_and_publish ?x (ps_service ps), ps_prefs = ?u1\<rparr>"
    using assms(2,6,7,8) by (simp_all add: setDeviceName_def Let_def)
  have get1: "registry_get j (ds_registry (ps_service ps1)) = (if j = i then Some ?x else registry_get j (ds_registry (ps_service ps)))" for j
    by (simp add: set store_and_publish_def registry_upsert_get id normalize_name normal)
  let ?u2 = "?u1\<lparr>up_names := gm_del i (up_names ?u1)\<rparr>"
  have names: "gm_get (up_names ?u2) j = gm_get (up_names (ps_prefs ps)) j" for j
    using assms(3) by (simp add: gm_get_put gm_get_del)
  have "applyDeviceName ?u2 ?x = applyDeviceName ?u2 d" using assms(5) by (simp add: name_twice)
  also have "\<dots> = d" using applyDeviceName_cong [OF names] assms(4) by simp
  finally have undone: "applyDeviceName ?u2 ?x = d" .
  have reset: "ps2 = \<lparr>ps_service = store_and_publish d (ps_service ps1), ps_prefs = ?u2\<rparr>"
    using assms(9) get1 [of i] undone by (simp add: resetDeviceName_def Let_def set(2))
  have "registry_get j (ds_registry (ps_service ps2)) = registry_get j (ds_registry (ps_service ps))" for j
    using get1 [of j] assms(2) by (simp add: reset store_and_publish_def registry_upsert_get id normal)
  moreover have "dev_Name ?x = trimSpace name \<and> dev_NameOverridden ?x \<and> dev_SourceName ?x = dev_SourceName d"
    using assms(5) by (simp add: applyDeviceName_def Let_def id gm_get_put)
  ultimately show ?thesis using set(1) get1 [of i] names by (simp add: reset store_and_publish_def set(2))
qed

section \<open>Witnesses\<close>

definition named_lamp :: device where
  "named_lamp = (lamp True AvailabilityOnline 3)\<lparr>dev_Name := ''Lamp'', dev_SourceName := ''Lamp'', dev_NameOverridden := False\<rparr>"

definition lamp_home :: preferred_service where
  "lamp_home = \<lparr>ps_service = (new_service None)\<lparr>ds_registry := newDeviceRegistry [named_lamp]\<rparr>,
     ps_prefs = \<lparr>up_names = [], up_locations = [], up_homes = []\<rparr>\<rparr>"

theorem preferences_leave_no_residue_witness:
  "applyDeviceName \<lparr>up_names = [], up_locations = [], up_homes = []\<rparr> (applyDeviceLocation id \<lparr>up_names = [], up_locations = [], up_homes = []\<rparr>
     (applyDeviceName \<lparr>up_names = [(''lamp'', ''Desk'')], up_locations = [], up_homes = []\<rparr>
       (applyDeviceLocation id \<lparr>up_names = [(''lamp'', ''Desk'')], up_locations = [], up_homes = []\<rparr> named_lamp))) =
   applyDeviceName \<lparr>up_names = [], up_locations = [], up_homes = []\<rparr> (applyDeviceLocation id \<lparr>up_names = [], up_locations = [], up_homes = []\<rparr> named_lamp)"
  by (rule preferences_leave_no_residue) (simp add: named_lamp_def)

lemma lamp_home_facts:
  "registry_get ''lamp'' (ds_registry (ps_service lamp_home)) = Some named_lamp" "service_ok (ps_service lamp_home)"
  "applyDeviceName (ps_prefs lamp_home) named_lamp = named_lamp"
proof -
  have n: "normalizeAvailability named_lamp = named_lamp"
    by (rule device.equality) (simp_all add: named_lamp_def normalizeAvailability_def setAvailability_def effectiveAvailability_def)
  show "registry_get ''lamp'' (ds_registry (ps_service lamp_home)) = Some named_lamp"
    by (simp add: lamp_home_def newDeviceRegistry_def registry_upsert_get n) (simp add: named_lamp_def)
  show "service_ok (ps_service lamp_home)"
    using service_okD [OF service_ok_new, of None] registry_new_inv [of "[named_lamp]"]
    by (simp add: lamp_home_def service_ok_def disabled_offline_def isDeviceDisabled_def new_service_def)
  show "applyDeviceName (ps_prefs lamp_home) named_lamp = named_lamp"
    by (rule device.equality) (simp_all add: lamp_home_def applyDeviceName_def named_lamp_def Let_def)
qed

theorem rename_and_reset_witness:
  "\<exists>x. fst (setDeviceName (Some True) ''lamp'' ''Desk'' lamp_home) = Inr x \<and> dev_Name x = ''Desk''"
proof -
  have name: "trimSpace ''Desk'' = ''Desk''" "validDeviceName ''Desk''" by code_simp+
  obtain r ps1 where s: "setDeviceName (Some True) ''lamp'' ''Desk'' lamp_home = (r, ps1)" by fastforce
  obtain r2 ps2 where t: "resetDeviceName (Some True) ''lamp'' ps1 = (r2, ps2)" by fastforce
  have "gm_get (up_names (ps_prefs lamp_home)) ''lamp'' = None" "dev_SourceName named_lamp \<noteq> []" by (simp_all add: lamp_home_def named_lamp_def)
  from rename_and_reset [OF lamp_home_facts(2,1) this(1) lamp_home_facts(3) this(2) _ _ s t] name show ?thesis unfolding s by auto
qed

end
