(* ===== verification/Snapshot_Mapping.thy ===== *)
theory Snapshot_Mapping
  imports Device_Commands Device_Preferences Model_Contract Mapping_Profile
begin

text \<open>
  From a provider snapshot to the unified model, \<open>mapSnapshot\<close> and its helpers in
  \<open>internal/application/device_service.go\<close>: every property of the snapshot is projected by the
  property mapper to any number of target paths, an explicit projection takes the place of an
  automatic one, two of a kind on one path are an error, and the tree of the device is rebuilt.

  The property mapper is the interface \<open>PropertyMapper\<close> with its optional extensions: a record of
  functions, \<open>None\<close> where the mapper does not implement an extension. It answers an error text or
  a result. The two counters of the mapping are threaded through. \<open>strings.ToLower\<close> is the
  argument \<open>lower\<close>.
\<close>

declare map_of_eq_Some_iff [simp del] Some_eq_map_of_iff [simp del]

section \<open>Aligning the spelling of enums\<close>

fun replace_all :: "string \<Rightarrow> string" where
  "replace_all (a # b # rest) = (if a = CHR ''-'' \<and> b = CHR ''-'' then CHR ''-'' # replace_all rest else a # replace_all (b # rest))"
| "replace_all s = s"

fun double_dash :: "string \<Rightarrow> bool" where
  "double_dash (a # b # rest) \<longleftrightarrow> a = CHR ''-'' \<and> b = CHR ''-'' \<or> double_dash (b # rest)"
| "double_dash s \<longleftrightarrow> False"

lemma replace_all_length: "length (replace_all s) \<le> length s"
  by (induction s rule: replace_all.induct) auto

lemma replace_all_shrinks: "double_dash s \<Longrightarrow> length (replace_all s) < length s"
proof (induction s rule: replace_all.induct)
  case (1 a b rest)
  then show ?case using replace_all_length [of rest] by (cases "a = CHR ''-'' \<and> b = CHR ''-''") auto
qed simp_all

text \<open>\<open>for strings.Contains(value, "--")\<close>\<close>

function squeeze :: "string \<Rightarrow> string" where
  "squeeze s = (if double_dash s then squeeze (replace_all s) else s)"
  by pat_completeness auto
termination by (relation "measure length") (auto simp: replace_all_shrinks)

declare squeeze.simps [simp del]

definition trim_dashes :: "string \<Rightarrow> string" where
  "trim_dashes s = rev (dropWhile (\<lambda>c. c = CHR ''-'') (rev (dropWhile (\<lambda>c. c = CHR ''-'') s)))"

definition canonicalEnumToken :: "(string \<Rightarrow> string) \<Rightarrow> string \<Rightarrow> string" where
  "canonicalEnumToken lower value =
     (let value = lower (trimSpace value);
          value = map (\<lambda>c. if c = CHR ''_'' \<or> c = CHR '' '' then CHR ''-'' else c) value
      in trim_dashes (squeeze value))"

text \<open>The loop over the options: \<open>None\<close> when it returns the value because a second option matches.\<close>

fun unique_option :: "(string \<Rightarrow> string) \<Rightarrow> string \<Rightarrow> string list \<Rightarrow> string \<Rightarrow> string option" where
  "unique_option token canonical [] match = Some match"
| "unique_option token canonical (option # options) match =
     (if token option \<noteq> canonical then unique_option token canonical options match
      else if match \<noteq> [] then None else unique_option token canonical options option)"

definition alignEnumValue :: "(string \<Rightarrow> string) \<Rightarrow> property_value \<Rightarrow> string list \<Rightarrow> property_value" where
  "alignEnumValue lower value options =
     (case pv_String value of
        None \<Rightarrow> value
      | Some s \<Rightarrow>
          if pv_Type value \<noteq> ValueTypeEnum \<or> options = [] \<or> s \<in> set options then value
          else (case unique_option (canonicalEnumToken lower) (canonicalEnumToken lower s) options [] of
                  None \<Rightarrow> value
                | Some match \<Rightarrow> if match = [] then value else EnumValue match))"

definition alignProviderEnumValue ::
  "(string \<Rightarrow> string) \<Rightarrow> device list option \<Rightarrow> string \<Rightarrow> parameter_path \<Rightarrow> property_value \<Rightarrow> property_value" where
  "alignProviderEnumValue lower catalog deviceID path value =
     (case catalog of
        None \<Rightarrow> value
      | Some items \<Rightarrow>
          if pv_Type value \<noteq> ValueTypeEnum \<or> pv_String value = None then value
          else (case find (\<lambda>item. dev_ID item = deviceID \<and>
                    device_property item (path_EndpointID path) (path_CapabilityID path) (path_PropertyID path) \<noteq> None) items of
                  None \<Rightarrow> value
                | Some item \<Rightarrow>
                    (case device_property item (path_EndpointID path) (path_CapabilityID path) (path_PropertyID path) of
                       None \<Rightarrow> value
                     | Some p \<Rightarrow> alignEnumValue lower value (pd_Enum (prop_Definition p)))))"

section \<open>The mapper\<close>

record projection =
  pr_Path :: parameter_path
  pr_Definition :: property_definition
  pr_Value :: property_value
  pr_BindingID :: string
  pr_Explicit :: bool

record property_mapper =
  pm_TransformProperty :: "string \<Rightarrow> string \<Rightarrow> parameter_path \<Rightarrow> property_value \<Rightarrow> direction \<Rightarrow> string + property_value \<times> string \<times> bool"
  pm_TransformDefinition :: "string \<Rightarrow> string \<Rightarrow> parameter_path \<Rightarrow> property_definition \<Rightarrow> string + property_definition \<times> string \<times> bool"
  pm_ResolvePropertyPath :: "(string \<Rightarrow> string \<Rightarrow> parameter_path \<Rightarrow> direction \<Rightarrow> string + parameter_path \<times> string \<times> bool) option"
  pm_ProjectProperty :: "(string \<Rightarrow> string \<Rightarrow> parameter_path \<Rightarrow> property_definition \<Rightarrow> property_value \<Rightarrow> string + projection list) option"
  pm_ProjectMissing :: "(string \<Rightarrow> string \<Rightarrow> parameter_path list \<Rightarrow> string + projection list) option"
  pm_ResolveModelDefinition :: "(string \<Rightarrow> parameter_path \<Rightarrow> property_definition \<Rightarrow> property_definition \<times> bool) option"

record mapping_counts =
  mc_mappingErrors :: u64
  mc_mappingApplied :: u64

definition count_error :: "mapping_counts \<Rightarrow> mapping_counts" where
  "count_error n = n\<lparr>mc_mappingErrors := mc_mappingErrors n + 1\<rparr>"

definition count_applied :: "nat \<Rightarrow> mapping_counts \<Rightarrow> mapping_counts" where
  "count_applied k n = n\<lparr>mc_mappingApplied := mc_mappingApplied n + of_nat k\<rparr>"

definition mapProperty ::
  "property_mapper option \<Rightarrow> string \<Rightarrow> string \<Rightarrow> parameter_path \<Rightarrow> property_value \<Rightarrow> direction \<Rightarrow> mapping_counts \<Rightarrow>
     (string + property_value \<times> string \<times> bool) \<times> mapping_counts" where
  "mapProperty mapper providerID deviceID path value direction n =
     (case mapper of
        None \<Rightarrow> (Inr (value, [], False), n)
      | Some m \<Rightarrow>
          (case pm_TransformProperty m providerID deviceID path value direction of
             Inl e \<Rightarrow> (Inl e, count_error n)
           | Inr (mapped, bindingID, applied) \<Rightarrow> (Inr (mapped, bindingID, applied), if applied then count_applied 1 n else n)))"

definition resolvePropertyPath ::
  "property_mapper option \<Rightarrow> string \<Rightarrow> string \<Rightarrow> parameter_path \<Rightarrow> direction \<Rightarrow> string + parameter_path \<times> string \<times> bool" where
  "resolvePropertyPath mapper providerID deviceID path direction =
     (case mapper of
        None \<Rightarrow> Inr (path, [], False)
      | Some m \<Rightarrow> (case pm_ResolvePropertyPath m of None \<Rightarrow> Inr (path, [], False) | Some resolve \<Rightarrow> resolve providerID deviceID path direction))"

definition providerPropertyProjections ::
  "property_mapper option \<Rightarrow> string \<Rightarrow> string \<Rightarrow> parameter_path \<Rightarrow> property \<Rightarrow> mapping_counts \<Rightarrow> (string + projection list) \<times> mapping_counts" where
  "providerPropertyProjections mapper providerID deviceID path p n =
     (case mapper of
        None \<Rightarrow> (Inr [\<lparr>pr_Path = path, pr_Definition = prop_Definition p, pr_Value = prop_Value p, pr_BindingID = [], pr_Explicit = False\<rparr>], n)
      | Some m \<Rightarrow>
          (case pm_ProjectProperty m of
             Some project \<Rightarrow>
               (case project providerID deviceID path (prop_Definition p) (prop_Value p) of
                  Inl e \<Rightarrow> (Inl e, count_error n)
                | Inr result \<Rightarrow> (Inr result, count_applied (length (filter pr_Explicit result)) n))
           | None \<Rightarrow>
               (case pm_TransformDefinition m providerID deviceID path (prop_Definition p) of
                  Inl e \<Rightarrow> (Inl e, count_error n)
                | Inr (d, _, definitionApplied) \<Rightarrow>
                    (case mapProperty mapper providerID deviceID path (prop_Value p) DirectionForward n of
                       (Inl e, n) \<Rightarrow> (Inl e, n)
                     | (Inr (v, _, valueApplied), n) \<Rightarrow>
                         (case resolvePropertyPath mapper providerID deviceID path DirectionForward of
                            Inl e \<Rightarrow> (Inl e, count_error n)
                          | Inr (target, _, pathApplied) \<Rightarrow>
                              (Inr [\<lparr>pr_Path = target, pr_Definition = d, pr_Value = v, pr_BindingID = [],
                                 pr_Explicit = definitionApplied \<or> valueApplied \<or> pathApplied\<rparr>], n))))))"

section \<open>Collecting the projections\<close>

record candidate =
  cn_Path :: parameter_path
  cn_Property :: property
  cn_EndpointName :: string
  cn_EndpointType :: string
  cn_CapabilityType :: string
  cn_Explicit :: bool

datatype mapping_error = MapFailed string | MapDuplicate bool parameter_path string | MapNormalize string validate_error

type_synonym collected = "candidate list \<times> (string, nat) gomap"

text \<open>The candidate of a projection; \<open>None\<close> for an attribute that is not part of the model.\<close>

definition candidate_of ::
  "(string \<Rightarrow> string) \<Rightarrow> property_mapper \<Rightarrow> string \<Rightarrow> projection \<Rightarrow> property \<Rightarrow> string \<times> string \<times> string \<Rightarrow> candidate option" where
  "candidate_of lower m deviceType pr p names =
     (let d = (pr_Definition pr)\<lparr>pd_ID := path_PropertyID (pr_Path pr)\<rparr>;
          (d, modelProperty) = (case pm_ResolveModelDefinition m of None \<Rightarrow> (d, True) | Some resolve \<Rightarrow> resolve deviceType (pr_Path pr) d)
      in if \<not> modelProperty then None
         else Some \<lparr>cn_Path = pr_Path pr,
                cn_Property = p\<lparr>prop_Definition := d, prop_Value := alignEnumValue lower (pr_Value pr) (pd_Enum d)\<rparr>,
                cn_EndpointName = fst names, cn_EndpointType = fst (snd names), cn_CapabilityType = snd (snd names),
                cn_Explicit = pr_Explicit pr\<rparr>)"

definition add_candidate :: "string \<Rightarrow> candidate \<Rightarrow> collected \<Rightarrow> mapping_error + collected" where
  "add_candidate deviceID c col =
     (let (projected, byTarget) = col; key = path_key (cn_Path c)
      in case gm_get byTarget key of
           Some index \<Rightarrow>
             (let current = projected ! index
              in if cn_Explicit current \<and> \<not> cn_Explicit c then Inr col
                 else if cn_Explicit current = cn_Explicit c then Inl (MapDuplicate (cn_Explicit c) (cn_Path c) deviceID)
                 else Inr (projected[index := c], byTarget))
         | None \<Rightarrow> Inr (projected @ [c], gm_put key (length projected) byTarget))"

definition addProjection ::
  "(string \<Rightarrow> string) \<Rightarrow> property_mapper \<Rightarrow> device \<Rightarrow> projection \<Rightarrow> property \<Rightarrow> string \<times> string \<times> string \<Rightarrow> collected \<Rightarrow> mapping_error + collected" where
  "addProjection lower m item pr p names col =
     (case candidate_of lower m (dev_Type item) pr p names of
        None \<Rightarrow> Inr col
      | Some c \<Rightarrow> add_candidate (dev_ID item) c col)"

fun add_projections ::
  "(string \<Rightarrow> string) \<Rightarrow> property_mapper \<Rightarrow> device \<Rightarrow> property \<Rightarrow> string \<times> string \<times> string \<Rightarrow> projection list \<Rightarrow> collected \<Rightarrow> mapping_error + collected" where
  "add_projections lower m item p names [] col = Inr col"
| "add_projections lower m item p names (pr # prs) col =
     (case addProjection lower m item pr p names col of
        Inl e \<Rightarrow> Inl e
      | Inr col \<Rightarrow> add_projections lower m item p names prs col)"

text \<open>The properties of the snapshot in the order of the three loops, with the names the projections inherit.\<close>

definition source_entries :: "device \<Rightarrow> (parameter_path \<times> property \<times> string \<times> string \<times> string) list" where
  "source_entries item =
     concat (map (\<lambda>e. concat (map (\<lambda>c. map (\<lambda>p. (model_path (ep_ID e) (cap_ID c) (pd_ID (prop_Definition p)), p, ep_Name e, ep_Type e, cap_Type c))
       (cap_Properties c)) (ep_Capabilities e))) (dev_Endpoints item))"

fun collect_sources ::
  "(string \<Rightarrow> string) \<Rightarrow> property_mapper \<Rightarrow> device \<Rightarrow> (parameter_path \<times> property \<times> string \<times> string \<times> string) list \<Rightarrow>
     collected \<Rightarrow> mapping_counts \<Rightarrow> (mapping_error + collected) \<times> mapping_counts" where
  "collect_sources lower m item [] col n = (Inr col, n)"
| "collect_sources lower m item ((path, p, names) # rest) col n =
     (case providerPropertyProjections (Some m) (dev_ProviderID item) (dev_ID item) path p n of
        (Inl e, n) \<Rightarrow> (Inl (MapFailed e), n)
      | (Inr prs, n) \<Rightarrow>
          (case add_projections lower m item p names prs col of
             Inl e \<Rightarrow> (Inl e, n)
           | Inr col \<Rightarrow> collect_sources lower m item rest col n))"

definition missing_property :: "projection \<Rightarrow> property" where
  "missing_property pr = \<lparr>prop_Definition = pr_Definition pr, prop_Value = pr_Value pr, prop_StateTransport = StateTransportOther []\<rparr>"

fun add_missing :: "(string \<Rightarrow> string) \<Rightarrow> property_mapper \<Rightarrow> device \<Rightarrow> projection list \<Rightarrow> collected \<Rightarrow> mapping_counts \<Rightarrow>
    (mapping_error + collected) \<times> mapping_counts" where
  "add_missing lower m item [] col n = (Inr col, n)"
| "add_missing lower m item (pr # prs) col n =
     (case addProjection lower m item pr (missing_property pr)
             (path_EndpointID (pr_Path pr), path_EndpointID (pr_Path pr), path_CapabilityID (pr_Path pr)) col of
        Inl e \<Rightarrow> (Inl e, n)
      | Inr col \<Rightarrow> add_missing lower m item prs col (count_applied 1 n))"

definition collect :: "(string \<Rightarrow> string) \<Rightarrow> property_mapper \<Rightarrow> device \<Rightarrow> mapping_counts \<Rightarrow> (mapping_error + collected) \<times> mapping_counts" where
  "collect lower m item n =
     (case collect_sources lower m item (source_entries item) ([], []) n of
        (Inl e, n) \<Rightarrow> (Inl e, n)
      | (Inr col, n) \<Rightarrow>
          (case pm_ProjectMissing m of
             None \<Rightarrow> (Inr col, n)
           | Some project \<Rightarrow>
               (case project (dev_ProviderID item) (dev_ID item) (map fst (source_entries item)) of
                  Inl e \<Rightarrow> (Inl (MapFailed e), count_error n)
                | Inr missing \<Rightarrow> add_missing lower m item missing col n)))"

section \<open>Rebuilding the tree\<close>

text \<open>Changing the first element that satisfies a test; \<open>None\<close> when there is none.\<close>

fun change_first :: "('a \<Rightarrow> bool) \<Rightarrow> ('a \<Rightarrow> 'a) \<Rightarrow> 'a list \<Rightarrow> 'a list option" where
  "change_first P f [] = None"
| "change_first P f (x # xs) = (if P x then Some (f x # xs) else map_option ((#) x) (change_first P f xs))"

definition new_capability :: "string \<Rightarrow> string \<Rightarrow> capability" where
  "new_capability i capabilityType = \<lparr>cap_ID = i, cap_Type = capabilityType, cap_Properties = [], cap_Commands = [], cap_Events = []\<rparr>"

text \<open>\<open>ensureCapability\<close> returns a pointer into the device; here the change at that place is its argument.\<close>

definition in_capability :: "string \<Rightarrow> string \<Rightarrow> (capability \<Rightarrow> capability) \<Rightarrow> endpoint \<Rightarrow> endpoint" where
  "in_capability capabilityID capabilityType f e =
     e\<lparr>ep_Capabilities := (case change_first (\<lambda>c. cap_ID c = capabilityID) f (ep_Capabilities e) of
         Some cs \<Rightarrow> cs
       | None \<Rightarrow> ep_Capabilities e @ [f (new_capability capabilityID capabilityType)])\<rparr>"

definition ensureCapability ::
  "parameter_path \<Rightarrow> string \<Rightarrow> string \<Rightarrow> string \<Rightarrow> (capability \<Rightarrow> capability) \<Rightarrow> endpoint list \<Rightarrow> endpoint list" where
  "ensureCapability path endpointName endpointType capabilityType f es =
     (case change_first (\<lambda>e. ep_ID e = path_EndpointID path) (in_capability (path_CapabilityID path) capabilityType f) es of
        Some es \<Rightarrow> es
      | None \<Rightarrow>
          (let name = (if endpointName = [] \<or> path_EndpointID path \<noteq> ''main'' then path_EndpointID path else endpointName);
               ty = (if endpointType = [] \<or> path_EndpointID path \<noteq> ''main'' then path_EndpointID path else endpointType);
               capTy = (if capabilityType = [] \<or> path_CapabilityID path = [] then path_CapabilityID path else capabilityType)
           in es @ [\<lparr>ep_ID = path_EndpointID path, ep_Name = name, ep_Type = ty,
                ep_Capabilities = [f (new_capability (path_CapabilityID path) capTy)]\<rparr>]))"

definition add_property :: "property \<Rightarrow> capability \<Rightarrow> capability" where
  "add_property p c = c\<lparr>cap_Properties := cap_Properties c @ [p]\<rparr>"

definition place_candidate :: "candidate \<Rightarrow> endpoint list \<Rightarrow> endpoint list" where
  "place_candidate c es =
     ensureCapability (cn_Path c) (cn_EndpointName c) (cn_EndpointType c) (cn_CapabilityType c) (add_property (cn_Property c)) es"

fun append_unseen :: "command_definition list \<Rightarrow> command_definition list \<Rightarrow> command_definition list" where
  "append_unseen [] commands = commands"
| "append_unseen (c # cs) commands = append_unseen cs (if cd_ID c \<in> set (map cd_ID commands) then commands else commands @ [c])"

definition add_commands :: "command_definition list \<Rightarrow> capability \<Rightarrow> capability" where
  "add_commands cs c = c\<lparr>cap_Commands := append_unseen cs (cap_Commands c)\<rparr>"

text \<open>The first endpoint of that identifier is searched and no other.\<close>

definition preserve_capability :: "string \<Rightarrow> capability \<Rightarrow> endpoint list \<Rightarrow> endpoint list" where
  "preserve_capability endpointID source es =
     (if cap_Commands source = [] then es
      else case change_first (\<lambda>e. ep_ID e = endpointID)
             (\<lambda>e. case change_first (\<lambda>c. cap_ID c = cap_ID source) (add_commands (cap_Commands source)) (ep_Capabilities e) of
                    None \<Rightarrow> e | Some cs \<Rightarrow> e\<lparr>ep_Capabilities := cs\<rparr>) es of
             None \<Rightarrow> es
           | Some es \<Rightarrow> es)"

definition preserveIdentityCommands :: "device \<Rightarrow> endpoint list \<Rightarrow> endpoint list" where
  "preserveIdentityCommands source es =
     fold (\<lambda>e. fold (preserve_capability (ep_ID e)) (ep_Capabilities e)) (dev_Endpoints source) es"

definition mapSnapshot ::
  "(string \<Rightarrow> string) \<Rightarrow> property_mapper option \<Rightarrow> preferences \<Rightarrow> device \<Rightarrow> mapping_counts \<Rightarrow> (mapping_error + device) \<times> mapping_counts" where
  "mapSnapshot lower mapper u item n =
     (case mapper of
        None \<Rightarrow> (Inr (applyDeviceName u (applyDeviceLocation lower u item)), n)
      | Some m \<Rightarrow>
          (case collect lower m item n of
             (Inl e, n) \<Rightarrow> (Inl e, n)
           | (Inr (projected, _), n) \<Rightarrow>
               (let result = item\<lparr>dev_Endpoints := preserveIdentityCommands item (fold place_candidate projected [])\<rparr>
                in case normalizeModelParameters result of
                     (_, Some e) \<Rightarrow> (Inl (MapNormalize (dev_ID item) e), n)
                   | (result, None) \<Rightarrow> (Inr (applyDeviceName u (applyDeviceLocation lower u result)), n))))"

text \<open>\<open>catalog\<close>: \<open>None\<close> when there is no cataloger or it fails.\<close>

definition sourceSnapshots :: "property_mapper option \<Rightarrow> device list option \<Rightarrow> device list \<Rightarrow> device list" where
  "sourceSnapshots mapper catalog fallback =
     (case (mapper, catalog) of
        (Some _, Some (x # xs)) \<Rightarrow>
          (let byID = fold (\<lambda>item m. gm_put (dev_ID item) item m) (x # xs) []
           in map (\<lambda>item. case gm_get byID (dev_ID item) of Some source \<Rightarrow> source | None \<Rightarrow> item) fallback)
      | _ \<Rightarrow> fallback)"

definition projectLatestSnapshot ::
  "(string \<Rightarrow> string) \<Rightarrow> property_mapper option \<Rightarrow> device list option \<Rightarrow> preferences \<Rightarrow> device \<Rightarrow> mapping_counts \<Rightarrow>
     (mapping_error + device) \<times> mapping_counts" where
  "projectLatestSnapshot lower mapper catalog u fallback n =
     (let items = sourceSnapshots mapper catalog [fallback]
      in mapSnapshot lower mapper u (case items of [x] \<Rightarrow> x | _ \<Rightarrow> fallback) n)"

section \<open>Which candidates win\<close>

abbreviation cn_key :: "candidate \<Rightarrow> string" where
  "cn_key c \<equiv> path_key (cn_Path c)"

text \<open>An explicit candidate wins; an automatic one wins when no explicit one is offered for its path.\<close>

definition winners :: "candidate list \<Rightarrow> candidate set" where
  "winners cs = {c \<in> set cs. cn_Explicit c \<or> \<not> (\<exists>c'\<in>set cs. cn_Explicit c' \<and> cn_key c' = cn_key c)}"

definition collected_ok :: "candidate list \<Rightarrow> collected \<Rightarrow> bool" where
  "collected_ok cs col \<longleftrightarrow> set (fst col) = winners cs \<and> distinct (map cn_key (fst col)) \<and>
     (\<forall>k i. gm_get (snd col) k = Some i \<longleftrightarrow> i < length (fst col) \<and> cn_key (fst col ! i) = k)"

lemma winners_keys: "cn_key ` winners cs = cn_key ` set cs"
  by (auto simp: winners_def image_iff) metis

lemma winners_snoc:
  "winners (cs @ [c]) =
     {d \<in> winners cs. \<not> (cn_Explicit c \<and> \<not> cn_Explicit d \<and> cn_key d = cn_key c)} \<union>
     (if cn_Explicit c \<or> \<not> (\<exists>c'\<in>set cs. cn_Explicit c' \<and> cn_key c' = cn_key c) then {c} else {})"
  by (auto simp: winners_def)

lemma add_candidate_ok:
  assumes ok: "collected_ok cs col" and add: "add_candidate deviceID c col = Inr col'"
  shows "collected_ok (cs @ [c]) col'"
proof -
  obtain ps m where col: "col = (ps, m)" by fastforce
  have s: "set ps = winners cs" and d: "distinct (map cn_key ps)"
    and ix: "\<And>k i. gm_get m k = Some i \<longleftrightarrow> i < length ps \<and> cn_key (ps ! i) = k"
    using ok by (auto simp: collected_ok_def col)
  show ?thesis
  proof (cases "gm_get m (cn_key c)")
    case None
    have new: "cn_key c \<notin> cn_key ` set ps"
    proof
      assume "cn_key c \<in> cn_key ` set ps"
      then obtain j where "j < length ps" "cn_key (ps ! j) = cn_key c" by (auto simp: in_set_conv_nth)
      with ix [of "cn_key c" j] None show False by simp
    qed
    then have other: "\<not> (\<exists>c'\<in>set cs. cn_key c' = cn_key c)" using winners_keys [of cs] s by (metis image_iff)
    then have "winners (cs @ [c]) = insert c (winners cs)" by (auto simp: winners_snoc) (auto simp: winners_def)
    moreover have "col' = (ps @ [c], gm_put (cn_key c) (length ps) m)" using add None by (simp add: add_candidate_def col Let_def)
    moreover have "gm_get (gm_put (cn_key c) (length ps) m) k = Some i \<longleftrightarrow> i < length (ps @ [c]) \<and> cn_key ((ps @ [c]) ! i) = k" for k i
      using ix [of k i] new by (auto simp: gm_get_put nth_append less_Suc_eq image_iff) (metis nth_mem)
    ultimately show ?thesis using s d new by (simp add: collected_ok_def)
  next
    case (Some i)
    then have i: "i < length ps" "cn_key (ps ! i) = cn_key c" using ix by auto
    let ?x = "ps ! i"
    have x: "?x \<in> winners cs" using i(1) s by (metis nth_mem)
    have only: "e = ?x" if "e \<in> winners cs" "cn_key e = cn_key c" for e
      using that d i s by (metis (no_types, lifting) distinct_conv_nth in_set_conv_nth length_map nth_map)
    show ?thesis
    proof (cases "cn_Explicit ?x")
      case True
      then have "\<not> cn_Explicit c" and col': "col' = col"
        using add Some by (auto simp: add_candidate_def col Let_def split: if_splits)
      moreover have "\<exists>c'\<in>set cs. cn_Explicit c' \<and> cn_key c' = cn_key c" using x True i(2) by (auto simp: winners_def)
      ultimately have "winners (cs @ [c]) = winners cs" by (auto simp: winners_snoc)
      then show ?thesis using ok col' by (simp add: collected_ok_def)
    next
      case False
      then have c: "cn_Explicit c" and col': "col' = (ps[i := c], m)"
        using add Some by (auto simp: add_candidate_def col Let_def split: if_splits)
      have "winners (cs @ [c]) = insert c (winners cs - {?x})"
      proof -
        have "\<not> (cn_Explicit c \<and> \<not> cn_Explicit d \<and> cn_key d = cn_key c) \<longleftrightarrow> d \<noteq> ?x" if "d \<in> winners cs" for d
          using only [OF that] c False i(2) by blast
        then show ?thesis unfolding winners_snoc using c by auto
      qed
      moreover have "set (ps[i := c]) = insert c (set ps - {?x})"
      proof -
        have "distinct ps" using d by (simp add: distinct_map)
        then show ?thesis using i(1) by (simp add: set_update_distinct)
      qed
      moreover have "map cn_key (ps[i := c]) = map cn_key ps" using i by (simp add: map_update list_update_same_conv)
      moreover from this have "cn_key (ps[i := c] ! j) = cn_key (ps ! j)" if "j < length ps" for j
        using that by (metis length_list_update nth_map)
      ultimately show ?thesis using s d ix by (auto simp: collected_ok_def col')
    qed
  qed
qed

text \<open>Everything that the mapper offers for a snapshot.\<close>

definition no_counts :: mapping_counts where
  "no_counts = \<lparr>mc_mappingErrors = 0, mc_mappingApplied = 0\<rparr>"

definition offered_by :: "(string \<Rightarrow> string) \<Rightarrow> property_mapper \<Rightarrow> device \<Rightarrow> parameter_path \<times> property \<times> string \<times> string \<times> string \<Rightarrow> candidate list" where
  "offered_by lower m item = (\<lambda>(path, p, names).
     case fst (providerPropertyProjections (Some m) (dev_ProviderID item) (dev_ID item) path p no_counts) of
       Inl _ \<Rightarrow> []
     | Inr prs \<Rightarrow> List.map_filter (\<lambda>pr. candidate_of lower m (dev_Type item) pr p names) prs)"

definition offered_missing :: "(string \<Rightarrow> string) \<Rightarrow> property_mapper \<Rightarrow> device \<Rightarrow> candidate list" where
  "offered_missing lower m item =
     (case pm_ProjectMissing m of
        None \<Rightarrow> []
      | Some project \<Rightarrow>
          (case project (dev_ProviderID item) (dev_ID item) (map fst (source_entries item)) of
             Inl _ \<Rightarrow> []
           | Inr prs \<Rightarrow> List.map_filter (\<lambda>pr. candidate_of lower m (dev_Type item) pr (missing_property pr)
               (path_EndpointID (pr_Path pr), path_EndpointID (pr_Path pr), path_CapabilityID (pr_Path pr))) prs))"

definition offered :: "(string \<Rightarrow> string) \<Rightarrow> property_mapper \<Rightarrow> device \<Rightarrow> candidate list" where
  "offered lower m item = concat (map (offered_by lower m item) (source_entries item)) @ offered_missing lower m item"

lemma projections_counts:
  "fst (providerPropertyProjections (Some m) providerID deviceID path p n) = fst (providerPropertyProjections (Some m) providerID deviceID path p n')"
  by (simp add: providerPropertyProjections_def mapProperty_def split: option.split sum.split)

lemma addProjection_ok:
  assumes "collected_ok cs col" and "addProjection lower m item pr p names col = Inr col'"
  shows "collected_ok (cs @ List.map_filter (\<lambda>pr. candidate_of lower m (dev_Type item) pr p names) [pr]) col'"
  using assms by (auto simp: addProjection_def List.map_filter_def intro: add_candidate_ok split: option.splits)

lemma add_projections_ok:
  "collected_ok cs col \<Longrightarrow> add_projections lower m item p names prs col = Inr col' \<Longrightarrow>
     collected_ok (cs @ List.map_filter (\<lambda>pr. candidate_of lower m (dev_Type item) pr p names) prs) col'"
proof (induction prs arbitrary: cs col)
  case (Cons pr prs)
  then obtain col1 where a: "addProjection lower m item pr p names col = Inr col1" "add_projections lower m item p names prs col1 = Inr col'"
    by (auto split: sum.splits)
  from Cons.IH [OF addProjection_ok [OF Cons.prems(1) a(1)] a(2)] show ?case
    by (auto simp: List.map_filter_def split: option.splits)
qed (simp add: List.map_filter_def)

lemma collect_sources_ok:
  "collected_ok cs col \<Longrightarrow> collect_sources lower m item es col n = (Inr col', n') \<Longrightarrow>
     collected_ok (cs @ concat (map (offered_by lower m item) es)) col'"
proof (induction es arbitrary: cs col n)
  case (Cons x es)
  obtain path p names where x: "x = (path, p, names)" by (cases x)
  obtain prs n1 where pr: "providerPropertyProjections (Some m) (dev_ProviderID item) (dev_ID item) path p n = (Inr prs, n1)"
    using Cons.prems(2) by (auto simp: x split: prod.splits sum.splits)
  then obtain col1 where a: "add_projections lower m item p names prs col = Inr col1" "collect_sources lower m item es col1 n1 = (Inr col', n')"
    using Cons.prems(2) by (auto simp: x split: sum.splits)
  have "offered_by lower m item x = List.map_filter (\<lambda>pr. candidate_of lower m (dev_Type item) pr p names) prs"
    using projections_counts [of m "dev_ProviderID item" "dev_ID item" path p no_counts n] by (simp add: offered_by_def x pr)
  with Cons.IH [OF add_projections_ok [OF Cons.prems(1) a(1)] a(2)] show ?case by simp
qed simp

lemma add_missing_ok:
  "collected_ok cs col \<Longrightarrow> add_missing lower m item prs col n = (Inr col', n') \<Longrightarrow>
     collected_ok (cs @ List.map_filter (\<lambda>pr. candidate_of lower m (dev_Type item) pr (missing_property pr)
       (path_EndpointID (pr_Path pr), path_EndpointID (pr_Path pr), path_CapabilityID (pr_Path pr))) prs) col'"
proof (induction prs arbitrary: cs col n)
  case (Cons pr prs)
  let ?names = "(path_EndpointID (pr_Path pr), path_EndpointID (pr_Path pr), path_CapabilityID (pr_Path pr))"
  obtain col1 where a: "addProjection lower m item pr (missing_property pr) ?names col = Inr col1" "add_missing lower m item prs col1 (count_applied 1 n) = (Inr col', n')"
    using Cons.prems(2) by (auto split: sum.splits)
  from Cons.IH [OF addProjection_ok [OF Cons.prems(1) a(1)] a(2)] show ?case
    by (auto simp: List.map_filter_def split: option.splits)
qed (simp add: List.map_filter_def)

lemma collect_ok:
  assumes "collect lower m item n = (Inr col, n')"
  shows "collected_ok (offered lower m item) col"
proof -
  obtain col1 n1 where c: "collect_sources lower m item (source_entries item) ([], []) n = (Inr col1, n1)"
    using assms by (auto simp: collect_def split: prod.splits sum.splits)
  have "collected_ok [] ([], [])" by (simp add: collected_ok_def winners_def)
  from collect_sources_ok [OF this c] have ok: "collected_ok (concat (map (offered_by lower m item) (source_entries item))) col1" by simp
  show ?thesis
  proof (cases "pm_ProjectMissing m")
    case None
    with assms c ok show ?thesis by (simp add: collect_def offered_def offered_missing_def)
  next
    case (Some project)
    then obtain prs where p: "project (dev_ProviderID item) (dev_ID item) (map fst (source_entries item)) = Inr prs"
      "add_missing lower m item prs col1 n1 = (Inr col, n')"
      using assms c by (auto simp: collect_def split: sum.splits)
    from add_missing_ok [OF ok p(2)] show ?thesis by (simp add: offered_def offered_missing_def Some p(1))
  qed
qed

section \<open>What the tree holds\<close>

lemma change_first_None: "change_first P f xs = None \<longleftrightarrow> (\<forall>x\<in>set xs. \<not> P x)"
  by (induction xs) auto

lemma change_first_Some:
  assumes "change_first P f xs = Some ys"
  obtains a x b where "xs = a @ x # b" "P x" "\<forall>y\<in>set a. \<not> P y" "ys = a @ f x # b"
proof -
  from assms have "\<exists>a x b. xs = a @ x # b \<and> P x \<and> (\<forall>y\<in>set a. \<not> P y) \<and> ys = a @ f x # b"
  proof (induction xs arbitrary: ys)
    case (Cons x xs)
    show ?case
    proof (cases "P x")
      case True
      with Cons.prems show ?thesis by (intro exI [of _ "[]"]) auto
    next
      case False
      then obtain zs where "change_first P f xs = Some zs" "ys = x # zs" using Cons.prems by auto
      with Cons.IH [OF this(1)] False show ?thesis by (metis append_Cons set_ConsD)
    qed
  qed simp
  then show thesis using that by blast
qed

definition tree_properties :: "endpoint list \<Rightarrow> (string \<times> string \<times> property) list" where
  "tree_properties es =
     concat (map (\<lambda>e. concat (map (\<lambda>c. map (\<lambda>p. (ep_ID e, cap_ID c, p)) (cap_Properties c)) (ep_Capabilities e))) es)"

lemma snapshot_tree: "snapshot_properties item = tree_properties (dev_Endpoints item)"
  by (simp add: snapshot_properties_def tree_properties_def)

definition cap_entries :: "string \<Rightarrow> capability list \<Rightarrow> (string \<times> string \<times> property) list" where
  "cap_entries e cs = concat (map (\<lambda>c. map (\<lambda>p. (e, cap_ID c, p)) (cap_Properties c)) cs)"

lemma cap_entries_simps [simp]: "cap_entries e (xs @ ys) = cap_entries e xs @ cap_entries e ys" "cap_entries e [] = []"
  "cap_entries e (c # cs) = map (\<lambda>p. (e, cap_ID c, p)) (cap_Properties c) @ cap_entries e cs"
  by (simp_all add: cap_entries_def)

lemma tree_simps [simp]: "tree_properties (xs @ ys) = tree_properties xs @ tree_properties ys" "tree_properties [] = []"
  "tree_properties (e # es) = cap_entries (ep_ID e) (ep_Capabilities e) @ tree_properties es"
  by (simp_all add: tree_properties_def cap_entries_def)

lemma in_capability_sel [simp]: "ep_ID (in_capability c t f e) = ep_ID e"
  by (simp add: in_capability_def)

lemma in_capability_add:
  "mset (cap_entries E (ep_Capabilities (in_capability c t (add_property p) e))) = add_mset (E, c, p) (mset (cap_entries E (ep_Capabilities e)))"
proof (cases "change_first (\<lambda>x. cap_ID x = c) (add_property p) (ep_Capabilities e)")
  case None
  then show ?thesis by (simp add: in_capability_def add_property_def new_capability_def)
next
  case (Some cs)
  then obtain a x b where "ep_Capabilities e = a @ x # b" "cap_ID x = c" "cs = a @ add_property p x # b"
    by (rule change_first_Some)
  with Some show ?thesis by (simp add: in_capability_def add_property_def)
qed

lemma place_properties:
  "mset (tree_properties (place_candidate c es)) =
     add_mset (path_EndpointID (cn_Path c), path_CapabilityID (cn_Path c), cn_Property c) (mset (tree_properties es))"
proof (cases "change_first (\<lambda>e. ep_ID e = path_EndpointID (cn_Path c))
    (in_capability (path_CapabilityID (cn_Path c)) (cn_CapabilityType c) (add_property (cn_Property c))) es")
  case None
  then show ?thesis
    by (simp add: place_candidate_def ensureCapability_def Let_def new_capability_def add_property_def)
next
  case (Some es')
  then obtain a e b where "es = a @ e # b" "ep_ID e = path_EndpointID (cn_Path c)"
    "es' = a @ in_capability (path_CapabilityID (cn_Path c)) (cn_CapabilityType c) (add_property (cn_Property c)) e # b"
    by (rule change_first_Some)
  then show ?thesis using Some
    by (simp add: place_candidate_def ensureCapability_def in_capability_add)
qed

lemma place_all_properties:
  "mset (tree_properties (fold place_candidate cs es)) =
     image_mset (\<lambda>c. (path_EndpointID (cn_Path c), path_CapabilityID (cn_Path c), cn_Property c)) (mset cs) + mset (tree_properties es)"
  by (induction cs arbitrary: es) (simp_all add: place_properties)

text \<open>Endpoints have different identifiers, and so have the capabilities of an endpoint.\<close>

definition tree_ok :: "endpoint list \<Rightarrow> bool" where
  "tree_ok es \<longleftrightarrow> distinct (map ep_ID es) \<and> (\<forall>e\<in>set es. distinct (map cap_ID (ep_Capabilities e)))"

definition cap_has :: "string \<Rightarrow> endpoint \<Rightarrow> bool" where
  "cap_has C e \<longleftrightarrow> C \<in> cap_ID ` set (ep_Capabilities e)"

definition cap_command :: "string \<Rightarrow> string \<Rightarrow> endpoint \<Rightarrow> bool" where
  "cap_command C i e \<longleftrightarrow> (\<exists>c\<in>set (ep_Capabilities e). cap_ID c = C \<and> i \<in> cd_ID ` set (cap_Commands c))"

definition has_capability :: "endpoint list \<Rightarrow> string \<Rightarrow> string \<Rightarrow> bool" where
  "has_capability es E C \<longleftrightarrow> (\<exists>e\<in>set es. ep_ID e = E \<and> cap_has C e)"

definition has_command :: "endpoint list \<Rightarrow> string \<Rightarrow> string \<Rightarrow> string \<Rightarrow> bool" where
  "has_command es E C i \<longleftrightarrow> (\<exists>e\<in>set es. ep_ID e = E \<and> cap_command C i e)"

lemma find_command_has: "find_command item E C i \<noteq> None \<longleftrightarrow> has_command (dev_Endpoints item) E C i"
  by (auto simp: find_command_def has_command_def cap_command_def find_None_iff)

lemma tree_facts [simp]: "tree_ok []" "\<not> has_capability [] E C" "\<not> has_command [] E C i"
  by (simp_all add: tree_ok_def has_capability_def has_command_def)

lemma has_append:
  "has_capability (a @ e # b) E C \<longleftrightarrow> has_capability (a @ b) E C \<or> ep_ID e = E \<and> cap_has C e"
  "has_command (a @ e # b) E C i \<longleftrightarrow> has_command (a @ b) E C i \<or> ep_ID e = E \<and> cap_command C i e"
  by (auto simp: has_capability_def has_command_def)

text \<open>A change of one endpoint that keeps its identifier and what \<open>tree_ok\<close> asks of its capabilities.\<close>

lemma tree_ok_change:
  assumes "tree_ok (a @ e # b)" "ep_ID e' = ep_ID e"
    and "distinct (map cap_ID (ep_Capabilities e)) \<Longrightarrow> distinct (map cap_ID (ep_Capabilities e'))"
  shows "tree_ok (a @ e' # b)"
  using assms by (simp add: tree_ok_def)

lemma in_capability_facts:
  assumes f: "\<And>c. cap_ID (f c) = cap_ID c" "\<And>c. cap_Commands (f c) = cap_Commands c"
  shows "cap_has C' (in_capability C t f e) \<longleftrightarrow> cap_has C' e \<or> C' = C"
    and "cap_command C' i (in_capability C t f e) \<longleftrightarrow> cap_command C' i e"
    and "distinct (map cap_ID (ep_Capabilities e)) \<Longrightarrow> distinct (map cap_ID (ep_Capabilities (in_capability C t f e)))"
proof -
  consider (none) "ep_Capabilities (in_capability C t f e) = ep_Capabilities e @ [f (new_capability C t)]"
      "\<forall>x\<in>set (ep_Capabilities e). cap_ID x \<noteq> C"
    | (some) a x b where "ep_Capabilities e = a @ x # b" "cap_ID x = C" "ep_Capabilities (in_capability C t f e) = a @ f x # b"
  proof (cases "change_first (\<lambda>x. cap_ID x = C) f (ep_Capabilities e)")
    case None
    moreover have "\<forall>x\<in>set (ep_Capabilities e). cap_ID x \<noteq> C" using None unfolding change_first_None .
    ultimately show ?thesis using none by (simp add: in_capability_def)
  next
    case (Some cs)
    then obtain a x b where "ep_Capabilities e = a @ x # b" "cap_ID x = C" "cs = a @ f x # b" by (rule change_first_Some)
    with Some show ?thesis using some by (simp add: in_capability_def)
  qed
  note ways = this
  have new: "cap_ID (new_capability C t) = C" "cap_Commands (new_capability C t) = []"
    by (simp_all add: f new_capability_def)
  from ways show "cap_has C' (in_capability C t f e) \<longleftrightarrow> cap_has C' e \<or> C' = C"
    by cases (auto simp: cap_has_def f new)
  from ways show "cap_command C' i (in_capability C t f e) \<longleftrightarrow> cap_command C' i e"
    by cases (auto simp: cap_command_def f new)
  show "distinct (map cap_ID (ep_Capabilities (in_capability C t f e)))" if "distinct (map cap_ID (ep_Capabilities e))"
    using ways that by cases (auto simp: f new)
qed

lemma place_tree:
  assumes ok: "tree_ok es"
  shows "tree_ok (place_candidate c es)" (is ?tree)
    and "has_capability (place_candidate c es) E C \<longleftrightarrow> has_capability es E C \<or> path_EndpointID (cn_Path c) = E \<and> path_CapabilityID (cn_Path c) = C" (is ?cap)
    and "has_command (place_candidate c es) E C i \<longleftrightarrow> has_command es E C i" (is ?cmd)
proof -
  let ?E = "path_EndpointID (cn_Path c)" and ?C = "path_CapabilityID (cn_Path c)" and ?f = "add_property (cn_Property c)"
  let ?in = "in_capability ?C (cn_CapabilityType c) ?f"
  have f: "cap_ID (?f x) = cap_ID x" "cap_Commands (?f x) = cap_Commands x" for x by (simp_all add: add_property_def)
  have "?tree \<and> ?cap \<and> ?cmd"
  proof (cases "change_first (\<lambda>e. ep_ID e = ?E) ?in es")
    case None
    have no: "\<forall>e\<in>set es. ep_ID e \<noteq> ?E" using None unfolding change_first_None .
    obtain e where e: "place_candidate c es = es @ [e]" "ep_ID e = ?E" "map cap_ID (ep_Capabilities e) = [?C]"
      "concat (map cap_Commands (ep_Capabilities e)) = []"
      using None by (simp add: place_candidate_def ensureCapability_def Let_def new_capability_def f)
    have "cap_has C e \<longleftrightarrow> C = ?C" using e(3) by (cases "ep_Capabilities e") (auto simp: cap_has_def)
    moreover have "\<not> cap_command C i e" using e(4) by (auto simp: cap_command_def)
    moreover have "tree_ok (es @ [e])" using ok no e(2,3) by (auto simp: tree_ok_def)
    ultimately show ?thesis using e(2) by (auto simp: e(1) has_append)
  next
    case (Some es')
    then obtain a e b where es: "es = a @ e # b" "ep_ID e = ?E" "es' = a @ ?in e # b" by (rule change_first_Some)
    have p: "place_candidate c es = a @ ?in e # b" using Some es(3) by (simp add: place_candidate_def ensureCapability_def)
    note facts = in_capability_facts [of ?f, OF f]
    have "tree_ok (a @ ?in e # b)" using tree_ok_change [OF ok [unfolded es(1)] in_capability_sel facts(3)] by blast
    then show ?thesis unfolding p unfolding es(1) has_append using es(2) by (auto simp: facts(1,2))
  qed
  then show ?tree ?cap ?cmd by blast+
qed

lemma place_all_tree:
  "tree_ok es \<Longrightarrow> tree_ok (fold place_candidate cs es) \<and>
    (has_capability (fold place_candidate cs es) E C \<longleftrightarrow> has_capability es E C \<or>
       (\<exists>c\<in>set cs. path_EndpointID (cn_Path c) = E \<and> path_CapabilityID (cn_Path c) = C)) \<and>
    (has_command (fold place_candidate cs es) E C i \<longleftrightarrow> has_command es E C i)"
  by (induction cs arbitrary: es) (auto simp: place_tree)

section \<open>The commands that survive\<close>

lemma append_unseen_ids: "cd_ID ` set (append_unseen cs commands) = cd_ID ` set cs \<union> cd_ID ` set commands"
  by (induction cs arbitrary: commands) auto

lemma add_commands_facts [simp]:
  "cap_ID (add_commands cs c) = cap_ID c" "cap_Properties (add_commands cs c) = cap_Properties c"
  "cd_ID ` set (cap_Commands (add_commands cs c)) = cd_ID ` set cs \<union> cd_ID ` set (cap_Commands c)"
  by (simp_all add: add_commands_def append_unseen_ids)

definition preserve_in :: "capability \<Rightarrow> endpoint \<Rightarrow> endpoint" where
  "preserve_in source e =
     (case change_first (\<lambda>c. cap_ID c = cap_ID source) (add_commands (cap_Commands source)) (ep_Capabilities e) of
        None \<Rightarrow> e | Some cs \<Rightarrow> e\<lparr>ep_Capabilities := cs\<rparr>)"

lemma preserve_in_facts:
  "ep_ID (preserve_in source e) = ep_ID e"
  "map cap_ID (ep_Capabilities (preserve_in source e)) = map cap_ID (ep_Capabilities e)"
  "cap_entries E (ep_Capabilities (preserve_in source e)) = cap_entries E (ep_Capabilities e)"
  "cap_command C i (preserve_in source e) \<longleftrightarrow>
     cap_command C i e \<or> cap_has C e \<and> C = cap_ID source \<and> i \<in> cd_ID ` set (cap_Commands source)"
proof -
  consider (none) "preserve_in source e = e" "\<forall>x\<in>set (ep_Capabilities e). cap_ID x \<noteq> cap_ID source"
    | (some) a x b where "ep_Capabilities e = a @ x # b" "cap_ID x = cap_ID source"
       "preserve_in source e = e\<lparr>ep_Capabilities := a @ add_commands (cap_Commands source) x # b\<rparr>"
  proof (cases "change_first (\<lambda>c. cap_ID c = cap_ID source) (add_commands (cap_Commands source)) (ep_Capabilities e)")
    case None
    moreover have "\<forall>x\<in>set (ep_Capabilities e). cap_ID x \<noteq> cap_ID source" using None unfolding change_first_None .
    ultimately show ?thesis using none by (simp add: preserve_in_def)
  next
    case (Some cs)
    then obtain a x b where "ep_Capabilities e = a @ x # b" "cap_ID x = cap_ID source" "cs = a @ add_commands (cap_Commands source) x # b"
      by (rule change_first_Some)
    with Some show ?thesis using some by (simp add: preserve_in_def)
  qed
  note ways = this
  from ways show "ep_ID (preserve_in source e) = ep_ID e" by cases auto
  from ways show "map cap_ID (ep_Capabilities (preserve_in source e)) = map cap_ID (ep_Capabilities e)" by cases auto
  from ways show "cap_entries E (ep_Capabilities (preserve_in source e)) = cap_entries E (ep_Capabilities e)" by cases auto
  from ways show "cap_command C i (preserve_in source e) \<longleftrightarrow>
     cap_command C i e \<or> cap_has C e \<and> C = cap_ID source \<and> i \<in> cd_ID ` set (cap_Commands source)"
  proof cases
    case none
    then show ?thesis by (auto simp: cap_has_def)
  next
    case some
    have "cap_command C i (preserve_in source e) \<longleftrightarrow>
      (\<exists>c\<in>set (a @ b). cap_ID c = C \<and> i \<in> cd_ID ` set (cap_Commands c)) \<or>
      cap_ID x = C \<and> i \<in> cd_ID ` set (cap_Commands (add_commands (cap_Commands source) x))"
      unfolding some(3) cap_command_def by auto
    then show ?thesis using some(1,2) unfolding cap_command_def cap_has_def add_commands_facts by auto
  qed
qed

lemma cap_has_ids: "map cap_ID (ep_Capabilities e') = map cap_ID (ep_Capabilities e) \<Longrightarrow> cap_has C e' = cap_has C e"
  unfolding cap_has_def by (metis list.set_map)

lemma preserve_capability_in:
  "preserve_capability E source es =
     (if cap_Commands source = [] then es
      else case change_first (\<lambda>e. ep_ID e = E) (preserve_in source) es of None \<Rightarrow> es | Some es \<Rightarrow> es)"
  by (simp add: preserve_capability_def preserve_in_def [abs_def])

lemma preserve_capability_facts:
  assumes ok: "tree_ok es"
  shows "tree_ok (preserve_capability E' source es)"
    and "tree_properties (preserve_capability E' source es) = tree_properties es"
    and "has_capability (preserve_capability E' source es) E C \<longleftrightarrow> has_capability es E C"
    and "has_command (preserve_capability E' source es) E C i \<longleftrightarrow>
      has_command es E C i \<or> has_capability es E C \<and> E = E' \<and> C = cap_ID source \<and> i \<in> cd_ID ` set (cap_Commands source)"
proof -
  consider (same) "preserve_capability E' source es = es" "cap_Commands source = [] \<or> (\<forall>e\<in>set es. ep_ID e \<noteq> E')"
    | (change) a e b where "es = a @ e # b" "ep_ID e = E'" "preserve_capability E' source es = a @ preserve_in source e # b"
  proof (cases "change_first (\<lambda>e. ep_ID e = E') (preserve_in source) es")
    case None
    moreover have "\<forall>x\<in>set es. ep_ID x \<noteq> E'" using None unfolding change_first_None .
    ultimately show ?thesis using same by (simp add: preserve_capability_in)
  next
    case (Some es')
    then obtain a e b where "es = a @ e # b" "ep_ID e = E'" "es' = a @ preserve_in source e # b" by (rule change_first_Some)
    with Some show ?thesis using same change by (cases "cap_Commands source = []") (simp_all add: preserve_capability_in)
  qed
  note ways = this
  note p = preserve_in_facts
  have ids: "distinct (map cap_ID (ep_Capabilities (preserve_in source e))) = distinct (map cap_ID (ep_Capabilities e))" for e
    unfolding p(2) ..
  from ways show "tree_ok (preserve_capability E' source es)"
    by cases (use ok tree_ok_change [OF _ p(1)] ids in auto)
  from ways show "tree_properties (preserve_capability E' source es) = tree_properties es" by cases (simp_all add: p)
  from ways show "has_capability (preserve_capability E' source es) E C \<longleftrightarrow> has_capability es E C"
    by cases (simp_all add: has_append p(1) cap_has_ids [OF p(2)])
  from ways show "has_command (preserve_capability E' source es) E C i \<longleftrightarrow>
      has_command es E C i \<or> has_capability es E C \<and> E = E' \<and> C = cap_ID source \<and> i \<in> cd_ID ` set (cap_Commands source)"
  proof cases
    case same
    then show ?thesis by (auto simp: has_capability_def)
  next
    case change
    have only: "\<not> has_capability (a @ b) E' C" using ok change(1,2) by (auto simp: tree_ok_def has_capability_def) (metis image_eqI)+
    show ?thesis unfolding change(3) unfolding change(1) has_append p(1) p(4) using change(2) only by auto
  qed
qed


lemma preserve_capabilities_facts:
  "tree_ok es \<Longrightarrow> tree_ok (fold (preserve_capability E') cs es) \<and> tree_properties (fold (preserve_capability E') cs es) = tree_properties es \<and>
     (has_capability (fold (preserve_capability E') cs es) E C \<longleftrightarrow> has_capability es E C) \<and>
     (has_command (fold (preserve_capability E') cs es) E C i \<longleftrightarrow>
        has_command es E C i \<or> has_capability es E C \<and> E = E' \<and> (\<exists>c\<in>set cs. cap_ID c = C \<and> i \<in> cd_ID ` set (cap_Commands c)))"
proof (induction cs arbitrary: es)
  case (Cons c cs)
  note facts = preserve_capability_facts [OF Cons.prems, of E' c]
  show ?case unfolding fold_simps o_apply using Cons.IH [OF facts(1)] facts(2,3,4) by auto
qed simp

lemma preserve_facts:
  assumes "tree_ok es"
  shows "tree_ok (preserveIdentityCommands source es)"
    and "tree_properties (preserveIdentityCommands source es) = tree_properties es"
    and "has_command (preserveIdentityCommands source es) E C i \<longleftrightarrow>
      has_command es E C i \<or> has_capability es E C \<and> has_command (dev_Endpoints source) E C i"
proof -
  have "tree_ok (fold (\<lambda>e. fold (preserve_capability (ep_ID e)) (ep_Capabilities e)) xs es) \<and>
    tree_properties (fold (\<lambda>e. fold (preserve_capability (ep_ID e)) (ep_Capabilities e)) xs es) = tree_properties es \<and>
    (has_capability (fold (\<lambda>e. fold (preserve_capability (ep_ID e)) (ep_Capabilities e)) xs es) E C \<longleftrightarrow> has_capability es E C) \<and>
    (has_command (fold (\<lambda>e. fold (preserve_capability (ep_ID e)) (ep_Capabilities e)) xs es) E C i \<longleftrightarrow>
      has_command es E C i \<or> has_capability es E C \<and> has_command xs E C i)" if "tree_ok es" for xs es
    using that
  proof (induction xs arbitrary: es)
    case (Cons x xs)
    note step = preserve_capabilities_facts [OF Cons.prems, of "ep_ID x" "ep_Capabilities x"]
    have cons: "has_command (x # xs) E C i \<longleftrightarrow> has_command xs E C i \<or> ep_ID x = E \<and> cap_command C i x"
      using has_append(2) [of "[]" x xs] by simp
    show ?case unfolding fold_simps o_apply cons
      using Cons.IH [OF conjunct1 [OF step]] step by (auto simp: cap_command_def)
  qed simp
  from this [OF assms] show "tree_ok (preserveIdentityCommands source es)"
    "tree_properties (preserveIdentityCommands source es) = tree_properties es"
    "has_command (preserveIdentityCommands source es) E C i \<longleftrightarrow>
      has_command es E C i \<or> has_capability es E C \<and> has_command (dev_Endpoints source) E C i"
    by (simp_all add: preserveIdentityCommands_def)
qed

section \<open>The mapped snapshot\<close>

abbreviation normalize_entry :: "string \<Rightarrow> string \<times> string \<times> property \<Rightarrow> string \<times> string \<times> property" where
  "normalize_entry t x \<equiv> (case x of (E, C, p) \<Rightarrow> (E, C, normalize_property (parameterIndex t) E C p))"

lemma normalize_tree:
  "tree_properties (map (normalize_endpoint (parameterIndex t)) es) = map (normalize_entry t) (tree_properties es)"
  "has_command (map (normalize_endpoint (parameterIndex t)) es) E C i \<longleftrightarrow> has_command es E C i"
proof -
  have "cap_entries E (map (normalize_capability (parameterIndex t) E) cs) = map (normalize_entry t) (cap_entries E cs)" for E cs
    by (induction cs) (simp_all add: normalize_capability_def)
  then show "tree_properties (map (normalize_endpoint (parameterIndex t)) es) = map (normalize_entry t) (tree_properties es)"
    by (induction es) (simp_all add: normalize_endpoint_def)
  have "cap_command C i (normalize_endpoint (parameterIndex t) e) \<longleftrightarrow> cap_command C i e" for e
    by (simp add: cap_command_def normalize_endpoint_def normalize_capability_def)
  then show "has_command (map (normalize_endpoint (parameterIndex t)) es) E C i \<longleftrightarrow> has_command es E C i"
    by (simp add: has_command_def)
qed

text \<open>A mapped snapshot, and where its tree comes from.\<close>

lemma mapSnapshot_tree:
  assumes "mapSnapshot lower (Some m) u item n = (Inr d, n')"
  obtains projected byTarget es where "collected_ok (offered lower m item) (projected, byTarget)"
    and "es = preserveIdentityCommands item (fold place_candidate projected [])"
    and "dev_Endpoints d = map (normalize_endpoint (parameterIndex (dev_Type item))) es"
    and "dev_ID d = dev_ID item"
proof -
  obtain projected byTarget n1 where c: "collect lower m item n = (Inr (projected, byTarget), n1)"
    using assms by (auto simp: mapSnapshot_def split: prod.splits sum.splits)
  let ?es = "preserveIdentityCommands item (fold place_candidate projected [])"
  obtain r where r: "normalizeModelParameters (item\<lparr>dev_Endpoints := ?es\<rparr>) = (r, None)"
    "d = applyDeviceName u (applyDeviceLocation lower u r)"
    using assms c by (auto simp: mapSnapshot_def Let_def split: prod.splits option.splits)
  have shown: "same_but_shown d r" unfolding r(2) using name_only_shown location_only_shown unfolding same_but_shown_def by metis
  have "dev_Endpoints r = map (normalize_endpoint (parameterIndex (dev_Type item))) ?es" "dev_ID r = dev_ID item"
    using r(1) by (auto simp: normalizeModelParameters_def Let_def)
  with shown have "dev_Endpoints d = map (normalize_endpoint (parameterIndex (dev_Type item))) ?es" "dev_ID d = dev_ID item"
    by (simp_all add: same_but_shown_def)
  from that [OF collect_ok [OF c] refl this] show ?thesis .
qed

lemma placed_tree:
  assumes "collected_ok cs (projected, byTarget)"
  defines "es \<equiv> fold place_candidate projected []"
  shows "tree_ok es"
    and "mset (tree_properties es) =
      image_mset (\<lambda>c. (path_EndpointID (cn_Path c), path_CapabilityID (cn_Path c), cn_Property c)) (mset_set (winners cs))"
    and "has_capability es E C \<longleftrightarrow> (\<exists>c\<in>winners cs. path_EndpointID (cn_Path c) = E \<and> path_CapabilityID (cn_Path c) = C)"
    and "\<not> has_command es E C i"
proof -
  have w: "set projected = winners cs" "distinct (map cn_key projected)" using assms by (simp_all add: collected_ok_def)
  then have "mset projected = mset_set (winners cs)" by (metis distinct_map mset_set_set)
  then show "mset (tree_properties es) =
      image_mset (\<lambda>c. (path_EndpointID (cn_Path c), path_CapabilityID (cn_Path c), cn_Property c)) (mset_set (winners cs))"
    using place_all_properties [of projected "[]"] by (simp add: es_def)
  show "tree_ok es" "\<not> has_command es E C i"
    "has_capability es E C \<longleftrightarrow> (\<exists>c\<in>winners cs. path_EndpointID (cn_Path c) = E \<and> path_CapabilityID (cn_Path c) = C)"
    using place_all_tree [of "[]" projected E C i] w(1) by (simp_all add: es_def)
qed

text \<open>C15. The mapped device holds exactly the winning projections, each once on its target path and with the contract's
  level: an explicit projection always wins its path, an automatic one exactly when no explicit one is offered for that
  path, and no two of them share a path.\<close>

theorem mapped_snapshot_exact:
  assumes "mapSnapshot lower (Some m) u item n = (Inr d, n')"
  shows "mset (snapshot_properties d) =
      image_mset (\<lambda>c. (path_EndpointID (cn_Path c), path_CapabilityID (cn_Path c),
        normalize_property (parameterIndex (dev_Type item)) (path_EndpointID (cn_Path c)) (path_CapabilityID (cn_Path c)) (cn_Property c)))
      (mset_set (winners (offered lower m item)))
    \<and> inj_on cn_key (winners (offered lower m item)) \<and> dev_ID d = dev_ID item"
proof -
  obtain projected byTarget es where ok: "collected_ok (offered lower m item) (projected, byTarget)"
    and es: "es = preserveIdentityCommands item (fold place_candidate projected [])"
    and d: "dev_Endpoints d = map (normalize_endpoint (parameterIndex (dev_Type item))) es" "dev_ID d = dev_ID item"
    using mapSnapshot_tree [OF assms] .
  note placed = placed_tree [OF ok]
  have "mset (tree_properties es) =
      image_mset (\<lambda>c. (path_EndpointID (cn_Path c), path_CapabilityID (cn_Path c), cn_Property c)) (mset_set (winners (offered lower m item)))"
    unfolding es preserve_facts(2) [OF placed(1)] by (rule placed(2))
  moreover have "inj_on cn_key (winners (offered lower m item))" using ok by (auto simp: collected_ok_def distinct_map)
  ultimately show ?thesis
    by (simp add: snapshot_tree d normalize_tree(1) multiset.map_comp o_def)
qed

text \<open>C16. Commands survive the mapping exactly where their own capability does: the mapped device offers a command under an
  endpoint and capability if and only if the provider declared it there and some winning projection was placed there.\<close>

theorem commands_survive:
  assumes "mapSnapshot lower (Some m) u item n = (Inr d, n')"
  shows "find_command d E C i \<noteq> None \<longleftrightarrow> find_command item E C i \<noteq> None \<and>
    (\<exists>c\<in>winners (offered lower m item). path_EndpointID (cn_Path c) = E \<and> path_CapabilityID (cn_Path c) = C)"
proof -
  obtain projected byTarget es where ok: "collected_ok (offered lower m item) (projected, byTarget)"
    and es: "es = preserveIdentityCommands item (fold place_candidate projected [])"
    and d: "dev_Endpoints d = map (normalize_endpoint (parameterIndex (dev_Type item))) es"
    using mapSnapshot_tree [OF assms] .
  note placed = placed_tree [OF ok]
  show ?thesis unfolding find_command_has d normalize_tree(2) es preserve_facts(3) [OF placed(1)] using placed(3,4) by blast
qed

section \<open>The projection in the service\<close>

lemma by_id_put:
  assumes "\<And>k x. gm_get m k = Some x \<Longrightarrow> dev_ID x = k" and "gm_get (fold (\<lambda>item m. gm_put (dev_ID item) item m) xs m) k = Some x"
  shows "dev_ID x = k"
  using assms
proof (induction xs arbitrary: m)
  case (Cons y ys)
  have put: "dev_ID x' = k'" if "gm_get (gm_put (dev_ID y) y m) k' = Some x'" for k' x'
  proof (cases "k' = dev_ID y")
    case True
    with that show ?thesis by (simp add: gm_get_put)
  next
    case False
    with that have "gm_get m k' = Some x'" by (simp add: gm_get_put)
    then show ?thesis by (rule Cons.prems(1))
  qed
  show ?case using Cons.IH [OF put] Cons.prems(2) by simp
qed simp

lemma sourceSnapshots_ids: "map dev_ID (sourceSnapshots mapper catalog items) = map dev_ID items"
proof (cases mapper; cases catalog)
  fix m xs assume a: "mapper = Some m" "catalog = Some xs"
  show ?thesis
  proof (cases xs)
    case Nil
    then show ?thesis by (simp add: a sourceSnapshots_def)
  next
    case (Cons y ys)
    let ?m = "fold (\<lambda>item m. gm_put (dev_ID item) item m) (y # ys) []"
    have "dev_ID (case gm_get ?m (dev_ID d) of Some source \<Rightarrow> source | None \<Rightarrow> d) = dev_ID d" for d
    proof (cases "gm_get ?m (dev_ID d)")
      case (Some x)
      then show ?thesis using by_id_put [of "[]" "y # ys" "dev_ID d" x] by simp
    qed simp
    then show ?thesis by (simp add: a Cons sourceSnapshots_def Let_def o_def del: fold_simps)
  qed
qed (simp_all add: sourceSnapshots_def)

lemma mapSnapshot_id: "mapSnapshot lower mapper u item n = (Inr d, n') \<Longrightarrow> dev_ID d = dev_ID item"
proof (cases mapper)
  case None
  assume "mapSnapshot lower mapper u item n = (Inr d, n')"
  then show ?thesis by (auto simp: mapSnapshot_def None)
next
  case (Some m)
  assume "mapSnapshot lower mapper u item n = (Inr d, n')"
  then show ?thesis unfolding Some by (rule mapSnapshot_tree)
qed

text \<open>The projection the service hands to its own operations: the error is a text.\<close>

definition projection_of ::
  "(mapping_error \<Rightarrow> string) \<Rightarrow> (string \<Rightarrow> string) \<Rightarrow> property_mapper option \<Rightarrow> device list option \<Rightarrow> preferences \<Rightarrow> mapping_counts \<Rightarrow>
     device \<Rightarrow> string + device" where
  "projection_of error_text lower mapper catalog u n item = map_sum error_text id (fst (projectLatestSnapshot lower mapper catalog u item n))"

lemma projection_of_ok: "project_ok (projection_of error_text lower mapper catalog u n)"
proof -
  have "dev_ID d = dev_ID item" if "fst (projectLatestSnapshot lower mapper catalog u item n) = Inr d" for item d
  proof -
    obtain x where x: "sourceSnapshots mapper catalog [item] = [x]" "dev_ID x = dev_ID item"
      using sourceSnapshots_ids [of mapper catalog "[item]"] by auto
    have "fst (mapSnapshot lower mapper u x n) = Inr d" using that by (simp add: projectLatestSnapshot_def x)
    then obtain n' where "mapSnapshot lower mapper u x n = (Inr d, n')" by (metis prod.collapse)
    from mapSnapshot_id [OF this] x(2) show ?thesis by simp
  qed
  then show ?thesis by (auto simp: project_ok_def projection_of_def map_sum_def split: sum.splits)
qed

text \<open>Enabling or disabling a device through the real projection, whatever the mapper, the catalog and the preferences
  answer, keeps the service consistent.\<close>

theorem reenabling_through_mapping:
  assumes "service_ok s"
  shows "service_ok (snd (setDeviceEnabled (projection_of error_text lower mapper catalog u n) saved discovered now i enabled s))"
  using setDeviceEnabled_ok [OF assms projection_of_ok] .


section \<open>Enums keep their meaning\<close>

lemma unique_option_seen:
  "match \<noteq> [] \<Longrightarrow> unique_option token canonical options match = Some m \<Longrightarrow>
     m = match \<and> filter (\<lambda>x. x \<noteq> [] \<and> token x = canonical) options = []"
  by (induction options) (auto split: if_splits)

lemma unique_option_once:
  "unique_option token canonical options [] = Some m \<Longrightarrow> m \<noteq> [] \<Longrightarrow> filter (\<lambda>x. x \<noteq> [] \<and> token x = canonical) options = [m]"
proof (induction options)
  case (Cons x xs)
  show ?case
  proof (cases "token x = canonical \<and> x \<noteq> []")
    case True
    with Cons.prems unique_option_seen [of x token canonical xs m] show ?thesis by simp
  next
    case False
    then have "unique_option token canonical xs [] = Some m" using Cons.prems(1) by (cases "token x = canonical") auto
    with Cons.IH [OF this Cons.prems(2)] False show ?thesis by auto
  qed
qed simp

lemma alignEnumValue_cases:
  obtains (same) "alignEnumValue lower v options = v"
  | (aligned) s m where "pv_String v = Some s" "alignEnumValue lower v options = EnumValue m" "m \<noteq> []"
      "filter (\<lambda>x. x \<noteq> [] \<and> canonicalEnumToken lower x = canonicalEnumToken lower s) options = [m]"
proof (cases "pv_String v")
  case None
  then show ?thesis using same by (simp add: alignEnumValue_def)
next
  case (Some s)
  let ?u = "unique_option (canonicalEnumToken lower) (canonicalEnumToken lower s) options []"
  show ?thesis
  proof (cases "pv_Type v \<noteq> ValueTypeEnum \<or> options = [] \<or> s \<in> set options \<or> ?u = None \<or> ?u = Some []")
    case True
    then have "alignEnumValue lower v options = v" by (auto simp: alignEnumValue_def Some)
    then show ?thesis by (rule same)
  next
    case False
    then obtain m where m: "?u = Some m" "m \<noteq> []" by (cases ?u) auto
    moreover have "alignEnumValue lower v options = EnumValue m" using False m by (simp add: alignEnumValue_def Some)
    ultimately show ?thesis using aligned [OF Some] unique_option_once [OF m] by blast
  qed
qed

text \<open>Aligning the spelling of an enum never invents a value: the result is the value itself or the only non-empty option
  that reads the same up to case, blanks, underscores and hyphens, and aligning a second time changes nothing.\<close>

theorem enum_alignment:
  "alignEnumValue lower (alignEnumValue lower v options) options = alignEnumValue lower v options \<and>
   (alignEnumValue lower v options = v \<or>
    (\<exists>s m. pv_String v = Some s \<and> alignEnumValue lower v options = EnumValue m \<and>
       filter (\<lambda>x. x \<noteq> [] \<and> canonicalEnumToken lower x = canonicalEnumToken lower s) options = [m]))"
proof (cases rule: alignEnumValue_cases [of lower v options])
  case (aligned s m)
  have "m \<in> set options" using aligned(4) by (metis filter_is_subset insertI1 list.simps(15) subset_code(1))
  then have "alignEnumValue lower (EnumValue m) options = EnumValue m" by (simp add: alignEnumValue_def EnumValue_def)
  then show ?thesis using aligned by simp
qed simp

section \<open>Witnesses\<close>

text \<open>A switch with a command, and a mapper that offers its property twice on the same path, once explicitly with
  another value.\<close>

definition command_switch :: "parameter_level \<Rightarrow> property_value \<Rightarrow> device" where
  "command_switch level v = sample_device\<lparr>dev_Type := TypeSwitch, dev_Endpoints :=
     [\<lparr>ep_ID = ''main'', ep_Name = ''Main'', ep_Type = ''switch'', ep_Capabilities =
        [\<lparr>cap_ID = ''switch'', cap_Type = ''switch'', cap_Properties = [(switch_power level)\<lparr>prop_Value := v\<rparr>],
          cap_Commands = [\<lparr>cd_ID = ''identify'', cd_Name = ''Identify'', cd_Idempotent = True, cd_Parameters = []\<rparr>], cap_Events = []\<rparr>]\<rparr>]\<rparr>"

definition twice_mapper :: property_mapper where
  "twice_mapper = \<lparr>pm_TransformProperty = \<lambda>_ _ _ v _. Inr (v, [], False), pm_TransformDefinition = \<lambda>_ _ _ d. Inr (d, [], False),
     pm_ResolvePropertyPath = None,
     pm_ProjectProperty = Some (\<lambda>_ _ path d v. Inr
       [\<lparr>pr_Path = path, pr_Definition = d, pr_Value = v, pr_BindingID = [], pr_Explicit = False\<rparr>,
        \<lparr>pr_Path = path, pr_Definition = d, pr_Value = BoolValue False, pr_BindingID = ''b'', pr_Explicit = True\<rparr>]),
     pm_ProjectMissing = None, pm_ResolveModelDefinition = None\<rparr>"

lemma command_switch_normalized:
  "normalizeModelParameters (command_switch (ParameterLevelOther []) (BoolValue False)) = (command_switch ParameterRequired (BoolValue False), None)"
proof -
  have "fst (normalizeModelParameters (command_switch (ParameterLevelOther []) (BoolValue False))) = command_switch ParameterRequired (BoolValue False)"
    by (simp add: normalizeModelParameters_def Let_def command_switch_def switch_index normalize_endpoint_def
        normalize_capability_def normalize_property_def index_get_def switch_power_def)
      (simp add: required_def)
  moreover have "validateStructure (command_switch ParameterRequired (BoolValue False)) = None" by code_simp
  moreover have "validatePublisherModel (command_switch ParameterRequired (BoolValue False)) = None"
    unfolding validatePublisherModel_def
    by (simp add: command_switch_def switch_index device_entries_def capability_entries_def switch_power_def)
      (simp add: required_def optional_def)
  ultimately show ?thesis
    by (simp add: normalizeModelParameters_def Let_def device_validate_def)
qed

lemma path_key_path [simp]: "path_EndpointID (model_path a b c) = a" "path_CapabilityID (model_path a b c) = b"
  "path_PropertyID (model_path a b c) = c"
  by (simp_all add: model_path_def)

lemma twice_collect:
  "fst (collect id twice_mapper (command_switch (ParameterLevelOther []) (BoolValue True)) no_counts) =
     Inr ([\<lparr>cn_Path = model_path ''main'' ''switch'' ''power'', cn_Property = (switch_power (ParameterLevelOther []))\<lparr>prop_Value := BoolValue False\<rparr>,
       cn_EndpointName = ''Main'', cn_EndpointType = ''switch'', cn_CapabilityType = ''switch'', cn_Explicit = True\<rparr>],
       [(path_key (model_path ''main'' ''switch'' ''power''), 0)])"
  by (simp add: collect_def source_entries_def command_switch_def switch_power_def twice_mapper_def providerPropertyProjections_def
      addProjection_def candidate_of_def add_candidate_def alignEnumValue_def BoolValue_def Let_def gm_get_put)
lemma twice_mapped:
  "fst (mapSnapshot id (Some twice_mapper) \<lparr>up_names = [], up_locations = [], up_homes = []\<rparr>
     (command_switch (ParameterLevelOther []) (BoolValue True)) no_counts) =
   Inr (applyDeviceName \<lparr>up_names = [], up_locations = [], up_homes = []\<rparr>
     (applyDeviceLocation id \<lparr>up_names = [], up_locations = [], up_homes = []\<rparr> (command_switch ParameterRequired (BoolValue False))))"
proof -
  let ?item = "command_switch (ParameterLevelOther []) (BoolValue True)"
  let ?c = "\<lparr>cn_Path = model_path ''main'' ''switch'' ''power'', cn_Property = (switch_power (ParameterLevelOther []))\<lparr>prop_Value := BoolValue False\<rparr>,
       cn_EndpointName = ''Main'', cn_EndpointType = ''switch'', cn_CapabilityType = ''switch'', cn_Explicit = True\<rparr>"
  obtain n1 where c: "collect id twice_mapper ?item no_counts = (Inr ([?c], [(path_key (model_path ''main'' ''switch'' ''power''), 0)]), n1)"
    using twice_collect by (metis prod.collapse)
  have "?item\<lparr>dev_Endpoints := preserveIdentityCommands ?item (fold place_candidate [?c] [])\<rparr> = command_switch (ParameterLevelOther []) (BoolValue False)"
    by (rule device.equality)
      (simp_all add: command_switch_def preserveIdentityCommands_def preserve_capability_def place_candidate_def ensureCapability_def
        new_capability_def add_property_def add_commands_def Let_def)
  with command_switch_normalized show ?thesis by (simp add: mapSnapshot_def c)
qed

theorem mapped_snapshot_exact_witness:
  "\<exists>d. fst (mapSnapshot id (Some twice_mapper) \<lparr>up_names = [], up_locations = [], up_homes = []\<rparr>
     (command_switch (ParameterLevelOther []) (BoolValue True)) no_counts) = Inr d \<and> length (snapshot_properties d) = card (winners (offered id twice_mapper
     (command_switch (ParameterLevelOther []) (BoolValue True)))) \<and> dev_ID d = ''lamp''"
proof -
  let ?item = "command_switch (ParameterLevelOther []) (BoolValue True)"
  let ?u = "\<lparr>up_names = [], up_locations = [], up_homes = []\<rparr>"
  obtain d n' where m: "mapSnapshot id (Some twice_mapper) ?u ?item no_counts = (Inr d, n')"
    using twice_mapped by (metis prod.collapse)
  note x = mapped_snapshot_exact [OF m]
  have "size (mset (snapshot_properties d)) = card (winners (offered id twice_mapper ?item))"
    unfolding conjunct1 [OF x] by simp
  moreover have "dev_ID ?item = ''lamp''" by (simp add: command_switch_def sample_device_def)
  moreover have "dev_ID d = dev_ID ?item" using x by blast
  ultimately show ?thesis using m by (simp add: size_mset)
qed

theorem commands_survive_witness:
  "\<exists>d. fst (mapSnapshot id (Some twice_mapper) \<lparr>up_names = [], up_locations = [], up_homes = []\<rparr>
     (command_switch (ParameterLevelOther []) (BoolValue True)) no_counts) = Inr d \<and> find_command d ''main'' ''switch'' ''identify'' \<noteq> None"
proof -
  let ?item = "command_switch (ParameterLevelOther []) (BoolValue True)"
  let ?u = "\<lparr>up_names = [], up_locations = [], up_homes = []\<rparr>"
  obtain d n' where m: "mapSnapshot id (Some twice_mapper) ?u ?item no_counts = (Inr d, n')"
    using twice_mapped by (metis prod.collapse)
  obtain col n1 where col: "collect id twice_mapper ?item no_counts = (Inr col, n1)" "fst col \<noteq> []"
    "path_EndpointID (cn_Path (hd (fst col))) = ''main''" "path_CapabilityID (cn_Path (hd (fst col))) = ''switch''"
    using twice_collect by (cases "collect id twice_mapper ?item no_counts") simp
  have "hd (fst col) \<in> winners (offered id twice_mapper ?item)"
    using collect_ok [OF col(1)] hd_in_set [OF col(2)] by (simp add: collected_ok_def)
  moreover have "find_command ?item ''main'' ''switch'' ''identify'' \<noteq> None"
    by (simp add: command_switch_def find_command_def)
  ultimately have "find_command d ''main'' ''switch'' ''identify'' \<noteq> None"
    using commands_survive [OF m, of "''main''" "''switch''" "''identify''"] col(3,4) by blast
  then show ?thesis using m by simp
qed

theorem reenabling_through_mapping_witness:
  "service_ok (snd (setDeviceEnabled (projection_of (\<lambda>_. []) id (Some twice_mapper) None \<lparr>up_names = [], up_locations = [], up_homes = []\<rparr> no_counts)
     (Some True) (Some [named_lamp]) 5 ''lamp'' False (ps_service lamp_home)))"
  by (rule reenabling_through_mapping [OF lamp_home_facts(2)])

end
