(* ===== verification/Logical_Device.thy ===== *)
theory Logical_Device
  imports Snapshot_Mapping "HOL-Library.Product_Lexorder"
begin

text \<open>
  Logical devices, \<open>internal/domain/logicaldevice/logical_device.go\<close> and the pure part of
  \<open>internal/runtime/providermanager/logical.go\<close>: a configuration binds several provider devices to
  one device, its validation, the choice among the candidates of a route, and the snapshot that is
  composed from the sources.

  The source has a property and a command variant of paths, candidates and routes that agree field
  by field and line by line; one record models both, and the functions of the two variants are
  instances of a common one. Maps that are only filled, looked up and sorted are ranged over in the
  order of the association list.
\<close>

declare map_of_eq_Some_iff [simp del] Some_eq_map_of_iff [simp del]

section \<open>Configuration\<close>

definition LogicalProviderID :: string where
  "LogicalProviderID = ''logical''"

record source_ref =
  src_ProviderID :: string
  src_DeviceID :: string

definition source_key :: "source_ref \<Rightarrow> string" where
  "source_key r = src_ProviderID r @ NUL # src_DeviceID r"

record logical_binding =
  lb_Source :: source_ref
  lb_Priority :: int

record route_path =
  rp_EndpointID :: string
  rp_CapabilityID :: string
  rp_ItemID :: string

definition route_key :: "route_path \<Rightarrow> string" where
  "route_key p = rp_EndpointID p @ NUL # rp_CapabilityID p @ NUL # rp_ItemID p"

record route_candidate =
  rc_Source :: source_ref
  rc_Path :: route_path
  rc_Priority :: int
  rc_AllowFallback :: bool

record logical_route =
  ro_Path :: route_path
  ro_Candidates :: "route_candidate list"

record logical_config =
  lg_ID :: string
  lg_Name :: string
  lg_Type :: string
  lg_Bindings :: "logical_binding list"
  lg_PropertyRoutes :: "logical_route list"
  lg_CommandRoutes :: "logical_route list"

text \<open>The flag of an error tells the property variant from the command variant.\<close>

datatype config_error = LE_ID | LE_Name | LE_Type | LE_TooFew | LE_Source | LE_Nested | LE_BindingPriority
  | LE_DuplicateBinding string string | LE_Path bool | LE_DuplicateRoute bool string | LE_NoCandidates bool string
  | LE_Unbound bool string | LE_RoutePriority bool | LE_DuplicateCandidate bool

definition validateSource :: "source_ref \<Rightarrow> bool" where
  "validateSource r \<longleftrightarrow> ValidStableID (src_ProviderID r) \<and> ValidStableID (src_DeviceID r)"

definition valid_path :: "route_path \<Rightarrow> bool" where
  "valid_path p \<longleftrightarrow> ValidStableID (rp_EndpointID p) \<and> ValidStableID (rp_CapabilityID p) \<and> ValidStableID (rp_ItemID p)"

text \<open>The three loops of \<open>Config.Validate\<close>; \<open>seen\<close> holds the keys of the map the loop fills.\<close>

fun validate_bindings :: "string list \<Rightarrow> logical_binding list \<Rightarrow> config_error option" where
  "validate_bindings seen [] = None"
| "validate_bindings seen (b # bs) =
     (let r = lb_Source b
      in if \<not> validateSource r then Some LE_Source
         else if src_ProviderID r = LogicalProviderID then Some LE_Nested
         else if lb_Priority b < 0 \<or> lb_Priority b > 1000 then Some LE_BindingPriority
         else if source_key r \<in> set seen then Some (LE_DuplicateBinding (src_ProviderID r) (src_DeviceID r))
         else validate_bindings (source_key r # seen) bs)"

definition candidate_key :: "route_candidate \<Rightarrow> string" where
  "candidate_key c = source_key (rc_Source c) @ NUL # route_key (rc_Path c)"

fun validate_candidates :: "bool \<Rightarrow> string list \<Rightarrow> string \<Rightarrow> string list \<Rightarrow> route_candidate list \<Rightarrow> config_error option" where
  "validate_candidates variant bound route seen [] = None"
| "validate_candidates variant bound route seen (c # cs) =
     (if source_key (rc_Source c) \<notin> set bound then Some (LE_Unbound variant route)
      else if \<not> valid_path (rc_Path c) then Some (LE_Path variant)
      else if rc_Priority c < 0 \<or> rc_Priority c > 1000 then Some (LE_RoutePriority variant)
      else if candidate_key c \<in> set seen then Some (LE_DuplicateCandidate variant)
      else validate_candidates variant bound route (candidate_key c # seen) cs)"

fun validate_routes :: "bool \<Rightarrow> string list \<Rightarrow> string list \<Rightarrow> logical_route list \<Rightarrow> config_error option" where
  "validate_routes variant bound seen [] = None"
| "validate_routes variant bound seen (r # rs) =
     (let key = route_key (ro_Path r)
      in if \<not> valid_path (ro_Path r) then Some (LE_Path variant)
         else if key \<in> set seen then Some (LE_DuplicateRoute variant key)
         else if ro_Candidates r = [] then Some (LE_NoCandidates variant key)
         else case validate_candidates variant bound key [] (ro_Candidates r) of
                Some e \<Rightarrow> Some e
              | None \<Rightarrow> validate_routes variant bound (key # seen) rs)"

definition config_validate :: "logical_config \<Rightarrow> config_error option" where
  "config_validate c =
     (if \<not> ValidStableID (lg_ID c) \<or> lg_ID c = LogicalProviderID then Some LE_ID
      else if trimSpace (lg_Name c) = [] \<or> length (lg_Name c) > 160 then Some LE_Name
      else if lg_Type c = [] then Some LE_Type
      else if length (lg_Bindings c) < 2 then Some LE_TooFew
      else case validate_bindings [] (lg_Bindings c) of
             Some e \<Rightarrow> Some e
           | None \<Rightarrow>
               (let bound = map (source_key \<circ> lb_Source) (lg_Bindings c)
                in case validate_routes True bound [] (lg_PropertyRoutes c) of
                     Some e \<Rightarrow> Some e
                   | None \<Rightarrow> validate_routes False bound [] (lg_CommandRoutes c)))"

definition binding_before :: "logical_binding \<Rightarrow> logical_binding \<Rightarrow> bool" where
  "binding_before left right \<longleftrightarrow>
     (if lb_Priority left \<noteq> lb_Priority right then lb_Priority left < lb_Priority right
      else if src_ProviderID (lb_Source left) \<noteq> src_ProviderID (lb_Source right)
      then src_ProviderID (lb_Source left) < src_ProviderID (lb_Source right)
      else src_DeviceID (lb_Source left) < src_DeviceID (lb_Source right))"

definition sortBindings :: "logical_binding list \<Rightarrow> logical_binding list" where
  "sortBindings items = sort_slice binding_before items"

section \<open>Routes and candidates\<close>

definition explicit_route :: "logical_route list \<Rightarrow> route_path \<Rightarrow> logical_route option" where
  "explicit_route routes path = find (\<lambda>r. ro_Path r = path) routes"

definition explicitPropertyRoute :: "logical_config \<Rightarrow> route_path \<Rightarrow> logical_route option" where
  "explicitPropertyRoute config path = explicit_route (lg_PropertyRoutes config) path"

definition explicitCommandRoute :: "logical_config \<Rightarrow> route_path \<Rightarrow> logical_route option" where
  "explicitCommandRoute config path = explicit_route (lg_CommandRoutes config) path"

definition implicit_candidates :: "route_path \<Rightarrow> logical_binding list \<Rightarrow> route_candidate list" where
  "implicit_candidates path bindings =
     map (\<lambda>(index, b). \<lparr>rc_Source = lb_Source b, rc_Path = path, rc_Priority = lb_Priority b,
       rc_AllowFallback = Suc index < length bindings\<rparr>) (enumerate 0 bindings)"

definition route_candidates :: "logical_route option \<Rightarrow> route_path \<Rightarrow> logical_binding list \<Rightarrow> route_candidate list" where
  "route_candidates route path bindings =
     (case route of
        Some r \<Rightarrow> sort_slice (\<lambda>a b. rc_Priority a < rc_Priority b) (ro_Candidates r)
      | None \<Rightarrow> implicit_candidates path bindings)"

definition propertyCandidates :: "logical_config \<Rightarrow> route_path \<Rightarrow> logical_binding list \<Rightarrow> route_candidate list" where
  "propertyCandidates config path bindings = route_candidates (explicitPropertyRoute config path) path bindings"

definition commandCandidates :: "logical_config \<Rightarrow> route_path \<Rightarrow> logical_binding list \<Rightarrow> route_candidate list" where
  "commandCandidates config path bindings = route_candidates (explicitCommandRoute config path) path bindings"

text \<open>The nested loops of \<open>sourceProperty\<close> and \<open>sourceCommand\<close> return the first match.\<close>

definition matching_capabilities :: "device \<Rightarrow> route_path \<Rightarrow> (endpoint \<times> capability) list" where
  "matching_capabilities item path =
     concat (map (\<lambda>e. map (Pair e) (filter (\<lambda>c. cap_ID c = rp_CapabilityID path) (ep_Capabilities e)))
       (filter (\<lambda>e. ep_ID e = rp_EndpointID path) (dev_Endpoints item)))"

definition sourceProperty :: "device \<Rightarrow> route_path \<Rightarrow> (property \<times> endpoint \<times> capability) option" where
  "sourceProperty item path =
     find (\<lambda>(p, e, c). pd_ID (prop_Definition p) = rp_ItemID path)
       (concat (map (\<lambda>(e, c). map (\<lambda>p. (p, e, c)) (cap_Properties c)) (matching_capabilities item path)))"

definition sourceCommand :: "device \<Rightarrow> route_path \<Rightarrow> command_definition option" where
  "sourceCommand item path =
     find (\<lambda>k. cd_ID k = rp_ItemID path) (concat (map (\<lambda>(e, c). cap_Commands c) (matching_capabilities item path)))"

record 'a choice =
  ch_candidate :: route_candidate
  ch_item :: 'a
  ch_available :: bool

definition choices :: "(device \<Rightarrow> route_path \<Rightarrow> 'a option) \<Rightarrow> (string, device) gomap \<Rightarrow> route_candidate list \<Rightarrow> 'a choice list" where
  "choices look sources candidates =
     List.map_filter (\<lambda>c. case gm_get sources (source_key (rc_Source c)) of
         None \<Rightarrow> None
       | Some source \<Rightarrow> map_option (\<lambda>x. \<lparr>ch_candidate = c, ch_item = x, ch_available = isOnline source\<rparr>) (look source (rc_Path c)))
       candidates"

definition propertyChoices ::
  "logical_config \<Rightarrow> route_path \<Rightarrow> (string, device) gomap \<Rightarrow> logical_binding list \<Rightarrow> (property \<times> endpoint \<times> capability) choice list" where
  "propertyChoices config path sources bindings = choices sourceProperty sources (propertyCandidates config path bindings)"

definition commandChoices ::
  "logical_config \<Rightarrow> route_path \<Rightarrow> (string, device) gomap \<Rightarrow> logical_binding list \<Rightarrow> command_definition choice list" where
  "commandChoices config path sources bindings = choices sourceCommand sources (commandCandidates config path bindings)"

definition select_choice :: "'a choice list \<Rightarrow> 'a choice option" where
  "select_choice items =
     (case find ch_available items of
        Some item \<Rightarrow> Some item
      | None \<Rightarrow> (case items of [] \<Rightarrow> None | item # _ \<Rightarrow> Some item))"

section \<open>The paths of a logical device\<close>

definition property_paths :: "device \<Rightarrow> route_path list" where
  "property_paths item =
     concat (map (\<lambda>e. concat (map (\<lambda>c. map (\<lambda>p. \<lparr>rp_EndpointID = ep_ID e, rp_CapabilityID = cap_ID c, rp_ItemID = pd_ID (prop_Definition p)\<rparr>)
       (cap_Properties c)) (ep_Capabilities e))) (dev_Endpoints item))"

definition command_paths :: "device \<Rightarrow> route_path list" where
  "command_paths item =
     concat (map (\<lambda>e. concat (map (\<lambda>c. map (\<lambda>k. \<lparr>rp_EndpointID = ep_ID e, rp_CapabilityID = cap_ID c, rp_ItemID = cd_ID k\<rparr>)
       (cap_Commands c)) (ep_Capabilities e))) (dev_Endpoints item))"

definition sorted_paths :: "(string, route_path) gomap \<Rightarrow> route_path list" where
  "sorted_paths items = sort_slice (\<lambda>a b. route_key a < route_key b) (map snd items)"

definition logical_paths :: "logical_route list \<Rightarrow> route_path list \<Rightarrow> route_path list" where
  "logical_paths routes paths =
     (let known = fold (\<lambda>r. gm_put (route_key (ro_Path r)) (ro_Path r)) routes [];
          known = fold (\<lambda>p m. if explicit_route routes p = None then gm_put (route_key p) p m else m) paths known
      in sorted_paths known)"

definition logicalPropertyPaths :: "logical_config \<Rightarrow> (string, device) gomap \<Rightarrow> route_path list" where
  "logicalPropertyPaths config sources = logical_paths (lg_PropertyRoutes config) (concat (map (property_paths \<circ> snd) sources))"

definition logicalCommandPaths :: "logical_config \<Rightarrow> (string, device) gomap \<Rightarrow> route_path list" where
  "logicalCommandPaths config sources = logical_paths (lg_CommandRoutes config) (concat (map (command_paths \<circ> snd) sources))"

section \<open>Building the device\<close>

text \<open>\<open>logicalEndpoint\<close> and \<open>logicalCapability\<close> return pointers into the device; the change at that place is an argument.\<close>

definition logicalEndpoint :: "string \<Rightarrow> string \<Rightarrow> string \<Rightarrow> (endpoint \<Rightarrow> endpoint) \<Rightarrow> endpoint list \<Rightarrow> endpoint list" where
  "logicalEndpoint i name kind f es =
     (case change_first (\<lambda>e. ep_ID e = i) f es of
        Some es \<Rightarrow> es
      | None \<Rightarrow> es @ [f \<lparr>ep_ID = i, ep_Name = name, ep_Type = kind, ep_Capabilities = []\<rparr>])"

definition logicalCapability :: "string \<Rightarrow> string \<Rightarrow> (capability \<Rightarrow> capability) \<Rightarrow> endpoint \<Rightarrow> endpoint" where
  "logicalCapability i kind f e =
     e\<lparr>ep_Capabilities := (case change_first (\<lambda>c. cap_ID c = i) f (ep_Capabilities e) of
         Some cs \<Rightarrow> cs
       | None \<Rightarrow> ep_Capabilities e @ [f (new_capability i kind)])\<rparr>"

definition add_new_property :: "property \<Rightarrow> capability \<Rightarrow> capability" where
  "add_new_property p c =
     (if pd_ID (prop_Definition p) \<in> set (map (pd_ID \<circ> prop_Definition) (cap_Properties c)) then c
      else c\<lparr>cap_Properties := cap_Properties c @ [p]\<rparr>)"

definition add_new_command :: "command_definition \<Rightarrow> capability \<Rightarrow> capability" where
  "add_new_command k c =
     (if cd_ID k \<in> set (map cd_ID (cap_Commands c)) then c else c\<lparr>cap_Commands := cap_Commands c @ [k]\<rparr>)"

definition addLogicalProperty :: "route_path \<Rightarrow> endpoint \<Rightarrow> capability \<Rightarrow> property \<Rightarrow> endpoint list \<Rightarrow> endpoint list" where
  "addLogicalProperty path sourceEndpoint sourceCapability p es =
     logicalEndpoint (rp_EndpointID path) (ep_Name sourceEndpoint) (ep_Type sourceEndpoint)
       (logicalCapability (rp_CapabilityID path) (cap_Type sourceCapability) (add_new_property p)) es"

definition addLogicalCommand :: "route_path \<Rightarrow> command_definition \<Rightarrow> endpoint list \<Rightarrow> endpoint list" where
  "addLogicalCommand path k es =
     logicalEndpoint (rp_EndpointID path) (rp_EndpointID path) (rp_EndpointID path)
       (logicalCapability (rp_CapabilityID path) (rp_CapabilityID path) (add_new_command k)) es"

section \<open>Explanations\<close>

record candidate_selection =
  se_Source :: source_ref
  se_Path :: string
  se_Priority :: int
  se_Available :: bool
  se_Selected :: bool

record route_explanation =
  ex_LogicalDeviceID :: string
  ex_Kind :: string
  ex_Path :: string
  ex_Reason :: string
  ex_Selected :: candidate_selection
  ex_Candidates :: "candidate_selection list"

definition selection_of :: "'a choice \<Rightarrow> 'a choice \<Rightarrow> candidate_selection" where
  "selection_of selected x =
     \<lparr>se_Source = rc_Source (ch_candidate x), se_Path = route_key (rc_Path (ch_candidate x)), se_Priority = rc_Priority (ch_candidate x),
      se_Available = ch_available x,
      se_Selected = (rc_Source (ch_candidate x) = rc_Source (ch_candidate selected) \<and> rc_Path (ch_candidate x) = rc_Path (ch_candidate selected))\<rparr>"

definition indexSelection :: "candidate_selection list \<Rightarrow> nat" where
  "indexSelection items = (case find (\<lambda>i. se_Selected (items ! i)) [0..<length items] of Some i \<Rightarrow> i | None \<Rightarrow> 0)"

definition explain :: "string \<Rightarrow> string \<Rightarrow> route_path \<Rightarrow> 'a choice list \<Rightarrow> 'a choice \<Rightarrow> route_explanation" where
  "explain kind i path items selected =
     (let candidates = map (selection_of selected) items;
          reason = (if \<not> ch_available selected then ''all_sources_unavailable''
            else if rc_Source (ch_candidate (items ! 0)) \<noteq> rc_Source (ch_candidate selected) then ''safe_fallback_provider_unavailable''
            else ''provider_priority'')
      in \<lparr>ex_LogicalDeviceID = i, ex_Kind = kind, ex_Path = route_key path, ex_Reason = reason,
          ex_Selected = candidates ! indexSelection candidates, ex_Candidates = candidates\<rparr>)"

definition explainProperty :: "string \<Rightarrow> route_path \<Rightarrow> (property \<times> endpoint \<times> capability) choice list \<Rightarrow> (property \<times> endpoint \<times> capability) choice \<Rightarrow> route_explanation" where
  "explainProperty = explain ''property''"

definition explainCommand :: "string \<Rightarrow> route_path \<Rightarrow> command_definition choice list \<Rightarrow> command_definition choice \<Rightarrow> route_explanation" where
  "explainCommand = explain ''command''"

definition explanation_before :: "route_explanation \<Rightarrow> route_explanation \<Rightarrow> bool" where
  "explanation_before a b \<longleftrightarrow> (if ex_Kind a \<noteq> ex_Kind b then ex_Kind a < ex_Kind b else ex_Path a < ex_Path b)"

section \<open>The composed snapshot\<close>

record composition =
  co_present :: "(string, device) gomap"
  co_online :: nat
  co_unknown :: nat
  co_lastUpdate :: time
  co_location :: "device option"

definition compose_binding :: "logical_config \<Rightarrow> (string, device) gomap \<Rightarrow> logical_binding \<Rightarrow> composition \<Rightarrow> composition" where
  "compose_binding config sources b co =
     (case gm_get sources (source_key (lb_Source b)) of
        None \<Rightarrow> co\<lparr>co_unknown := co_unknown co + 1\<rparr>
      | Some item \<Rightarrow>
          if dev_Type item \<noteq> lg_Type config then co\<lparr>co_unknown := co_unknown co + 1\<rparr>
          else \<lparr>co_present = gm_put (source_key (lb_Source b)) item (co_present co),
             co_online = (if effectiveAvailability item = AvailabilityOnline then co_online co + 1 else co_online co),
             co_unknown = (if effectiveAvailability item = AvailabilityUnknown then co_unknown co + 1 else co_unknown co),
             co_lastUpdate = (if co_lastUpdate co < dev_LastUpdateAt item then dev_LastUpdateAt item else co_lastUpdate co),
             co_location = (case co_location co of
                None \<Rightarrow> Some item
              | Some location \<Rightarrow> if dev_ID location = [] then Some item else Some location)\<rparr>)"

definition compose_bindings :: "logical_config \<Rightarrow> (string, device) gomap \<Rightarrow> composition" where
  "compose_bindings config sources =
     fold (compose_binding config sources) (sortBindings (lg_Bindings config))
       \<lparr>co_present = [], co_online = 0, co_unknown = 0, co_lastUpdate = zero_time, co_location = None\<rparr>"

definition logical_header :: "time \<Rightarrow> logical_config \<Rightarrow> composition \<Rightarrow> device \<Rightarrow> device" where
  "logical_header now config co location =
     (let availability = (if co_online co > 0 then AvailabilityOnline else if co_unknown co > 0 then AvailabilityUnknown else AvailabilityOffline)
      in \<lparr>dev_SchemaVersion = SchemaVersion, dev_ID = lg_ID config, dev_ProviderID = LogicalProviderID, dev_Name = lg_Name config,
          dev_SourceName = [], dev_NameOverridden = False, dev_Type = lg_Type config, dev_HomeID = dev_HomeID location,
          dev_HomeName = dev_HomeName location, dev_RoomID = dev_RoomID location, dev_RoomName = dev_RoomName location,
          dev_LocationMode = dev_LocationMode location, dev_SourceHomeID = dev_SourceHomeID location,
          dev_SourceHomeName = dev_SourceHomeName location, dev_SourceRoomID = dev_SourceRoomID location,
          dev_SourceRoomName = dev_SourceRoomName location, dev_Availability = availability,
          dev_Online = (availability = AvailabilityOnline), dev_Sequence = 0, dev_Disabled = False, dev_Removed = False,
          dev_RuntimeMode = RuntimeModeOther [], dev_StateTransport = StateTransportOther [], dev_MappingError = [],
          dev_Endpoints = [], dev_LastUpdateAt = (if co_lastUpdate co = zero_time then now else co_lastUpdate co)\<rparr>)"

definition place_property ::
  "logical_config \<Rightarrow> (string, device) gomap \<Rightarrow> logical_binding list \<Rightarrow> route_path \<Rightarrow> endpoint list \<times> route_explanation list \<Rightarrow>
     endpoint list \<times> route_explanation list" where
  "place_property config present bindings path st =
     (let items = propertyChoices config path present bindings
      in case select_choice items of
           None \<Rightarrow> st
         | Some selected \<Rightarrow>
             (let (p, e, c) = ch_item selected; p = p\<lparr>prop_Definition := (prop_Definition p)\<lparr>pd_ID := rp_ItemID path\<rparr>\<rparr>
              in (addLogicalProperty path e c p (fst st),
                  if length items > 1 then snd st @ [explainProperty (lg_ID config) path items selected] else snd st)))"

definition place_command ::
  "logical_config \<Rightarrow> (string, device) gomap \<Rightarrow> logical_binding list \<Rightarrow> route_path \<Rightarrow> endpoint list \<times> route_explanation list \<Rightarrow>
     endpoint list \<times> route_explanation list" where
  "place_command config present bindings path st =
     (let items = commandChoices config path present bindings
      in case select_choice items of
           None \<Rightarrow> st
         | Some selected \<Rightarrow>
             (addLogicalCommand path ((ch_item selected)\<lparr>cd_ID := rp_ItemID path\<rparr>) (fst st),
              if length items > 1 then snd st @ [explainCommand (lg_ID config) path items selected] else snd st))"

text \<open>A location is known exactly when some source is present (\<open>location_known\<close> below), which is what the source tests.\<close>

definition composeLogicalSnapshot :: "time \<Rightarrow> logical_config \<Rightarrow> (string, device) gomap \<Rightarrow> (device \<times> route_explanation list) option" where
  "composeLogicalSnapshot now config sources =
     (let bindings = sortBindings (lg_Bindings config);
          co = compose_bindings config sources
      in case co_location co of
           None \<Rightarrow> None
         | Some location \<Rightarrow>
             (let present = co_present co;
                  item = logical_header now config co location;
                  st = fold (place_property config present bindings) (logicalPropertyPaths config present) ([], []);
                  st = fold (place_command config present bindings) (logicalCommandPaths config present) st;
                  item = item\<lparr>dev_Endpoints := fst st\<rparr>
              in if validateStructure item \<noteq> None then None else Some (item, sort_slice explanation_before (snd st))))"

section \<open>What validation accepts\<close>

lemma source_key_inj:
  assumes r: "validateSource r" and key: "source_key q = source_key r"
  shows "q = r"
proof -
  have r': "NUL \<notin> set (src_ProviderID r)" "NUL \<notin> set (src_DeviceID r)" using r by (simp_all add: validateSource_def stable_id_no_nul)
  have "count_list (source_key r) NUL = 1" using r' by (simp add: source_key_def count_list_append count_notin)
  then have "count_list (src_ProviderID q) NUL + count_list (src_DeviceID q) NUL = 0"
    unfolding key [symmetric] by (simp add: source_key_def count_list_append)
  then have "NUL \<notin> set (src_ProviderID q)" by (simp add: count_list_0_iff)
  from nul_join_inj [OF this r'(1) key [unfolded source_key_def]] show ?thesis by (cases q; cases r) simp
qed

lemma route_key_inj: "valid_path p \<Longrightarrow> valid_path q \<Longrightarrow> route_key p = route_key q \<Longrightarrow> p = q"
proof -
  assume v: "valid_path p" "valid_path q" and key: "route_key p = route_key q"
  have n: "NUL \<notin> set (rp_EndpointID p)" "NUL \<notin> set (rp_CapabilityID p)" "NUL \<notin> set (rp_EndpointID q)" "NUL \<notin> set (rp_CapabilityID q)"
    using v by (simp_all add: valid_path_def stable_id_no_nul)
  from nul_join_inj [OF n(1,3) key [unfolded route_key_def]]
  have "rp_EndpointID p = rp_EndpointID q" "rp_CapabilityID p @ NUL # rp_ItemID p = rp_CapabilityID q @ NUL # rp_ItemID q" by blast+
  with nul_join_inj [OF n(2,4) this(2)] show "p = q" by (cases p; cases q) simp
qed

lemma candidate_key_inj:
  assumes "validateSource (rc_Source c)" "validateSource (rc_Source d)" "valid_path (rc_Path c)" "valid_path (rc_Path d)"
    and key: "candidate_key c = candidate_key d"
  shows "rc_Source c = rc_Source d \<and> rc_Path c = rc_Path d"
proof -
  have n: "NUL \<notin> set (src_ProviderID (rc_Source c))" "NUL \<notin> set (src_ProviderID (rc_Source d))"
    "NUL \<notin> set (src_DeviceID (rc_Source c))" "NUL \<notin> set (src_DeviceID (rc_Source d))"
    using assms by (simp_all add: validateSource_def stable_id_no_nul)
  have "src_ProviderID (rc_Source c) @ NUL # (src_DeviceID (rc_Source c) @ NUL # route_key (rc_Path c)) =
    src_ProviderID (rc_Source d) @ NUL # (src_DeviceID (rc_Source d) @ NUL # route_key (rc_Path d))"
    using key by (simp add: candidate_key_def source_key_def)
  from nul_join_inj [OF n(1,2) this] have p: "src_ProviderID (rc_Source c) = src_ProviderID (rc_Source d)"
    and rest: "src_DeviceID (rc_Source c) @ NUL # route_key (rc_Path c) = src_DeviceID (rc_Source d) @ NUL # route_key (rc_Path d)" by blast+
  from nul_join_inj [OF n(3,4) rest] show ?thesis using p route_key_inj [OF assms(3,4)] by (simp add: source_ref.equality)
qed

definition binding_ok :: "logical_binding \<Rightarrow> bool" where
  "binding_ok b \<longleftrightarrow> validateSource (lb_Source b) \<and> src_ProviderID (lb_Source b) \<noteq> LogicalProviderID \<and> 0 \<le> lb_Priority b \<and> lb_Priority b \<le> 1000"

definition candidate_ok :: "source_ref set \<Rightarrow> route_candidate \<Rightarrow> bool" where
  "candidate_ok bound c \<longleftrightarrow> rc_Source c \<in> bound \<and> valid_path (rc_Path c) \<and> 0 \<le> rc_Priority c \<and> rc_Priority c \<le> 1000"

definition routes_ok :: "source_ref set \<Rightarrow> logical_route list \<Rightarrow> bool" where
  "routes_ok bound rs \<longleftrightarrow> distinct (map ro_Path rs) \<and>
     (\<forall>r\<in>set rs. valid_path (ro_Path r) \<and> ro_Candidates r \<noteq> [] \<and> (\<forall>c\<in>set (ro_Candidates r). candidate_ok bound c) \<and>
        distinct (map (\<lambda>c. (rc_Source c, rc_Path c)) (ro_Candidates r)))"

text \<open>What a configuration has to satisfy, stated over the sources and paths themselves.\<close>

definition config_ok :: "logical_config \<Rightarrow> bool" where
  "config_ok c \<longleftrightarrow> ValidStableID (lg_ID c) \<and> lg_ID c \<noteq> LogicalProviderID \<and> trimSpace (lg_Name c) \<noteq> [] \<and> length (lg_Name c) \<le> 160 \<and>
     lg_Type c \<noteq> [] \<and> 2 \<le> length (lg_Bindings c) \<and> (\<forall>b\<in>set (lg_Bindings c). binding_ok b) \<and> distinct (map lb_Source (lg_Bindings c)) \<and>
     routes_ok (lb_Source ` set (lg_Bindings c)) (lg_PropertyRoutes c) \<and> routes_ok (lb_Source ` set (lg_Bindings c)) (lg_CommandRoutes c)"

lemma first_error: "(case x of Some e \<Rightarrow> Some e | None \<Rightarrow> y) = None \<longleftrightarrow> x = None \<and> y = None"
  by (simp split: option.split)

lemma binding_ok_valid: "binding_ok b \<Longrightarrow> validateSource (lb_Source b)"
  by (simp add: binding_ok_def)

lemma validate_bindings_iff:
  "validate_bindings seen bs = None \<longleftrightarrow> (\<forall>b\<in>set bs. binding_ok b) \<and> distinct (map (source_key \<circ> lb_Source) bs) \<and>
     set seen \<inter> (source_key \<circ> lb_Source) ` set bs = {}"
  by (induction seen bs rule: validate_bindings.induct) (auto simp: Let_def binding_ok_def)

lemma validate_candidates_iff:
  "validate_candidates variant bound route seen cs = None \<longleftrightarrow>
     (\<forall>c\<in>set cs. source_key (rc_Source c) \<in> set bound \<and> valid_path (rc_Path c) \<and> 0 \<le> rc_Priority c \<and> rc_Priority c \<le> 1000) \<and>
     distinct (map candidate_key cs) \<and> set seen \<inter> candidate_key ` set cs = {}"
  by (induction variant bound route seen cs rule: validate_candidates.induct) auto

lemma validate_routes_iff:
  "validate_routes variant bound seen rs = None \<longleftrightarrow>
     (\<forall>r\<in>set rs. valid_path (ro_Path r) \<and> ro_Candidates r \<noteq> [] \<and>
        validate_candidates variant bound (route_key (ro_Path r)) [] (ro_Candidates r) = None) \<and>
     distinct (map (route_key \<circ> ro_Path) rs) \<and> set seen \<inter> (route_key \<circ> ro_Path) ` set rs = {}"
  by (induction variant bound seen rs rule: validate_routes.induct) (auto simp: Let_def split: option.split)

lemma distinct_keys:
  "(\<And>x y. x \<in> set xs \<Longrightarrow> y \<in> set xs \<Longrightarrow> f x = f y \<Longrightarrow> g x = g y) \<Longrightarrow> (\<And>x y. g x = g y \<Longrightarrow> f x = f y) \<Longrightarrow>
     distinct (map f xs) = distinct (map g xs)"
  unfolding distinct_map inj_on_def by metis

lemma bound_source:
  assumes "\<forall>b\<in>set bs. binding_ok b"
  shows "source_key r \<in> set (map (source_key \<circ> lb_Source) bs) \<longleftrightarrow> r \<in> lb_Source ` set bs"
proof
  assume "source_key r \<in> set (map (source_key \<circ> lb_Source) bs)"
  then obtain b where "b \<in> set bs" "source_key r = source_key (lb_Source b)" by auto
  with source_key_inj [of "lb_Source b" r] assms binding_ok_valid show "r \<in> lb_Source ` set bs" by blast
qed auto

lemma candidates_iff:
  assumes bs: "\<forall>b\<in>set bs. binding_ok b"
  shows "validate_candidates variant (map (source_key \<circ> lb_Source) bs) route [] cs = None \<longleftrightarrow>
    (\<forall>c\<in>set cs. candidate_ok (lb_Source ` set bs) c) \<and> distinct (map (\<lambda>c. (rc_Source c, rc_Path c)) cs)"
proof -
  have "distinct (map candidate_key cs) = distinct (map (\<lambda>c. (rc_Source c, rc_Path c)) cs)" if ok: "\<forall>c\<in>set cs. candidate_ok (lb_Source ` set bs) c"
  proof (rule distinct_keys)
    fix c d assume "c \<in> set cs" "d \<in> set cs" "candidate_key c = candidate_key d"
    moreover have "validateSource (rc_Source x) \<and> valid_path (rc_Path x)" if "x \<in> set cs" for x
      using ok that bs by (auto simp: candidate_ok_def binding_ok_valid)
    ultimately show "(rc_Source c, rc_Path c) = (rc_Source d, rc_Path d)" using candidate_key_inj by blast
  qed (simp add: candidate_key_def)
  then show ?thesis unfolding validate_candidates_iff bound_source [OF bs] candidate_ok_def by auto
qed

lemma routes_iff:
  assumes bs: "\<forall>b\<in>set bs. binding_ok b"
  shows "validate_routes variant (map (source_key \<circ> lb_Source) bs) [] rs = None \<longleftrightarrow> routes_ok (lb_Source ` set bs) rs"
proof -
  have "distinct (map (route_key \<circ> ro_Path) rs) = distinct (map ro_Path rs)" if "\<forall>r\<in>set rs. valid_path (ro_Path r)"
    using that route_key_inj by (intro distinct_keys) auto
  then show ?thesis unfolding validate_routes_iff candidates_iff [OF bs] routes_ok_def by auto
qed

lemma config_validate_iff: "config_validate c = None \<longleftrightarrow> config_ok c"
proof -
  have keys: "distinct (map (source_key \<circ> lb_Source) (lg_Bindings c)) = distinct (map lb_Source (lg_Bindings c))"
    if "\<forall>b\<in>set (lg_Bindings c). binding_ok b"
    using that source_key_inj by (intro distinct_keys) (auto simp: binding_ok_valid)
  have "validate_bindings [] (lg_Bindings c) = None \<longleftrightarrow> (\<forall>b\<in>set (lg_Bindings c). binding_ok b) \<and> distinct (map lb_Source (lg_Bindings c))"
    using keys by (auto simp: validate_bindings_iff)
  moreover have "validate_routes v (map (source_key \<circ> lb_Source) (lg_Bindings c)) [] rs = None \<longleftrightarrow> routes_ok (lb_Source ` set (lg_Bindings c)) rs"
    if "\<forall>b\<in>set (lg_Bindings c). binding_ok b" for v rs
    by (rule routes_iff [OF that])
  ultimately show ?thesis unfolding config_validate_def config_ok_def Let_def by (simp add: first_error not_le [symmetric]) blast
qed

text \<open>C33. Validation of a logical device decides its well-formedness: it is accepted exactly when it has a stable identifier of
  its own, a name and a type, at least two different provider devices of which none is logical, priorities from 0 to 1000, and
  routes with different targets whose candidates are different, valid and drawn from the bound devices.\<close>

theorem config_validation_decides: "config_validate c = None \<longleftrightarrow> config_ok c"
  by (rule config_validate_iff)

section \<open>The choice among candidates\<close>

lemma choices_set:
  "x \<in> set (choices look sources cs) \<longleftrightarrow> (\<exists>c\<in>set cs. \<exists>source y. gm_get sources (source_key (rc_Source c)) = Some source \<and>
     look source (rc_Path c) = Some y \<and> x = \<lparr>ch_candidate = c, ch_item = y, ch_available = isOnline source\<rparr>)"
proof (induction cs)
  case (Cons c cs)
  then show ?case by (cases "gm_get sources (source_key (rc_Source c))"; cases "look (the (gm_get sources (source_key (rc_Source c)))) (rc_Path c)")
      (auto simp: choices_def List.map_filter_simps)
qed (simp add: choices_def List.map_filter_simps)

lemma choices_Cons:
  obtains "choices look sources (c # cs) = choices look sources cs"
  | x where "choices look sources (c # cs) = x # choices look sources cs" "ch_candidate x = c"
proof (cases "gm_get sources (source_key (rc_Source c))")
  case (Some source)
  then show ?thesis using that by (cases "look source (rc_Path c)") (auto simp: choices_def List.map_filter_simps)
qed (use that in \<open>auto simp: choices_def List.map_filter_simps\<close>)

lemma choices_among: "x \<in> set (choices look sources cs) \<Longrightarrow> ch_candidate x \<in> set cs"
  by (auto simp: choices_set)

lemma choices_sorted: "sorted (map f cs) \<Longrightarrow> sorted (map (f \<circ> ch_candidate) (choices look sources cs))"
proof (induction cs)
  case (Cons c cs)
  from Cons.prems have tl: "sorted (map f cs)" and "\<forall>d\<in>set cs. f c \<le> f d" by auto
  then have "\<forall>x\<in>set (choices look sources cs). f c \<le> f (ch_candidate x)" by (auto dest: choices_among)
  with Cons.IH [OF tl] show ?case by (cases rule: choices_Cons [of look sources c cs]) auto
qed (simp add: choices_def List.map_filter_simps)

lemma choices_distinct: "distinct (map f cs) \<Longrightarrow> distinct (map (f \<circ> ch_candidate) (choices look sources cs))"
proof (induction cs)
  case (Cons c cs)
  from Cons.prems have tl: "distinct (map f cs)" and "f c \<notin> f ` set cs" by auto
  then have "\<forall>x\<in>set (choices look sources cs). f (ch_candidate x) \<noteq> f c" using choices_among by (metis imageI)
  with Cons.IH [OF tl] show ?case by (cases rule: choices_Cons [of look sources c cs]) auto
qed (simp add: choices_def List.map_filter_simps)

lemma select_choice_None: "select_choice items = None \<longleftrightarrow> items = []"
  by (auto simp: select_choice_def find_None_iff split: option.split list.split)

lemma find_first_best:
  "sorted (map f xs) \<Longrightarrow> find P xs = Some x \<Longrightarrow> y \<in> set xs \<Longrightarrow> P y \<Longrightarrow> f x \<le> f y"
  by (induction xs) (auto split: if_splits)

lemma select_choice_best:
  assumes "sorted (map f items)" and sel: "select_choice items = Some x"
  shows "x \<in> set items" and "y \<in> set items \<Longrightarrow> ch_available y \<Longrightarrow> ch_available x \<and> f x \<le> f y"
    and "y \<in> set items \<Longrightarrow> \<not> ch_available x \<Longrightarrow> f x \<le> f y"
proof -
  consider (avail) "find ch_available items = Some x" | (none) rest where "find ch_available items = None" "items = x # rest"
    using sel by (auto simp: select_choice_def split: option.splits list.splits)
  note ways = this
  from ways show "x \<in> set items" by cases (auto dest: find_SomeD)
  show "ch_available x \<and> f x \<le> f y" if "y \<in> set items" "ch_available y"
    using ways
  proof cases
    case avail
    with find_SomeD [OF avail] find_first_best [OF assms(1) avail that] show ?thesis by blast
  next
    case none
    with that show ?thesis unfolding find_None_iff by blast
  qed
  show "f x \<le> f y" if "y \<in> set items" "\<not> ch_available x"
    using ways
  proof cases
    case avail
    with find_SomeD [OF avail] that show ?thesis by blast
  next
    case none
    with that assms(1) show ?thesis by auto
  qed
qed

lemma sorted_map_fst: "sorted xs \<Longrightarrow> sorted (map fst (xs :: ('a :: linorder \<times> 'b :: linorder) list))"
  by (induction xs) (auto simp: less_eq_prod_def)

lemma bindings_sorted: "sorted (map lb_Priority (sortBindings bs))"
proof -
  have "sorted (map (\<lambda>b. (lb_Priority b, src_ProviderID (lb_Source b), src_DeviceID (lb_Source b))) (sortBindings bs))"
    unfolding sortBindings_def by (rule sorted_sort_slice) (auto simp: binding_before_def)
  then have "sorted (map fst (map (\<lambda>b. (lb_Priority b, src_ProviderID (lb_Source b), src_DeviceID (lb_Source b))) (sortBindings bs)))"
    by (rule sorted_map_fst)
  then show ?thesis by (simp add: o_def)
qed

lemma implicit_candidates_facts:
  "map rc_Priority (implicit_candidates path bs) = map lb_Priority bs" "map rc_Source (implicit_candidates path bs) = map lb_Source bs"
  "c \<in> set (implicit_candidates path bs) \<Longrightarrow> rc_Path c = path"
proof -
  show "map rc_Priority (implicit_candidates path bs) = map lb_Priority bs" "map rc_Source (implicit_candidates path bs) = map lb_Source bs"
    by (rule nth_equalityI; simp add: implicit_candidates_def nth_enumerate_eq)+
  show "c \<in> set (implicit_candidates path bs) \<Longrightarrow> rc_Path c = path" by (auto simp: implicit_candidates_def)
qed

lemma route_candidates_sorted: "sorted (map lb_Priority bs) \<Longrightarrow> sorted (map rc_Priority (route_candidates route path bs))"
  by (cases route) (simp_all add: route_candidates_def implicit_candidates_facts sorted_sort_slice)

definition best_choice :: "'a choice list \<Rightarrow> 'a choice option \<Rightarrow> bool" where
  "best_choice items selected \<longleftrightarrow>
     (case selected of
        None \<Rightarrow> items = []
      | Some x \<Rightarrow> x \<in> set items \<and>
          list_all (\<lambda>y. if ch_available x then ch_available y \<longrightarrow> rc_Priority (ch_candidate x) \<le> rc_Priority (ch_candidate y)
            else \<not> ch_available y \<and> rc_Priority (ch_candidate x) \<le> rc_Priority (ch_candidate y)) items)"

lemma best_choiceI:
  assumes "sorted (map (rc_Priority \<circ> ch_candidate) items)"
  shows "best_choice items (select_choice items)"
proof (cases "select_choice items")
  case None
  then show ?thesis unfolding best_choice_def using select_choice_None [of items] by simp
next
  case (Some x)
  show ?thesis using select_choice_best [OF assms Some] by (auto simp: best_choice_def Some list_all_iff)
qed


section \<open>What the composed device holds\<close>

lemma change_or_append:
  assumes "r = (case change_first P f xs of Some ys \<Rightarrow> ys | None \<Rightarrow> xs @ [z])"
  obtains (new) "r = xs @ [z]" "\<forall>x\<in>set xs. \<not> P x"
  | (old) a x b where "xs = a @ x # b" "P x" "r = a @ f x # b"
proof (cases "change_first P f xs")
  case None
  then have "\<forall>x\<in>set xs. \<not> P x" unfolding change_first_None .
  with None show ?thesis using assms new by simp
next
  case (Some ys)
  then obtain a x b where "xs = a @ x # b" "P x" "ys = a @ f x # b" by (rule change_first_Some)
  with Some show ?thesis using assms old by simp
qed

text \<open>The elements of one kind in the tree, with the identifiers above them.\<close>

definition cap_item :: "(capability \<Rightarrow> 'x list) \<Rightarrow> capability list \<Rightarrow> string \<Rightarrow> 'x \<Rightarrow> bool" where
  "cap_item g cs C x \<longleftrightarrow> (\<exists>c\<in>set cs. cap_ID c = C \<and> x \<in> set (g c))"

definition tree_item :: "(capability \<Rightarrow> 'x list) \<Rightarrow> endpoint list \<Rightarrow> string \<Rightarrow> string \<Rightarrow> 'x \<Rightarrow> bool" where
  "tree_item g es E C x \<longleftrightarrow> (\<exists>e\<in>set es. ep_ID e = E \<and> cap_item g (ep_Capabilities e) C x)"

lemma tree_item_properties: "(E, C, p) \<in> set (snapshot_properties d) \<longleftrightarrow> tree_item cap_Properties (dev_Endpoints d) E C p"
  by (auto simp: snapshot_properties_def tree_item_def cap_item_def)

lemma tree_item_commands: "find_command d E C i \<noteq> None \<longleftrightarrow> (\<exists>k. tree_item cap_Commands (dev_Endpoints d) E C k \<and> cd_ID k = i)"
  unfolding find_command_has has_command_def cap_command_def tree_item_def cap_item_def by (auto simp: image_iff)

lemma cap_item_append: "cap_item g (a @ c # b) C x \<longleftrightarrow> cap_item g (a @ b) C x \<or> cap_ID c = C \<and> x \<in> set (g c)"
  by (auto simp: cap_item_def)

lemma tree_item_append: "tree_item g (a @ e # b) E C x \<longleftrightarrow> tree_item g (a @ b) E C x \<or> ep_ID e = E \<and> cap_item g (ep_Capabilities e) C x"
  by (auto simp: tree_item_def)

lemma tree_item_Nil [simp]: "\<not> tree_item g [] E C x" "\<not> cap_item g [] C x"
  by (simp_all add: tree_item_def cap_item_def)

text \<open>Adding an element to a capability: it is there afterwards, unless one of the same name was there already.\<close>

lemma logicalCapability_item:
  assumes f: "\<And>c. cap_ID (f c) = cap_ID c" and dist: "distinct (map cap_ID (ep_Capabilities e))"
    and g: "\<And>c. cap_ID c = C \<Longrightarrow> set (g (f c)) = set (g c) \<union> (if \<exists>y\<in>set (g c). same y then {} else xs)" and g0: "g (new_capability C t) = []"
  shows "cap_item g (ep_Capabilities (logicalCapability C t f e)) C' x \<longleftrightarrow>
      cap_item g (ep_Capabilities e) C' x \<or> C' = C \<and> x \<in> xs \<and> \<not> (\<exists>y. cap_item g (ep_Capabilities e) C y \<and> same y)"
    and "distinct (map cap_ID (ep_Capabilities (logicalCapability C t f e)))"
proof -
  let ?cs = "ep_Capabilities (logicalCapability C t f e)"
  have "?cs = (case change_first (\<lambda>c. cap_ID c = C) f (ep_Capabilities e) of Some cs \<Rightarrow> cs | None \<Rightarrow> ep_Capabilities e @ [f (new_capability C t)])"
    by (simp add: logicalCapability_def)
  then have "(cap_item g ?cs C' x \<longleftrightarrow> cap_item g (ep_Capabilities e) C' x \<or>
      C' = C \<and> x \<in> xs \<and> \<not> (\<exists>y. cap_item g (ep_Capabilities e) C y \<and> same y)) \<and> distinct (map cap_ID ?cs)"
  proof (cases rule: change_or_append)
    case new
    have n: "cap_ID (new_capability C t) = C" by (simp add: new_capability_def)
    have "\<not> cap_item g (ep_Capabilities e) C y" for y using new(2) by (auto simp: cap_item_def)
    moreover have "distinct (map cap_ID ?cs)" using dist new f n by auto
    ultimately show ?thesis using g [OF n] g0 f n unfolding new(1) cap_item_append by auto
  next
    case (old a c b)
    have "\<not> cap_item g (a @ b) C y" for y using dist old(2) unfolding old(1) by (auto simp: cap_item_def) (metis imageI)+
    moreover have "distinct (map cap_ID ?cs)" using dist f unfolding old(3) unfolding old(1) by simp
    ultimately show ?thesis using g [OF old(2)] f old(2) unfolding old(3) unfolding old(1) cap_item_append by auto
  qed
  then show "cap_item g ?cs C' x \<longleftrightarrow> cap_item g (ep_Capabilities e) C' x \<or>
      C' = C \<and> x \<in> xs \<and> \<not> (\<exists>y. cap_item g (ep_Capabilities e) C y \<and> same y)" "distinct (map cap_ID ?cs)" by blast+
qed

lemma logicalEndpoint_item:
  fixes E name kind :: string
  assumes ok: "tree_ok es" and f: "\<And>c. cap_ID (f c) = cap_ID c"
    and g: "\<And>c. cap_ID c = C \<Longrightarrow> set (g (f c)) = set (g c) \<union> (if \<exists>y\<in>set (g c). same y then {} else xs)" and g0: "g (new_capability C t) = []"
  defines "es' \<equiv> logicalEndpoint E name kind (logicalCapability C t f) es"
  shows "tree_item g es' E' C' x \<longleftrightarrow>
      tree_item g es E' C' x \<or> E' = E \<and> C' = C \<and> x \<in> xs \<and> \<not> (\<exists>y. tree_item g es E C y \<and> same y)"
    and "tree_ok es'"
proof -
  let ?f = "logicalCapability C t f"
  note cap = logicalCapability_item [where same = same and xs = xs and C = C and g = g, OF f _ g g0]
  have id: "ep_ID (?f e) = ep_ID e" for e by (simp add: logicalCapability_def)
  have "es' = (case change_first (\<lambda>e. ep_ID e = E) ?f es of Some es \<Rightarrow> es
      | None \<Rightarrow> es @ [?f \<lparr>ep_ID = E, ep_Name = name, ep_Type = kind, ep_Capabilities = []\<rparr>])"
    by (simp add: es'_def logicalEndpoint_def)
  then have "(tree_item g es' E' C' x \<longleftrightarrow> tree_item g es E' C' x \<or> E' = E \<and> C' = C \<and> x \<in> xs \<and> \<not> (\<exists>y. tree_item g es E C y \<and> same y)) \<and> tree_ok es'"
  proof (cases rule: change_or_append)
    case new
    let ?e = "\<lparr>ep_ID = E, ep_Name = name, ep_Type = kind, ep_Capabilities = []\<rparr>"
    have "\<not> tree_item g es E C y" for y using new(2) by (auto simp: tree_item_def)
    moreover have "cap_item g (ep_Capabilities (?f ?e)) C' x \<longleftrightarrow> C' = C \<and> x \<in> xs" using cap(1) [of ?e] by simp
    moreover have "tree_ok es'" using ok new id cap(2) [of ?e] by (auto simp: tree_ok_def)
    ultimately show ?thesis unfolding new(1) tree_item_append id by auto
  next
    case (old a e b)
    have d: "distinct (map cap_ID (ep_Capabilities e))" using ok by (simp add: old(1) tree_ok_def)
    have "\<not> tree_item g (a @ b) E C y" for y using ok old(2) unfolding old(1) by (auto simp: tree_item_def tree_ok_def) (metis imageI)+
    moreover have "tree_ok es'" using tree_ok_change [OF ok [unfolded old(1)] id] cap(2) by (simp add: old(3))
    ultimately show ?thesis unfolding old(3) unfolding old(1) tree_item_append id
      using old(2) cap(1) [OF d, of C' x] by (auto simp: old(2))
  qed
  then show "tree_item g es' E' C' x \<longleftrightarrow> tree_item g es E' C' x \<or> E' = E \<and> C' = C \<and> x \<in> xs \<and> \<not> (\<exists>y. tree_item g es E C y \<and> same y)"
    "tree_ok es'" by blast+
qed

lemma add_property_tree:
  fixes path :: route_path and e :: endpoint and c :: capability and p :: property
  assumes ok: "tree_ok es"
  defines "es' \<equiv> addLogicalProperty path e c p es"
  shows "tree_item cap_Properties es' E C q \<longleftrightarrow> tree_item cap_Properties es E C q \<or> E = rp_EndpointID path \<and> C = rp_CapabilityID path \<and> q = p \<and>
      \<not> (\<exists>y. tree_item cap_Properties es E C y \<and> pd_ID (prop_Definition y) = pd_ID (prop_Definition p))"
    and "tree_item cap_Commands es' E C k \<longleftrightarrow> tree_item cap_Commands es E C k" and "tree_ok es'"
proof -
  have f: "cap_ID (add_new_property p c) = cap_ID c" for c by (simp add: add_new_property_def)
  note item = logicalEndpoint_item [OF ok f, where C = "rp_CapabilityID path" and t = "cap_Type c" and E = "rp_EndpointID path"
      and name = "ep_Name e" and kind = "ep_Type e", folded addLogicalProperty_def, folded es'_def]
  have p: "set (cap_Properties (add_new_property p c)) = set (cap_Properties c) \<union>
      (if \<exists>y\<in>set (cap_Properties c). pd_ID (prop_Definition y) = pd_ID (prop_Definition p) then {} else {p})" for c
    by (auto simp: add_new_property_def image_iff)
  have k: "set (cap_Commands (add_new_property p c)) = set (cap_Commands c) \<union> (if \<exists>y\<in>set (cap_Commands c). True then {} else {})" for c
    by (simp add: add_new_property_def)
  show "tree_item cap_Properties es' E C q \<longleftrightarrow> tree_item cap_Properties es E C q \<or> E = rp_EndpointID path \<and> C = rp_CapabilityID path \<and> q = p \<and>
      \<not> (\<exists>y. tree_item cap_Properties es E C y \<and> pd_ID (prop_Definition y) = pd_ID (prop_Definition p))" "tree_ok es'"
    using item [where g = cap_Properties and same = "\<lambda>y. pd_ID (prop_Definition y) = pd_ID (prop_Definition p)" and xs = "{p}", OF p]
    by (auto simp: new_capability_def)
  show "tree_item cap_Commands es' E C k \<longleftrightarrow> tree_item cap_Commands es E C k"
    using item(1) [where g = cap_Commands and same = "\<lambda>y. True" and xs = "{}", OF k] by (auto simp: new_capability_def)
qed

lemma add_command_tree:
  fixes path :: route_path and l :: command_definition
  assumes ok: "tree_ok es"
  defines "es' \<equiv> addLogicalCommand path l es"
  shows "tree_item cap_Commands es' E C k \<longleftrightarrow> tree_item cap_Commands es E C k \<or> E = rp_EndpointID path \<and> C = rp_CapabilityID path \<and> k = l \<and>
      \<not> (\<exists>y. tree_item cap_Commands es E C y \<and> cd_ID y = cd_ID l)"
    and "tree_item cap_Properties es' E C q \<longleftrightarrow> tree_item cap_Properties es E C q" and "tree_ok es'"
proof -
  have f: "cap_ID (add_new_command l c) = cap_ID c" for c by (simp add: add_new_command_def)
  note item = logicalEndpoint_item [OF ok f, where C = "rp_CapabilityID path" and t = "rp_CapabilityID path" and E = "rp_EndpointID path"
      and name = "rp_EndpointID path" and kind = "rp_EndpointID path", folded addLogicalCommand_def, folded es'_def]
  have k: "set (cap_Commands (add_new_command l c)) = set (cap_Commands c) \<union>
      (if \<exists>y\<in>set (cap_Commands c). cd_ID y = cd_ID l then {} else {l})" for c
    by (auto simp: add_new_command_def image_iff)
  have p: "set (cap_Properties (add_new_command l c)) = set (cap_Properties c) \<union> (if \<exists>y\<in>set (cap_Properties c). True then {} else {})" for c
    by (simp add: add_new_command_def)
  show "tree_item cap_Commands es' E C k \<longleftrightarrow> tree_item cap_Commands es E C k \<or> E = rp_EndpointID path \<and> C = rp_CapabilityID path \<and> k = l \<and>
      \<not> (\<exists>y. tree_item cap_Commands es E C y \<and> cd_ID y = cd_ID l)" "tree_ok es'"
    using item [where g = cap_Commands and same = "\<lambda>y. cd_ID y = cd_ID l" and xs = "{l}", OF k]
    by (auto simp: new_capability_def)
  show "tree_item cap_Properties es' E C q \<longleftrightarrow> tree_item cap_Properties es E C q"
    using item(1) [where g = cap_Properties and same = "\<lambda>y. True" and xs = "{}", OF p] by (auto simp: new_capability_def)
qed

abbreviation rpath :: "string \<Rightarrow> string \<Rightarrow> string \<Rightarrow> route_path" where
  "rpath E C i \<equiv> \<lparr>rp_EndpointID = E, rp_CapabilityID = C, rp_ItemID = i\<rparr>"

text \<open>The property and the command that a path of the logical device shows.\<close>

definition shown_property :: "logical_config \<Rightarrow> (string, device) gomap \<Rightarrow> logical_binding list \<Rightarrow> route_path \<Rightarrow> property option" where
  "shown_property config present bindings path =
     map_option (\<lambda>x. (fst (ch_item x))\<lparr>prop_Definition := (prop_Definition (fst (ch_item x)))\<lparr>pd_ID := rp_ItemID path\<rparr>\<rparr>)
       (select_choice (propertyChoices config path present bindings))"

definition shown_command :: "logical_config \<Rightarrow> (string, device) gomap \<Rightarrow> logical_binding list \<Rightarrow> route_path \<Rightarrow> command_definition option" where
  "shown_command config present bindings path =
     map_option (\<lambda>x. (ch_item x)\<lparr>cd_ID := rp_ItemID path\<rparr>) (select_choice (commandChoices config path present bindings))"

lemma shown_id: "shown_property config present bindings path = Some p \<Longrightarrow> pd_ID (prop_Definition p) = rp_ItemID path"
  "shown_command config present bindings path = Some k \<Longrightarrow> cd_ID k = rp_ItemID path"
  by (auto simp: shown_property_def shown_command_def)

lemma place_property_fst:
  "fst (place_property config present bindings path st) =
     (case shown_property config present bindings path of
        None \<Rightarrow> fst st
      | Some p \<Rightarrow> (let x = the (select_choice (propertyChoices config path present bindings))
          in addLogicalProperty path (fst (snd (ch_item x))) (snd (snd (ch_item x))) p (fst st)))"
  by (cases "select_choice (propertyChoices config path present bindings)")
    (simp_all add: place_property_def shown_property_def Let_def case_prod_beta)

lemma place_command_fst:
  "fst (place_command config present bindings path st) =
     (case shown_command config present bindings path of None \<Rightarrow> fst st | Some k \<Rightarrow> addLogicalCommand path k (fst st))"
  by (cases "select_choice (commandChoices config path present bindings)")
    (simp_all add: place_command_def shown_command_def Let_def)

lemma place_property_tree:
  fixes config :: logical_config and present :: "(string, device) gomap" and bindings :: "logical_binding list"
  assumes ok: "tree_ok (fst st)" and fresh: "\<And>y. tree_item cap_Properties (fst st) (rp_EndpointID path) (rp_CapabilityID path) y \<Longrightarrow>
      pd_ID (prop_Definition y) \<noteq> rp_ItemID path"
  defines "st' \<equiv> place_property config present bindings path st"
  shows "(tree_item cap_Properties (fst st') E C q \<longleftrightarrow> tree_item cap_Properties (fst st) E C q \<or>
      E = rp_EndpointID path \<and> C = rp_CapabilityID path \<and> shown_property config present bindings path = Some q) \<and>
    (tree_item cap_Commands (fst st') E C k \<longleftrightarrow> tree_item cap_Commands (fst st) E C k) \<and> tree_ok (fst st')"
proof (cases "shown_property config present bindings path")
  case None
  then show ?thesis using ok by (simp add: st'_def place_property_fst)
next
  case (Some p)
  let ?x = "the (select_choice (propertyChoices config path present bindings))"
  have st': "fst st' = addLogicalProperty path (fst (snd (ch_item ?x))) (snd (snd (ch_item ?x))) p (fst st)"
    by (simp add: st'_def place_property_fst Some Let_def)
  show ?thesis unfolding st' add_property_tree(1,2) [OF ok] using add_property_tree(3) [OF ok] fresh shown_id(1) [OF Some]
    by (auto simp: Some)
qed

lemma place_command_tree:
  fixes config :: logical_config and present :: "(string, device) gomap" and bindings :: "logical_binding list"
  assumes ok: "tree_ok (fst st)" and fresh: "\<And>y. tree_item cap_Commands (fst st) (rp_EndpointID path) (rp_CapabilityID path) y \<Longrightarrow>
      cd_ID y \<noteq> rp_ItemID path"
  defines "st' \<equiv> place_command config present bindings path st"
  shows "(tree_item cap_Commands (fst st') E C k \<longleftrightarrow> tree_item cap_Commands (fst st) E C k \<or>
      E = rp_EndpointID path \<and> C = rp_CapabilityID path \<and> shown_command config present bindings path = Some k) \<and>
    (tree_item cap_Properties (fst st') E C q \<longleftrightarrow> tree_item cap_Properties (fst st) E C q) \<and> tree_ok (fst st')"
proof (cases "shown_command config present bindings path")
  case None
  then show ?thesis using ok by (simp add: st'_def place_command_fst)
next
  case (Some l)
  have st': "fst st' = addLogicalCommand path l (fst st)" by (simp add: st'_def place_command_fst Some)
  show ?thesis unfolding st' add_command_tree(1,2) [OF ok] using add_command_tree(3) [OF ok] fresh shown_id(2) [OF Some]
    by (auto simp: Some)
qed

text \<open>The loop over the paths, for properties and for commands: \<open>g\<close> reads the elements that are placed, \<open>h\<close> the others.\<close>

lemma place_fold:
  fixes place :: "route_path \<Rightarrow> endpoint list \<times> 'b \<Rightarrow> endpoint list \<times> 'b" and g :: "capability \<Rightarrow> 'x list" and h :: "capability \<Rightarrow> 'y list"
  assumes name: "\<And>path q. shown path = Some q \<Longrightarrow> idx q = rp_ItemID path"
    and step: "\<And>path st E C q k. tree_ok (fst st) \<Longrightarrow>
      (\<And>y. tree_item g (fst st) (rp_EndpointID path) (rp_CapabilityID path) y \<Longrightarrow> idx y \<noteq> rp_ItemID path) \<Longrightarrow>
      (tree_item g (fst (place path st)) E C q \<longleftrightarrow> tree_item g (fst st) E C q \<or>
        E = rp_EndpointID path \<and> C = rp_CapabilityID path \<and> shown path = Some q) \<and>
      (tree_item h (fst (place path st)) E C k \<longleftrightarrow> tree_item h (fst st) E C k) \<and> tree_ok (fst (place path st))"
  shows "distinct paths \<Longrightarrow> tree_ok (fst st) \<Longrightarrow> (\<And>E C y. tree_item g (fst st) E C y \<Longrightarrow> rpath E C (idx y) \<notin> set paths) \<Longrightarrow>
    (tree_item g (fst (fold place paths st)) E C q \<longleftrightarrow> tree_item g (fst st) E C q \<or>
       rpath E C (idx q) \<in> set paths \<and> shown (rpath E C (idx q)) = Some q) \<and>
    (tree_item h (fst (fold place paths st)) E C k \<longleftrightarrow> tree_item h (fst st) E C k) \<and> tree_ok (fst (fold place paths st))"
proof (induction paths arbitrary: st)
  case (Cons path paths)
  have path: "path = rpath E C i \<longleftrightarrow> E = rp_EndpointID path \<and> C = rp_CapabilityID path \<and> i = rp_ItemID path" for E C i
    by (cases path) auto
  have fresh: "idx y \<noteq> rp_ItemID path" if "tree_item g (fst st) (rp_EndpointID path) (rp_CapabilityID path) y" for y
    using Cons.prems(3) [OF that] path by auto
  note step1 = step [of st path, OF Cons.prems(2) fresh]
  have d: "distinct paths" "path \<notin> set paths" using Cons.prems(1) by auto
  have later: "rpath E C (idx y) \<notin> set paths" if "tree_item g (fst (place path st)) E C y" for E C y
  proof (cases "tree_item g (fst st) E C y")
    case True
    then show ?thesis using Cons.prems(3) by auto
  next
    case False
    with that step1 have "E = rp_EndpointID path" "C = rp_CapabilityID path" "shown path = Some y" by blast+
    with path [of E C "idx y"] name d(2) show ?thesis by metis
  qed
  have new: "E = rp_EndpointID path \<and> C = rp_CapabilityID path \<and> shown path = Some q \<longleftrightarrow>
      path = rpath E C (idx q) \<and> shown (rpath E C (idx q)) = Some q"
    using path [of E C "idx q"] name [of path q] by auto
  from step1 have ok: "tree_ok (fst (place path st))" by blast
  have "tree_item g (fst (place path st)) E C q \<longleftrightarrow> tree_item g (fst st) E C q \<or>
      path = rpath E C (idx q) \<and> shown (rpath E C (idx q)) = Some q" using step1 new by blast
  moreover have "tree_item h (fst (place path st)) E C k \<longleftrightarrow> tree_item h (fst st) E C k" using step1 by blast
  ultimately show ?case unfolding fold_simps o_apply using Cons.IH [OF d(1) ok later] by auto
qed simp

lemma place_properties_tree:
  assumes "distinct paths" and "tree_ok (fst st)" and "\<And>E C y. tree_item cap_Properties (fst st) E C y \<Longrightarrow> rpath E C ((pd_ID \<circ> prop_Definition) y) \<notin> set paths"
  shows "(tree_item cap_Properties (fst (fold (place_property config present bindings) paths st)) E C q \<longleftrightarrow> tree_item cap_Properties (fst st) E C q \<or>
       rpath E C ((pd_ID \<circ> prop_Definition) q) \<in> set paths \<and> shown_property config present bindings (rpath E C ((pd_ID \<circ> prop_Definition) q)) = Some q) \<and>
    (tree_item cap_Commands (fst (fold (place_property config present bindings) paths st)) E C k \<longleftrightarrow> tree_item cap_Commands (fst st) E C k) \<and>
    tree_ok (fst (fold (place_property config present bindings) paths st))"
proof (rule place_fold [where g = cap_Properties and h = cap_Commands and idx = "(pd_ID \<circ> prop_Definition)", OF _ _ assms])
  show "(pd_ID \<circ> prop_Definition) q = rp_ItemID path" if "shown_property config present bindings path = Some q" for path q using shown_id(1) [OF that] by simp
qed (use place_property_tree in simp)

lemma place_commands_tree:
  assumes "distinct paths" and "tree_ok (fst st)" and "\<And>E C y. tree_item cap_Commands (fst st) E C y \<Longrightarrow> rpath E C (cd_ID y) \<notin> set paths"
  shows "(tree_item cap_Commands (fst (fold (place_command config present bindings) paths st)) E C q \<longleftrightarrow> tree_item cap_Commands (fst st) E C q \<or>
       rpath E C (cd_ID q) \<in> set paths \<and> shown_command config present bindings (rpath E C (cd_ID q)) = Some q) \<and>
    (tree_item cap_Properties (fst (fold (place_command config present bindings) paths st)) E C k \<longleftrightarrow> tree_item cap_Properties (fst st) E C k) \<and>
    tree_ok (fst (fold (place_command config present bindings) paths st))"
proof (rule place_fold [where g = cap_Commands and h = cap_Properties and idx = "cd_ID", OF _ _ assms])
  show "cd_ID q = rp_ItemID path" if "shown_command config present bindings path = Some q" for path q using shown_id(2) [OF that] by simp
qed (use place_command_tree in simp)

section \<open>Which paths there are\<close>

text \<open>A map of paths by their own key, with valid paths only.\<close>

definition path_map :: "(string, route_path) gomap \<Rightarrow> bool" where
  "path_map m \<longleftrightarrow> gm_ok m \<and> (\<forall>p k. gm_get m k = Some p \<longrightarrow> k = route_key p \<and> valid_path p)"

lemma path_map_values:
  assumes m: "path_map m"
  shows "p \<in> set (map snd m) \<longleftrightarrow> gm_get m (route_key p) = Some p"
proof
  assume "p \<in> set (map snd m)"
  then obtain k where "(k, p) \<in> set m" by auto
  with m have "gm_get m k = Some p" by (simp add: path_map_def gm_in_set_get)
  with m show "gm_get m (route_key p) = Some p" unfolding path_map_def by blast
next
  assume "gm_get m (route_key p) = Some p"
  from gm_get_in_set [OF this] show "p \<in> set (map snd m)" by force
qed

lemma path_map_put:
  assumes m: "path_map m" and p: "valid_path p"
  shows "path_map (gm_put (route_key p) p m)" and "set (map snd (gm_put (route_key p) p m)) = insert p (set (map snd m))"
proof -
  show m': "path_map (gm_put (route_key p) p m)" using assms by (auto simp: path_map_def gm_get_put)
  have "q \<in> set (map snd (gm_put (route_key p) p m)) \<longleftrightarrow> q = p \<or> q \<in> set (map snd m)" for q
  proof (cases "route_key q = route_key p")
    case True
    have "q = p" if "gm_get m (route_key q) = Some q"
      using that m p True route_key_inj unfolding path_map_def by blast
    then show ?thesis unfolding path_map_values [OF m'] path_map_values [OF m] using True by (auto simp: gm_get_put)
  next
    case False
    then show ?thesis unfolding path_map_values [OF m'] path_map_values [OF m] by (auto simp: gm_get_put)
  qed
  then show "set (map snd (gm_put (route_key p) p m)) = insert p (set (map snd m))" by blast
qed

lemma path_map_puts:
  "path_map m \<Longrightarrow> \<forall>p\<in>set ps. valid_path p \<Longrightarrow>
     path_map (fold (\<lambda>p m. if Q p then gm_put (route_key p) p m else m) ps m) \<and>
     set (map snd (fold (\<lambda>p m. if Q p then gm_put (route_key p) p m else m) ps m)) = set (map snd m) \<union> {p \<in> set ps. Q p}"
proof (induction ps arbitrary: m)
  case (Cons p ps)
  show ?case
  proof (cases "Q p")
    case True
    have v: "valid_path p" using Cons.prems(2) by simp
    show ?thesis using Cons.IH [OF path_map_put(1) [OF Cons.prems(1) v]] Cons.prems(2) path_map_put(2) [OF Cons.prems(1) v] True by auto
  next
    case False
    then show ?thesis using Cons by auto
  qed
qed simp

lemma sorted_paths_facts:
  assumes "path_map m"
  shows "distinct (sorted_paths m)" and "set (sorted_paths m) = set (map snd m)"
proof -
  have "\<forall>x\<in>set m. fst x = route_key (snd x)" using assms by (auto simp: path_map_def dest: gm_in_set_get)
  then have "map fst m = map route_key (map snd m)" by simp
  moreover have "distinct (map fst m)" using assms by (simp add: path_map_def)
  ultimately have "distinct (map snd m)" by (metis distinct_map)
  then show "distinct (sorted_paths m)" unfolding sorted_paths_def by (metis mset_sort_slice mset_eq_imp_distinct_iff)
  show "set (sorted_paths m) = set (map snd m)" by (simp add: sorted_paths_def)
qed

lemma logical_paths_facts:
  assumes "\<forall>r\<in>set routes. valid_path (ro_Path r)" and "\<forall>p\<in>set paths. valid_path p"
  shows "distinct (logical_paths routes paths)" and "set (logical_paths routes paths) = ro_Path ` set routes \<union> set paths"
proof -
  let ?m = "fold (\<lambda>r. gm_put (route_key (ro_Path r)) (ro_Path r)) routes []"
  let ?m' = "fold (\<lambda>p m. if explicit_route routes p = None then gm_put (route_key p) p m else m) paths ?m"
  have m: "?m = fold (\<lambda>p m. if True then gm_put (route_key p) p m else m) (map ro_Path routes) []" by (simp add: fold_map o_def)
  have "path_map []" by (simp add: path_map_def)
  from path_map_puts [OF this, of "map ro_Path routes" "\<lambda>_. True"] assms(1)
  have ok: "path_map ?m" "set (map snd ?m) = ro_Path ` set routes" unfolding m by auto
  from path_map_puts [OF ok(1) assms(2), of "\<lambda>p. explicit_route routes p = None"]
  have ok': "path_map ?m'" and s: "set (map snd ?m') = ro_Path ` set routes \<union> {p \<in> set paths. explicit_route routes p = None}"
    unfolding ok(2) by auto
  have "p \<in> ro_Path ` set routes" if "explicit_route routes p \<noteq> None" for p
    using that by (auto simp: explicit_route_def dest: find_SomeD)
  then have "set (map snd ?m') = ro_Path ` set routes \<union> set paths" unfolding s by blast
  with sorted_paths_facts [OF ok'] show "distinct (logical_paths routes paths)" "set (logical_paths routes paths) = ro_Path ` set routes \<union> set paths"
    by (simp_all add: logical_paths_def)
qed

lemma device_paths_valid:
  assumes "validateStructure d = None"
  shows "\<forall>p\<in>set (property_paths d). valid_path p" and "\<forall>p\<in>set (command_paths d). valid_path p"
  using assms unfolding validateStructure_iff device_ok_def endpoint_ok_def capability_ok_def ids_ok_def
  by (auto simp: property_paths_def command_paths_def valid_path_def)

lemma in_device_paths:
  "path \<in> set (property_paths d) \<longleftrightarrow> (\<exists>e\<in>set (dev_Endpoints d). \<exists>c\<in>set (ep_Capabilities e). \<exists>p\<in>set (cap_Properties c).
     rp_EndpointID path = ep_ID e \<and> rp_CapabilityID path = cap_ID c \<and> rp_ItemID path = pd_ID (prop_Definition p))"
  "path \<in> set (command_paths d) \<longleftrightarrow> (\<exists>e\<in>set (dev_Endpoints d). \<exists>c\<in>set (ep_Capabilities e). \<exists>k\<in>set (cap_Commands c).
     rp_EndpointID path = ep_ID e \<and> rp_CapabilityID path = cap_ID c \<and> rp_ItemID path = cd_ID k)"
  by (cases path; auto simp: property_paths_def command_paths_def image_iff)+

lemma in_matching_capabilities:
  "(e, c) \<in> set (matching_capabilities d path) \<longleftrightarrow>
     e \<in> set (dev_Endpoints d) \<and> c \<in> set (ep_Capabilities e) \<and> ep_ID e = rp_EndpointID path \<and> cap_ID c = rp_CapabilityID path"
  by (auto simp: matching_capabilities_def)

lemma source_property_path:
  assumes "sourceProperty d path = Some x"
  shows "path \<in> set (property_paths d)"
proof -
  from find_SomeD [OF assms [unfolded sourceProperty_def]]
  obtain p e c where "(e, c) \<in> set (matching_capabilities d path)" "p \<in> set (cap_Properties c)" "pd_ID (prop_Definition p) = rp_ItemID path"
    by auto
  then show ?thesis unfolding in_device_paths in_matching_capabilities by metis
qed

lemma source_command_path:
  assumes "sourceCommand d path = Some k"
  shows "path \<in> set (command_paths d)"
proof -
  from find_SomeD [OF assms [unfolded sourceCommand_def]]
  obtain e c where "(e, c) \<in> set (matching_capabilities d path)" "k \<in> set (cap_Commands c)" "cd_ID k = rp_ItemID path" by auto
  then show ?thesis unfolding in_device_paths in_matching_capabilities by metis
qed

text \<open>A path that has a choice is a path of the logical device.\<close>

lemma choice_path:
  assumes look: "\<And>d path x. look d path = Some x \<Longrightarrow> path \<in> set (paths_of d)"
    and x: "x \<in> set (choices look present (route_candidates (explicit_route routes path) path bindings))"
  shows "path \<in> ro_Path ` set routes \<union> set (concat (map (paths_of \<circ> snd) present))"
proof (cases "explicit_route routes path")
  case (Some r)
  then show ?thesis by (auto simp: explicit_route_def dest: find_SomeD)
next
  case None
  obtain c source y where c: "c \<in> set (implicit_candidates path bindings)" "gm_get present (source_key (rc_Source c)) = Some source"
    "look source (rc_Path c) = Some y"
    using x by (auto simp: choices_set route_candidates_def None)
  from look [OF c(3)] implicit_candidates_facts(3) [OF c(1)] have "path \<in> set (paths_of source)" by simp
  with gm_get_in_set [OF c(2)] show ?thesis by force
qed

section \<open>The sources that are present\<close>

definition matching_source :: "logical_config \<Rightarrow> (string, device) gomap \<Rightarrow> logical_binding \<Rightarrow> device option" where
  "matching_source config sources b =
     (case gm_get sources (source_key (lb_Source b)) of Some d \<Rightarrow> if dev_Type d = lg_Type config then Some d else None | None \<Rightarrow> None)"

lemma compose_binding_cases:
  "matching_source config sources b = None \<Longrightarrow> compose_binding config sources b co = co\<lparr>co_unknown := co_unknown co + 1\<rparr>"
  "matching_source config sources b = Some d \<Longrightarrow>
     co_present (compose_binding config sources b co) = gm_put (source_key (lb_Source b)) d (co_present co) \<and>
     co_online (compose_binding config sources b co) = (if isOnline d then co_online co + 1 else co_online co) \<and>
     co_location (compose_binding config sources b co) \<noteq> None"
  by (auto simp: matching_source_def compose_binding_def isOnline_def split: option.splits if_splits)

lemma compose_fold:
  "(gm_get (co_present (fold (compose_binding config sources) bs co)) k = Some d \<longrightarrow>
      gm_get (co_present co) k = Some d \<or> (\<exists>b\<in>set bs. source_key (lb_Source b) = k \<and> matching_source config sources b = Some d)) \<and>
   (0 < co_online (fold (compose_binding config sources) bs co) \<longleftrightarrow>
      0 < co_online co \<or> (\<exists>b\<in>set bs. \<exists>d. matching_source config sources b = Some d \<and> isOnline d))"
proof (induction bs arbitrary: co)
  case (Cons b bs)
  show ?case
  proof (cases "matching_source config sources b")
    case None
    then show ?thesis using Cons.IH [of "compose_binding config sources b co"] by (auto simp: compose_binding_cases(1) [OF None])
  next
    case (Some x)
    then show ?thesis using Cons.IH [of "compose_binding config sources b co"] compose_binding_cases(2) [OF Some, of co]
      by (auto simp: gm_get_put split: if_splits)
  qed
qed simp

lemma location_known: "co_location (compose_bindings config sources) = None \<longleftrightarrow> co_present (compose_bindings config sources) = []"
proof -
  have "(co_location co = None \<longleftrightarrow> co_present co = []) \<Longrightarrow>
      co_location (fold (compose_binding config sources) bs co) = None \<longleftrightarrow> co_present (fold (compose_binding config sources) bs co) = []" for bs co
  proof (induction bs arbitrary: co)
    case (Cons b bs)
    have "co_location (compose_binding config sources b co) = None \<longleftrightarrow> co_present (compose_binding config sources b co) = []"
      using Cons.prems compose_binding_cases(2) [where co = co and b = b and config = config and sources = sources]
      by (cases "matching_source config sources b") (auto simp: compose_binding_cases(1))
    from Cons.IH [OF this] show ?case by simp
  qed simp
  then show ?thesis by (simp add: compose_bindings_def)
qed

lemma set_sortBindings [simp]: "set (sortBindings bs) = set bs" "mset (sortBindings bs) = mset bs"
  by (simp_all add: sortBindings_def)

lemma compose_present:
  "gm_get (co_present (compose_bindings config sources)) k = Some d \<Longrightarrow> \<exists>b\<in>set (lg_Bindings config). gm_get sources k = Some d \<and> matching_source config sources b = Some d"
  "0 < co_online (compose_bindings config sources) \<longleftrightarrow> (\<exists>b\<in>set (lg_Bindings config). \<exists>d. matching_source config sources b = Some d \<and> isOnline d)"
proof -
  let ?start = "\<lparr>co_present = [], co_online = 0, co_unknown = 0, co_lastUpdate = zero_time, co_location = None\<rparr>"
  note facts = compose_fold [of config sources "sortBindings (lg_Bindings config)" ?start, folded compose_bindings_def]
  show "0 < co_online (compose_bindings config sources) \<longleftrightarrow> (\<exists>b\<in>set (lg_Bindings config). \<exists>d. matching_source config sources b = Some d \<and> isOnline d)"
    using facts by simp
  assume "gm_get (co_present (compose_bindings config sources)) k = Some d"
  from conjunct1 [OF facts, rule_format, OF this]
  obtain b where "b \<in> set (lg_Bindings config)" "source_key (lb_Source b) = k" "matching_source config sources b = Some d" by auto
  then show "\<exists>b\<in>set (lg_Bindings config). gm_get sources k = Some d \<and> matching_source config sources b = Some d"
    by (auto simp: matching_source_def split: option.splits if_splits)
qed

section \<open>The composed snapshot\<close>

abbreviation present_sources :: "logical_config \<Rightarrow> (string, device) gomap \<Rightarrow> (string, device) gomap" where
  "present_sources config sources \<equiv> co_present (compose_bindings config sources)"

definition sources_valid :: "(string, device) gomap \<Rightarrow> bool" where
  "sources_valid sources \<longleftrightarrow> (\<forall>k d. gm_get sources k = Some d \<longrightarrow> validateStructure d = None)"

lemma paths_of_config:
  assumes config: "config_ok config" and sources: "sources_valid sources"
    and ok: "gm_ok (present_sources config sources)"
  shows "distinct (logicalPropertyPaths config (present_sources config sources))"
    and "distinct (logicalCommandPaths config (present_sources config sources))"
    and "shown_property config (present_sources config sources) bindings path \<noteq> None \<Longrightarrow> path \<in> set (logicalPropertyPaths config (present_sources config sources))"
    and "shown_command config (present_sources config sources) bindings path \<noteq> None \<Longrightarrow> path \<in> set (logicalCommandPaths config (present_sources config sources))"
proof -
  let ?p = "present_sources config sources"
  have routes: "\<forall>r\<in>set (lg_PropertyRoutes config). valid_path (ro_Path r)" "\<forall>r\<in>set (lg_CommandRoutes config). valid_path (ro_Path r)"
    using config by (simp_all add: config_ok_def routes_ok_def)
  have "validateStructure d = None" if "(k, d) \<in> set ?p" for k d
    using compose_present(1) [OF gm_in_set_get [OF ok that]] sources unfolding sources_valid_def by blast
  then have valid: "\<forall>x\<in>set (concat (map (property_paths \<circ> snd) ?p)). valid_path x" "\<forall>x\<in>set (concat (map (command_paths \<circ> snd) ?p)). valid_path x"
    using device_paths_valid by fastforce+
  note facts = logical_paths_facts [OF routes(1) valid(1)] logical_paths_facts [OF routes(2) valid(2)]
  show "distinct (logicalPropertyPaths config ?p)" "distinct (logicalCommandPaths config ?p)"
    using facts(1,3) by (simp_all add: logicalPropertyPaths_def logicalCommandPaths_def)
  show "path \<in> set (logicalPropertyPaths config ?p)" if "shown_property config ?p bindings path \<noteq> None"
  proof -
    from that have "propertyChoices config path ?p bindings \<noteq> []" by (simp add: shown_property_def select_choice_None)
    then obtain x where "x \<in> set (choices sourceProperty ?p (route_candidates (explicit_route (lg_PropertyRoutes config) path) path bindings))"
      by (metis propertyChoices_def propertyCandidates_def explicitPropertyRoute_def list.set_intros(1) neq_Nil_conv)
    from choice_path [OF source_property_path this] show ?thesis unfolding logicalPropertyPaths_def facts(2) .
  qed
  show "path \<in> set (logicalCommandPaths config ?p)" if "shown_command config ?p bindings path \<noteq> None"
  proof -
    from that have "commandChoices config path ?p bindings \<noteq> []" by (simp add: shown_command_def select_choice_None)
    then obtain x where "x \<in> set (choices sourceCommand ?p (route_candidates (explicit_route (lg_CommandRoutes config) path) path bindings))"
      by (metis commandChoices_def commandCandidates_def explicitCommandRoute_def list.set_intros(1) neq_Nil_conv)
    from choice_path [OF source_command_path this] show ?thesis unfolding logicalCommandPaths_def facts(4) .
  qed
qed

lemma present_ok: "gm_ok (present_sources config sources)"
proof -
  have "gm_ok (co_present co) \<Longrightarrow> gm_ok (co_present (fold (compose_binding config sources) bs co))" for bs co
  proof (induction bs arbitrary: co)
    case (Cons b bs)
    have "gm_ok (co_present (compose_binding config sources b co))"
      using Cons.prems by (cases "matching_source config sources b") (auto simp: compose_binding_cases dest: compose_binding_cases(2) [where co = co])
    then show ?case using Cons.IH by simp
  qed simp
  then show ?thesis by (simp add: compose_bindings_def)
qed

lemma compose_some:
  assumes "composeLogicalSnapshot now config sources = Some (d, exs)"
  obtains location st where "co_location (compose_bindings config sources) = Some location"
    and "st = fold (place_command config (present_sources config sources) (sortBindings (lg_Bindings config))) (logicalCommandPaths config (present_sources config sources))
       (fold (place_property config (present_sources config sources) (sortBindings (lg_Bindings config))) (logicalPropertyPaths config (present_sources config sources)) ([], []))"
    and "d = (logical_header now config (compose_bindings config sources) location)\<lparr>dev_Endpoints := fst st\<rparr>"
    and "exs = sort_slice explanation_before (snd st)" and "validateStructure d = None"
  using assms by (auto simp: composeLogicalSnapshot_def Let_def split: option.splits if_splits)

lemma header_facts [simp]:
  "dev_ID (logical_header now config co location) = lg_ID config" "dev_ProviderID (logical_header now config co location) = LogicalProviderID"
  "dev_Type (logical_header now config co location) = lg_Type config" "dev_Sequence (logical_header now config co location) = 0"
  "isOnline (logical_header now config co location) \<longleftrightarrow> 0 < co_online co"
  by (simp_all add: logical_header_def isOnline_def effectiveAvailability_def Let_def)

lemma isOnline_endpoints [simp]: "isOnline (d\<lparr>dev_Endpoints := es\<rparr>) = isOnline d"
  by (simp add: isOnline_def effectiveAvailability_def)

text \<open>C17. The snapshot of a logical device holds exactly what its sources offer: it is a valid device of the configured type,
  it is online exactly when one of its bound sources is, and it shows a property or a command on a path exactly when the
  choice for that path yields it, under the identifiers of the path and nothing else.\<close>

theorem logical_snapshot_exact:
  assumes "config_ok config" and "sources_valid sources"
    and "composeLogicalSnapshot now config sources = Some (d, exs)"
  shows "validateStructure d = None \<and> dev_ID d = lg_ID config \<and> dev_Type d = lg_Type config \<and>
    (isOnline d \<longleftrightarrow> (\<exists>b s. b \<in> set (lg_Bindings config) \<and> matching_source config sources b = Some s \<and> isOnline s)) \<and>
    ((E, C, p) \<in> set (snapshot_properties d) \<longleftrightarrow>
      shown_property config (present_sources config sources) (sortBindings (lg_Bindings config)) (rpath E C (pd_ID (prop_Definition p))) = Some p) \<and>
    (tree_item cap_Commands (dev_Endpoints d) E C k \<longleftrightarrow>
      shown_command config (present_sources config sources) (sortBindings (lg_Bindings config)) (rpath E C (cd_ID k)) = Some k)"
proof -
  let ?p = "present_sources config sources" and ?b = "sortBindings (lg_Bindings config)"
  obtain location st where st: "st = fold (place_command config ?p ?b) (logicalCommandPaths config ?p)
       (fold (place_property config ?p ?b) (logicalPropertyPaths config ?p) ([], []))"
    and d: "d = (logical_header now config (compose_bindings config sources) location)\<lparr>dev_Endpoints := fst st\<rparr>" "validateStructure d = None"
    using compose_some [OF assms(3)] by metis
  note paths = paths_of_config [where sources = sources, OF assms(1,2) present_ok]
  let ?st = "fold (place_property config ?p ?b) (logicalPropertyPaths config ?p) ([], [])"
  have props: "(tree_item cap_Properties (fst ?st) E C q \<longleftrightarrow> rpath E C (pd_ID (prop_Definition q)) \<in> set (logicalPropertyPaths config ?p) \<and>
        shown_property config ?p ?b (rpath E C (pd_ID (prop_Definition q))) = Some q) \<and>
      \<not> tree_item cap_Commands (fst ?st) E C c \<and> tree_ok (fst ?st)" for E C q c
    using place_properties_tree [OF paths(1), of "([], [])" config ?p ?b E C q c] by simp
  have cmds: "(tree_item cap_Commands (fst st) E C c \<longleftrightarrow> rpath E C (cd_ID c) \<in> set (logicalCommandPaths config ?p) \<and>
        shown_command config ?p ?b (rpath E C (cd_ID c)) = Some c) \<and>
      (tree_item cap_Properties (fst st) E C q \<longleftrightarrow> tree_item cap_Properties (fst ?st) E C q)" for E C q c
    using place_commands_tree [OF paths(2), of ?st config ?p ?b E C c q] props unfolding st by blast
  have "(E, C, p) \<in> set (snapshot_properties d) \<longleftrightarrow> shown_property config ?p ?b (rpath E C (pd_ID (prop_Definition p))) = Some p"
    unfolding tree_item_properties using cmds props paths(3) [of ?b "rpath E C (pd_ID (prop_Definition p))"] by (auto simp: d(1))
  moreover have "tree_item cap_Commands (dev_Endpoints d) E C k \<longleftrightarrow> shown_command config ?p ?b (rpath E C (cd_ID k)) = Some k"
    using cmds paths(4) [of ?b "rpath E C (cd_ID k)"] by (auto simp: d(1))
  moreover have "isOnline d \<longleftrightarrow> (\<exists>b s. b \<in> set (lg_Bindings config) \<and> matching_source config sources b = Some s \<and> isOnline s)"
    unfolding d(1) using compose_present(2) [of config sources] by auto
  ultimately show ?thesis using d by simp
qed

section \<open>Explanations\<close>

lemma find_selected:
  assumes "x \<in> set items" and "distinct (map (\<lambda>y. (rc_Source (ch_candidate y), rc_Path (ch_candidate y))) items)"
  defines "cs \<equiv> map (selection_of x) items"
  shows "length (filter se_Selected cs) = 1" and "cs ! indexSelection cs = selection_of x x" and "selection_of x x \<in> set cs"
proof -
  obtain a b where ab: "items = a @ x # b" using assms(1) by (metis split_list)
  let ?k = "\<lambda>y. (rc_Source (ch_candidate y), rc_Path (ch_candidate y))"
  have "distinct (map ?k a @ ?k x # map ?k b)" using assms(2) by (simp add: ab)
  then have "?k x \<notin> set (map ?k (a @ b))" by auto
  moreover have "?k y \<in> set (map ?k (a @ b))" if "y \<in> set a \<union> set b" for y unfolding set_map using that by (intro imageI) simp
  ultimately have "?k y \<noteq> ?k x" if "y \<in> set a \<union> set b" for y
  proof -
    assume no: "?k x \<notin> set (map ?k (a @ b))" and yes: "\<And>y. y \<in> set a \<union> set b \<Longrightarrow> ?k y \<in> set (map ?k (a @ b))"
    show "?k y \<noteq> ?k x"
    proof
      assume "?k y = ?k x"
      with yes [OF that] show False using no by simp
    qed
  qed
  then have other: "\<not> se_Selected (selection_of x y)" if "y \<in> set a \<union> set b" for y
    using that by (simp add: selection_of_def)
  have self: "se_Selected (selection_of x x)" by (simp add: selection_of_def)
  have cs: "cs = map (selection_of x) a @ selection_of x x # map (selection_of x) b" by (simp add: cs_def ab)
  have no: "filter se_Selected (map (selection_of x) ys) = []" if "set ys \<subseteq> set a \<union> set b" for ys
    using that other by (auto simp: filter_empty_conv)
  show "length (filter se_Selected cs) = 1" unfolding cs using no [of a] no [of b] self by simp
  have "find (\<lambda>i. se_Selected (cs ! i)) [0..<length cs] = Some (length a)"
  proof (rule find_unique)
    show "length a \<in> set [0..<length cs]" "se_Selected (cs ! length a)" using self by (simp_all add: cs nth_append)
    fix i assume i: "i \<in> set [0..<length cs]" and sel: "se_Selected (cs ! i)"
    show "i = length a"
    proof (cases i "length a" rule: linorder_cases)
      case less
      with other [of "a ! i"] sel show ?thesis by (simp add: cs nth_append)
    next
      case greater
      define j where "j = i - Suc (length a)"
      then have j: "i = Suc (length a + j)" using greater by simp
      then have "j < length b" using i by (auto simp: cs)
      with other [of "b ! j"] sel show ?thesis by (simp add: cs nth_append j)
    qed
  qed
  then show "cs ! indexSelection cs = selection_of x x" by (simp add: indexSelection_def cs nth_append)
  show "selection_of x x \<in> set cs" by (simp add: cs)
qed

lemma candidates_distinct:
  assumes "config_ok config" and "route = explicit_route (lg_PropertyRoutes config) path \<or> route = explicit_route (lg_CommandRoutes config) path"
  shows "distinct (map (\<lambda>c. (rc_Source c, rc_Path c)) (route_candidates route path (sortBindings (lg_Bindings config))))"
proof (cases route)
  case None
  let ?cs = "implicit_candidates path (sortBindings (lg_Bindings config))"
  have "mset (map lb_Source (sortBindings (lg_Bindings config))) = mset (map lb_Source (lg_Bindings config))" by simp
  moreover have "distinct (map lb_Source (lg_Bindings config))" using assms(1) by (simp add: config_ok_def)
  ultimately have "distinct (map lb_Source (sortBindings (lg_Bindings config)))" by (metis mset_eq_imp_distinct_iff)
  then have "distinct (map rc_Source ?cs)" by (simp only: implicit_candidates_facts(2))
  then show ?thesis unfolding None route_candidates_def by (auto simp: distinct_map inj_on_def)
next
  case (Some r)
  then have "r \<in> set (lg_PropertyRoutes config) \<union> set (lg_CommandRoutes config)"
    using assms(2) find_SomeD [of "\<lambda>r. ro_Path r = path" _ r] unfolding explicit_route_def by (metis UnI1 UnI2)
  then have "distinct (map (\<lambda>c. (rc_Source c, rc_Path c)) (ro_Candidates r))" using assms(1) by (auto simp: config_ok_def routes_ok_def)
  moreover have "mset (map (\<lambda>c. (rc_Source c, rc_Path c)) (route_candidates route path (sortBindings (lg_Bindings config)))) =
      mset (map (\<lambda>c. (rc_Source c, rc_Path c)) (ro_Candidates r))" by (simp add: Some route_candidates_def)
  ultimately show ?thesis by (metis mset_eq_imp_distinct_iff)
qed

text \<open>An explanation is about one path: at least two choices, one selected, and the reason is right.\<close>

definition truthful :: "string \<Rightarrow> route_explanation \<Rightarrow> bool" where
  "truthful i ex \<longleftrightarrow> ex_LogicalDeviceID ex = i \<and> 2 \<le> length (ex_Candidates ex) \<and> length (filter se_Selected (ex_Candidates ex)) = 1 \<and>
     ex_Selected ex \<in> set (ex_Candidates ex) \<and> se_Selected (ex_Selected ex) \<and>
     (ex_Reason ex = ''all_sources_unavailable'' \<longleftrightarrow> \<not> list_ex se_Available (ex_Candidates ex)) \<and>
     (ex_Reason ex = ''safe_fallback_provider_unavailable'' \<longrightarrow> \<not> se_Available (hd (ex_Candidates ex)) \<and> se_Available (ex_Selected ex)) \<and>
     (ex_Reason ex = ''provider_priority'' \<longrightarrow> se_Source (hd (ex_Candidates ex)) = se_Source (ex_Selected ex) \<and> se_Available (ex_Selected ex))"

lemma explain_truthful:
  assumes sel: "select_choice items = Some x" and len: "1 < length items"
    and dist: "distinct (map (\<lambda>y. (rc_Source (ch_candidate y), rc_Path (ch_candidate y))) items)"
  shows "truthful i (explain kind i path items x)"
proof -
  have x: "x \<in> set items" "ch_available x \<longleftrightarrow> (\<exists>y\<in>set items. ch_available y)"
    using select_choice_best [of "\<lambda>_. 0 :: nat" items x, OF _ sel] by (auto simp: map_replicate_const sorted_replicate)
  note cs = find_selected [OF x(1) dist]
  obtain y ys where items: "items = y # ys" using len by (cases items) auto
  have first: "\<not> ch_available y" if "ch_available x" "y \<noteq> x"
    using sel that by (auto simp: select_choice_def items split: if_splits)
  let ?ex = "explain kind i path items x"
  have parts: "ex_LogicalDeviceID ?ex = i" "ex_Candidates ?ex = map (selection_of x) items" "ex_Selected ?ex = selection_of x x"
    using cs(2) by (simp_all add: explain_def Let_def)
  have reason: "ex_Reason ?ex = (if \<not> ch_available x then ''all_sources_unavailable''
            else if rc_Source (ch_candidate y) \<noteq> rc_Source (ch_candidate x) then ''safe_fallback_provider_unavailable''
            else ''provider_priority'')" by (simp add: explain_def Let_def items)
  have self: "se_Selected (selection_of x x)" "se_Available (selection_of x z) = ch_available z"
    "se_Source (selection_of x z) = rc_Source (ch_candidate z)" for z by (simp_all add: selection_of_def)
  have some: "list_ex se_Available (map (selection_of x) items) \<longleftrightarrow> (\<exists>y\<in>set items. ch_available y)" by (simp add: list_ex_iff self)
  have len2: "2 \<le> length (map (selection_of x) items)" using len by simp
  have "hd (map (selection_of x) items) = selection_of x y" by (simp add: items)
  with cs(1,3) len2 first show ?thesis unfolding truthful_def parts reason some x(2) [symmetric] by (auto simp: self)
qed

lemma place_property_explains:
  "set (snd (place_property config present bindings path st)) \<subseteq> set (snd st) \<union>
     {ex. \<exists>x. select_choice (propertyChoices config path present bindings) = Some x \<and> 1 < length (propertyChoices config path present bindings) \<and>
        ex = explainProperty (lg_ID config) path (propertyChoices config path present bindings) x}"
  by (cases "select_choice (propertyChoices config path present bindings)") (auto simp: place_property_def Let_def case_prod_beta)

lemma place_command_explains:
  "set (snd (place_command config present bindings path st)) \<subseteq> set (snd st) \<union>
     {ex. \<exists>x. select_choice (commandChoices config path present bindings) = Some x \<and> 1 < length (commandChoices config path present bindings) \<and>
        ex = explainCommand (lg_ID config) path (commandChoices config path present bindings) x}"
  by (cases "select_choice (commandChoices config path present bindings)") (auto simp: place_command_def Let_def)

lemma fold_explains:
  "(\<And>path st. set (snd (place path st)) \<subseteq> set (snd st) \<union> X) \<Longrightarrow> set (snd (fold place paths st)) \<subseteq> set (snd st) \<union> X"
proof (induction paths arbitrary: st)
  case (Cons path paths)
  from Cons.IH [OF Cons.prems, of "place path st"] Cons.prems [of path st] show ?case by auto
qed simp

lemma explanations_true:
  assumes "config_ok config" and "composeLogicalSnapshot now config sources = Some (d, exs)"
  shows "list_all (truthful (lg_ID config)) exs"
proof -
  let ?p = "present_sources config sources" and ?b = "sortBindings (lg_Bindings config)"
  let ?X = "{ex. truthful (lg_ID config) ex}"
  let ?k = "\<lambda>c. (rc_Source c, rc_Path c)"
  have "distinct (map (?k \<circ> ch_candidate) (propertyChoices config path ?p ?b))" "distinct (map (?k \<circ> ch_candidate) (commandChoices config path ?p ?b))" for path
    unfolding propertyChoices_def propertyCandidates_def explicitPropertyRoute_def commandChoices_def commandCandidates_def explicitCommandRoute_def
    by (rule choices_distinct, rule candidates_distinct [OF assms(1)], simp)+
  then have dist: "distinct (map (\<lambda>y. ?k (ch_candidate y)) (propertyChoices config path ?p ?b))"
    "distinct (map (\<lambda>y. ?k (ch_candidate y)) (commandChoices config path ?p ?b))" for path by (simp_all add: o_def)
  have props: "set (snd (place_property config ?p ?b path st)) \<subseteq> set (snd st) \<union> ?X" for path st
    using place_property_explains [of config ?p ?b path st] explain_truthful [OF _ _ dist(1)] unfolding explainProperty_def by blast
  have cmds: "set (snd (place_command config ?p ?b path st)) \<subseteq> set (snd st) \<union> ?X" for path st
    using place_command_explains [of config ?p ?b path st] explain_truthful [OF _ _ dist(2)] unfolding explainCommand_def by blast
  obtain st where st: "st = fold (place_command config ?p ?b) (logicalCommandPaths config ?p)
       (fold (place_property config ?p ?b) (logicalPropertyPaths config ?p) ([], []))" "exs = sort_slice explanation_before (snd st)"
    using compose_some [OF assms(2)] by metis
  have "set (snd st) \<subseteq> ?X" unfolding st(1)
    using fold_explains [of "place_command config ?p ?b", OF cmds] fold_explains [of "place_property config ?p ?b", OF props] by fastforce
  then show ?thesis by (auto simp: st(2) list_all_iff)
qed

text \<open>C32. The explanations of a logical device are truthful: each is about at least two choices, exactly one of them is marked
  selected and it is the one reported; the reason is that all sources are unavailable exactly when none is available, and a
  fallback is only reported when the preferred source is unavailable and the selected one is not.\<close>

theorem explanations_truthful:
  assumes "config_ok config" and "composeLogicalSnapshot now config sources = Some (d, exs)"
  shows "list_all (truthful (lg_ID config)) exs"
  by (rule explanations_true [OF assms])

section \<open>Witnesses\<close>

text \<open>Two lamps of different providers; the preferred one is offline.\<close>

definition pair_config :: logical_config where
  "pair_config = \<lparr>lg_ID = ''pair'', lg_Name = ''Pair'', lg_Type = TypeSwitch,
     lg_Bindings = [\<lparr>lb_Source = \<lparr>src_ProviderID = ''tuya'', src_DeviceID = ''lamp''\<rparr>, lb_Priority = 1\<rparr>,
       \<lparr>lb_Source = \<lparr>src_ProviderID = ''mqtt'', src_DeviceID = ''lamp''\<rparr>, lb_Priority = 0\<rparr>],
     lg_PropertyRoutes = [], lg_CommandRoutes = []\<rparr>"

definition pair_sources :: "(string, device) gomap" where
  "pair_sources = [(source_key \<lparr>src_ProviderID = ''tuya'', src_DeviceID = ''lamp''\<rparr>, (switch_device ParameterRequired)\<lparr>dev_ProviderID := ''tuya''\<rparr>),
     (source_key \<lparr>src_ProviderID = ''mqtt'', src_DeviceID = ''lamp''\<rparr>, (switch_device ParameterRequired)\<lparr>dev_Online := False\<rparr>)]"

lemma pair_config_ok: "config_ok pair_config"
proof -
  have "config_validate pair_config = None" by code_simp
  then show ?thesis by (simp add: config_validate_iff)
qed

lemma pair_sources_valid: "sources_valid pair_sources"
proof -
  have "validateStructure ((switch_device ParameterRequired)\<lparr>dev_ProviderID := ''tuya''\<rparr>) = None" "validateStructure ((switch_device ParameterRequired)\<lparr>dev_Online := False\<rparr>) = None"
    by code_simp+
  then show ?thesis by (auto simp: sources_valid_def pair_sources_def split: if_splits)
qed

lemma pair_composed:
  "\<exists>d exs. composeLogicalSnapshot 5 pair_config pair_sources = Some (d, exs) \<and>
     map (\<lambda>ex. (ex_Reason ex, src_ProviderID (se_Source (ex_Selected ex)))) exs = [(''safe_fallback_provider_unavailable'', ''tuya'')]"
proof -
  have "map_option (\<lambda>(d, exs). map (\<lambda>ex. (ex_Reason ex, src_ProviderID (se_Source (ex_Selected ex)))) exs)
      (composeLogicalSnapshot 5 pair_config pair_sources) = Some [(''safe_fallback_provider_unavailable'', ''tuya'')]" by code_simp
  then show ?thesis by auto
qed

theorem logical_snapshot_exact_witness:
  "\<exists>d exs. composeLogicalSnapshot 5 pair_config pair_sources = Some (d, exs) \<and> validateStructure d = None \<and> isOnline d \<and> dev_ID d = ''pair''"
proof -
  obtain d exs where c: "composeLogicalSnapshot 5 pair_config pair_sources = Some (d, exs)" using pair_composed by metis
  note x = logical_snapshot_exact [OF pair_config_ok pair_sources_valid c]
  let ?b = "\<lparr>lb_Source = \<lparr>src_ProviderID = ''tuya'', src_DeviceID = ''lamp''\<rparr>, lb_Priority = 1\<rparr>"
  have "matching_source pair_config pair_sources ?b = Some ((switch_device ParameterRequired)\<lparr>dev_ProviderID := ''tuya''\<rparr>)"
    "isOnline ((switch_device ParameterRequired)\<lparr>dev_ProviderID := ''tuya''\<rparr>)" by code_simp+
  moreover have "?b \<in> set (lg_Bindings pair_config)" by (simp add: pair_config_def)
  ultimately have "isOnline d" using x by blast
  moreover have "dev_ID d = ''pair''" using x by (simp add: pair_config_def)
  ultimately show ?thesis using c x by blast
qed

theorem explanations_truthful_witness:
  "\<exists>d ex. composeLogicalSnapshot 5 pair_config pair_sources = Some (d, [ex]) \<and> truthful ''pair'' ex \<and> ex_Reason ex = ''safe_fallback_provider_unavailable''"
proof -
  obtain d exs where c: "composeLogicalSnapshot 5 pair_config pair_sources = Some (d, exs)"
    "map (\<lambda>ex. (ex_Reason ex, src_ProviderID (se_Source (ex_Selected ex)))) exs = [(''safe_fallback_provider_unavailable'', ''tuya'')]"
    using pair_composed by metis
  then obtain ex where ex: "exs = [ex]" "ex_Reason ex = ''safe_fallback_provider_unavailable''" by auto
  with explanations_truthful [OF pair_config_ok c(1)] have "truthful ''pair'' ex" by (simp add: pair_config_def)
  with c(1) ex show ?thesis by blast
qed

end
