(* ===== verification/Spec2Isabelle.thy ===== *)
theory Spec2Isabelle
  imports Go_Prelude Float64 Strconv Event_Dispatcher State_Store Device_Model Command_Tracker
    Mapping_Profile Mapping_Engine Model_Table Model_Contract Mapping_Binding
    Media_Worker Media_Lifecycle Command_Coordinator
    Device_Service Device_Commands Service_System Device_Preferences Snapshot_Mapping
    Logical_Device
begin

text \<open>
  HomeLoom, a home automation core written in Go (\<open>src/backend\<close>). Providers report the state of
  devices; the core keeps one typed model of every device, selects among reports, tracks the
  commands that are sent, maps values between the vocabularies of providers, model and consumers,
  and keeps the media streams of cameras running. This development models that core, the packages
  that decide and keep state, and leaves the adapters to networks, databases and child processes
  as arguments.

  \<^bold>\<open>How Go is read.\<close> A Go string is a \<open>string\<close>; a time is an \<open>int\<close> of nanoseconds and the zero
  time a constant; a \<open>uint64\<close> is a \<open>64 word\<close>; a map is an association list with distinct keys
  (\<open>gm_get\<close>, \<open>gm_put\<close>, \<open>gm_del\<close>, \<open>gm_ok\<close> in \<open>Go_Prelude\<close>), and where the order of a range over
  a map can be observed it is an argument; a string type with constants is a datatype with a
  constructor \<open>...Other\<close> for the other strings; a \<open>float64\<close> is an IEEE value with correctly rounded
  operations (\<open>Float64\<close>); a pointer payload is an \<open>option\<close>; errors are values of a datatype per
  package. A method under its mutex is one function of the state. Clock readings, random
  identifiers, hashes and the answers of the outside world are arguments of the functions.

  \<^bold>\<open>Theories and sources\<close> (paths below \<open>src/backend/internal\<close>)

  \<^item> \<open>Go_Prelude\<close>, \<open>Float64\<close>, \<open>Strconv\<close>: maps and their sweep loop, reachable states of a step
    relation, stable sorting, binary floating point with rounding, number formatting and parsing.
    The locales \<open>finite_map\<close>, \<open>settling_sweep\<close>,
    \<open>invariant_system\<close> and \<open>keyed_fifo\<close> are the interfaces the components are instances of.
  \<^item> \<open>Event_Dispatcher\<close>: \<open>eventbus\<close>. A shard with its priority queues, coalescing, capacity and
    close; the dispatcher that hashes a device to a shard. Order per device, bounds, draining.
  \<^item> \<open>State_Store\<close>: \<open>domain/state\<close>, \<open>state\<close>. The rule that selects among reports, optimistic
    values, expiry, unavailability, checkpoints. Consistency of every reachable store, the newest
    sequence wins, reports beat rollbacks, a checkpoint restores.
  \<^item> \<open>Device_Model\<close>: \<open>domain/device\<close>, \<open>registry\<close>. Values, definitions, validation, the tree of a
    device, availability, the registry. Validation decides the declarative well-formedness.
  \<^item> \<open>Command_Tracker\<close>: \<open>domain/command\<close>, \<open>command\<close>. Life cycle of commands, one pending command per
    property, idempotent actions, expiry, bounded history. Invariant of every reachable tracker.
  \<^item> \<open>Mapping_Profile\<close>, \<open>Mapping_Engine\<close>: \<open>mapping/profile.go\<close>, \<open>mapping/engine.go\<close>. Profiles, their
    validation, and the engine that runs transforms forward and in reverse. Results have the
    declared types, lossless transforms and commands make round trips.
  \<^item> \<open>Model_Table\<close>, \<open>Model_Contract\<close>: the contracts of the unified model as a table and the functions
    that validate a projection against them; \<open>Mapping_Binding\<close>: bindings, custom properties, enum
    overrides, identifiers and generated unit profiles.
  \<^item> \<open>Media_Worker\<close>, \<open>Media_Lifecycle\<close>: \<open>mediaruntime/worker\<close>, \<open>mediaruntime/adapter\<close>,
    \<open>mediaruntime/runtime.go\<close>. The manager of desired streams over any adapter that keeps the
    locale \<open>media_adapter\<close>, interpreted on the adapter in memory and on the lifecycle adapter,
    for every behaviour of the producers. Desired and running streams agree, no session is lost.
  \<^item> \<open>Command_Coordinator\<close>: \<open>application/command_coordinator.go\<close>. The queue per device as a system of
    concurrent calls. Mutual exclusion, progress, and a bound on every schedule.
  \<^item> \<open>Device_Service\<close>, \<open>Device_Commands\<close>, \<open>Service_System\<close>: \<open>application/device_service.go\<close>. The
    service over registry, store and tracker: snapshots, reads, availability, enabling, the stale
    scanner, subscriptions; property writes and commands cut at their waits; and all of them as
    one system of concurrent calls. Every interleaving keeps the service consistent, no operation
    is left open, a failed write is rolled back, a newer write replaces an older one.
  \<^item> \<open>Device_Preferences\<close>: the same file, names and places of devices over what providers report. The
    preferences in force decide what is shown and leave no residue; renaming and resetting is a
    round trip.
  \<^item> \<open>Snapshot_Mapping\<close>: the same file, the projection of a snapshot into the unified model by any
    property mapper. The result holds exactly the winning projections, commands survive with their
    capability, and the spelling of enums is aligned without inventing values.
  \<^item> \<open>Logical_Device\<close>: \<open>domain/logicaldevice\<close> and \<open>runtime/providermanager/logical.go\<close>. Devices that
    several providers serve: their configuration, the choice among the candidates of a route, the
    composed snapshot with its explanations. Validation decides well-formedness, the choice is the
    best available source, the snapshot shows exactly what the choices yield, explanations are true.

  \<^bold>\<open>Bounds and fuel.\<close> No loop of the model runs on fuel: every loop is structural or has a measure
  (\<open>trim_commands\<close>, the shards, the parsers), and the retry loop of the coordinator is part of a
  step relation with the measure \<open>work\<close>. Lists and strings have any length; capacities are those of
  the code. Integers are mathematical where the source cannot reach the bounds of the type in
  practice (counters of references, lengths), and words where wrap-around or the range matters
  (sequence numbers, versions, generations, the conversions of the engine).

  \<^bold>\<open>Not modelled.\<close> The providers and targets (network protocols, vendor clouds, HomeKit and Matter
  libraries), persistence, the HTTP interface, the camera kernel, AI automation, configuration and
  logging: input and output around third-party systems. Within the modelled packages: cancellation
  through contexts other than in the coordinator, the text of error messages (errors carry the
  data the text is formatted from), JSON encoding, and the goroutines that drain subscription
  queues. Unicode beyond ASCII in case conversion is not modelled where the code only handles ASCII
  identifiers.
\<close>

end
